(* ===== verification/Prelude.thy ===== *)
theory Prelude
  imports Main "HOL-Library.Char_ord" "HOL-Library.List_Lexorder" "HOL-Library.Word"
    "HOL-Library.Sublist"
begin

text \<open>
  Shared vocabulary of the development.

  \<^item> Go's \<^verbatim>\<open>[]byte\<close> and \<^verbatim>\<open>string\<close> are both byte sequences; they are \<open>string\<close> here, a list
    of 8-bit \<open>char\<close>s.  The order of \<open>HOL-Library.List_Lexorder\<close> over \<open>HOL-Library.Char_ord\<close> is the
    bytewise lexicographic order of \<^verbatim>\<open>bytes.Compare\<close>, of \<^verbatim>\<open>sort.Strings\<close> and of Go's \<^verbatim>\<open><\<close> on strings.
  \<^item> A fallible pure function returns \<open>err + 'a\<close>; a stateful one is a state transformer
    \<open>('s, 'a) M\<close> that returns the state on the error path too, as a Go method that fails after
    having changed a field does.
  \<^item> The error values are the sentinels of the source, one datatype per file that declares
    them, with \<^verbatim>\<open>errors.Join\<close>, \<^verbatim>\<open>fmt.Errorf("%w")\<close> and \<^verbatim>\<open>errors.Is\<close>.
  \<^item> Generic list and option lemmas used by several components.
\<close>

section \<open>Types\<close>

type_synonym bytes = string
type_synonym u32 = "32 word"
type_synonym u64 = "64 word"

named_theorems ev \<open>evaluation of the model on concrete input\<close>

section \<open>Error values\<close>

text \<open>\<^verbatim>\<open>internal/lifecycle/model.go\<close>\<close>

datatype model_err =
    ErrNamespaceEmpty | ErrNamespaceTooLarge | ErrLogicalKeyEmpty | ErrLogicalKeyTooLarge
  | ErrAuthorityEmpty | ErrAuthorityTooLarge | ErrAuthorityNotPrintable | ErrInvalidState
  | ErrInvalidBlobKey | ErrZeroVersion | ErrRecordTooLarge | ErrConflict
  | ErrDuplicateLogicalKey | ErrNilApply

text \<open>\<^verbatim>\<open>internal/lifecycle/journal.go\<close>\<close>

datatype journal_err =
    ErrJournalClosed | ErrJournalCorrupt | ErrJournalChecksum | ErrJournalVersionOrder
  | ErrJournalLimit | ErrCheckpointCorrupt | ErrCheckpointChecksum | ErrCheckpointTooLarge
  | ErrCompactionUnsafe | ErrCompactionNoProgress | ErrCompactionWatermark
  | ErrCompactionBaseMismatch | ErrPeerBehindWatermark | ErrSnapshotStale | ErrNilCheckpointPath

text \<open>\<^verbatim>\<open>internal/lifecycle/authority.go\<close>\<close>

datatype authority_err =
    ErrNilAuthorityPath | ErrAuthorityCorrupt | ErrAuthorityChecksum | ErrAuthorityLimit
  | ErrAuthorityMismatch | ErrAuthorityVersion | ErrAuthorityExhausted

text \<open>\<^verbatim>\<open>internal/lifecycle/membership.go\<close>\<close>

datatype membership_err =
    ErrNilMembershipPath | ErrNilMembershipBook | ErrMembershipNotConfigured
  | ErrMembershipCorrupt | ErrMembershipChecksum | ErrMembershipLimit | ErrMembershipPeerInvalid
  | ErrMembershipDuplicate | ErrMembershipWatermarkInvalid | ErrMembershipBehind

text \<open>\<^verbatim>\<open>internal/lifecycle/watermark.go\<close>\<close>

datatype watermark_err =
    ErrNilWatermarkPath | ErrNilWatermarkBook | ErrWatermarkCorrupt | ErrWatermarkChecksum
  | ErrWatermarkLimit | ErrWatermarkPeerInvalid | ErrWatermarkRegression | ErrNilRepairWatermarks
  | ErrRepairAcknowledgement

text \<open>\<^verbatim>\<open>internal/lifecycle/repair.go\<close> and \<^verbatim>\<open>internal/lifecycle/session.go\<close>\<close>

datatype repair_err =
    ErrNilRepairJournal | ErrRepairLimit | ErrRepairFrameTooLarge | ErrRepairMalformed
  | ErrRepairMessageType | ErrRepairOrder | ErrRepairWatermarkMismatch
  | ErrRepairSnapshotRequired | ErrRepairSnapshotWatermark
  | ErrNilRepairSessionPeer | ErrNilRepairSessionCoordinator | ErrNilRepairSessionApplier

text \<open>\<^verbatim>\<open>internal/lifecycle/transport.go\<close> and \<^verbatim>\<open>internal/lifecycle/apply.go\<close>\<close>

datatype transport_err =
    ErrLifecyclePayloadTooLarge | ErrLifecycleEnvelopeMalformed
  | ErrLifecycleEnvelopeTrailingData | ErrLifecycleMessageType | ErrLifecycleCapabilityRequired
  | ErrNilApplierState | ErrNilApplierJournal | ErrNilApplierBlobStore | ErrLifecycleBlobMissing

text \<open>Package \<^verbatim>\<open>storage\<close>\<close>

datatype storage_err =
    ErrNotFound | ErrKeyEmpty | ErrInvalidSHA256Key | ErrInvalidSHA256HexKey | ErrSHA256Mismatch
  | ErrInventoryKeyEmpty | ErrInventoryPagerInvalid | ErrInventoryKeyTooLarge
  | ErrNilInventoryLister | ErrNilBlobStore | ErrInvalidKeyFilename | ErrNonRegularEntry

text \<open>Package \<^verbatim>\<open>replication\<close>\<close>

datatype replication_err =
    ErrNilStore | ErrUnknownMessageType | ErrReplKeyEmpty | ErrKeyTooLarge | ErrDataTooLarge
  | ErrKeysEmpty | ErrTooManyKeys | ErrMessageNotApplicable

text \<open>\<^verbatim>\<open>p2p/frame.go\<close>, \<^verbatim>\<open>p2p/handshake.go\<close> and \<^verbatim>\<open>p2p/tcp_transport.go\<close>\<close>

datatype p2p_err =
    ErrBadMagic | ErrFrameTooLarge
  | ErrPeerAuthFailed | ErrPeerAuthRejected | ErrPeerAuthIdentityInvalid
  | ErrPeerAuthIdentityRequiresToken | ErrPeerAuthIdentityNotAllowed | ErrPeerAuthPayloadTooLarge
  | ErrPeerAuthCapabilitiesRequiresToken | ErrPeerAuthCapabilitiesTooMany
  | ErrPeerAuthCapabilityTooLarge | ErrPeerAuthCapabilitiesTooLarge | ErrPeerAuthCapabilityInvalid
  | ErrPeerAuthCapabilityDuplicate | ErrPeerAuthCapabilityUnknown
  | ErrAddrRequired | ErrAlreadyListening | ErrTransportClosed | ErrDrainDeadlineRequired

text \<open>
  Errors of the Go standard library the code returns or tests for: an operating-system
  failure, \<^verbatim>\<open>os.ErrNotExist\<close>, the context's error, \<^verbatim>\<open>io.EOF\<close>, \<^verbatim>\<open>io.ErrUnexpectedEOF\<close>,
  \<^verbatim>\<open>io.ErrShortWrite\<close> and the errors of \<^verbatim>\<open>encoding/json\<close>.
\<close>

datatype std_err = ErrOS | ErrNotExist | ErrContext | ErrEOF | ErrUnexpectedEOF | ErrShortWrite | ErrJSON

datatype err =
    EModel model_err
  | EJournal journal_err
  | EAuthority authority_err
  | EMembership membership_err
  | EWatermark watermark_err
  | ERepair repair_err
  | ETransport transport_err
  | EStorage storage_err
  | ERepl replication_err
  | EP2P p2p_err
  | EStd std_err
  | EMsg string              \<comment> \<open>\<^verbatim>\<open>errors.New\<close> with no sentinel variable\<close>
  | EJoin err err            \<comment> \<open>\<^verbatim>\<open>errors.Join(a, b)\<close>\<close>
  | EWrap err                \<comment> \<open>\<^verbatim>\<open>fmt.Errorf("... %w ...", a)\<close>, the message text dropped\<close>

fun err_is :: "err \<Rightarrow> err \<Rightarrow> bool" where
  "err_is (EJoin a b) t = (EJoin a b = t \<or> err_is a t \<or> err_is b t)"
| "err_is (EWrap a) t = (EWrap a = t \<or> err_is a t)"
| "err_is e t = (e = t)"

section \<open>Fallible computations\<close>

definition bindE :: "err + 'a \<Rightarrow> ('a \<Rightarrow> err + 'b) \<Rightarrow> err + 'b" where
  "bindE m f = (case m of Inl e \<Rightarrow> Inl e | Inr x \<Rightarrow> f x)"

text \<open>The early return \<^verbatim>\<open>if cond { return err }\<close>.\<close>

definition guardE :: "bool \<Rightarrow> err \<Rightarrow> err + unit" where
  "guardE b e = (if b then Inl e else Inr ())"

text \<open>\<^verbatim>\<open>if err := f(); err != nil { return g(err) }\<close>: the callee's error is mapped before it is returned.\<close>

definition mapE :: "(err \<Rightarrow> err) \<Rightarrow> err + 'a \<Rightarrow> err + 'a" where
  "mapE g m = (case m of Inl e \<Rightarrow> Inl (g e) | Inr x \<Rightarrow> Inr x)"

named_theorems resE \<open>unfolding and inversion of fallible computations\<close>

lemma bindE_simps [simp]:
  "bindE (Inl e) f = Inl e"
  "bindE (Inr x) f = f x"
  by (simp_all add: bindE_def)

lemma guardE_simps [simp]:
  "guardE True e = Inl e"
  "guardE False e = Inr ()"
  by (simp_all add: guardE_def)

lemma mapE_simps [simp]:
  "mapE g (Inl e) = Inl (g e)"
  "mapE g (Inr x) = Inr x"
  by (simp_all add: mapE_def)

lemma bindE_Inr_iff [resE]: "bindE m f = Inr y \<longleftrightarrow> (\<exists>x. m = Inr x \<and> f x = Inr y)"
  by (cases m) auto

lemma bindE_Inl_iff [resE]: "bindE m f = Inl e \<longleftrightarrow> m = Inl e \<or> (\<exists>x. m = Inr x \<and> f x = Inl e)"
  by (cases m) auto

lemma guardE_Inr_iff [resE]: "guardE b e = Inr u \<longleftrightarrow> \<not> b"
  by (simp add: guardE_def)

lemma guardE_Inl_iff [resE]: "guardE b e = Inl e' \<longleftrightarrow> b \<and> e' = e"
  by (auto simp: guardE_def)

lemma mapE_Inr_iff [resE]: "mapE g m = Inr y \<longleftrightarrow> m = Inr y"
  by (cases m) auto

lemma mapE_Inl_iff [resE]: "mapE g m = Inl e \<longleftrightarrow> (\<exists>e'. m = Inl e' \<and> e = g e')"
  by (cases m) auto

lemma bindE_guardE [simp]: "bindE (guardE b e) f = (if b then Inl e else f ())"
  by (simp add: guardE_def)

text \<open>The error-checking loop \<^verbatim>\<open>for _, x := range xs { if err := f(x); err != nil { return err } }\<close>.\<close>

fun allE_ok :: "('a \<Rightarrow> err + unit) \<Rightarrow> 'a list \<Rightarrow> err + unit" where
  "allE_ok f [] = Inr ()"
| "allE_ok f (x # xs) = bindE (f x) (\<lambda>_. allE_ok f xs)"

lemma allE_ok_Inr [resE]: "allE_ok f xs = Inr u \<longleftrightarrow> (\<forall>x\<in>set xs. f x = Inr ())"
  by (induction xs) (auto simp: resE)

section \<open>State transformers with errors\<close>

type_synonym ('s, 'a) M = "'s \<Rightarrow> (err + 'a) \<times> 's"

definition returnM :: "'a \<Rightarrow> ('s, 'a) M" where
  "returnM x s = (Inr x, s)"

definition throwM :: "err \<Rightarrow> ('s, 'a) M" where
  "throwM e s = (Inl e, s)"

definition bindM :: "('s, 'a) M \<Rightarrow> ('a \<Rightarrow> ('s, 'b) M) \<Rightarrow> ('s, 'b) M" where
  "bindM m f s = (case m s of (Inl e, s') \<Rightarrow> (Inl e, s') | (Inr x, s') \<Rightarrow> f x s')"

definition liftE :: "err + 'a \<Rightarrow> ('s, 'a) M" where
  "liftE r s = (r, s)"

definition guardM :: "bool \<Rightarrow> err \<Rightarrow> ('s, unit) M" where
  "guardM b e s = (if b then (Inl e, s) else (Inr (), s))"

definition getM :: "('s \<Rightarrow> 'a) \<Rightarrow> ('s, 'a) M" where
  "getM f s = (Inr (f s), s)"

definition modifyM :: "('s \<Rightarrow> 's) \<Rightarrow> ('s, unit) M" where
  "modifyM f s = (Inr (), f s)"

text \<open>Running a callee and inspecting its error instead of returning it.\<close>

definition tryM :: "('s, 'a) M \<Rightarrow> ('s, err + 'a) M" where
  "tryM m s = (case m s of (r, s') \<Rightarrow> (Inr r, s'))"

text \<open>
  Running a method of a component inside the state of its owner: \<open>get\<close> reads the component's
  fields out of the owner's state and \<open>put\<close> stores them back.
\<close>

definition zoomM :: "('s \<Rightarrow> 't) \<Rightarrow> ('t \<Rightarrow> 's \<Rightarrow> 's) \<Rightarrow> ('t, 'a) M \<Rightarrow> ('s, 'a) M" where
  "zoomM get put m s = (case m (get s) of (r, t) \<Rightarrow> (r, put t s))"

named_theorems monad \<open>evaluation of state transformers\<close>

lemma M_evals [monad]:
  "returnM x s = (Inr x, s)"
  "throwM e s = (Inl e, s)"
  "liftE r s = (r, s)"
  "guardM b e s = (if b then (Inl e, s) else (Inr (), s))"
  "getM f s = (Inr (f s), s)"
  "modifyM g s = (Inr (), g s)"
  by (simp_all add: returnM_def throwM_def liftE_def guardM_def getM_def modifyM_def)

lemma bindM_eval [monad]:
  "bindM m f s = (case m s of (Inl e, s') \<Rightarrow> (Inl e, s') | (Inr x, s') \<Rightarrow> f x s')"
  by (simp add: bindM_def)

lemma tryM_eval [monad]: "tryM m s = (case m s of (r, s') \<Rightarrow> (Inr r, s'))"
  by (simp add: tryM_def)

lemma bindM_Inr_iff:
  "bindM m f s = (Inr y, t) \<longleftrightarrow> (\<exists>x s'. m s = (Inr x, s') \<and> f x s' = (Inr y, t))"
  by (auto simp: bindM_def split: prod.splits sum.splits)

lemma bindM_Inl_iff:
  "bindM m f s = (Inl e, t) \<longleftrightarrow>
     m s = (Inl e, t) \<or> (\<exists>x s'. m s = (Inr x, s') \<and> f x s' = (Inl e, t))"
  by (auto simp: bindM_def split: prod.splits sum.splits)

lemma guardM_Inr_iff: "guardM b e s = (Inr u, t) \<longleftrightarrow> \<not> b \<and> t = s"
  by (auto simp: guardM_def)

lemma guardM_Inl_iff: "guardM b e s = (Inl e', t) \<longleftrightarrow> b \<and> e' = e \<and> t = s"
  by (auto simp: guardM_def)

lemma liftE_iff: "liftE r s = (q, t) \<longleftrightarrow> r = q \<and> t = s"
  by (auto simp: liftE_def)

lemma returnM_iff: "returnM x s = (q, t) \<longleftrightarrow> q = Inr x \<and> t = s"
  by (auto simp: returnM_def)

lemma throwM_iff: "throwM e s = (q, t) \<longleftrightarrow> q = Inl e \<and> t = s"
  by (auto simp: throwM_def)

lemma getM_iff: "getM f s = (q, t) \<longleftrightarrow> q = Inr (f s) \<and> t = s"
  by (auto simp: getM_def)

lemma modifyM_iff: "modifyM f s = (q, t) \<longleftrightarrow> q = Inr () \<and> t = f s"
  by (auto simp: modifyM_def)

text \<open>The inversion bundle: a run that returned a value (or an error) went through these steps.\<close>

lemmas M_inv = bindM_Inr_iff bindM_Inl_iff guardM_Inr_iff guardM_Inl_iff liftE_iff returnM_iff
  throwM_iff getM_iff modifyM_iff

text \<open>The loop \<^verbatim>\<open>for _, x := range xs { if err := f(x); err != nil { return err } }\<close> over a state.\<close>

fun forM :: "('a \<Rightarrow> ('s, unit) M) \<Rightarrow> 'a list \<Rightarrow> ('s, unit) M" where
  "forM f [] = returnM ()"
| "forM f (x # xs) = bindM (f x) (\<lambda>_. forM f xs)"

text \<open>
  Preservation of a predicate of the state by every run of a program, whatever its outcome.
\<close>

definition preserves :: "('s \<Rightarrow> bool) \<Rightarrow> ('s, 'a) M \<Rightarrow> bool" where
  "preserves P m \<longleftrightarrow> (\<forall>s. P s \<longrightarrow> P (snd (m s)))"

named_theorems presI \<open>introduction rules for \<open>preserves\<close>\<close>

lemma preservesD: "preserves P m \<Longrightarrow> P s \<Longrightarrow> m s = (r, s') \<Longrightarrow> P s'"
  by (metis preserves_def snd_conv)

lemma preserves_return [presI]: "preserves P (returnM x)"
  by (simp add: preserves_def returnM_def)

lemma preserves_throw [presI]: "preserves P (throwM e)"
  by (simp add: preserves_def throwM_def)

lemma preserves_liftE [presI]: "preserves P (liftE r)"
  by (simp add: preserves_def liftE_def)

lemma preserves_guard [presI]: "preserves P (guardM b e)"
  by (simp add: preserves_def guardM_def)

lemma preserves_get [presI]: "preserves P (getM f)"
  by (simp add: preserves_def getM_def)

lemma preserves_modify: "(\<And>s. P s \<Longrightarrow> P (f s)) \<Longrightarrow> preserves P (modifyM f)"
  by (simp add: preserves_def modifyM_def)

lemma preserves_bind [presI]:
  assumes "preserves P m" and "\<And>x. preserves P (f x)"
  shows "preserves P (bindM m f)"
  using assms by (fastforce simp: preserves_def bindM_def split: prod.splits sum.splits)

lemma preserves_try [presI]: "preserves P m \<Longrightarrow> preserves P (tryM m)"
  by (auto simp: preserves_def tryM_def split: prod.splits)

lemma preserves_if [presI]: "preserves P m \<Longrightarrow> preserves P n \<Longrightarrow> preserves P (if b then m else n)"
  by simp

lemma preserves_case_option [presI]:
  "preserves P m \<Longrightarrow> (\<And>x. preserves P (f x)) \<Longrightarrow> preserves P (case opt of None \<Rightarrow> m | Some x \<Rightarrow> f x)"
  by (cases opt) auto

lemma preserves_case_sum [presI]:
  "(\<And>e. preserves P (f e)) \<Longrightarrow> (\<And>x. preserves P (g x)) \<Longrightarrow>
   preserves P (case r of Inl e \<Rightarrow> f e | Inr x \<Rightarrow> g x)"
  by (cases r) auto

lemma preserves_forM [presI]: "(\<And>x. preserves P (f x)) \<Longrightarrow> preserves P (forM f xs)"
  by (induction xs) (auto intro!: presI)

text \<open>
  Weakest preconditions: \<open>Q\<close> holds of the result and state of a run that returns, and \<open>E\<close> of the
  error and state of a run that fails.
\<close>

definition wp :: "('s, 'a) M \<Rightarrow> ('a \<Rightarrow> 's \<Rightarrow> bool) \<Rightarrow> (err \<Rightarrow> 's \<Rightarrow> bool) \<Rightarrow> 's \<Rightarrow> bool" where
  "wp m Q E s = (case m s of (Inl e, s') \<Rightarrow> E e s' | (Inr x, s') \<Rightarrow> Q x s')"

named_theorems wps \<open>weakest preconditions of the program constructs\<close>

lemma wp_bind [wps]: "wp (bindM m f) Q E = wp m (\<lambda>x. wp (f x) Q E) E"
  by (rule ext) (auto simp: wp_def bindM_def split: prod.splits sum.splits)

lemma wp_basic [wps]:
  "wp (returnM x) Q E = Q x"
  "wp (throwM e) Q E = E e"
  "wp (liftE r) Q E = (\<lambda>s. case r of Inl e \<Rightarrow> E e s | Inr x \<Rightarrow> Q x s)"
  by (rule ext, simp add: wp_def monad split: sum.split)+

lemma wp_get [wps]: "wp (getM f) Q E = (\<lambda>s. Q (f s) s)"
  by (rule ext) (simp add: wp_def monad)

lemma wp_effect [wps]:
  "wp (guardM b e) Q E = (\<lambda>s. if b then E e s else Q () s)"
  "wp (modifyM g) Q E = (\<lambda>s. Q () (g s))"
  by (rule ext, simp add: wp_def monad)+

lemma wp_try [wps]: "wp (tryM m) Q E = wp m (\<lambda>x. Q (Inr x)) (\<lambda>e. Q (Inl e))"
  by (rule ext) (auto simp: wp_def tryM_def split: prod.splits sum.splits)

lemma wp_zoom [wps]:
  "wp (zoomM get put m) Q E = (\<lambda>s. wp m (\<lambda>x t. Q x (put t s)) (\<lambda>e t. E e (put t s)) (get s))"
  by (rule ext) (auto simp: wp_def zoomM_def split: prod.splits sum.splits)

lemma wp_if [wps]: "wp (if b then m else n) Q E s = (if b then wp m Q E s else wp n Q E s)"
  by simp

lemma wp_mono:
  "wp m Q E s \<Longrightarrow> (\<And>x s'. Q x s' \<Longrightarrow> Q' x s') \<Longrightarrow> (\<And>e s'. E e s' \<Longrightarrow> E' e s') \<Longrightarrow> wp m Q' E' s"
  by (auto simp: wp_def split: prod.splits sum.splits)

lemma wp_conj: "wp m Q E s \<Longrightarrow> wp m Q' E' s \<Longrightarrow> wp m (\<lambda>x s. Q x s \<and> Q' x s) (\<lambda>e s. E e s \<and> E' e s) s"
  by (auto simp: wp_def split: prod.splits sum.splits)

lemma wp_InrD: "wp m Q E s \<Longrightarrow> m s = (Inr x, s') \<Longrightarrow> Q x s'"
  by (simp add: wp_def)

lemma wp_InlD: "wp m Q E s \<Longrightarrow> m s = (Inl e, s') \<Longrightarrow> E e s'"
  by (simp add: wp_def)

lemma wpI: "(\<And>x s'. m s = (Inr x, s') \<Longrightarrow> Q x s') \<Longrightarrow> (\<And>e s'. m s = (Inl e, s') \<Longrightarrow> E e s') \<Longrightarrow> wp m Q E s"
  by (auto simp: wp_def split: prod.splits sum.splits)

lemma wp_forM:
  assumes "I xs s" and "\<And>x ys s. I (x # ys) s \<Longrightarrow> wp (f x) (\<lambda>_. I ys) E s"
    and "\<And>s. I [] s \<Longrightarrow> Q () s"
  shows "wp (forM f xs) Q E s"
  using assms(1)
proof (induction xs arbitrary: s)
  case Nil
  then show ?case by (simp add: wps assms(3))
next
  case (Cons x xs)
  show ?case unfolding forM.simps wp_bind
    by (rule wp_mono [OF assms(2) [OF Cons.prems]]) (auto intro: Cons.IH)
qed

section \<open>Lists\<close>

text \<open>Adjacent equal elements, the duplicate test of a sorted slice.\<close>

fun adjacent_dup :: "'a list \<Rightarrow> bool" where
  "adjacent_dup (x # y # zs) = (x = y \<or> adjacent_dup (y # zs))"
| "adjacent_dup _ = False"

lemma sorted_adjacent_distinct:
  fixes xs :: "'a::linorder list"
  assumes "sorted xs" and "\<not> adjacent_dup xs"
  shows "distinct xs"
  using assms by (induction xs rule: adjacent_dup.induct) (auto simp: order.strict_iff_order)

lemma sorted_adjacent_iff:
  fixes xs :: "'a::linorder list"
  assumes "sorted xs"
  shows "adjacent_dup xs \<longleftrightarrow> \<not> distinct xs"
  using assms by (induction xs rule: adjacent_dup.induct) (auto simp: order.strict_iff_order)

lemma foldr_max_le: "(\<forall>x\<in>set xs. f x \<le> (m::nat)) \<Longrightarrow> foldr max (map f xs) 0 \<le> m"
  by (induction xs) auto

end
