(* ===== verification/Go_Codec.thy ===== *)
theory Go_Codec
  imports Go_Unicode
begin

text \<open>
  The byte-level encodings of the Go standard library the program uses: \<^verbatim>\<open>encoding/binary\<close>
  (big-endian integers), \<^verbatim>\<open>encoding/hex\<close>, \<^verbatim>\<open>encoding/base64\<close> (\<^verbatim>\<open>StdEncoding\<close>, the JSON form of a
  \<^verbatim>\<open>[]byte\<close>), the decimal form of an unsigned integer, and the two checksums: CRC-32 with the
  Castagnoli polynomial (\<^verbatim>\<open>hash/crc32\<close>) and SHA-256 (\<^verbatim>\<open>crypto/sha256\<close>).  Each encoder is proved
  inverse to its decoder.
\<close>

unbundle bit_operations_syntax

section \<open>Big-endian integers\<close>

fun be_put :: "nat \<Rightarrow> nat \<Rightarrow> bytes" where
  "be_put 0 x = []"
| "be_put (Suc k) x = char_of (x div 256 ^ k) # be_put k x"

definition be_get :: "bytes \<Rightarrow> nat" where
  "be_get cs = foldl (\<lambda>acc c. acc * 256 + byte_of c) 0 cs"

lemma length_be_put [simp]: "length (be_put k x) = k"
  by (induction k) auto

lemma foldl_be: "foldl (\<lambda>acc c. acc * 256 + byte_of c) a cs = a * 256 ^ length cs + be_get cs"
proof (induction cs arbitrary: a)
  case (Cons c cs)
  have "be_get (c # cs) = byte_of c * 256 ^ length cs + be_get cs"
    using Cons.IH [of "byte_of c"] by (simp add: be_get_def)
  with Cons.IH [of "a * 256 + byte_of c"] show ?case by (simp add: algebra_simps)
qed (simp add: be_get_def)

lemma be_get_simps [simp]:
  "be_get [] = 0"
  "be_get (c # cs) = byte_of c * 256 ^ length cs + be_get cs"
  using foldl_be [of "byte_of c" cs] by (simp_all add: be_get_def)

lemma be_get_put: "be_get (be_put k x) = x mod 256 ^ k"
proof (induction k)
  case (Suc k)
  have "x mod 256 ^ Suc k = 256 ^ k * (x div 256 ^ k mod 256) + x mod 256 ^ k"
    by (simp add: mod_mult2_eq [of x "256 ^ k" 256, simplified mult.commute])
  with Suc show ?case by (simp add: mult.commute)
qed simp

lemma be_get_less: "be_get cs < 256 ^ length cs"
proof (induction cs)
  case (Cons c cs)
  have "byte_of c * 256 ^ length cs + be_get cs < byte_of c * 256 ^ length cs + 256 ^ length cs"
    using Cons.IH by simp
  also have "\<dots> = (byte_of c + 1) * 256 ^ length cs"
    by simp
  also have "\<dots> \<le> 256 * 256 ^ length cs"
    by (rule mult_right_mono) (use nat_of_char_less_256 [of c] in \<open>auto simp del: nat_of_char_less_256\<close>)
  finally show ?case by simp
qed simp

definition put_u32 :: "u32 \<Rightarrow> bytes" where
  "put_u32 w = be_put 4 (unat w)"

definition get_u32 :: "bytes \<Rightarrow> u32" where
  "get_u32 cs = word_of_nat (be_get cs)"

definition put_u64 :: "u64 \<Rightarrow> bytes" where
  "put_u64 w = be_put 8 (unat w)"

definition get_u64 :: "bytes \<Rightarrow> u64" where
  "get_u64 cs = word_of_nat (be_get cs)"

lemma length_put_u32 [simp]: "length (put_u32 w) = 4"
  by (simp add: put_u32_def)

lemma length_put_u64 [simp]: "length (put_u64 w) = 8"
  by (simp add: put_u64_def)

lemma get_put_u32 [simp]: "get_u32 (put_u32 w) = w"
  using unsigned_less [of w, where ?'a = nat] by (simp add: get_u32_def put_u32_def be_get_put)

lemma get_put_u64 [simp]: "get_u64 (put_u64 w) = w"
  using unsigned_less [of w, where ?'a = nat] by (simp add: get_u64_def put_u64_def be_get_put)

section \<open>Decimal numerals\<close>

definition digit :: "nat \<Rightarrow> char" where
  "digit d = char_of (48 + d)"

definition is_digit :: "char \<Rightarrow> bool" where
  "is_digit c \<longleftrightarrow> 48 \<le> byte_of c \<and> byte_of c \<le> 57"

fun dec :: "nat \<Rightarrow> bytes" where
  "dec n = (if n < 10 then [digit n] else dec (n div 10) @ [digit (n mod 10)])"

declare dec.simps [simp del]

definition dec_val :: "bytes \<Rightarrow> nat" where
  "dec_val s = foldl (\<lambda>acc c. acc * 10 + (byte_of c - 48)) 0 s"

lemma byte_of_digit [simp]: "d < 10 \<Longrightarrow> byte_of (digit d) = 48 + d"
  by (simp add: digit_def)

lemma is_digit_digit [simp]: "d < 10 \<Longrightarrow> is_digit (digit d)"
  by (simp add: is_digit_def)

lemma dec_val_snoc: "dec_val (s @ [c]) = dec_val s * 10 + (byte_of c - 48)"
  by (simp add: dec_val_def)

lemma dec_val_dec [simp]: "dec_val (dec n) = n"
proof (induction n rule: dec.induct)
  case (1 n)
  show ?case
  proof (cases "n < 10")
    case True
    then show ?thesis by (simp add: dec.simps [of n] dec_val_def)
  next
    case False
    with 1 show ?thesis by (simp add: dec.simps [of n] dec_val_snoc)
  qed
qed

lemma dec_digits: "\<forall>c\<in>set (dec n). is_digit c"
proof (induction n rule: dec.induct)
  case (1 n)
  then show ?case by (cases "n < 10") (auto simp: dec.simps [of n])
qed

lemma dec_nonempty [simp]: "dec n \<noteq> []"
  by (simp add: dec.simps [of n])

text \<open>No leading zero except in \<open>0\<close> itself.\<close>

lemma dec_hd: "hd (dec n) = CHR ''0'' \<longleftrightarrow> n = 0"
proof (induction n rule: dec.induct)
  case (1 n)
  have d: "digit d = CHR ''0'' \<longleftrightarrow> d = 0" if "d < 10" for d
    using that of_char_eq_iff [of "digit d" "CHR ''0''", where ?'a = nat] by simp
  show ?case
  proof (cases "n < 10")
    case True
    with d show ?thesis by (simp add: dec.simps [of n])
  next
    case False
    with 1 have "hd (dec (n div 10)) = CHR ''0'' \<longleftrightarrow> n div 10 = 0" by blast
    with False show ?thesis by (simp add: dec.simps [of n] div_eq_0_iff)
  qed
qed

lemma dec_zero: "dec 0 = ''0''"
  by code_simp

section \<open>Hexadecimal\<close>

definition hex_digit :: "nat \<Rightarrow> char" where
  "hex_digit d = (if d < 10 then char_of (48 + d) else char_of (87 + d))"

definition hex_val :: "char \<Rightarrow> nat option" where
  "hex_val c =
     (let b = byte_of c in
      if 48 \<le> b \<and> b \<le> 57 then Some (b - 48)
      else if 97 \<le> b \<and> b \<le> 102 then Some (b - 87)
      else if 65 \<le> b \<and> b \<le> 70 then Some (b - 55) else None)"

fun hex_encode :: "bytes \<Rightarrow> bytes" where
  "hex_encode [] = []"
| "hex_encode (c # cs) = hex_digit (byte_of c div 16) # hex_digit (byte_of c mod 16) # hex_encode cs"

fun hex_decode :: "bytes \<Rightarrow> bytes option" where
  "hex_decode [] = Some []"
| "hex_decode [_] = None"
| "hex_decode (a # b # cs) =
     (case (hex_val a, hex_val b, hex_decode cs) of
        (Some x, Some y, Some r) \<Rightarrow> Some (char_of (16 * x + y) # r)
      | _ \<Rightarrow> None)"

lemma hex_val_digit [simp]: "d < 16 \<Longrightarrow> hex_val (hex_digit d) = Some d"
  by (auto simp: hex_val_def hex_digit_def Let_def)

lemma length_hex_encode [simp]: "length (hex_encode s) = 2 * length s"
  by (induction s) auto

lemma byte_split: "char_of (16 * (byte_of c div 16) + byte_of c mod 16) = c"
proof -
  have "16 * (byte_of c div 16) + byte_of c mod 16 = byte_of c" by simp
  then show ?thesis by (simp del: mult_div_mod_eq)
qed

lemma hex_decode_encode [simp]: "hex_decode (hex_encode s) = Some s"
proof (induction s)
  case (Cons c s)
  have "byte_of c div 16 < 16"
    using nat_of_char_less_256 [of c] by (simp add: div_less_iff_less_mult del: nat_of_char_less_256)
  with Cons show ?case by (simp add: byte_split del: mult_div_mod_eq)
qed simp

lemma hex_decode_length: "hex_decode s = Some k \<Longrightarrow> length s = 2 * length k"
  by (induction s arbitrary: k rule: hex_decode.induct) (auto split: option.splits)

section \<open>Base64\<close>

definition b64_alphabet :: "bytes" where
  "b64_alphabet = ''ABCDEFGHIJKLMNOPQRSTUVWXYZabcdefghijklmnopqrstuvwxyz0123456789+/''"

definition b64_digit :: "nat \<Rightarrow> char" where
  "b64_digit v =
     (if v < 26 then char_of (65 + v) else if v < 52 then char_of (71 + v)
      else if v < 62 then char_of (v - 4) else if v = 62 then CHR ''+'' else CHR ''/'')"

definition b64_val :: "char \<Rightarrow> nat option" where
  "b64_val c =
     (let b = byte_of c in
      if 65 \<le> b \<and> b \<le> 90 then Some (b - 65) else if 97 \<le> b \<and> b \<le> 122 then Some (b - 71)
      else if 48 \<le> b \<and> b \<le> 57 then Some (b + 4)
      else if c = CHR ''+'' then Some 62 else if c = CHR ''/'' then Some 63 else None)"

lemma b64_digit_alphabet: "map b64_digit [0..<64] = b64_alphabet"
  by code_simp

lemma b64_val_digit [simp]: "v < 64 \<Longrightarrow> b64_val (b64_digit v) = Some v"
  by (auto simp: b64_val_def b64_digit_def Let_def)

lemma b64_digit_not: "v < 64 \<Longrightarrow> b64_digit v \<noteq> CHR ''=''"
  using b64_val_digit [of v] by (auto simp: b64_val_def Let_def)

fun b64_encode :: "bytes \<Rightarrow> bytes" where
  "b64_encode [] = []"
| "b64_encode [a] =
     (let v = byte_of a * 65536 in
      [b64_digit (v div 262144), b64_digit (v div 4096 mod 64), CHR ''='', CHR ''=''])"
| "b64_encode [a, b] =
     (let v = byte_of a * 65536 + byte_of b * 256 in
      [b64_digit (v div 262144), b64_digit (v div 4096 mod 64), b64_digit (v div 64 mod 64), CHR ''=''])"
| "b64_encode (a # b # c # cs) =
     (let v = byte_of a * 65536 + byte_of b * 256 + byte_of c in
      b64_digit (v div 262144) # b64_digit (v div 4096 mod 64) # b64_digit (v div 64 mod 64)
        # b64_digit (v mod 64) # b64_encode cs)"

definition b64_bytes :: "nat \<Rightarrow> bytes" where
  "b64_bytes v = [char_of (v div 65536), char_of (v div 256), char_of v]"

fun b64_quads :: "bytes \<Rightarrow> bytes option" where
  "b64_quads [] = Some []"
| "b64_quads (p # q # r # s # cs) =
     (case (b64_val p, b64_val q) of
        (Some x, Some y) \<Rightarrow>
          if s = CHR ''='' then
            (if cs \<noteq> [] then None
             else if r = CHR ''='' then Some (take 1 (b64_bytes (x * 262144 + y * 4096)))
             else (case b64_val r of None \<Rightarrow> None
                   | Some z \<Rightarrow> Some (take 2 (b64_bytes (x * 262144 + y * 4096 + z * 64)))))
          else (case (b64_val r, b64_val s, b64_quads cs) of
                  (Some z, Some t, Some rest) \<Rightarrow>
                    Some (b64_bytes (x * 262144 + y * 4096 + z * 64 + t) @ rest)
                | _ \<Rightarrow> None)
      | _ \<Rightarrow> None)"
| "b64_quads _ = None"

text \<open>The decoder skips carriage returns and newlines anywhere in its input.\<close>

definition b64_decode :: "bytes \<Rightarrow> bytes option" where
  "b64_decode s = b64_quads (filter (\<lambda>c. c \<noteq> CHR 0x0A \<and> c \<noteq> CHR 0x0D) s)"

lemma length_b64_encode: "length (b64_encode s) = 4 * ((length s + 2) div 3)"
proof (induction s rule: b64_encode.induct)
  case (4 a b c cs)
  have "(5 + length cs) div 3 = (2 + length cs) div 3 + 1" by presburger
  with 4 show ?case by (simp add: Let_def)
qed (simp_all add: Let_def)

lemma b64_sextets:
  fixes v :: nat
  assumes "v < 16777216"
  shows "v div 262144 < 64"
    and "v div 262144 * 262144 + v div 4096 mod 64 * 4096 + v div 64 mod 64 * 64 + v mod 64 = v"
proof -
  show "v div 262144 < 64" using assms by (simp add: div_less_iff_less_mult)
  have "v = v div 64 * 64 + v mod 64" "v div 64 = v div 4096 * 64 + v div 64 mod 64"
    "v div 4096 = v div 262144 * 64 + v div 4096 mod 64"
    by (simp_all add: div_mult2_eq [of v 64 64, simplified] div_mult2_eq [of v 4096 64, simplified])
  then show "v div 262144 * 262144 + v div 4096 mod 64 * 4096 + v div 64 mod 64 * 64 + v mod 64 = v"
    by linarith
qed

lemma b64_triple:
  fixes a b c :: nat
  assumes "a < 256" "b < 256" "c < 256"
  defines "v \<equiv> a * 65536 + b * 256 + c"
  shows "v < 16777216" "v div 65536 = a" "v div 256 mod 256 = b" "v mod 256 = c"
proof -
  have v: "v = (a * 256 + b) * 256 + c" by (simp add: v_def)
  show "v mod 256 = c" using assms(3) unfolding v by (simp only: mod_mult_self3 mod_less)
  have "v div 256 = a * 256 + b" using assms by (simp add: v)
  then show "v div 256 mod 256 = b" "v div 65536 = a"
    using assms by (simp_all add: div_mult2_eq [of v 256 256, simplified])
  show "v < 16777216" using assms by (simp add: v_def)
qed


lemma b64_quad_eval:
  assumes "x < 64" "y < 64" "z < 64" "t < 64"
  shows "b64_quads (b64_digit x # b64_digit y # b64_digit z # b64_digit t # cs) =
    (case b64_quads cs of None \<Rightarrow> None
     | Some rest \<Rightarrow> Some (b64_bytes (x * 262144 + y * 4096 + z * 64 + t) @ rest))"
proof -
  have "b64_digit t \<noteq> CHR ''=''" using assms(4) by (rule b64_digit_not)
  with assms show ?thesis by (simp split: option.split)
qed

lemma b64_quads_encode: "b64_quads (b64_encode s) = Some s"
proof (induction s rule: b64_encode.induct)
  case 1
  show ?case by simp
next
  case (2 a)
  let ?v = "byte_of a * 65536"
  have t: "?v < 16777216" "?v div 65536 = byte_of a"
    using b64_triple [of "byte_of a" 0 0] by simp_all
  have z: "?v div 64 mod 64 = 0" "?v mod 64 = 0" by (simp_all flip: mod_mult_right_eq add: mult.commute)
  note sx = b64_sextets [OF t(1)]
  have "?v div 262144 * 262144 + ?v div 4096 mod 64 * 4096 = ?v" using sx(2) z by simp
  with sx(1) t(2) show ?case by (simp add: Let_def b64_bytes_def)
next
  case (3 a b)
  let ?v = "byte_of a * 65536 + byte_of b * 256"
  have t: "?v < 16777216" "?v div 65536 = byte_of a" "?v div 256 mod 256 = byte_of b"
    using b64_triple [of "byte_of a" "byte_of b" 0] by simp_all
  have z: "?v mod 64 = 0"
  proof -
    have "?v = 64 * (byte_of a * 1024 + byte_of b * 4)" by simp
    then show ?thesis by (metis mod_mult_self1_is_0)
  qed
  note sx = b64_sextets [OF t(1)]
  have "?v div 262144 * 262144 + ?v div 4096 mod 64 * 4096 + ?v div 64 mod 64 * 64 = ?v"
    using sx(2) z by simp
  moreover have "char_of (?v div 256) = b"
    using t(3) by (metis char_of_mod_256 char_of_char)
  ultimately show ?case using sx(1) t(2) b64_digit_not [of "?v div 64 mod 64"]
    by (simp add: Let_def b64_bytes_def)
next
  case (4 a b c cs)
  let ?v = "byte_of a * 65536 + byte_of b * 256 + byte_of c"
  note t = b64_triple [of "byte_of a" "byte_of b" "byte_of c", simplified]
  have "?v div 256 mod 256 = byte_of b" "?v mod 256 = byte_of c" using t by simp_all
  then have "char_of (?v div 256) = b" "char_of ?v = c"
    by (metis char_of_mod_256 char_of_char)+
  then have "b64_bytes ?v = [a, b, c]"
    using t(2) by (simp add: b64_bytes_def)
  with 4 b64_sextets [OF t(1)] show ?case
    unfolding b64_encode.simps Let_def by (subst b64_quad_eval) simp_all
qed

definition b64_safe :: "char \<Rightarrow> bool" where
  "b64_safe c \<longleftrightarrow> c = CHR ''='' \<or> b64_val c \<noteq> None"

lemma b64_safe_digit [simp]: "v < 64 \<Longrightarrow> b64_safe (b64_digit v)"
  by (simp add: b64_safe_def)

lemma b64_encode_safe: "list_all b64_safe (b64_encode s)"
proof (induction s rule: b64_encode.induct)
  case (2 a)
  show ?case
    using b64_sextets(1) [OF b64_triple(1) [of "byte_of a" 0 0]] by (simp add: Let_def b64_safe_def)
next
  case (3 a b)
  show ?case
    using b64_sextets(1) [OF b64_triple(1) [of "byte_of a" "byte_of b" 0]]
    by (simp add: Let_def b64_safe_def)
next
  case (4 a b c cs)
  then show ?case
    using b64_sextets(1) [OF b64_triple(1) [of "byte_of a" "byte_of b" "byte_of c"]]
    by (simp add: Let_def)
qed simp

lemma b64_decode_encode [simp]: "b64_decode (b64_encode s) = Some s"
proof -
  have "\<not> b64_safe (CHR 0x0A)" "\<not> b64_safe (CHR 0x0D)"
    by (simp_all add: b64_safe_def b64_val_def)
  then have "filter (\<lambda>c. c \<noteq> CHR 0x0A \<and> c \<noteq> CHR 0x0D) (b64_encode s) = b64_encode s"
    using b64_encode_safe [of s] unfolding list_all_iff filter_id_conv by blast
  then show ?thesis by (simp add: b64_decode_def b64_quads_encode)
qed

section \<open>CRC-32 (Castagnoli)\<close>

definition crc_step :: "u32 \<Rightarrow> u32" where
  "crc_step c = (if bit c 0 then drop_bit 1 c XOR 0x82F63B78 else drop_bit 1 c)"

definition crc_byte :: "u32 \<Rightarrow> char \<Rightarrow> u32" where
  "crc_byte crc c = (crc_step ^^ 8) (crc XOR of_char c)"

definition crc32c :: "bytes \<Rightarrow> u32" where
  "crc32c s = NOT (foldl crc_byte (NOT 0) s)"

section \<open>SHA-256\<close>

definition rotr :: "nat \<Rightarrow> u32 \<Rightarrow> u32" where
  "rotr n x = drop_bit n x OR push_bit (32 - n) x"

text \<open>
  The constants, by their definition in FIPS 180-4: the first 32 bits of the fractional parts of
  the cube roots of the first 64 primes, and of the square roots of the first eight.  The root is
  found bit by bit on the scaled integer.
\<close>

fun root_bits :: "nat \<Rightarrow> nat \<Rightarrow> nat \<Rightarrow> nat \<Rightarrow> nat" where
  "root_bits e 0 n r = r"
| "root_bits e (Suc k) n r = root_bits e k n (if (r + 2 ^ k) ^ e \<le> n then r + 2 ^ k else r)"

definition root_frac :: "nat \<Rightarrow> nat \<Rightarrow> u32" where
  "root_frac e p = of_nat (root_bits e 35 (p * 2 ^ (32 * e)) 0)"

definition sha_k :: "u32 list" where
  "sha_k = map (root_frac 3) (filter (\<lambda>p. list_all (\<lambda>d. p mod d \<noteq> 0) [2..<p]) [2..<312])"

definition sha_init :: "u32 list" where
  "sha_init = map (root_frac 2) [2, 3, 5, 7, 11, 13, 17, 19]"

definition sha_pad :: "bytes \<Rightarrow> bytes" where
  "sha_pad m = m @ [char_of (128::nat)] @ replicate ((119 - length m mod 64) mod 64) (char_of (0::nat))
                 @ be_put 8 (8 * length m)"

fun word_list :: "bytes \<Rightarrow> u32 list" where
  "word_list (a # b # c # d # cs) = get_u32 [a, b, c, d] # word_list cs"
| "word_list _ = []"

text \<open>The message schedule, kept newest word first.\<close>

fun sha_extend :: "nat \<Rightarrow> u32 list \<Rightarrow> u32 list" where
  "sha_extend 0 w = w"
| "sha_extend (Suc n) w =
     (let s0 = (let x = w ! 14 in rotr 7 x XOR rotr 18 x XOR drop_bit 3 x);
          s1 = (let x = w ! 1 in rotr 17 x XOR rotr 19 x XOR drop_bit 10 x)
      in sha_extend n ((w ! 15 + s0 + w ! 6 + s1) # w))"

definition sha_round :: "u32 list \<Rightarrow> u32 \<times> u32 \<Rightarrow> u32 list" where
  "sha_round st kw =
     (case st of
        [a, b, c, d, e, f, g, h] \<Rightarrow>
          (let s1 = rotr 6 e XOR rotr 11 e XOR rotr 25 e;
               ch = (e AND f) XOR (NOT e AND g);
               t1 = h + s1 + ch + fst kw + snd kw;
               s0 = rotr 2 a XOR rotr 13 a XOR rotr 22 a;
               maj = (a AND b) XOR (a AND c) XOR (b AND c);
               t2 = s0 + maj
           in [t1 + t2, a, b, c, d + t1, e, f, g])
      | _ \<Rightarrow> st)"

definition sha_block :: "u32 list \<Rightarrow> bytes \<Rightarrow> u32 list" where
  "sha_block st blk =
     map2 (+) st (foldl sha_round st (zip sha_k (rev (sha_extend 48 (rev (word_list blk))))))"

function sha_blocks :: "u32 list \<Rightarrow> bytes \<Rightarrow> u32 list" where
  "sha_blocks st m = (if m = [] then st else sha_blocks (sha_block st (take 64 m)) (drop 64 m))"
  by pat_completeness auto
termination
  by (relation "measure (length \<circ> snd)") auto

declare sha_blocks.simps [simp del]

definition sha256 :: "bytes \<Rightarrow> bytes" where
  "sha256 m = concat (map put_u32 (sha_blocks sha_init (sha_pad m)))"

lemma length_sha_round: "length (sha_round st kw) = length st"
  by (simp add: sha_round_def Let_def split: list.splits)

lemma length_sha_rounds: "length (foldl sha_round st kws) = length st"
  by (induction kws arbitrary: st) (auto simp: length_sha_round)

lemma length_sha_blocks: "length (sha_blocks st m) = length st"
proof (induction st m rule: sha_blocks.induct)
  case (1 st m)
  then show ?case
    by (subst sha_blocks.simps) (auto simp: sha_block_def length_sha_rounds)
qed

lemma length_sha256 [simp]: "length (sha256 m) = 32"
proof -
  have "length (concat (map put_u32 ws)) = 4 * length ws" for ws
    by (induction ws) auto
  then show ?thesis by (simp add: sha256_def length_sha_blocks sha_init_def)
qed

end
