(* ===== verification/Go_Json.thy ===== *)
theory Go_Json
  imports Go_Codec "HOL-Library.AList"
begin

text \<open>
  \<^verbatim>\<open>encoding/json\<close> as the program uses it.  A JSON text is parsed to a tree \<open>json\<close> (a number keeps its
  literal, as the decoder does until it knows the target type); \<open>json_print\<close> is the compact,
  HTML-escaping output of \<^verbatim>\<open>json.Marshal\<close>.  The reflection step from a tree to a struct is a fold of
  field setters (\<open>struct_decode\<close>) with Go's rules: exact field name first and case-folded name
  second, unknown fields ignored or rejected, \<^verbatim>\<open>null\<close> leaves a scalar as it is and empties a slice,
  later duplicates overwrite.  The main result is \<open>json_parse_print\<close>: parsing undoes printing.
\<close>

section \<open>Trees and printing\<close>

datatype json =
    JNull
  | JBool bool
  | JNum bytes
  | JStr bytes
  | JArr "json list"
  | JObj "(bytes \<times> json) list"

abbreviation quote :: char where "quote \<equiv> CHR 0x22"
abbreviation bslash :: char where "bslash \<equiv> CHR 0x5C"

definition esc_u :: "nat \<Rightarrow> bytes" where
  "esc_u r = [bslash, CHR ''u'', hex_digit (r div 4096), hex_digit (r div 256 mod 16),
              hex_digit (r div 16 mod 16), hex_digit (r mod 16)]"

definition esc_ascii :: "char \<Rightarrow> bytes" where
  "esc_ascii c =
     (if c = quote \<or> c = bslash then [bslash, c]
      else if c = CHR 0x08 then [bslash, CHR ''b''] else if c = CHR 0x0C then [bslash, CHR ''f'']
      else if c = CHR 0x0A then [bslash, CHR ''n''] else if c = CHR 0x0D then [bslash, CHR ''r'']
      else if c = CHR 0x09 then [bslash, CHR ''t'']
      else if byte_of c < 32 \<or> c = CHR ''<'' \<or> c = CHR ''>'' \<or> c = CHR ''&'' then esc_u (byte_of c)
      else [c])"

definition esc_chunk :: "bytes \<times> bool \<Rightarrow> bytes" where
  "esc_chunk p =
     (case p of (chunk, ok) \<Rightarrow>
        if \<not> ok then esc_u 65533
        else if length chunk = 1 then esc_ascii (hd chunk)
        else if rune_of chunk = 8232 \<or> rune_of chunk = 8233 then esc_u (rune_of chunk)
        else chunk)"

definition json_escape :: "bytes \<Rightarrow> bytes" where
  "json_escape s = concat (map esc_chunk (utf8_chunks s))"

definition json_string :: "bytes \<Rightarrow> bytes" where
  "json_string s = quote # json_escape s @ [quote]"

fun commas :: "bytes list \<Rightarrow> bytes" where
  "commas [] = []"
| "commas [x] = x"
| "commas (x # y # zs) = x @ CHR '','' # commas (y # zs)"

fun json_print :: "json \<Rightarrow> bytes" where
  "json_print JNull = ''null''"
| "json_print (JBool b) = (if b then ''true'' else ''false'')"
| "json_print (JNum t) = t"
| "json_print (JStr s) = json_string s"
| "json_print (JArr xs) = CHR ''['' # commas (map json_print xs) @ '']''"
| "json_print (JObj kvs) =
     CHR ''{'' # commas (map (\<lambda>(k, v). json_string k @ CHR '':'' # json_print v) kvs) @ ''}''"

section \<open>Parsing\<close>

definition is_ws :: "char \<Rightarrow> bool" where
  "is_ws c \<longleftrightarrow> c = CHR '' '' \<or> c = CHR 0x09 \<or> c = CHR 0x0A \<or> c = CHR 0x0D"

abbreviation skip_ws :: "bytes \<Rightarrow> bytes" where
  "skip_ws \<equiv> dropWhile is_ws"

fun hex4 :: "bytes \<Rightarrow> (nat \<times> bytes) option" where
  "hex4 (a # b # c # d # r) =
     (case (hex_val a, hex_val b, hex_val c, hex_val d) of
        (Some w, Some x, Some y, Some z) \<Rightarrow> Some (((w * 16 + x) * 16 + y) * 16 + z, r)
      | _ \<Rightarrow> None)"
| "hex4 _ = None"

lemma hex4_length: "hex4 s = Some (v, r) \<Longrightarrow> length s = length r + 4"
  by (induction s rule: hex4.induct) (auto simp: hex4.simps split: option.splits)

declare hex4.simps [simp del]

definition is_surrogate :: "nat \<Rightarrow> bool" where
  "is_surrogate v \<longleftrightarrow> 55296 \<le> v \<and> v \<le> 57343"

text \<open>What follows \<^verbatim>\<open>\u\<close>: the encoded rune and the rest, with UTF-16 surrogate pairs joined.\<close>

definition unicode_escape :: "bytes \<Rightarrow> (bytes \<times> bytes) option" where
  "unicode_escape s =
     (case hex4 s of
        None \<Rightarrow> None
      | Some (v, r) \<Rightarrow>
          if is_surrogate v then
            (case r of
               p # q # r2 \<Rightarrow>
                 (case (if p = bslash \<and> q = CHR ''u'' then hex4 r2 else None) of
                    Some (v2, r3) \<Rightarrow>
                      if v < 56320 \<and> 56320 \<le> v2 \<and> v2 \<le> 57343
                      then Some (encode_rune ((v - 55296) * 1024 + (v2 - 56320) + 65536), r3)
                      else Some (encode_rune 65533, r)
                  | None \<Rightarrow> Some (encode_rune 65533, r))
             | _ \<Rightarrow> Some (encode_rune 65533, r))
          else Some (encode_rune v, r))"

lemma unicode_escape_length: "unicode_escape s = Some (u, r) \<Longrightarrow> length r < length s"
  by (auto simp: unicode_escape_def dest!: hex4_length split: option.splits if_splits list.splits)

text \<open>The value of the one-character escapes.\<close>

definition simple_escape :: "char \<Rightarrow> char option" where
  "simple_escape e =
     (if e = quote \<or> e = bslash \<or> e = CHR ''/'' then Some e
      else if e = CHR ''b'' then Some (CHR 0x08) else if e = CHR ''f'' then Some (CHR 0x0C)
      else if e = CHR ''n'' then Some (CHR 0x0A) else if e = CHR ''r'' then Some (CHR 0x0D)
      else if e = CHR ''t'' then Some (CHR 0x09) else None)"

text \<open>A string body, after its opening quote: the unquoted bytes and what follows the closing quote.\<close>

function parse_str :: "bytes \<Rightarrow> (bytes \<times> bytes) option" where
  "parse_str [] = None"
| "parse_str (c # cs) =
     (if c = quote then Some ([], cs)
      else if c = bslash then
        (case cs of
           [] \<Rightarrow> None
         | e # r \<Rightarrow>
             if e = CHR ''u'' then
               (case unicode_escape r of
                  None \<Rightarrow> None
                | Some (u, r') \<Rightarrow> map_option (apfst ((@) u)) (parse_str r'))
             else (case simple_escape e of
                     None \<Rightarrow> None
                   | Some b \<Rightarrow> map_option (apfst ((#) b)) (parse_str r)))
      else if byte_of c < 32 then None
      else (case utf8_width (c # cs) of
              None \<Rightarrow> map_option (apfst ((@) (encode_rune 65533))) (parse_str cs)
            | Some n \<Rightarrow> map_option (apfst ((@) (take n (c # cs)))) (parse_str (drop n (c # cs)))))"
  by pat_completeness auto
termination
  by (relation "measure length") (auto dest!: utf8_width_bounds unicode_escape_length)

declare parse_str.simps(2) [simp del]

definition take_int :: "bytes \<Rightarrow> (bytes \<times> bytes) option" where
  "take_int s =
     (case s of
        [] \<Rightarrow> None
      | c # cs \<Rightarrow>
          if c = CHR ''0'' then Some ([c], cs)
          else if is_digit c then Some (takeWhile is_digit s, dropWhile is_digit s) else None)"

definition take_digits1 :: "bytes \<Rightarrow> (bytes \<times> bytes) option" where
  "take_digits1 s =
     (case s of
        [] \<Rightarrow> None
      | c # cs \<Rightarrow> if is_digit c then Some (takeWhile is_digit s, dropWhile is_digit s) else None)"

definition take_frac :: "bytes \<Rightarrow> (bytes \<times> bytes) option" where
  "take_frac s =
     (case s of
        [] \<Rightarrow> Some ([], s)
      | c # cs \<Rightarrow> if c = CHR ''.'' then map_option (apfst ((#) c)) (take_digits1 cs) else Some ([], s))"

definition take_exp :: "bytes \<Rightarrow> (bytes \<times> bytes) option" where
  "take_exp s =
     (case s of
        [] \<Rightarrow> Some ([], s)
      | c # cs \<Rightarrow>
          if c = CHR ''e'' \<or> c = CHR ''E'' then
            (case cs of
               [] \<Rightarrow> None
             | g # r \<Rightarrow>
                 if g = CHR ''+'' \<or> g = CHR ''-'' then map_option (apfst (\<lambda>t. c # g # t)) (take_digits1 r)
                 else map_option (apfst ((#) c)) (take_digits1 cs))
          else Some ([], s))"

definition parse_num :: "bytes \<Rightarrow> (bytes \<times> bytes) option" where
  "parse_num s =
     (let neg = (s \<noteq> [] \<and> hd s = CHR ''-'');
          s0 = (if neg then tl s else s) in
      case take_int s0 of
        None \<Rightarrow> None
      | Some (i, s1) \<Rightarrow>
          (case take_frac s1 of
             None \<Rightarrow> None
           | Some (f, s2) \<Rightarrow>
               (case take_exp s2 of
                  None \<Rightarrow> None
                | Some (x, s3) \<Rightarrow> Some ((if neg then [CHR ''-''] else []) @ i @ f @ x, s3))))"

text \<open>\<^verbatim>\<open>maxNestingDepth\<close> of the decoder.\<close>

definition max_nesting :: nat where
  "max_nesting = 10000"

definition strip :: "bytes \<Rightarrow> bytes \<Rightarrow> bytes option" where
  "strip p s = (if prefix p s then Some (drop (length p) s) else None)"

text \<open>
  The recursive descent, with fuel for the recursion: at most two calls are made before a character
  is consumed, so \<open>2 * length s + 1\<close> units are enough (\<open>parse_fuel\<close> below shows that more change
  nothing).
\<close>

fun parse_value :: "nat \<Rightarrow> nat \<Rightarrow> bytes \<Rightarrow> (json \<times> bytes) option"
and parse_elems :: "nat \<Rightarrow> nat \<Rightarrow> bytes \<Rightarrow> (json list \<times> bytes) option"
and parse_members :: "nat \<Rightarrow> nat \<Rightarrow> bytes \<Rightarrow> ((bytes \<times> json) list \<times> bytes) option" where
  "parse_value 0 d s = None"
| "parse_value (Suc n) d s =
     (case skip_ws s of
        [] \<Rightarrow> None
      | c # cs \<Rightarrow>
          if c = CHR ''{'' then
            (if max_nesting \<le> d then None
             else (case skip_ws cs of
                     [] \<Rightarrow> None
                   | e # r \<Rightarrow> if e = CHR ''}'' then Some (JObj [], r)
                             else map_option (apfst JObj) (parse_members n (Suc d) (e # r))))
          else if c = CHR ''['' then
            (if max_nesting \<le> d then None
             else (case skip_ws cs of
                     [] \<Rightarrow> None
                   | e # r \<Rightarrow> if e = CHR '']'' then Some (JArr [], r)
                             else map_option (apfst JArr) (parse_elems n (Suc d) (e # r))))
          else if c = quote then map_option (apfst JStr) (parse_str cs)
          else if c = CHR ''t'' then map_option (Pair (JBool True)) (strip ''rue'' cs)
          else if c = CHR ''f'' then map_option (Pair (JBool False)) (strip ''alse'' cs)
          else if c = CHR ''n'' then map_option (Pair JNull) (strip ''ull'' cs)
          else map_option (apfst JNum) (parse_num (c # cs)))"
| "parse_elems 0 d s = None"
| "parse_elems (Suc n) d s =
     (case parse_value n d s of
        None \<Rightarrow> None
      | Some (v, r) \<Rightarrow>
          (case skip_ws r of
             [] \<Rightarrow> None
           | c # cs \<Rightarrow> if c = CHR '']'' then Some ([v], cs)
                      else if c = CHR '','' then map_option (apfst ((#) v)) (parse_elems n d cs)
                      else None))"
| "parse_members 0 d s = None"
| "parse_members (Suc n) d s =
     (case skip_ws s of
        [] \<Rightarrow> None
      | q # cs \<Rightarrow>
          if q \<noteq> quote then None
          else (case parse_str cs of
                  None \<Rightarrow> None
                | Some (k, r) \<Rightarrow>
                    (case skip_ws r of
                       [] \<Rightarrow> None
                     | c # r2 \<Rightarrow>
                         if c \<noteq> CHR '':'' then None
                         else (case parse_value n d r2 of
                                 None \<Rightarrow> None
                               | Some (v, r3) \<Rightarrow>
                                   (case skip_ws r3 of
                                      [] \<Rightarrow> None
                                    | e # r4 \<Rightarrow>
                                        if e = CHR ''}'' then Some ([(k, v)], r4)
                                        else if e = CHR '','' then
                                          map_option (apfst ((#) (k, v))) (parse_members n d r4)
                                        else None)))))"

text \<open>One value from the front of the input: the first step of \<^verbatim>\<open>Decoder.Decode\<close>.\<close>

definition json_value :: "bytes \<Rightarrow> (json \<times> bytes) option" where
  "json_value s = parse_value (2 * length s + 1) 0 s"

text \<open>The whole input is one value: the syntax check of \<^verbatim>\<open>json.Unmarshal\<close>.\<close>

definition json_parse :: "bytes \<Rightarrow> json option" where
  "json_parse s =
     (case json_value s of None \<Rightarrow> None | Some (v, r) \<Rightarrow> if skip_ws r = [] then Some v else None)"


section \<open>Strings round-trip\<close>

lemma hex4_esc:
  assumes "r < 65536"
  shows "hex4 (hex_digit (r div 4096) # hex_digit (r div 256 mod 16) #
               hex_digit (r div 16 mod 16) # hex_digit (r mod 16) # cs) = Some (r, cs)"
proof -
  have l: "r div 4096 < 16" using assms by (simp add: div_less_iff_less_mult)
  have "r div 4096 = r div 256 div 16" "r div 256 = r div 16 div 16"
    by (simp_all flip: div_mult2_eq)
  then have "((r div 4096 * 16 + r div 256 mod 16) * 16 + r div 16 mod 16) * 16 + r mod 16 = r"
    by (simp only: div_mult_mod_eq)
  with l show ?thesis by (simp add: hex4.simps)
qed

lemma parse_str_esc_u:
  assumes "r < 65536" and "\<not> is_surrogate r"
  shows "parse_str (esc_u r @ cs) = map_option (apfst ((@) (encode_rune r))) (parse_str cs)"
  using assms by (simp add: esc_u_def parse_str.simps(2) unicode_escape_def hex4_esc)

lemma encode_rune_ascii: "byte_of c < 128 \<Longrightarrow> encode_rune (byte_of c) = [c]"
  by (simp add: encode_rune_def)

lemma parse_str_esc_ascii:
  assumes "byte_of c < 128"
  shows "parse_str (esc_ascii c @ cs) = map_option (apfst ((#) c)) (parse_str cs)"
proof -
  have "(@) [c] = (#) c" by (simp add: fun_eq_iff)
  then have u: "parse_str (esc_u (byte_of c) @ cs) = map_option (apfst ((#) c)) (parse_str cs)"
    using assms by (simp add: parse_str_esc_u is_surrogate_def encode_rune_ascii)
  have raw: "parse_str (c # cs) = map_option (apfst ((#) c)) (parse_str cs)"
    if "c \<noteq> quote" "c \<noteq> bslash" "\<not> byte_of c < 32"
    using that assms \<open>(@) [c] = (#) c\<close> by (simp add: parse_str.simps(2) utf8_width.simps(2))
  show ?thesis
    unfolding esc_ascii_def using u raw
    by (auto simp: parse_str.simps(2) simple_escape_def)
qed

text \<open>Decoding a well-formed sequence and encoding it again.\<close>

lemma encode_rune3:
  assumes "r div 4096 = i" "r div 64 mod 64 = j" "r mod 64 = k"
    and "2048 \<le> r" "r < 65536" "r < 55296 \<or> 57343 < r"
  shows "encode_rune r = [char_of (224 + i), char_of (128 + j), char_of (128 + k)]"
  using assms(4-6) unfolding encode_rune_def assms(1-3) [symmetric] by auto

lemma rune3_digits:
  fixes i j k :: nat
  assumes "j < 64" "k < 64"
  defines "r \<equiv> (i * 64 + j) * 64 + k"
  shows "r div 4096 = i" "r div 64 mod 64 = j" "r mod 64 = k"
proof -
  show "r mod 64 = k" unfolding r_def using assms(2) by (simp only: mod_mult_self3 mod_less)
  have d: "r div 64 = i * 64 + j" unfolding r_def using assms(2) by simp
  show "r div 64 mod 64 = j" unfolding d using assms(1) by (simp only: mod_mult_self3 mod_less)
  have "r div 4096 = r div 64 div 64" by (simp flip: div_mult2_eq)
  then show "r div 4096 = i" unfolding d using assms(1) by simp
qed

lemma rune3_bounds:
  fixes i j k :: nat
  assumes "i < 16" "j < 64" "k < 64" "i = 0 \<Longrightarrow> 32 \<le> j" "i = 13 \<Longrightarrow> j < 32"
  defines "r \<equiv> (i * 64 + j) * 64 + k"
  shows "2048 \<le> r" "r < 65536" "r < 55296 \<or> 57343 < r"
proof -
  have r: "r = i * 4096 + j * 64 + k" by (simp add: r_def)
  show "r < 65536" unfolding r using assms(1-3) by linarith
  show "2048 \<le> r" unfolding r using assms(4) by (cases "i = 0") simp_all
  consider "i \<le> 12" | "i = 13" | "14 \<le> i" by linarith
  then show "r < 55296 \<or> 57343 < r"
    unfolding r using assms(2,3,5) by cases linarith+
qed

lemma utf8_width_2:
  "utf8_width s = Some 2 \<Longrightarrow> \<exists>a b t. s = a # b # t \<and> 194 \<le> byte_of a \<and> byte_of a \<le> 223"
  by (cases s) (auto simp: utf8_width.simps(2) split: if_splits list.splits)

lemma utf8_width_3:
  "utf8_width s = Some 3 \<Longrightarrow>
     \<exists>a b c t. s = a # b # c # t \<and> 224 \<le> byte_of a \<and> byte_of a \<le> 239 \<and> in_second a b \<and> is_cont c"
  by (cases s) (auto simp: utf8_width.simps(2) split: if_splits list.splits)

lemma utf8_width_4:
  "utf8_width s = Some 4 \<Longrightarrow>
     \<exists>a b c d t. s = a # b # c # d # t \<and> 240 \<le> byte_of a \<and> byte_of a \<le> 244 \<and> in_second a b"
  by (cases s) (auto simp: utf8_width.simps(2) split: if_splits list.splits)

lemma lineseps_chunk:
  assumes "utf8_width s = Some n" and "rune_of (take n s) = 8232 \<or> rune_of (take n s) = 8233"
    and "n \<noteq> 1"
  shows "encode_rune (rune_of (take n s)) = take n s"
proof -
  from assms(1,3) have "n = 2 \<or> n = 3 \<or> n = 4"
    using utf8_width_bounds [OF assms(1)] by auto
  then consider (two) a b t where "s = a # b # t" "n = 2" "194 \<le> byte_of a" "byte_of a \<le> 223"
    | (three) a b c t where "s = a # b # c # t" "n = 3" "224 \<le> byte_of a" "byte_of a \<le> 239"
        "in_second a b" "is_cont c"
    | (four) a b c d t where "s = a # b # c # d # t" "n = 4" "240 \<le> byte_of a" "byte_of a \<le> 244"
        "in_second a b"
    using assms(1) utf8_width_2 [of s] utf8_width_3 [of s] utf8_width_4 [of s] by (elim disjE) auto
  then show ?thesis
  proof cases
    case two
    have "byte_of a mod 32 < 32" "byte_of b mod 64 < 64" by simp_all
    then have "rune_of (take n s) < 2048" unfolding two by simp
    with assms(2) show ?thesis by auto
  next
    case three
    then have b: "128 \<le> byte_of b" "byte_of b \<le> 191" and c: "128 \<le> byte_of c" "byte_of c \<le> 191"
      by (auto simp: in_second_def second_range_def is_cont_def split: if_splits)
    define i j k where "i = byte_of a - 224" and "j = byte_of b - 128" and "k = byte_of c - 128"
    have m: "byte_of a = 224 + i" "byte_of b = 128 + j" "byte_of c = 128 + k" "i < 16" "j < 64" "k < 64"
      using three b c by (auto simp: i_def j_def k_def)
    have "byte_of a mod 16 = i" "byte_of b mod 64 = j" "byte_of c mod 64 = k"
      using mod_mult_self3 [of 14 16 i] mod_mult_self3 [of 2 64 j] mod_mult_self3 [of 2 64 k] m
      by simp_all
    then have r: "rune_of (take n s) = (i * 64 + j) * 64 + k"
      unfolding three by simp
    have q: "i = 0 \<Longrightarrow> 32 \<le> j" "i = 13 \<Longrightarrow> j < 32"
      using three m by (auto simp: in_second_def second_range_def)
    have "encode_rune ((i * 64 + j) * 64 + k) = [char_of (224 + i), char_of (128 + j), char_of (128 + k)]"
      by (rule encode_rune3 [OF rune3_digits [OF m(5,6)] rune3_bounds [OF m(4-6) q]])
    moreover have "char_of (224 + i) = a" "char_of (128 + j) = b" "char_of (128 + k) = c"
      unfolding m(1-3) [symmetric] by simp_all
    ultimately show ?thesis unfolding r by (simp add: three)
  next
    case four
    have b: "128 \<le> byte_of b" "byte_of b \<le> 191" "byte_of a = 240 \<Longrightarrow> 144 \<le> byte_of b"
      using four by (auto simp: in_second_def second_range_def split: if_splits)
    define i j where "i = byte_of a - 240" and "j = byte_of b - 128"
    have m: "byte_of a = 240 + i" "byte_of b = 128 + j" "i < 8" "j < 64" "i = 0 \<Longrightarrow> 16 \<le> j"
      using four b by (auto simp: i_def j_def)
    have "16 \<le> i * 64 + j" using m(5) by (cases i) auto
    moreover have "byte_of a mod 8 = i" "byte_of b mod 64 = j"
      using mod_mult_self3 [of 30 8 i] mod_mult_self3 [of 2 64 j] m by simp_all
    ultimately have "65536 \<le> rune_of (take n s)" unfolding four by simp
    with assms(2) show ?thesis by auto
  qed
qed


lemma parse_str_chunk:
  assumes "utf8_width s = Some n"
  shows "parse_str (esc_chunk (take n s, True) @ cs) = map_option (apfst ((@) (take n s))) (parse_str cs)"
proof (cases "n = 1")
  case True
  with assms obtain c t where s: "s = c # t" "byte_of c < 128"
    by (cases s) (auto simp: utf8_width.simps(2) split: if_splits list.splits)
  have "(@) [c] = (#) c" by (simp add: fun_eq_iff)
  with True s show ?thesis by (simp add: esc_chunk_def parse_str_esc_ascii)
next
  case False
  from utf8_width_bounds [OF assms] have l: "length (take n s) = n" and n: "1 \<le> n" by auto
  show ?thesis
  proof (cases "rune_of (take n s) = 8232 \<or> rune_of (take n s) = 8233")
    case True
    with False l lineseps_chunk [OF assms True False] show ?thesis
      by (auto simp: esc_chunk_def parse_str_esc_u is_surrogate_def)
  next
    case raw: False
    obtain c t where s: "s = c # t" using assms by (cases s) auto
    have c: "\<not> byte_of c < 128"
      using assms False by (auto simp: s utf8_width.simps(2))
    then have "c \<noteq> quote" "c \<noteq> bslash" "\<not> byte_of c < 32" by auto
    moreover obtain t' where tk: "take n s = c # t'" using n s by (cases n) auto
    moreover have "utf8_width (c # t' @ cs) = Some n"
      using utf8_width_take [OF assms, of cs] tk by simp
    moreover have "take n (c # t' @ cs) = c # t'" "drop n (c # t' @ cs) = cs"
      using l tk by (metis append_Cons append_eq_conv_conj)+
    ultimately have "parse_str (take n s @ cs) = map_option (apfst ((@) (take n s))) (parse_str cs)"
      by (simp add: parse_str.simps(2))
    moreover have "esc_chunk (take n s, True) = take n s"
      using raw False l by (simp add: esc_chunk_def)
    ultimately show ?thesis by simp
  qed
qed

lemma parse_str_escape:
  "valid_utf8 s \<Longrightarrow> parse_str (json_escape s @ quote # r) = Some (s, r)"
proof (induction s rule: utf8_chunks.induct)
  case 1
  show ?case by (simp add: json_escape_def parse_str.simps(2))
next
  case (2 c cs)
  from "2.prems" obtain n where n: "utf8_width (c # cs) = Some n"
    and v: "valid_utf8 (drop n (c # cs))"
    by (auto simp: valid_utf8_Cons split: option.splits)
  have "json_escape (c # cs) = esc_chunk (take n (c # cs), True) @ json_escape (drop n (c # cs))"
    by (simp add: json_escape_def utf8_chunks.simps(2) n)
  moreover have "parse_str (json_escape (drop n (c # cs)) @ quote # r) = Some (drop n (c # cs), r)"
    using "2.IH"(2) [OF n v] .
  ultimately show ?case
    using parse_str_chunk [OF n, of "json_escape (drop n (c # cs)) @ quote # r"] by simp
qed

section \<open>Values round-trip\<close>

text \<open>
  The trees the program prints: strings are valid UTF-8 (an invalid byte is replaced when it is
  printed), numbers are decimal literals.
\<close>

fun json_wf :: "json \<Rightarrow> bool" where
  "json_wf (JNum t) = (\<exists>n. t = dec n)"
| "json_wf (JStr s) = valid_utf8 s"
| "json_wf (JArr xs) = (\<forall>x\<in>set xs. json_wf x)"
| "json_wf (JObj kvs) = (\<forall>kv\<in>set kvs. valid_utf8 (fst kv) \<and> json_wf (snd kv))"
| "json_wf _ = True"

fun json_depth :: "json \<Rightarrow> nat" where
  "json_depth (JArr xs) = Suc (foldr max (map json_depth xs) 0)"
| "json_depth (JObj kvs) = Suc (foldr max (map (\<lambda>kv. json_depth (snd kv)) kvs) 0)"
| "json_depth _ = 0"

text \<open>What may follow a printed value.\<close>

definition ends_value :: "bytes \<Rightarrow> bool" where
  "ends_value r \<longleftrightarrow> r = [] \<or> hd r = CHR '','' \<or> hd r = CHR '']'' \<or> hd r = CHR ''}''"

lemma ends_value_simps [simp]:
  "ends_value []" "ends_value (CHR '','' # r)" "ends_value (CHR '']'' # r)" "ends_value (CHR ''}'' # r)"
  by (simp_all add: ends_value_def)

lemma ends_value_no_digit: "ends_value r \<Longrightarrow> r \<noteq> [] \<Longrightarrow> \<not> is_digit (hd r)"
  by (auto simp: ends_value_def is_digit_def)

lemma span_digits:
  assumes "\<forall>c\<in>set t. is_digit c" and "ends_value r"
  shows "takeWhile is_digit (t @ r) = t" "dropWhile is_digit (t @ r) = r"
proof -
  have "takeWhile is_digit r = []" "dropWhile is_digit r = r"
    using ends_value_no_digit [OF assms(2)] by (cases r; simp)+
  then show "takeWhile is_digit (t @ r) = t" "dropWhile is_digit (t @ r) = r"
    using assms(1) by (simp_all add: takeWhile_append2 dropWhile_append2)
qed

lemma parse_num_dec:
  assumes "ends_value r"
  shows "parse_num (dec n @ r) = Some (dec n, r)"
proof -
  obtain c t where ct: "dec n = c # t" by (cases "dec n") auto
  have dig: "\<forall>x\<in>set (c # t). is_digit x" using dec_digits [of n] ct by simp
  then have c: "c \<noteq> CHR ''-''" by (auto simp: is_digit_def)
  have "take_int (c # t @ r) = Some (c # t, r)"
  proof (cases "n = 0")
    case True
    with ct have "c = CHR ''0''" "t = []" by (simp_all add: dec_zero)
    then show ?thesis by (simp add: take_int_def)
  next
    case False
    with ct dec_hd [of n] have "c \<noteq> CHR ''0''" by simp
    with dig span_digits [OF dig assms] show ?thesis by (simp add: take_int_def)
  qed
  moreover have "take_frac r = Some ([], r)" "take_exp r = Some ([], r)"
    using assms by (auto simp: take_frac_def take_exp_def ends_value_def split: list.splits)
  ultimately show ?thesis using c by (simp add: parse_num_def ct)
qed


lemma skip_ws_id: "\<not> is_ws c \<Longrightarrow> skip_ws (c # cs) = c # cs"
  by simp

lemma first_chars [simp]:
  "\<not> is_ws quote" "\<not> is_ws (CHR ''['')" "\<not> is_ws (CHR ''{'')" "\<not> is_ws (CHR '']'')"
  "\<not> is_ws (CHR ''}'')" "\<not> is_ws (CHR '','')" "\<not> is_ws (CHR '':'')" "\<not> is_ws (CHR ''t'')"
  "\<not> is_ws (CHR ''f'')" "\<not> is_ws (CHR ''n'')"
  by (simp_all add: is_ws_def)

lemma digit_not_ws: "is_digit c \<Longrightarrow> \<not> is_ws c"
  by (auto simp: is_digit_def is_ws_def)

lemma json_print_head:
  assumes "json_wf j"
  obtains c t where "json_print j = c # t" "\<not> is_ws c" "c \<noteq> CHR '']''" "c \<noteq> CHR ''}''"
proof (cases j)
  case (JNum t)
  with assms obtain n where "t = dec n" by auto
  moreover obtain c u where "dec n = c # u" by (cases "dec n") auto
  moreover from this dec_digits [of n] have "is_digit c" by simp
  then have "c \<noteq> CHR '']''" "c \<noteq> CHR ''}''" "\<not> is_ws c" by (auto simp: is_digit_def is_ws_def)
  ultimately show ?thesis using that [of c u] JNum by simp
next
  case (JBool b)
  then show ?thesis using that by (cases b) simp_all
qed (use that in \<open>simp_all add: json_string_def\<close>)

lemma json_depth_elem:
  "x \<in> set xs \<Longrightarrow> json_depth x \<le> foldr max (map json_depth xs) 0"
  by (induction xs) auto

lemma json_depth_member:
  "kv \<in> set kvs \<Longrightarrow> json_depth (snd kv) \<le> foldr max (map (\<lambda>kv. json_depth (snd kv)) kvs) 0"
  by (induction kvs) auto

text \<open>The statement proved for one tree, to be assumed of its children.\<close>

definition parses :: "json \<Rightarrow> bool" where
  "parses j \<longleftrightarrow>
     (\<forall>n d r. length (json_print j) < n \<longrightarrow> json_depth j + d \<le> max_nesting \<longrightarrow> ends_value r \<longrightarrow>
        parse_value n d (json_print j @ r) = Some (j, r))"

lemma parse_elems_print:
  assumes "xs \<noteq> []" and "\<forall>x\<in>set xs. parses x \<and> json_depth x + d \<le> max_nesting"
    and "length (commas (map json_print xs)) + 1 < n"
  shows "parse_elems n d (commas (map json_print xs) @ CHR '']'' # r) = Some (xs, r)"
  using assms
proof (induction xs arbitrary: n)
  case Nil
  then show ?case by simp
next
  case (Cons y ys)
  obtain m where n: "n = Suc m" using Cons.prems(3) by (cases n) auto
  have y: "parse_value m d (json_print y @ rest) = Some (y, rest)"
    if "ends_value rest" "length (json_print y) < m" for rest
    using Cons.prems(2) that by (simp add: parses_def)
  show ?case
  proof (cases ys)
    case Nil
    with Cons.prems(3) n have "length (json_print y) < m" by simp
    with y [of "CHR '']'' # r"] n Nil show ?thesis by simp
  next
    case more: (Cons y' zs)
    let ?c = "commas (map json_print ys)"
    have c: "commas (map json_print (y # ys)) = json_print y @ CHR '','' # ?c"
      by (simp add: more)
    then have l: "length (json_print y) < m" "length ?c + 1 < m"
      using Cons.prems(3) n by simp_all
    have "parse_elems m d (?c @ CHR '']'' # r) = Some (ys, r)"
      by (rule Cons.IH) (use Cons.prems(2) more l(2) in simp_all)
    with y [of "CHR '','' # ?c @ CHR '']'' # r"] l(1) show ?thesis
      unfolding c n by simp
  qed
qed


definition print_member :: "bytes \<times> json \<Rightarrow> bytes" where
  "print_member kv = json_string (fst kv) @ CHR '':'' # json_print (snd kv)"

lemma json_print_obj:
  "json_print (JObj kvs) = CHR ''{'' # commas (map print_member kvs) @ ''}''"
proof -
  have "(\<lambda>(k, v). json_string k @ CHR '':'' # json_print v) = print_member"
    by (simp add: fun_eq_iff print_member_def split: prod.split)
  then show ?thesis by simp
qed

lemma parse_members_print:
  assumes "kvs \<noteq> []"
    and "\<forall>kv\<in>set kvs. valid_utf8 (fst kv) \<and> parses (snd kv) \<and> json_depth (snd kv) + d \<le> max_nesting"
    and "length (commas (map print_member kvs)) + 1 < n"
  shows "parse_members n d (commas (map print_member kvs) @ CHR ''}'' # r) = Some (kvs, r)"
  using assms
proof (induction kvs arbitrary: n)
  case Nil
  then show ?case by simp
next
  case (Cons kv kvs)
  obtain k v where kv: "kv = (k, v)" by (cases kv)
  obtain m where n: "n = Suc m" using Cons.prems(3) by (cases n) auto
  have v: "parse_value m d (json_print v @ rest) = Some (v, rest)"
    if "ends_value rest" "length (json_print v) < m" for rest
    using Cons.prems(2) that kv by (simp add: parses_def)
  have k: "parse_str (json_escape k @ quote # rest) = Some (k, rest)" for rest
    using Cons.prems(2) kv by (simp add: parse_str_escape)
  have pm: "print_member kv = quote # json_escape k @ quote # CHR '':'' # json_print v"
    by (simp add: kv print_member_def json_string_def)
  show ?case
  proof (cases kvs)
    case Nil
    with Cons.prems(3) n pm have "length (json_print v) < m" by simp
    with v [of "CHR ''}'' # r"] k n Nil kv pm show ?thesis by simp
  next
    case more: (Cons kv' zs)
    let ?c = "commas (map print_member kvs)"
    have c: "commas (map print_member (kv # kvs)) = print_member kv @ CHR '','' # ?c"
      by (simp add: more)
    then have l: "length (json_print v) < m" "length ?c + 1 < m"
      using Cons.prems(3) n pm by simp_all
    have "parse_members m d (?c @ CHR ''}'' # r) = Some (kvs, r)"
      by (rule Cons.IH) (use Cons.prems(2) more l(2) in simp_all)
    with v [of "CHR '','' # ?c @ CHR ''}'' # r"] l(1) k show ?thesis
      unfolding c n pm by (simp add: kv)
  qed
qed

lemma parses_print: "json_wf j \<Longrightarrow> parses j"
proof (induction j)
  case (JNum t)
  then obtain k where k: "t = dec k" by auto
  obtain c u where cu: "dec k = c # u" by (cases "dec k") auto
  have dig: "is_digit c" using dec_digits [of k] cu by simp
  then have "\<not> is_ws c" "c \<noteq> CHR ''{''" "c \<noteq> CHR ''[''" "c \<noteq> quote" "c \<noteq> CHR ''t''"
      "c \<noteq> CHR ''f''" "c \<noteq> CHR ''n''"
    by (auto simp: is_digit_def is_ws_def)
  moreover have "parse_num (c # u @ r) = Some (c # u, r)" if "ends_value r" for r
    using parse_num_dec [OF that, of k] cu by simp
  ultimately show ?case
    unfolding parses_def k cu by (auto elim!: less_natE)
next
  case (JStr s)
  then show ?case
    unfolding parses_def by (auto simp: json_string_def parse_str_escape elim!: less_natE)
next
  case (JArr xs)
  show ?case
    unfolding parses_def
  proof (intro allI impI)
    fix n d r
    assume l: "length (json_print (JArr xs)) < n" and d: "json_depth (JArr xs) + d \<le> max_nesting"
    then obtain m where n: "n = Suc m" by (cases n) auto
    have el: "\<forall>x\<in>set xs. parses x \<and> json_depth x + Suc d \<le> max_nesting"
      using JArr d by (fastforce dest: json_depth_elem)
    show "parse_value n d (json_print (JArr xs) @ r) = Some (JArr xs, r)"
    proof (cases xs)
      case Nil
      with n d show ?thesis by simp
    next
      case (Cons y ys)
      with JArr.prems obtain c t where ct: "json_print y = c # t" "\<not> is_ws c" "c \<noteq> CHR '']''"
        by (auto elim: json_print_head)
      then obtain t' where t': "commas (map json_print xs) = c # t'"
        using Cons by (cases ys) auto
      have "parse_elems m (Suc d) (commas (map json_print xs) @ CHR '']'' # r) = Some (xs, r)"
        by (rule parse_elems_print) (use Cons el l n in simp_all)
      with t' ct d n show ?thesis by simp
    qed
  qed
next
  case (JObj kvs)
  show ?case
    unfolding parses_def
  proof (intro allI impI)
    fix n d r
    assume l: "length (json_print (JObj kvs)) < n" and d: "json_depth (JObj kvs) + d \<le> max_nesting"
    then obtain m where n: "n = Suc m" by (cases n) auto
    have el: "\<forall>kv\<in>set kvs. valid_utf8 (fst kv) \<and> parses (snd kv) \<and>
        json_depth (snd kv) + Suc d \<le> max_nesting"
      using JObj d by (fastforce dest: json_depth_member simp: snds.simps)
    show "parse_value n d (json_print (JObj kvs) @ r) = Some (JObj kvs, r)"
    proof (cases kvs)
      case Nil
      with n d show ?thesis by simp
    next
      case (Cons y ys)
      then obtain t' where t': "commas (map print_member kvs) = quote # t'"
        by (cases ys) (auto simp: print_member_def json_string_def)
      have "parse_members m (Suc d) (commas (map print_member kvs) @ CHR ''}'' # r) = Some (kvs, r)"
        by (rule parse_members_print) (use Cons el l n in \<open>simp_all add: json_print_obj del: json_print.simps\<close>)
      with t' d n show ?thesis by (simp add: json_print_obj del: json_print.simps)
    qed
  qed
next
  case (JBool b)
  then show ?case
    unfolding parses_def by (cases b) (auto simp: strip_def elim!: less_natE)
next
  case JNull
  then show ?case unfolding parses_def by (auto simp: strip_def elim!: less_natE)
qed

theorem json_parse_print:
  assumes "json_wf j" and "json_depth j \<le> max_nesting"
  shows "json_value (json_print j) = Some (j, [])" and "json_parse (json_print j) = Some j"
proof -
  show "json_value (json_print j) = Some (j, [])"
    using parses_print [OF assms(1)] assms(2) unfolding parses_def json_value_def
    by (metis add_0_right append_Nil2 ends_value_simps(1) less_add_one le_add2 mult_2 order_le_less_trans
        add.assoc)
  then show "json_parse (json_print j) = Some j" by (simp add: json_parse_def)
qed


section \<open>Fuel\<close>

lemma skip_ws_length: "length (skip_ws s) \<le> length s"
  by (rule length_dropWhile_le)

lemma skip_ws_Cons_length: "skip_ws s = c # cs \<Longrightarrow> length cs < length s"
  using skip_ws_length [of s] by simp

lemma parse_str_length: "parse_str s = Some (t, r) \<Longrightarrow> length r < length s"
proof (induction "length s" arbitrary: s t rule: less_induct)
  case less
  have IH: "length r < length s" if "parse_str s' = Some (t', r)" "length s' < length s" for s' t'
    using less.hyps [OF that(2,1)] that(2) by simp
  show ?case
  proof (cases s)
    case (Cons c cs)
    from less.prems [unfolded Cons] show ?thesis
      unfolding Cons
      by (auto simp: parse_str.simps(2) split: if_splits list.splits option.splits
          dest!: IH [unfolded Cons, simplified] unicode_escape_length dest: utf8_width_bounds)
  qed (use less.prems in simp)
qed

lemma take_digits1_length: "take_digits1 s = Some (t, r) \<Longrightarrow> length r \<le> length s"
  by (auto simp: take_digits1_def split: list.splits if_splits) (simp add: le_SucI length_dropWhile_le)

lemma take_int_length: "take_int s = Some (t, r) \<Longrightarrow> length r < length s"
  by (auto simp: take_int_def less_Suc_eq_le length_dropWhile_le split: list.splits if_splits)

lemma take_frac_length: "take_frac s = Some (t, r) \<Longrightarrow> length r \<le> length s"
  by (auto simp: take_frac_def split: list.splits if_splits dest!: take_digits1_length)

lemma take_exp_length: "take_exp s = Some (t, r) \<Longrightarrow> length r \<le> length s"
  by (auto simp: take_exp_def split: list.splits if_splits dest!: take_digits1_length)

lemma parse_num_length: "parse_num s = Some (t, r) \<Longrightarrow> length r < length s"
  by (cases s) (auto simp: parse_num_def Let_def split: option.splits if_splits
      dest!: take_int_length take_frac_length take_exp_length)

lemma strip_length: "strip p s = Some r \<Longrightarrow> length r \<le> length s"
  by (auto simp: strip_def split: if_splits)

text \<open>What a successful step of the two loops consumed.\<close>

lemma parse_elems_SucE:
  assumes "parse_elems (Suc n) d s = Some (vs, r)"
  obtains v r' c cs where "parse_value n d s = Some (v, r')" "skip_ws r' = c # cs"
    "r = cs \<or> (\<exists>vs'. parse_elems n d cs = Some (vs', r))"
  using assms by (fastforce split: option.splits list.splits if_splits)

lemma parse_members_SucE:
  assumes "parse_members (Suc n) d s = Some (ms, r)"
  obtains q cs k r1 c r2 v r3 e r4 where "skip_ws s = q # cs" "parse_str cs = Some (k, r1)"
    "skip_ws r1 = c # r2" "parse_value n d r2 = Some (v, r3)" "skip_ws r3 = e # r4"
    "r = r4 \<or> (\<exists>ms'. parse_members n d r4 = Some (ms', r))"
  using assms by (fastforce split: option.splits list.splits if_splits)

lemma parse_length:
  "(\<forall>d s v r. parse_value n d s = Some (v, r) \<longrightarrow> length r < length s) \<and>
   (\<forall>d s vs r. parse_elems n d s = Some (vs, r) \<longrightarrow> length r < length s) \<and>
   (\<forall>d s ms r. parse_members n d s = Some (ms, r) \<longrightarrow> length r < length s)"
proof (induction n)
  case (Suc n)
  have v: "length r < length s" if p: "parse_value (Suc n) d s = Some (v, r)" for d s v r
  proof -
    from p obtain c cs where s: "skip_ws s = c # cs" by (auto split: list.splits)
    have "length r \<le> length cs"
      using p Suc.IH s
      by (auto split: if_splits list.splits dest!: skip_ws_Cons_length parse_str_length strip_length
          parse_num_length) fastforce+
    with skip_ws_Cons_length [OF s] show ?thesis by simp
  qed
  have e: "length r < length s" if p: "parse_elems (Suc n) d s = Some (vs, r)" for d s vs r
    using p
  proof (rule parse_elems_SucE)
    fix v r' c cs
    assume "parse_value n d s = Some (v, r')" "skip_ws r' = c # cs"
      "r = cs \<or> (\<exists>vs'. parse_elems n d cs = Some (vs', r))"
    with Suc.IH show ?thesis by (meson less_trans skip_ws_Cons_length)
  qed
  have m: "length r < length s" if p: "parse_members (Suc n) d s = Some (ms, r)" for d s ms r
    using p
  proof (rule parse_members_SucE)
    fix q cs k r1 c r2 v r3 e r4
    assume "skip_ws s = q # cs" "parse_str cs = Some (k, r1)" "skip_ws r1 = c # r2"
      "parse_value n d r2 = Some (v, r3)" "skip_ws r3 = e # r4"
      "r = r4 \<or> (\<exists>ms'. parse_members n d r4 = Some (ms', r))"
    with Suc.IH show ?thesis by (meson less_trans skip_ws_Cons_length parse_str_length)
  qed
  from v e m show ?case by blast
qed simp

lemma parse_fuel_step:
  "(\<forall>d s. 2 * length s + 1 \<le> n \<longrightarrow> parse_value (Suc n) d s = parse_value n d s) \<and>
   (\<forall>d s. 2 * length s + 2 \<le> n \<longrightarrow> parse_elems (Suc n) d s = parse_elems n d s) \<and>
   (\<forall>d s. 2 * length s + 2 \<le> n \<longrightarrow> parse_members (Suc n) d s = parse_members n d s)"
proof (induction n)
  case (Suc n)
  have v: "parse_value (Suc (Suc n)) d s = parse_value (Suc n) d s"
    if l: "2 * length s + 1 \<le> Suc n" for d s
  proof (cases "skip_ws s")
    case (Cons c cs)
    have "parse_elems (Suc n) d' (e # r) = parse_elems n d' (e # r)"
      "parse_members (Suc n) d' (e # r) = parse_members n d' (e # r)" if "skip_ws cs = e # r" for d' e r
      using Suc.IH skip_ws_Cons_length [OF Cons] skip_ws_length [of cs] l that
      by (auto simp del: parse_elems.simps parse_members.simps)
    then show ?thesis using Cons
      by (cases "skip_ws cs") (simp_all add: parse_value.simps(2) [of "Suc n"] parse_value.simps(2) [of n]
          del: parse_value.simps parse_elems.simps parse_members.simps dropWhile_eq_Nil_conv)
  qed (simp del: dropWhile_eq_Nil_conv)
  have e: "parse_elems (Suc (Suc n)) d s = parse_elems (Suc n) d s"
    if l: "2 * length s + 2 \<le> Suc n" for d s
  proof -
    have "parse_value (Suc n) d s = parse_value n d s" using Suc.IH l by auto
    moreover have "parse_elems (Suc n) d cs = parse_elems n d cs"
      if "parse_value n d s = Some (v, r)" "skip_ws r = c # cs" for v r c cs
    proof -
      have "length r < length s" using parse_length that(1) by blast
      with skip_ws_Cons_length [OF that(2)] l Suc.IH show ?thesis by (auto simp del: parse_elems.simps)
    qed
    ultimately show ?thesis
      unfolding parse_elems.simps(2) [of "Suc n"] parse_elems.simps(2) [of n d s]
      by (auto simp del: parse_value.simps parse_elems.simps dropWhile_eq_Nil_conv
          split: option.splits list.splits)
  qed
  have m: "parse_members (Suc (Suc n)) d s = parse_members (Suc n) d s"
    if l: "2 * length s + 2 \<le> Suc n" for d s
  proof -
    have 1: "parse_value (Suc n) d r2 = parse_value n d r2"
      if "skip_ws s = q # cs" "parse_str cs = Some (k, r)" "skip_ws r = c # r2" for q cs k r c r2
      using Suc.IH l skip_ws_Cons_length [OF that(1)] parse_str_length [OF that(2)]
        skip_ws_Cons_length [OF that(3)] by auto
    have 2: "parse_members (Suc n) d r4 = parse_members n d r4"
      if "skip_ws s = q # cs" "parse_str cs = Some (k, r)" "skip_ws r = c # r2"
        "parse_value n d r2 = Some (v, r3)" "skip_ws r3 = e # r4" for q cs k r c r2 v r3 e r4
    proof -
      have "length r3 < length r2" using parse_length that(4) by blast
      with Suc.IH l skip_ws_Cons_length [OF that(1)] parse_str_length [OF that(2)]
        skip_ws_Cons_length [OF that(3)] skip_ws_Cons_length [OF that(5)]
      show ?thesis by (auto simp del: parse_members.simps)
    qed
    show ?thesis
      using 1 2
      unfolding parse_members.simps(2) [of "Suc n"] parse_members.simps(2) [of n d s]
      by (auto simp del: parse_value.simps parse_members.simps dropWhile_eq_Nil_conv
          split: option.splits list.splits)
  qed
  from v e m show ?case by blast
qed simp

text \<open>The fuel of \<open>json_value\<close> is enough: any larger amount gives the same result.\<close>

lemma parse_fuel: "2 * length s + 1 \<le> n \<Longrightarrow> parse_value n 0 s = json_value s"
  unfolding json_value_def
proof (induction n rule: dec_induct)
  case (step n)
  then show ?case using parse_fuel_step [of n] by auto
qed simp

section \<open>From a tree to a Go value\<close>

text \<open>
  A decoder takes the current value of the target and a tree, and returns the new value or nothing
  where \<^verbatim>\<open>encoding/json\<close> reports an error (every caller discards the target then).
\<close>

type_synonym 'a decoder = "'a \<Rightarrow> json \<Rightarrow> 'a option"

definition dec_string :: "bytes decoder" where
  "dec_string x j = (case j of JNull \<Rightarrow> Some x | JStr s \<Rightarrow> Some s | _ \<Rightarrow> None)"

definition dec_bool :: "bool decoder" where
  "dec_bool x j = (case j of JNull \<Rightarrow> Some x | JBool b \<Rightarrow> Some b | _ \<Rightarrow> None)"

text \<open>\<^verbatim>\<open>strconv.ParseUint(literal, 10, w)\<close>: digits only, and in range.\<close>

definition parse_uint :: "nat \<Rightarrow> bytes \<Rightarrow> nat option" where
  "parse_uint w t = (if t \<noteq> [] \<and> list_all is_digit t \<and> dec_val t < 2 ^ w then Some (dec_val t) else None)"

definition dec_u64 :: "u64 decoder" where
  "dec_u64 x j =
     (case j of JNull \<Rightarrow> Some x | JNum t \<Rightarrow> map_option of_nat (parse_uint 64 t) | _ \<Rightarrow> None)"

definition dec_u8 :: "char decoder" where
  "dec_u8 x j =
     (case j of JNull \<Rightarrow> Some x | JNum t \<Rightarrow> map_option char_of (parse_uint 8 t) | _ \<Rightarrow> None)"

text \<open>
  A slice: element \<open>i\<close> is decoded over the element the slice already has there (a repeated member
  of an object), or over the zero value \<open>z\<close>.
\<close>

fun dec_elems :: "'a decoder \<Rightarrow> 'a \<Rightarrow> 'a list \<Rightarrow> json list \<Rightarrow> 'a list option" where
  "dec_elems f z old [] = Some []"
| "dec_elems f z old (v # vs) =
     (case f (case old of [] \<Rightarrow> z | x # _ \<Rightarrow> x) v of
        None \<Rightarrow> None
      | Some y \<Rightarrow> map_option ((#) y) (dec_elems f z (tl old) vs))"

definition dec_slice :: "'a decoder \<Rightarrow> 'a \<Rightarrow> 'a list decoder" where
  "dec_slice f z old j = (case j of JNull \<Rightarrow> Some [] | JArr vs \<Rightarrow> dec_elems f z old vs | _ \<Rightarrow> None)"

text \<open>\<^verbatim>\<open>[]byte\<close>: base64 text, or an array of numbers.\<close>

definition dec_bytes :: "bytes decoder" where
  "dec_bytes old j = (case j of JStr s \<Rightarrow> b64_decode s | _ \<Rightarrow> dec_slice dec_u8 (CHR 0x00) old j)"

text \<open>\<^verbatim>\<open>map[string]T\<close>: every member is decoded over the zero value.\<close>

fun dec_entries :: "'a decoder \<Rightarrow> 'a \<Rightarrow> (bytes \<times> 'a) list \<Rightarrow> (bytes \<times> json) list \<Rightarrow> (bytes \<times> 'a) list option" where
  "dec_entries f z m [] = Some m"
| "dec_entries f z m ((k, v) # kvs) =
     (case f z v of None \<Rightarrow> None | Some y \<Rightarrow> dec_entries f z (AList.update k y m) kvs)"

definition dec_map :: "'a decoder \<Rightarrow> 'a \<Rightarrow> (bytes \<times> 'a) list decoder" where
  "dec_map f z m j = (case j of JNull \<Rightarrow> Some [] | JObj kvs \<Rightarrow> dec_entries f z m kvs | _ \<Rightarrow> None)"

text \<open>
  The name under which a member is looked up when no field has its exact name: ASCII letters in
  upper case, and the two other characters whose case folding is an ASCII letter, the Kelvin sign
  and the long s.
\<close>

definition fold_chunk :: "bytes \<Rightarrow> bytes" where
  "fold_chunk c =
     (if length c = 1 then map (\<lambda>x. if 97 \<le> byte_of x \<and> byte_of x \<le> 122 then char_of (byte_of x - 32) else x) c
      else if c = [CHR 0xE2, CHR 0x84, CHR 0xAA] then ''K''
      else if c = [CHR 0xC5, CHR 0xBF] then ''S''
      else c)"

definition fold_name :: "bytes \<Rightarrow> bytes" where
  "fold_name k = concat (map (\<lambda>p. fold_chunk (fst p)) (utf8_chunks k))"

type_synonym 'a fields = "(bytes \<times> 'a decoder) list"

fun find_folded :: "bytes \<Rightarrow> 'a fields \<Rightarrow> 'a decoder option" where
  "find_folded k [] = None"
| "find_folded k ((n, f) # fs) = (if fold_name n = k then Some f else find_folded k fs)"

definition find_field :: "'a fields \<Rightarrow> bytes \<Rightarrow> 'a decoder option" where
  "find_field fs k = (case map_of fs k of Some f \<Rightarrow> Some f | None \<Rightarrow> find_folded (fold_name k) fs)"

fun set_members :: "bool \<Rightarrow> 'a fields \<Rightarrow> 'a \<Rightarrow> (bytes \<times> json) list \<Rightarrow> 'a option" where
  "set_members strict fs x [] = Some x"
| "set_members strict fs x ((k, v) # kvs) =
     (case find_field fs k of
        None \<Rightarrow> if strict then None else set_members strict fs x kvs
      | Some f \<Rightarrow> (case f x v of None \<Rightarrow> None | Some y \<Rightarrow> set_members strict fs y kvs))"

text \<open>A struct; \<open>strict\<close> is \<^verbatim>\<open>Decoder.DisallowUnknownFields\<close>.\<close>

definition struct_decode :: "bool \<Rightarrow> 'a fields \<Rightarrow> 'a decoder" where
  "struct_decode strict fs x j =
     (case j of JNull \<Rightarrow> Some x | JObj kvs \<Rightarrow> set_members strict fs x kvs | _ \<Rightarrow> None)"

text \<open>The setter of one field, from its decoder, its selector and its update.\<close>

definition field :: "'b decoder \<Rightarrow> ('a \<Rightarrow> 'b) \<Rightarrow> (('b \<Rightarrow> 'b) \<Rightarrow> 'a \<Rightarrow> 'a) \<Rightarrow> 'a decoder" where
  "field f get upd x j = map_option (\<lambda>y. upd (\<lambda>_. y) x) (f (get x) j)"

text \<open>\<^verbatim>\<open>json.Unmarshal(data, &x)\<close> over the zero value \<open>z\<close>.\<close>

definition json_unmarshal :: "'a decoder \<Rightarrow> 'a \<Rightarrow> bytes \<Rightarrow> err + 'a" where
  "json_unmarshal f z data =
     (case json_parse data of
        None \<Rightarrow> Inl (EStd ErrJSON)
      | Some j \<Rightarrow> (case f z j of None \<Rightarrow> Inl (EStd ErrJSON) | Some x \<Rightarrow> Inr x))"

text \<open>
  \<^verbatim>\<open>decoder.Decode(&x)\<close> for the first value of the input, and what is left of it; a blank input is
  \<^verbatim>\<open>io.EOF\<close>.
\<close>

definition json_decode :: "'a decoder \<Rightarrow> 'a \<Rightarrow> bytes \<Rightarrow> err + ('a \<times> bytes)" where
  "json_decode f z data =
     (if skip_ws data = [] then Inl (EStd ErrEOF)
      else case json_value data of
        None \<Rightarrow> Inl (EStd ErrJSON)
      | Some (j, rest) \<Rightarrow> (case f z j of None \<Rightarrow> Inl (EStd ErrJSON) | Some x \<Rightarrow> Inr (x, rest)))"

text \<open>Decoding what the encoder wrote for each kind of value.\<close>

named_theorems json_rt \<open>round trips of the decoders\<close>

definition u64_json :: "u64 \<Rightarrow> json" where
  "u64_json v = JNum (dec (unat v))"

definition bytes_json :: "bytes \<Rightarrow> json" where
  "bytes_json b = JStr (b64_encode b)"

lemma dec_string_rt [json_rt]: "dec_string x (JStr s) = Some s"
  by (simp add: dec_string_def)

lemma dec_bool_rt [json_rt]: "dec_bool x (JBool b) = Some b"
  by (simp add: dec_bool_def)

lemma dec_u64_rt [json_rt]: "dec_u64 x (u64_json v) = Some v"
  using unsigned_less [of v, where ?'a = nat]
  by (simp add: dec_u64_def u64_json_def parse_uint_def list_all_iff dec_digits)

lemma dec_bytes_rt [json_rt]: "dec_bytes x (bytes_json b) = Some b"
  by (simp add: dec_bytes_def bytes_json_def)

lemma dec_slice_rt:
  assumes "\<And>x. x \<in> set xs \<Longrightarrow> f z (g x) = Some x"
  shows "dec_slice f z [] (JArr (map g xs)) = Some xs"
proof -
  have "dec_elems f z [] (map g xs) = Some xs"
    using assms by (induction xs) auto
  then show ?thesis by (simp add: dec_slice_def)
qed

lemma update_fresh: "k \<notin> fst ` set m \<Longrightarrow> AList.update k v m = m @ [(k, v)]"
  by (induction m) auto

lemma dec_map_rt:
  assumes "distinct (map fst kvs)" and "\<And>k v. (k, v) \<in> set kvs \<Longrightarrow> f z (g v) = Some v"
  shows "dec_map f z [] (JObj (map (apsnd g) kvs)) = Some kvs"
proof -
  have "dec_entries f z m (map (apsnd g) kvs) = Some (m @ kvs)"
    if "fst ` set m \<inter> fst ` set kvs = {}" for m
    using assms that
  proof (induction kvs arbitrary: m)
    case (Cons kv kvs)
    obtain k v where kv: "kv = (k, v)" by (cases kv)
    have "f z (g v) = Some v" using Cons.prems(2) [of k v] kv by simp
    moreover have "AList.update k v m = m @ [(k, v)]" using Cons.prems(3) kv by (auto intro: update_fresh)
    moreover have "dec_entries f z (m @ [(k, v)]) (map (apsnd g) kvs) = Some ((m @ [(k, v)]) @ kvs)"
      using Cons.prems kv by (intro Cons.IH) auto
    ultimately show ?case using kv by simp
  qed simp
  from this [of "[]"] show ?thesis by (simp add: dec_map_def)
qed

lemma json_unmarshal_print:
  assumes "json_wf j" and "json_depth j \<le> max_nesting" and "f z j = Some x"
  shows "json_unmarshal f z (json_print j) = Inr x"
  using assms by (simp add: json_unmarshal_def json_parse_print)

lemma json_decode_print:
  assumes "json_wf j" and "json_depth j \<le> max_nesting" and "f z j = Some x"
  shows "json_decode f z (json_print j) = Inr (x, [])"
proof -
  have "json_value (json_print j) = Some (j, [])" by (rule json_parse_print [OF assms(1,2)])
  moreover from this have "skip_ws (json_print j) \<noteq> []"
    unfolding json_value_def by (auto simp: parse_value.simps simp del: dropWhile_eq_Nil_conv)
  ultimately show ?thesis using assms(3) by (simp add: json_decode_def)
qed

lemma json_wf_u64 [simp]: "json_wf (u64_json v)" "json_depth (u64_json v) = 0"
  by (auto simp: u64_json_def)

lemma b64_safe_ascii: "b64_safe c \<Longrightarrow> byte_of c < 128"
  by (auto simp: b64_safe_def b64_val_def Let_def split: if_splits)

lemma json_wf_bytes [simp]: "json_wf (bytes_json b)" "json_depth (bytes_json b) = 0"
  using b64_encode_safe [of b] by (auto simp: bytes_json_def list_all_iff intro!: valid_utf8_ascii b64_safe_ascii)

lemmas json_ev [ev] = b64_digit_def json_string_def json_escape_def esc_chunk_def utf8_chunks.simps(2)
  utf8_width.simps(2) esc_ascii_def dec.simps digit_def char_of_def bit_numeral_rec bit_0 bit_Suc
  bytes_json_def u64_json_def printable_def runes_def valid_utf8_def is_print_def

end
