(* ===== verification/Lifecycle_Model.thy ===== *)
theory Lifecycle_Model
  imports Go_Json "HOL-Library.Product_Lexorder" "HOL-Library.Multiset"
begin

text \<open>
  \<^verbatim>\<open>internal/lifecycle/model.go\<close>: limits, versions, records and their validation, and the in-memory
  logical state view \<^verbatim>\<open>Store\<close>.

  A Go map is an association list with distinct keys (\<open>store_wf\<close>); \<^verbatim>\<open>clone\<close> copies a record so that no
  two owners share its slices, which is the identity on values.  The decoded form of a slice does
  not distinguish \<^verbatim>\<open>nil\<close> from empty.  The contract of the store is the locale \<open>versioned_register\<close>:
  applying a record keeps, for its key, the record with the greater version.  The locale's lemmas
  give convergence: stores that received the same records in any order and multiplicity agree.
\<close>

section \<open>Limits\<close>

definition DefaultMaxNamespaceBytes :: int where "DefaultMaxNamespaceBytes = 128"
definition DefaultMaxLogicalKeyBytes :: int where "DefaultMaxLogicalKeyBytes = 1024"
definition DefaultMaxAuthorityIDBytes :: int where "DefaultMaxAuthorityIDBytes = 128"
definition DefaultMaxRecordBytes :: int where "DefaultMaxRecordBytes = 64 * 2 ^ 10"
definition DefaultMaxCheckpointBytes :: int where "DefaultMaxCheckpointBytes = 64 * 2 ^ 20"
definition DefaultMaxJournalBytes :: int where "DefaultMaxJournalBytes = 64 * 2 ^ 20"
definition DefaultMaxJournalEntries :: int where "DefaultMaxJournalEntries = 65536"

lemmas default_limits = DefaultMaxNamespaceBytes_def DefaultMaxLogicalKeyBytes_def
  DefaultMaxAuthorityIDBytes_def DefaultMaxRecordBytes_def DefaultMaxCheckpointBytes_def
  DefaultMaxJournalBytes_def DefaultMaxJournalEntries_def

record Limits =
  MaxNamespaceBytes :: int
  MaxLogicalKeyBytes :: int
  MaxAuthorityIDBytes :: int
  MaxRecordBytes :: int
  MaxCheckpointBytes :: int

definition or_default :: "int \<Rightarrow> int \<Rightarrow> int" where
  "or_default d x = (if x \<le> 0 then d else x)"

definition normalized_limits :: "Limits \<Rightarrow> Limits" where
  "normalized_limits l =
     l\<lparr>MaxNamespaceBytes := or_default DefaultMaxNamespaceBytes (MaxNamespaceBytes l),
       MaxLogicalKeyBytes := or_default DefaultMaxLogicalKeyBytes (MaxLogicalKeyBytes l),
       MaxAuthorityIDBytes := or_default DefaultMaxAuthorityIDBytes (MaxAuthorityIDBytes l),
       MaxRecordBytes := or_default DefaultMaxRecordBytes (MaxRecordBytes l),
       MaxCheckpointBytes := or_default DefaultMaxCheckpointBytes (MaxCheckpointBytes l)\<rparr>"

section \<open>Versions\<close>

datatype Version = MkVersion (Epoch: u64) (Sequence: u64)

definition zeroVersion :: Version where
  "zeroVersion = MkVersion 0 0"

definition Compare :: "Version \<Rightarrow> Version \<Rightarrow> int" where
  "Compare v other =
     (if Epoch v < Epoch other \<or> (Epoch v = Epoch other \<and> Sequence v < Sequence other) then -1
      else if Epoch v > Epoch other \<or> (Epoch v = Epoch other \<and> Sequence v > Sequence other) then 1
      else 0)"

definition IsZero :: "Version \<Rightarrow> bool" where
  "IsZero v \<longleftrightarrow> v = zeroVersion"

text \<open>The order of the tokens, so that the library's order lemmas apply to them.\<close>

instantiation Version :: linorder
begin

definition less_Version :: "Version \<Rightarrow> Version \<Rightarrow> bool" where
  "v < w \<longleftrightarrow> Epoch v < Epoch w \<or> (Epoch v = Epoch w \<and> Sequence v < Sequence w)"

definition less_eq_Version :: "Version \<Rightarrow> Version \<Rightarrow> bool" where
  "v \<le> w \<longleftrightarrow> Epoch v < Epoch w \<or> (Epoch v = Epoch w \<and> Sequence v \<le> Sequence w)"

instance
  by standard (auto simp: less_Version_def less_eq_Version_def intro: Version.expand)

end

section \<open>Records\<close>

type_synonym LifecycleState = bytes

definition StatePresent :: LifecycleState where "StatePresent = ''present''"
definition StateDeleted :: LifecycleState where "StateDeleted = ''deleted''"

record Record =
  Namespace :: bytes
  LogicalKey :: bytes
  State :: LifecycleState
  BlobKey :: bytes
  rVersion :: Version
  AuthorityID :: bytes

definition zeroRecord :: Record where
  "zeroRecord = \<lparr>Namespace = [], LogicalKey = [], State = [], BlobKey = [], rVersion = zeroVersion,
                 AuthorityID = []\<rparr>"

text \<open>The JSON form given by the struct tags; \<^verbatim>\<open>blob_key\<close> is omitted when empty.\<close>

definition version_json :: "Version \<Rightarrow> json" where
  "version_json v = JObj [(''epoch'', u64_json (Epoch v)), (''sequence'', u64_json (Sequence v))]"

definition version_fields :: "Version fields" where
  "version_fields =
     [(''epoch'', field dec_u64 Epoch (\<lambda>f v. MkVersion (f (Epoch v)) (Sequence v))),
      (''sequence'', field dec_u64 Sequence (\<lambda>f v. MkVersion (Epoch v) (f (Sequence v))))]"

definition dec_version :: "bool \<Rightarrow> Version decoder" where
  "dec_version strict = struct_decode strict version_fields"

definition record_json :: "Record \<Rightarrow> json" where
  "record_json r =
     JObj ([(''namespace'', bytes_json (Namespace r)), (''logical_key'', bytes_json (LogicalKey r)),
            (''state'', JStr (State r))] @
           (if BlobKey r = [] then [] else [(''blob_key'', bytes_json (BlobKey r))]) @
           [(''version'', version_json (rVersion r)), (''authority_id'', JStr (AuthorityID r))])"

definition record_fields :: "bool \<Rightarrow> Record fields" where
  "record_fields strict =
     [(''namespace'', field dec_bytes Namespace Namespace_update),
      (''logical_key'', field dec_bytes LogicalKey LogicalKey_update),
      (''state'', field dec_string State State_update),
      (''blob_key'', field dec_bytes BlobKey BlobKey_update),
      (''version'', field (dec_version strict) rVersion rVersion_update),
      (''authority_id'', field dec_string AuthorityID AuthorityID_update)]"

definition dec_record :: "bool \<Rightarrow> Record decoder" where
  "dec_record strict = struct_decode strict (record_fields strict)"

definition marshal_record :: "Record \<Rightarrow> bytes" where
  "marshal_record r = json_print (record_json r)"

definition unmarshal_record :: "bytes \<Rightarrow> err + Record" where
  "unmarshal_record = json_unmarshal (dec_record False) zeroRecord"

section \<open>Validation\<close>

definition validateAuthorityID :: "bytes \<Rightarrow> Limits \<Rightarrow> err + unit" where
  "validateAuthorityID authorityID limits =
     (let limits = normalized_limits limits in
      bindE (guardE (authorityID = []) (EModel ErrAuthorityEmpty)) (\<lambda>_.
      bindE (guardE (int (length authorityID) > MaxAuthorityIDBytes limits) (EModel ErrAuthorityTooLarge)) (\<lambda>_.
      bindE (guardE (\<not> valid_utf8 authorityID) (EModel ErrAuthorityNotPrintable)) (\<lambda>_.
      allE_ok (\<lambda>character. guardE (\<not> is_print character) (EModel ErrAuthorityNotPrintable))
        (runes authorityID)))))"

definition Validate :: "Record \<Rightarrow> Limits \<Rightarrow> err + unit" where
  "Validate r limits =
     (let limits = normalized_limits limits in
      bindE (guardE (Namespace r = []) (EModel ErrNamespaceEmpty)) (\<lambda>_.
      bindE (guardE (int (length (Namespace r)) > MaxNamespaceBytes limits) (EModel ErrNamespaceTooLarge)) (\<lambda>_.
      bindE (guardE (LogicalKey r = []) (EModel ErrLogicalKeyEmpty)) (\<lambda>_.
      bindE (guardE (int (length (LogicalKey r)) > MaxLogicalKeyBytes limits) (EModel ErrLogicalKeyTooLarge)) (\<lambda>_.
      bindE (validateAuthorityID (AuthorityID r) limits) (\<lambda>_.
      bindE (guardE (IsZero (rVersion r)) (EModel ErrZeroVersion)) (\<lambda>_.
      bindE (if State r = StatePresent then guardE (length (BlobKey r) \<noteq> 32) (EModel ErrInvalidBlobKey)
             else if State r = StateDeleted then guardE (BlobKey r \<noteq> []) (EModel ErrInvalidBlobKey)
             else Inl (EModel ErrInvalidState)) (\<lambda>_.
      guardE (int (length (marshal_record r)) > MaxRecordBytes limits) (EModel ErrRecordTooLarge)))))))))"

definition record_equal :: "Record \<Rightarrow> Record \<Rightarrow> bool" where
  "record_equal r other \<longleftrightarrow>
     Namespace r = Namespace other \<and> LogicalKey r = LogicalKey other \<and> State r = State other \<and>
     BlobKey r = BlobKey other \<and> rVersion r = rVersion other \<and> AuthorityID r = AuthorityID other"

definition bodyEqual :: "Record \<Rightarrow> Record \<Rightarrow> bool" where
  "bodyEqual r other \<longleftrightarrow>
     State r = State other \<and> BlobKey r = BlobKey other \<and> AuthorityID r = AuthorityID other"

type_synonym logicalKey = "bytes \<times> bytes"

definition record_key :: "Record \<Rightarrow> logicalKey" where
  "record_key r = (Namespace r, LogicalKey r)"

definition validateLookup :: "Limits \<Rightarrow> bytes \<Rightarrow> bytes \<Rightarrow> err + unit" where
  "validateLookup l namespace key =
     bindE (guardE (namespace = []) (EModel ErrNamespaceEmpty)) (\<lambda>_.
     bindE (guardE (int (length namespace) > MaxNamespaceBytes (normalized_limits l)) (EModel ErrNamespaceTooLarge)) (\<lambda>_.
     bindE (guardE (key = []) (EModel ErrLogicalKeyEmpty)) (\<lambda>_.
     guardE (int (length key) > MaxLogicalKeyBytes (normalized_limits l)) (EModel ErrLogicalKeyTooLarge))))"

section \<open>The logical state view\<close>

datatype ApplyOutcome = OutcomeApplied | OutcomeDuplicate | OutcomeStale

record ApplyResult =
  Outcome :: ApplyOutcome
  aVersion :: Version

record StoreStats =
  stRecords :: nat
  stTombstones :: nat

record Store =
  sLimits :: Limits
  sRecords :: "(logicalKey \<times> Record) list"

definition NewStore :: "Limits \<Rightarrow> Store" where
  "NewStore limits = \<lparr>sLimits = normalized_limits limits, sRecords = []\<rparr>"

text \<open>The pair \<open>(previous, exists)\<close> of the source is an option here.\<close>

definition classifyRecord :: "Record \<Rightarrow> Record option \<Rightarrow> err + ApplyResult" where
  "classifyRecord record previous =
     (case previous of
        None \<Rightarrow> Inr \<lparr>Outcome = OutcomeApplied, aVersion = rVersion record\<rparr>
      | Some previous \<Rightarrow>
          (let comparison = Compare (rVersion record) (rVersion previous) in
           if comparison > 0 then Inr \<lparr>Outcome = OutcomeApplied, aVersion = rVersion record\<rparr>
           else if comparison < 0 then Inr \<lparr>Outcome = OutcomeStale, aVersion = rVersion previous\<rparr>
           else if bodyEqual record previous
                then Inr \<lparr>Outcome = OutcomeDuplicate, aVersion = rVersion previous\<rparr>
           else Inl (EModel ErrConflict)))"

definition Classify :: "Record \<Rightarrow> Store \<Rightarrow> err + ApplyResult" where
  "Classify record s =
     bindE (Validate record (sLimits s)) (\<lambda>_.
     classifyRecord record (map_of (sRecords s) (record_key record)))"

definition Apply :: "Record \<Rightarrow> (Store, ApplyResult) M" where
  "Apply record =
     bindM (getM sLimits) (\<lambda>limits.
     bindM (liftE (Validate record limits)) (\<lambda>_.
     bindM (getM (\<lambda>s. map_of (sRecords s) (record_key record))) (\<lambda>previous.
     bindM (liftE (classifyRecord record previous)) (\<lambda>result.
     bindM (if Outcome result = OutcomeApplied
            then modifyM (sRecords_update (AList.update (record_key record) record))
            else returnM ()) (\<lambda>_.
     returnM result)))))"

definition ValidateKey :: "Store \<Rightarrow> bytes \<Rightarrow> bytes \<Rightarrow> err + unit" where
  "ValidateKey s = validateLookup (sLimits s)"

definition Get :: "Store \<Rightarrow> bytes \<Rightarrow> bytes \<Rightarrow> err + Record option" where
  "Get s namespace key =
     bindE (ValidateKey s namespace key) (\<lambda>_. Inr (map_of (sRecords s) (namespace, key)))"

definition Snapshot :: "Store \<Rightarrow> Record list" where
  "Snapshot s = sort_key record_key (map snd (sRecords s))"

definition Stats :: "Store \<Rightarrow> StoreStats" where
  "Stats s =
     \<lparr>stRecords = length (sRecords s),
      stTombstones = length (filter (\<lambda>kr. State (snd kr) = StateDeleted) (sRecords s))\<rparr>"

fun replace_loop :: "Limits \<Rightarrow> (logicalKey \<times> Record) list \<Rightarrow> Record list \<Rightarrow> err + (logicalKey \<times> Record) list" where
  "replace_loop limits nxt [] = Inr nxt"
| "replace_loop limits nxt (record # records) =
     bindE (Validate record limits) (\<lambda>_.
     if map_of nxt (record_key record) \<noteq> None then Inl (EModel ErrDuplicateLogicalKey)
     else replace_loop limits (AList.update (record_key record) record nxt) records)"

definition ReplaceSnapshot :: "Record list \<Rightarrow> (Store, unit) M" where
  "ReplaceSnapshot records =
     bindM (getM sLimits) (\<lambda>limits.
     bindM (liftE (replace_loop limits [] records)) (\<lambda>nxt.
     modifyM (sRecords_update (\<lambda>_. nxt))))"

definition normalizeCheckpointRecords :: "Record list \<Rightarrow> Version \<Rightarrow> Limits \<Rightarrow> err + Record list" where
  "normalizeCheckpointRecords records watermark limits =
     (let limits = normalized_limits limits in
      bindE (guardE (IsZero watermark \<and> length records > 0) (EModel ErrZeroVersion)) (\<lambda>_.
      bindE (allE_ok (\<lambda>record.
               bindE (Validate record limits) (\<lambda>_.
               guardE (Compare (rVersion record) watermark > 0) (EWrap (EModel ErrConflict)))) records) (\<lambda>_.
      let out = sort_key record_key records in
      bindE (guardE (adjacent_dup (map record_key out)) (EModel ErrDuplicateLogicalKey)) (\<lambda>_.
      Inr out))))"

definition recordsEqual :: "Record list \<Rightarrow> Record list \<Rightarrow> bool" where
  "recordsEqual left right \<longleftrightarrow>
     length left = length right \<and> list_all (\<lambda>(l, r). record_equal l r) (zip left right)"

section \<open>Versions are totally ordered\<close>

lemma Compare_simps [simp]:
  "Compare v w < 0 \<longleftrightarrow> v < w" "Compare v w \<le> 0 \<longleftrightarrow> v \<le> w" "0 < Compare v w \<longleftrightarrow> w < v"
  "0 \<le> Compare v w \<longleftrightarrow> w \<le> v" "Compare v w = 0 \<longleftrightarrow> v = w"
  by (cases v; cases w; auto simp: Compare_def less_Version_def less_eq_Version_def)+

lemma zeroVersion_le [simp]: "zeroVersion \<le> v"
  by (simp add: zeroVersion_def less_eq_Version_def word_gt_0)

lemma zeroVersion_least [simp]: "\<not> v < zeroVersion" "v \<le> zeroVersion \<longleftrightarrow> v = zeroVersion"
  using zeroVersion_le [of v] by (auto simp del: zeroVersion_le)

section \<open>Limits and validation\<close>

lemma or_default_idem [simp]: "0 < d \<Longrightarrow> or_default d (or_default d x) = or_default d x"
  by (simp add: or_default_def)

lemma normalized_idem [simp]: "normalized_limits (normalized_limits l) = normalized_limits l"
  by (simp add: normalized_limits_def default_limits)

lemma normalized_positive:
  "0 < MaxNamespaceBytes (normalized_limits l)" "0 < MaxLogicalKeyBytes (normalized_limits l)"
  "0 < MaxAuthorityIDBytes (normalized_limits l)" "0 < MaxRecordBytes (normalized_limits l)"
  "0 < MaxCheckpointBytes (normalized_limits l)"
  by (simp_all add: normalized_limits_def or_default_def default_limits)

lemma validateAuthorityID_normalized [simp]:
  "validateAuthorityID a (normalized_limits l) = validateAuthorityID a l"
  by (simp add: validateAuthorityID_def Let_def)

lemma Validate_normalized [simp]: "Validate r (normalized_limits l) = Validate r l"
  by (simp add: Validate_def Let_def)

definition valid_authority :: "Limits \<Rightarrow> bytes \<Rightarrow> bool" where
  "valid_authority l a \<longleftrightarrow>
     a \<noteq> [] \<and> int (length a) \<le> MaxAuthorityIDBytes (normalized_limits l) \<and> printable a"

definition valid_record :: "Limits \<Rightarrow> Record \<Rightarrow> bool" where
  "valid_record l r \<longleftrightarrow>
     Namespace r \<noteq> [] \<and> int (length (Namespace r)) \<le> MaxNamespaceBytes (normalized_limits l) \<and>
     LogicalKey r \<noteq> [] \<and> int (length (LogicalKey r)) \<le> MaxLogicalKeyBytes (normalized_limits l) \<and>
     valid_authority l (AuthorityID r) \<and> rVersion r \<noteq> zeroVersion \<and>
     (State r = StatePresent \<and> length (BlobKey r) = 32 \<or> State r = StateDeleted \<and> BlobKey r = []) \<and>
     int (length (marshal_record r)) \<le> MaxRecordBytes (normalized_limits l)"

lemma validateAuthorityID_ok: "validateAuthorityID a l = Inr u \<longleftrightarrow> valid_authority l a"
  by (auto simp: validateAuthorityID_def valid_authority_def printable_def list_all_iff Let_def resE)

lemma states_distinct [simp]: "StatePresent \<noteq> StateDeleted" "StateDeleted \<noteq> StatePresent"
  by (simp_all add: StatePresent_def StateDeleted_def)

lemma Validate_ok: "Validate r l = Inr u \<longleftrightarrow> valid_record l r"
  by (auto simp: Validate_def valid_record_def validateAuthorityID_ok IsZero_def Let_def resE)

lemma valid_record_normalized [simp]: "valid_record (normalized_limits l) r = valid_record l r"
  by (metis Validate_normalized Validate_ok)

lemma valid_record_key:
  "valid_record l r \<Longrightarrow> validateLookup l (Namespace r) (LogicalKey r) = Inr ()"
  by (auto simp: valid_record_def validateLookup_def resE)

section \<open>JSON round trip\<close>

lemma ascii_names [simp]:
  "valid_utf8 ''epoch''" "valid_utf8 ''sequence''" "valid_utf8 ''namespace''" "valid_utf8 ''logical_key''"
  "valid_utf8 ''state''" "valid_utf8 ''blob_key''" "valid_utf8 ''version''" "valid_utf8 ''authority_id''"
  "valid_utf8 ''present''" "valid_utf8 ''deleted''"
  by (rule valid_utf8_ascii, simp)+

lemma dec_version_rt [json_rt]: "dec_version strict v (version_json w) = Some w"
  by (simp add: dec_version_def struct_decode_def version_json_def version_fields_def find_field_def
      field_def json_rt)

lemma version_json_wf [simp]: "json_wf (version_json v)" "json_depth (version_json v) = 1"
  by (simp_all add: version_json_def)

lemma dec_record_rt [json_rt]: "dec_record strict zeroRecord (record_json r) = Some r"
  by (simp add: dec_record_def struct_decode_def record_json_def record_fields_def find_field_def
      field_def json_rt zeroRecord_def)

lemma record_json_depth [simp]: "json_depth (record_json r) = 2"
  by (simp add: record_json_def)

lemma record_json_wf: "valid_record l r \<Longrightarrow> json_wf (record_json r)"
  by (auto simp: valid_record_def valid_authority_def record_json_def StatePresent_def StateDeleted_def
      printable_valid)

lemma unmarshal_marshal: "valid_record l r \<Longrightarrow> unmarshal_record (marshal_record r) = Inr r"
  unfolding unmarshal_record_def marshal_record_def
  by (rule json_unmarshal_print) (auto simp: record_json_wf json_rt max_nesting_def)

section \<open>The contract of a versioned register\<close>

text \<open>
  A state that keeps one record per key.  Applying an acceptable record replaces the record of its
  key exactly when the new one has a greater version.
\<close>

locale versioned_register =
  fixes look :: "'s \<Rightarrow> 'k \<Rightarrow> 'r option" and app :: "'s \<Rightarrow> 'r \<Rightarrow> 's"
    and key :: "'r \<Rightarrow> 'k" and ver :: "'r \<Rightarrow> 'v::linorder"
    and inv :: "'s \<Rightarrow> bool" and ok :: "'r \<Rightarrow> bool"
  assumes inv_app: "inv s \<Longrightarrow> ok r \<Longrightarrow> inv (app s r)"
    and look_app: "inv s \<Longrightarrow> ok r \<Longrightarrow> look (app s r) k =
      (if k = key r \<and> (\<forall>p. look s k = Some p \<longrightarrow> ver p < ver r) then Some r else look s k)"
begin

lemma inv_foldl: "inv s \<Longrightarrow> \<forall>r\<in>set rs. ok r \<Longrightarrow> inv (foldl app s rs)"
  by (induction rs arbitrary: s) (auto simp: inv_app)

text \<open>What a state holds after a sequence of records: the old record or one of the sequence.\<close>

lemma look_foldl_from:
  assumes "inv s" and "\<forall>r\<in>set rs. ok r" and "look (foldl app s rs) k = Some r"
  shows "look s k = Some r \<or> r \<in> set rs \<and> key r = k"
  using assms
proof (induction rs arbitrary: s)
  case (Cons a rs)
  from Cons.IH [of "app s a"] Cons.prems show ?case
    by (auto simp: inv_app look_app split: if_splits)
qed simp

text \<open>Versions of a key never go back.\<close>

lemma look_app_mono:
  assumes "inv s" and "ok a" and "look s k = Some p"
  shows "\<exists>r. look (app s a) k = Some r \<and> ver p \<le> ver r"
  using assms by (auto simp: look_app)

lemma look_foldl_mono:
  assumes "inv s" and "\<forall>r\<in>set rs. ok r" and "look s k = Some p"
  shows "\<exists>r. look (foldl app s rs) k = Some r \<and> ver p \<le> ver r"
  using assms
proof (induction rs arbitrary: s p)
  case (Cons a rs)
  from look_app_mono [of s a k p] Cons.prems obtain q where
    q: "look (app s a) k = Some q" "ver p \<le> ver q" by auto
  with Cons.IH [of "app s a" q] Cons.prems show ?case
    by (fastforce simp: inv_app intro: order_trans)
qed simp

text \<open>Every record of the sequence is dominated by what the state holds in the end.\<close>

lemma look_foldl_dominates:
  assumes "inv s" and "\<forall>r\<in>set rs. ok r" and "r \<in> set rs"
  shows "\<exists>q. look (foldl app s rs) (key r) = Some q \<and> ver r \<le> ver q"
  using assms
proof (induction rs arbitrary: s)
  case (Cons a rs)
  show ?case
  proof (cases "r \<in> set rs")
    case True
    with Cons show ?thesis by (simp add: inv_app)
  next
    case False
    with Cons.prems have a: "r = a" "ok a" by auto
    have "\<exists>q. look (app s a) (key a) = Some q \<and> ver a \<le> ver q"
      using Cons.prems(1) a(2) by (cases "look s (key a)") (auto simp: look_app)
    then obtain q where q: "look (app s a) (key a) = Some q" "ver a \<le> ver q" by blast
    have "\<exists>q'. look (foldl app (app s a) rs) (key a) = Some q' \<and> ver q \<le> ver q'"
      using Cons.prems a q by (intro look_foldl_mono) (auto simp: inv_app)
    with q a show ?thesis by (auto intro: order_trans)
  qed
qed simp

text \<open>From an empty state the result is a greatest record of the sequence for each key.\<close>

lemma look_foldl_greatest:
  assumes "inv s" and "look s k = None" and "\<forall>r\<in>set rs. ok r"
  shows "look (foldl app s rs) k = None \<longleftrightarrow> (\<forall>r\<in>set rs. key r \<noteq> k)"
    and "look (foldl app s rs) k = Some r \<Longrightarrow>
      r \<in> set rs \<and> key r = k \<and> (\<forall>r'\<in>set rs. key r' = k \<longrightarrow> ver r' \<le> ver r)"
proof -
  note f = look_foldl_from [OF assms(1,3), of k] and d = look_foldl_dominates [OF assms(1,3)]
  show "look (foldl app s rs) k = None \<longleftrightarrow> (\<forall>r\<in>set rs. key r \<noteq> k)"
    using f d assms(2) by (cases "look (foldl app s rs) k") fastforce+
  show "r \<in> set rs \<and> key r = k \<and> (\<forall>r'\<in>set rs. key r' = k \<longrightarrow> ver r' \<le> ver r)"
    if "look (foldl app s rs) k = Some r"
    using f [OF that] d that assms(2) by fastforce
qed

definition conflict_free :: "'r set \<Rightarrow> bool" where
  "conflict_free R \<longleftrightarrow> (\<forall>r\<in>R. \<forall>r'\<in>R. key r = key r' \<and> ver r = ver r' \<longrightarrow> r = r')"

lemma foldl_converges:
  assumes "inv s" and "look s k = None" and "\<forall>r\<in>set xs. ok r" and "set xs = set ys"
    and "conflict_free (set xs)"
  shows "look (foldl app s xs) k = look (foldl app s ys) k"
proof -
  note x = look_foldl_greatest [OF assms(1-3)]
  note y = look_foldl_greatest [OF assms(1,2), of ys, folded assms(4), OF assms(3)]
  show ?thesis
  proof (cases "look (foldl app s xs) k")
    case None
    with x(1) y(1) show ?thesis by simp
  next
    case (Some r)
    with x(1) y(1) obtain r' where r': "look (foldl app s ys) k = Some r'" by fastforce
    from x(2) [OF Some] y(2) [OF r'] have "r = r'"
      using assms(5) unfolding conflict_free_def by (metis order_antisym)
    with Some r' show ?thesis by simp
  qed
qed

lemma app_idem:
  assumes "inv s" and "ok r"
  shows "look (app (app s r) r) k = look (app s r) k"
  using assms by (auto simp: look_app inv_app)

end

section \<open>The store keeps the contract\<close>

definition store_wf :: "Limits \<Rightarrow> Store \<Rightarrow> bool" where
  "store_wf L s \<longleftrightarrow>
     sLimits s = normalized_limits L \<and> distinct (map fst (sRecords s)) \<and>
     (\<forall>(k, r)\<in>set (sRecords s). k = record_key r \<and> valid_record L r)"

abbreviation lookup :: "Store \<Rightarrow> logicalKey \<Rightarrow> Record option" where
  "lookup s \<equiv> map_of (sRecords s)"

text \<open>All records of a list in order, the results dropped.\<close>

definition apply_all :: "Record list \<Rightarrow> Store \<Rightarrow> Store" where
  "apply_all records s = foldl (\<lambda>s record. snd (Apply record s)) s records"

lemma NewStore_wf: "store_wf L (NewStore L)"
  by (simp add: store_wf_def NewStore_def)

lemma Apply_eval:
  "Apply r s =
     (case bindE (Validate r (sLimits s)) (\<lambda>_. classifyRecord r (lookup s (record_key r))) of
        Inl e \<Rightarrow> (Inl e, s)
      | Inr res \<Rightarrow> (Inr res, if Outcome res = OutcomeApplied
                           then s\<lparr>sRecords := AList.update (record_key r) r (sRecords s)\<rparr> else s))"
  by (simp add: Apply_def monad bindE_def split: sum.split)

lemma Apply_Classify: "fst (Apply r s) = Classify r s"
  by (simp add: Apply_eval Classify_def split: sum.split)

lemma set_update_subset: "set (AList.update k v al) \<subseteq> insert (k, v) (set al)"
  by (induction al) auto

lemma update_wf:
  assumes "store_wf L s" and "valid_record L r"
  shows "store_wf L (s\<lparr>sRecords := AList.update (record_key r) r (sRecords s)\<rparr>)"
  using assms by (auto simp: store_wf_def distinct_update dest!: subsetD [OF set_update_subset])

lemma Apply_wf: "store_wf L s \<Longrightarrow> store_wf L (snd (Apply r s))"
  using update_wf [of L s r]
  by (auto simp: Apply_eval resE Validate_ok store_wf_def [of L s] split: sum.split)

lemma lookup_key: "store_wf L s \<Longrightarrow> lookup s k = Some r \<Longrightarrow> record_key r = k \<and> valid_record L r"
  by (auto simp: store_wf_def dest: map_of_SomeD)

lemma lookup_Apply:
  assumes "store_wf L s" and "valid_record L r"
  shows "lookup (snd (Apply r s)) k =
    (if k = record_key r \<and> (\<forall>p. lookup s k = Some p \<longrightarrow> rVersion p < rVersion r) then Some r
     else lookup s k)"
proof -
  have v: "Validate r (sLimits s) = Inr ()"
    using assms by (simp add: store_wf_def Validate_ok)
  show ?thesis
    by (cases "lookup s (record_key r)")
      (auto simp: Apply_eval v classifyRecord_def update_conv' Let_def)
qed

interpretation store_register: versioned_register lookup "\<lambda>s r. snd (Apply r s)" record_key rVersion
  "store_wf L" "valid_record L" for L
  by unfold_locales (simp_all add: Apply_wf lookup_Apply)

lemma apply_all_wf: "store_wf L s \<Longrightarrow> store_wf L (apply_all rs s)"
  unfolding apply_all_def by (induction rs arbitrary: s) (auto simp: Apply_wf)

section \<open>Snapshots\<close>

lemma distinct_map_sort_key [simp]: "distinct (map f (sort_key f xs)) = distinct (map f xs)"
  by (simp add: distinct_map)

text \<open>The snapshot lists the records in the order of their keys, whatever the order in the map.\<close>

lemma Snapshot_alt:
  assumes "store_wf L s"
  shows "Snapshot s = map (\<lambda>k. the (lookup s k)) (sorted_list_of_set (dom (lookup s)))"
proof -
  have d: "distinct (map fst (sRecords s))" and k: "\<forall>kr\<in>set (sRecords s). fst kr = record_key (snd kr)"
    using assms by (auto simp: store_wf_def)
  have keys: "map record_key (Snapshot s) = sorted_list_of_set (dom (lookup s))"
  proof (rule sorted_distinct_set_unique)
    show "sorted (map record_key (Snapshot s))" by (simp add: Snapshot_def)
    have m: "map record_key (map snd (sRecords s)) = map fst (sRecords s)"
      using k by (simp cong: map_cong)
    then show "distinct (map record_key (Snapshot s))"
      using d unfolding Snapshot_def distinct_map_sort_key by metis
    show "set (map record_key (Snapshot s)) = set (sorted_list_of_set (dom (lookup s)))"
      using arg_cong [OF m, of set] by (simp add: Snapshot_def dom_map_of_conv_image_fst finite_dom_map_of image_image)
  qed simp_all
  have "map (\<lambda>k. the (lookup s k)) (map record_key (Snapshot s)) = Snapshot s"
    unfolding map_map o_def
  proof (rule map_idI)
    fix r assume "r \<in> set (Snapshot s)"
    then obtain k' where kr: "(k', r) \<in> set (sRecords s)" by (auto simp: Snapshot_def)
    with k have "k' = record_key r" by auto
    with kr d show "the (lookup s (record_key r)) = r" by simp
  qed
  with keys show ?thesis by simp
qed

lemma Snapshot_cong:
  "store_wf L s \<Longrightarrow> store_wf L' t \<Longrightarrow> (\<And>k. lookup s k = lookup t k) \<Longrightarrow> Snapshot s = Snapshot t"
  by (simp add: Snapshot_alt ext [of "lookup s" "lookup t"])

lemma set_Snapshot: "store_wf L s \<Longrightarrow> r \<in> set (Snapshot s) \<longleftrightarrow> lookup s (record_key r) = Some r"
  by (force simp: Snapshot_def store_wf_def map_of_eq_Some_iff)

lemma Snapshot_sorted: "sorted (map record_key (Snapshot s))"
  by (simp add: Snapshot_def)

lemma Snapshot_distinct:
  assumes "store_wf L s"
  shows "distinct (map record_key (Snapshot s))"
proof -
  have "\<forall>k\<in>dom (lookup s). record_key (the (lookup s k)) = k"
    using lookup_key [OF assms] by auto
  then show ?thesis
    by (simp add: Snapshot_alt [OF assms] distinct_map finite_dom_map_of inj_on_def)
qed

lemma map_of_records:
  "distinct (map record_key rs) \<Longrightarrow>
   map_of (map (\<lambda>r. (record_key r, r)) rs) k = Some r \<longleftrightarrow> r \<in> set rs \<and> record_key r = k"
  by (subst map_of_eq_Some_iff) (auto simp: o_def)

lemma Snapshot_valid: "store_wf L s \<Longrightarrow> r \<in> set (Snapshot s) \<Longrightarrow> valid_record L r"
  using lookup_key set_Snapshot by blast

lemma replace_loop_ok:
  "replace_loop l nxt rs = Inr out \<longleftrightarrow>
     (\<forall>r\<in>set rs. valid_record l r) \<and> distinct (map record_key rs) \<and>
     fst ` set nxt \<inter> record_key ` set rs = {} \<and> out = nxt @ map (\<lambda>r. (record_key r, r)) rs"
proof (induction rs arbitrary: nxt)
  case Nil
  then show ?case by auto
next
  case (Cons r rs)
  show ?case
  proof (cases "record_key r \<in> fst ` set nxt")
    case True
    then have "map_of nxt (record_key r) \<noteq> None" by (simp add: map_of_eq_None_iff)
    with True show ?thesis by (auto simp: resE)
  next
    case False
    then have "map_of nxt (record_key r) = None" by (simp add: map_of_eq_None_iff)
    with Cons.IH [of "nxt @ [(record_key r, r)]"] False show ?thesis
      by (auto simp: resE Validate_ok update_fresh)
  qed
qed

lemma ReplaceSnapshot_eval:
  "ReplaceSnapshot rs s =
     (case replace_loop (sLimits s) [] rs of Inl e \<Rightarrow> (Inl e, s) | Inr nxt \<Rightarrow> (Inr (), s\<lparr>sRecords := nxt\<rparr>))"
  by (simp add: ReplaceSnapshot_def monad split: sum.split)

lemma ReplaceSnapshot_ok:
  assumes "\<forall>r\<in>set rs. valid_record L r" and "distinct (map record_key rs)" and "sLimits s = normalized_limits L"
  shows "ReplaceSnapshot rs s = (Inr (), s\<lparr>sRecords := map (\<lambda>r. (record_key r, r)) rs\<rparr>)"
proof -
  have "replace_loop (sLimits s) [] rs = Inr (map (\<lambda>r. (record_key r, r)) rs)"
    using assms by (simp add: replace_loop_ok)
  then show ?thesis by (simp add: ReplaceSnapshot_eval)
qed

lemma ReplaceSnapshot_wf: "store_wf L s \<Longrightarrow> store_wf L (snd (ReplaceSnapshot rs s))"
  by (auto simp: ReplaceSnapshot_eval replace_loop_ok store_wf_def o_def split: sum.split)

lemma normalizeCheckpointRecords_ok:
  "normalizeCheckpointRecords rs w l = Inr out \<longleftrightarrow>
     (\<forall>r\<in>set rs. valid_record l r \<and> rVersion r \<le> w) \<and> (w = zeroVersion \<longrightarrow> rs = []) \<and>
     distinct (map record_key rs) \<and> out = sort_key record_key rs"
proof -
  have "adjacent_dup (map record_key (sort_key record_key rs)) \<longleftrightarrow> \<not> distinct (map record_key rs)"
    by (subst sorted_adjacent_iff) (simp_all)
  then show ?thesis
    by (auto simp: normalizeCheckpointRecords_def Let_def resE IsZero_def Validate_ok not_less)
qed

lemma sort_key_sorted_id: "sorted (map f xs) \<Longrightarrow> sort_key f xs = xs"
  by (induction xs) (auto simp: insort_is_Cons)

lemma normalize_Snapshot:
  assumes "store_wf L s" and "\<forall>r\<in>set (Snapshot s). rVersion r \<le> w"
  shows "normalizeCheckpointRecords (Snapshot s) w L = Inr (Snapshot s)"
  unfolding normalizeCheckpointRecords_ok
proof (intro conjI ballI impI)
  fix r assume r: "r \<in> set (Snapshot s)"
  show "valid_record L r" using assms(1) r by (rule Snapshot_valid)
  show "rVersion r \<le> w" using assms(2) r by blast
next
  assume w: "w = zeroVersion"
  have "r \<notin> set (Snapshot s)" for r
    using assms(2) Snapshot_valid [OF assms(1), of r] unfolding w by (auto simp: valid_record_def)
  then show "Snapshot s = []" by (meson list.set_sel(1))
next
  show "distinct (map record_key (Snapshot s))" using assms(1) by (rule Snapshot_distinct)
  show "Snapshot s = sort_key record_key (Snapshot s)" by (simp add: sort_key_sorted_id Snapshot_sorted)
qed

lemma record_equal_iff [simp]: "record_equal r r' \<longleftrightarrow> r = r'"
  by (auto simp: record_equal_def intro: Record.equality)

lemma recordsEqual_iff [simp]: "recordsEqual xs ys \<longleftrightarrow> xs = ys"
  unfolding list.rel_eq [symmetric] list_all2_iff by (simp add: recordsEqual_def list_all_iff)

section \<open>Sample values\<close>

text \<open>Default limits, and one deletion per sequence number, used by the instances of the properties.\<close>

definition example_limits :: Limits where
  "example_limits = \<lparr>MaxNamespaceBytes = 0, MaxLogicalKeyBytes = 0, MaxAuthorityIDBytes = 0,
     MaxRecordBytes = 0, MaxCheckpointBytes = 0\<rparr>"

definition example_record :: "u64 \<Rightarrow> Record" where
  "example_record n = \<lparr>Namespace = ''ns'', LogicalKey = ''key'', State = StateDeleted, BlobKey = [],
     rVersion = MkVersion 1 n, AuthorityID = ''node''\<rparr>"

definition example_present :: "u64 \<Rightarrow> Record" where
  "example_present n = (example_record n)\<lparr>State := StatePresent, BlobKey := ''0123456789abcdef0123456789abcdef''\<rparr>"

lemmas model_ev [ev] = example_limits_def example_record_def example_present_def marshal_record_def
  record_json_def version_json_def StateDeleted_def StatePresent_def

lemma example_record_valid [simp]:
  "Validate (example_record 1) example_limits = Inr ()" "Validate (example_record 2) example_limits = Inr ()"
  "Validate (example_present 1) example_limits = Inr ()" "Validate (example_present 3) example_limits = Inr ()"
  unfolding Validate_ok valid_record_def valid_authority_def
  by (simp_all add: ev zeroVersion_def normalized_limits_def or_default_def default_limits)

lemma example_lookup [simp]: "validateLookup example_limits ''ns'' ''key'' = Inr ()"
  by (simp add: validateLookup_def normalized_limits_def or_default_def default_limits example_limits_def)

section \<open>Properties\<close>

text \<open>
  C1. Convergence of replicas.  Two stores that started empty and received the same set of valid
  records, in any order and with any repetitions, have the same snapshot, as long as the authority
  never issued two different records for one key under one version.
\<close>

theorem store_converges:
  assumes "\<forall>r\<in>set xs. Validate r L = Inr ()" and "set xs = set ys"
    and "\<forall>r\<in>set xs. \<forall>r'\<in>set xs. record_key r = record_key r' \<and> rVersion r = rVersion r' \<longrightarrow> r = r'"
  shows "Snapshot (apply_all xs (NewStore L)) = Snapshot (apply_all ys (NewStore L))"
proof (rule Snapshot_cong)
  show "store_wf L (apply_all xs (NewStore L))" "store_wf L (apply_all ys (NewStore L))"
    by (simp_all add: apply_all_wf NewStore_wf)
  show "lookup (apply_all xs (NewStore L)) k = lookup (apply_all ys (NewStore L)) k" for k
    unfolding apply_all_def
    by (rule store_register.foldl_converges [of L])
      (use assms in \<open>auto simp: Validate_ok store_register.conflict_free_def store_wf_def NewStore_def\<close>)
qed

theorem store_converges_witness:
  "Snapshot (apply_all [example_record 1, example_record 2] (NewStore example_limits)) =
   Snapshot (apply_all [example_record 2, example_record 1, example_record 2] (NewStore example_limits))"
  by (rule store_converges) (auto, simp_all add: example_record_def)

text \<open>
  After any sequence of valid records applied to an empty store, a lookup returns a record of
  that sequence with the requested key whose version is the greatest of that key, and finds
  nothing exactly when the sequence has no record for the key.
\<close>

theorem store_keeps_greatest:
  assumes "\<forall>r\<in>set xs. Validate r L = Inr ()" and "validateLookup L ns k = Inr ()"
  shows "\<exists>found. Get (apply_all xs (NewStore L)) ns k = Inr found \<and>
    (case found of
       None \<Rightarrow> (\<forall>r\<in>set xs. record_key r \<noteq> (ns, k))
     | Some r \<Rightarrow> r \<in> set xs \<and> record_key r = (ns, k) \<and>
         (\<forall>r'\<in>set xs. record_key r' = (ns, k) \<longrightarrow> Compare (rVersion r') (rVersion r) \<le> 0))"
proof -
  let ?s = "apply_all xs (NewStore L)"
  have "sLimits ?s = normalized_limits L"
    using apply_all_wf [OF NewStore_wf, of L xs] by (simp add: store_wf_def)
  then have get: "Get ?s ns k = Inr (lookup ?s (ns, k))"
    using assms(2) by (simp add: Get_def ValidateKey_def validateLookup_def)
  have "lookup (NewStore L) (ns, k) = None" "\<forall>r\<in>set xs. valid_record L r"
    using assms(1) by (simp_all add: NewStore_def Validate_ok)
  note g = store_register.look_foldl_greatest [OF NewStore_wf this, folded apply_all_def]
  show ?thesis
  proof (cases "lookup ?s (ns, k)")
    case None
    with g(1) get show ?thesis by simp
  next
    case (Some r)
    with g(2) [OF Some] get show ?thesis by simp
  qed
qed

theorem store_keeps_greatest_witness:
  "\<exists>found. Get (apply_all [example_record 1, example_record 2] (NewStore example_limits)) ''ns'' ''key'' = Inr found \<and>
    (case found of
       None \<Rightarrow> (\<forall>r\<in>set [example_record 1, example_record 2]. record_key r \<noteq> (''ns'', ''key''))
     | Some r \<Rightarrow> r \<in> set [example_record 1, example_record 2] \<and> record_key r = (''ns'', ''key'') \<and>
         (\<forall>r'\<in>set [example_record 1, example_record 2].
            record_key r' = (''ns'', ''key'') \<longrightarrow> Compare (rVersion r') (rVersion r) \<le> 0))"
  by (rule store_keeps_greatest) simp_all

text \<open>
  C2. \<^verbatim>\<open>Store.Apply\<close> never moves a key back: whatever record is offered, valid or not, every key that
  had a record still has one, with the same or a greater version; an error changes nothing, and the
  reported outcome is the one \<^verbatim>\<open>Classify\<close> predicts.
\<close>

theorem apply_monotone:
  assumes "store_wf L s"
  shows "store_wf L (snd (Apply r s)) \<and> fst (Apply r s) = Classify r s \<and>
    (\<forall>e. Classify r s = Inl e \<longrightarrow> snd (Apply r s) = s) \<and>
    (\<forall>k p. lookup s k = Some p \<longrightarrow>
       (\<exists>q. lookup (snd (Apply r s)) k = Some q \<and> Compare (rVersion p) (rVersion q) \<le> 0))"
proof (intro conjI allI impI)
  show "store_wf L (snd (Apply r s))" using assms by (rule Apply_wf)
  show "fst (Apply r s) = Classify r s" by (rule Apply_Classify)
  show "snd (Apply r s) = s" if "Classify r s = Inl e" for e
    using that by (simp add: Apply_eval Classify_def)
  fix k p assume p: "lookup s k = Some p"
  show "\<exists>q. lookup (snd (Apply r s)) k = Some q \<and> Compare (rVersion p) (rVersion q) \<le> 0"
  proof (cases "valid_record L r")
    case True
    with store_register.look_app_mono [OF assms, of r k p] p show ?thesis by auto
  next
    case False
    with assms have "Validate r (sLimits s) \<noteq> Inr ()" by (simp add: store_wf_def Validate_ok)
    then have "snd (Apply r s) = s" by (cases "Validate r (sLimits s)") (auto simp: Apply_eval)
    with p show ?thesis by simp
  qed
qed

theorem apply_monotone_witness:
  "store_wf example_limits (snd (Apply (example_record 1) (NewStore example_limits))) \<and>
   fst (Apply (example_record 1) (NewStore example_limits)) = Classify (example_record 1) (NewStore example_limits)"
  using apply_monotone [OF NewStore_wf, where r = "example_record 1"] by blast

text \<open>
  A validated record survives the wire: \<^verbatim>\<open>json.Unmarshal\<close> of \<^verbatim>\<open>json.Marshal\<close> gives the record back.
\<close>

theorem record_json_roundtrip:
  "Validate r L = Inr () \<Longrightarrow> unmarshal_record (marshal_record r) = Inr r"
  using unmarshal_marshal by (simp add: Validate_ok)

theorem record_json_roundtrip_witness:
  "unmarshal_record (marshal_record (example_present 3)) = Inr (example_present 3)"
  by (rule record_json_roundtrip [of _ example_limits]) simp

text \<open>
  Installing the snapshot of one store in another succeeds and makes the second store answer
  every lookup, and list its snapshot, like the first.
\<close>

theorem snapshot_install:
  assumes "store_wf L s" and "store_wf L t"
  shows "fst (ReplaceSnapshot (Snapshot s) t) = Inr () \<and>
    Snapshot (snd (ReplaceSnapshot (Snapshot s) t)) = Snapshot s \<and>
    (\<forall>ns k. Get (snd (ReplaceSnapshot (Snapshot s) t)) ns k = Get s ns k)"
proof -
  let ?t = "t\<lparr>sRecords := map (\<lambda>r. (record_key r, r)) (Snapshot s)\<rparr>"
  have r: "ReplaceSnapshot (Snapshot s) t = (Inr (), ?t)"
    using assms(2) Snapshot_valid [OF assms(1)] Snapshot_distinct [OF assms(1)]
    by (intro ReplaceSnapshot_ok [of _ L]) (simp_all add: store_wf_def)
  have wf: "store_wf L ?t"
    using ReplaceSnapshot_wf [OF assms(2), of "Snapshot s"] r by simp
  have l: "lookup ?t k = lookup s k" for k
  proof -
    have "lookup ?t k = Some r \<longleftrightarrow> lookup s k = Some r" for r
      using map_of_records [OF Snapshot_distinct [OF assms(1)], of k r]
        set_Snapshot [OF assms(1), of r] lookup_key [OF assms(1), of k r] by auto
    then show ?thesis by (cases "lookup s k"; cases "lookup ?t k") auto
  qed
  have "Snapshot ?t = Snapshot s" using wf assms(1) l by (rule Snapshot_cong)
  moreover have "Get ?t ns k = Get s ns k" for ns k
    using assms l [of "(ns, k)"] by (simp add: Get_def ValidateKey_def store_wf_def)
  ultimately show ?thesis by (simp add: r)
qed

theorem snapshot_install_witness:
  "fst (ReplaceSnapshot (Snapshot (snd (Apply (example_record 1) (NewStore example_limits))))
     (NewStore example_limits)) = Inr ()"
  using snapshot_install [OF Apply_wf [OF NewStore_wf] NewStore_wf] by blast

text \<open>
  Normalising checkpoint records does not depend on the order in which they arrive, its result
  is sorted by key without duplicates, and normalising twice changes nothing.
\<close>

theorem normalize_checkpoint_canonical:
  assumes "normalizeCheckpointRecords xs w L = Inr out" and "mset xs = mset ys"
  shows "normalizeCheckpointRecords ys w L = Inr out \<and> normalizeCheckpointRecords out w L = Inr out \<and>
    sorted (map record_key out) \<and> distinct (map record_key out)"
proof -
  have d: "distinct (map record_key xs)" and o: "out = sort_key record_key xs"
    using assms(1) by (auto simp: normalizeCheckpointRecords_ok)
  have e: "set xs = set ys" using assms(2) by (rule mset_eq_setD)
  have "mset (map record_key xs) = mset (map record_key ys)" using assms(2) by simp
  with d have dy: "distinct (map record_key ys)" using mset_eq_imp_distinct_iff by blast
  have "sort_key record_key ys = out"
    unfolding o using d assms(2) by (intro sort_key_eq_sort_key) (auto simp: distinct_map e)
  then show ?thesis
    using assms d dy e o by (auto simp: normalizeCheckpointRecords_ok sort_key_sorted_id)
qed

theorem normalize_checkpoint_canonical_witness:
  "normalizeCheckpointRecords [example_record 1] (MkVersion 1 2) example_limits = Inr [example_record 1]"
  by (rule normalize_checkpoint_canonical [of "[example_record 1]", THEN conjunct1])
    (simp_all add: normalizeCheckpointRecords_ok Validate_ok [symmetric, of _ _ "()"] zeroVersion_def
      less_eq_Version_def example_record_def [THEN arg_cong, of rVersion])

end
