(* ===== verification/Lifecycle_Transport.thy ===== *)
theory Lifecycle_Transport
  imports Lifecycle_Model
begin

text \<open>
  \<^verbatim>\<open>internal/lifecycle/transport.go\<close>: the JSON envelope of one lifecycle record on the wire, its limits,
  and the capability gate in front of the decoder.
\<close>

section \<open>Definitions\<close>

definition LifecycleCapabilityV1 :: bytes where
  "LifecycleCapabilityV1 = ''lifecycle.v1''"

definition LifecycleRepairReconcileCapabilityV1 :: bytes where
  "LifecycleRepairReconcileCapabilityV1 = ''lifecycle.repair-reconcile.v1''"

definition LifecycleRecordMessageType :: bytes where
  "LifecycleRecordMessageType = ''lifecycle.record''"

definition DefaultMaxLifecyclePayloadBytes :: int where
  "DefaultMaxLifecyclePayloadBytes = 128 * 2 ^ 10"

record TransportLimits =
  MaxPayloadBytes :: int
  RecordLimits :: Limits

definition normalized_transport :: "TransportLimits \<Rightarrow> TransportLimits" where
  "normalized_transport l =
     l\<lparr>MaxPayloadBytes := or_default DefaultMaxLifecyclePayloadBytes (MaxPayloadBytes l),
       RecordLimits := normalized_limits (RecordLimits l)\<rparr>"

record RecordEnvelope =
  envType :: bytes
  envRecord :: Record

definition envelope_json :: "RecordEnvelope \<Rightarrow> json" where
  "envelope_json e = JObj [(''type'', JStr (envType e)), (''record'', record_json (envRecord e))]"

definition envelope_fields :: "bool \<Rightarrow> RecordEnvelope fields" where
  "envelope_fields strict =
     [(''type'', field dec_string envType envType_update),
      (''record'', field (dec_record strict) envRecord envRecord_update)]"

definition zeroEnvelope :: RecordEnvelope where
  "zeroEnvelope = \<lparr>envType = [], envRecord = zeroRecord\<rparr>"

definition HasLifecycleCapability :: "bytes list \<Rightarrow> bool" where
  "HasLifecycleCapability capabilities \<longleftrightarrow> list_ex (\<lambda>c. c = LifecycleCapabilityV1) capabilities"

definition HasRepairReconciliationCapability :: "bytes list \<Rightarrow> bool" where
  "HasRepairReconciliationCapability capabilities \<longleftrightarrow>
     list_ex (\<lambda>c. c = LifecycleRepairReconcileCapabilityV1) capabilities"

definition EncodeRecord :: "Record \<Rightarrow> TransportLimits \<Rightarrow> err + bytes" where
  "EncodeRecord record limits =
     (let limits = normalized_transport limits in
      bindE (Validate record (RecordLimits limits)) (\<lambda>_.
      let payload = json_print (envelope_json \<lparr>envType = LifecycleRecordMessageType, envRecord = record\<rparr>) in
      bindE (guardE (int (length payload) > MaxPayloadBytes limits) (ETransport ErrLifecyclePayloadTooLarge)) (\<lambda>_.
      Inr payload)))"

text \<open>
  The strict decoder of one JSON value that must be the whole payload, as the transport and the
  repair decoders run it: \<open>malformed\<close> and \<open>trailing\<close> are the sentinels the caller joins.
\<close>

definition decode_single :: "'a decoder \<Rightarrow> 'a \<Rightarrow> err \<Rightarrow> err \<Rightarrow> bytes \<Rightarrow> err + 'a" where
  "decode_single f z malformed trailing payload =
     bindE (mapE (EJoin malformed) (json_decode f z payload)) (\<lambda>(x, rest).
       if skip_ws rest = [] then Inr x
       else (case json_value rest of
               Some _ \<Rightarrow> Inl (EJoin malformed trailing)
             | None \<Rightarrow> Inl (EJoin (EJoin malformed trailing) (EStd ErrJSON))))"

definition DecodeRecord :: "bytes \<Rightarrow> TransportLimits \<Rightarrow> err + Record" where
  "DecodeRecord payload limits =
     (let limits = normalized_transport limits in
      bindE (guardE (int (length payload) > MaxPayloadBytes limits) (ETransport ErrLifecyclePayloadTooLarge)) (\<lambda>_.
      bindE (decode_single (struct_decode True (envelope_fields True)) zeroEnvelope
               (ETransport ErrLifecycleEnvelopeMalformed) (ETransport ErrLifecycleEnvelopeTrailingData) payload) (\<lambda>envelope.
      bindE (guardE (envType envelope \<noteq> LifecycleRecordMessageType) (ETransport ErrLifecycleMessageType)) (\<lambda>_.
      bindE (mapE (EJoin (ETransport ErrLifecycleEnvelopeMalformed))
               (Validate (envRecord envelope) (RecordLimits limits))) (\<lambda>_.
      Inr (envRecord envelope))))))"

definition DecodeRecordForPeer :: "bytes \<Rightarrow> bytes list \<Rightarrow> TransportLimits \<Rightarrow> err + Record" where
  "DecodeRecordForPeer payload capabilities limits =
     bindE (guardE (\<not> HasLifecycleCapability capabilities) (ETransport ErrLifecycleCapabilityRequired)) (\<lambda>_.
     DecodeRecord payload limits)"

section \<open>Lemmas\<close>

lemma decode_single_print:
  assumes "json_wf j" and "json_depth j \<le> max_nesting" and "f z j = Some x"
  shows "decode_single f z m t (json_print j) = Inr x"
  using json_decode_print [of j f z x] assms by (simp add: decode_single_def)

lemma ascii_envelope_names [simp]:
  "valid_utf8 ''type''" "valid_utf8 ''record''" "valid_utf8 LifecycleRecordMessageType"
  unfolding LifecycleRecordMessageType_def by (rule valid_utf8_ascii, simp)+

lemma envelope_rt [json_rt]:
  "struct_decode strict (envelope_fields strict) zeroEnvelope (envelope_json e) = Some e"
  by (simp add: struct_decode_def envelope_json_def envelope_fields_def find_field_def field_def json_rt
      zeroEnvelope_def)

lemma envelope_depth [simp]: "json_depth (envelope_json e) = 3"
  by (simp add: envelope_json_def)

lemma transport_decodes:
  assumes "EncodeRecord r L = Inr payload" and "LifecycleCapabilityV1 \<in> set caps"
  shows "DecodeRecord payload L = Inr r \<and> DecodeRecordForPeer payload caps L = Inr r"
proof -
  let ?e = "\<lparr>envType = LifecycleRecordMessageType, envRecord = r\<rparr>"
  have v: "Validate r (RecordLimits (normalized_transport L)) = Inr ()"
    and p: "payload = json_print (envelope_json ?e)"
    and l: "int (length payload) \<le> MaxPayloadBytes (normalized_transport L)"
    using assms by (auto simp: EncodeRecord_def Let_def resE split: if_splits)
  have "json_wf (envelope_json ?e)"
    using v by (auto simp: envelope_json_def Validate_ok record_json_wf)
  then have "decode_single (struct_decode True (envelope_fields True)) zeroEnvelope m t payload = Inr ?e" for m t
    unfolding p by (rule decode_single_print) (simp_all add: json_rt max_nesting_def)
  then have "DecodeRecord payload L = Inr r"
    using v l by (simp add: DecodeRecord_def Let_def)
  with assms(2) show ?thesis
    by (auto simp: DecodeRecordForPeer_def HasLifecycleCapability_def list_ex_iff)
qed

section \<open>Properties\<close>

text \<open>
  Whatever \<^verbatim>\<open>EncodeRecord\<close> accepts, \<^verbatim>\<open>DecodeRecord\<close> under the same limits gives back, and a peer that
  negotiated \<^verbatim>\<open>lifecycle.v1\<close> is served the same record.
\<close>

theorem record_transport_roundtrip:
  assumes "EncodeRecord r L = Inr payload" and "LifecycleCapabilityV1 \<in> set caps"
  shows "DecodeRecord payload L = Inr r \<and> DecodeRecordForPeer payload caps L = Inr r"
  using transport_decodes [OF assms] .

lemma example_encodes:
  "\<exists>p. EncodeRecord (example_record 1) \<lparr>MaxPayloadBytes = 0, RecordLimits = example_limits\<rparr> = Inr p"
proof -
  let ?j = "envelope_json \<lparr>envType = LifecycleRecordMessageType, envRecord = example_record 1\<rparr>"
  have "int (length (json_print ?j)) \<le> 131072"
    by (simp add: ev envelope_json_def LifecycleRecordMessageType_def)
  then show ?thesis
    by (simp add: EncodeRecord_def Let_def normalized_transport_def or_default_def
        DefaultMaxLifecyclePayloadBytes_def resE)
qed

theorem record_transport_roundtrip_witness:
  "\<exists>p. DecodeRecord p \<lparr>MaxPayloadBytes = 0, RecordLimits = example_limits\<rparr> = Inr (example_record 1)"
  using example_encodes record_transport_roundtrip [of "example_record 1" _ _ "[LifecycleCapabilityV1]"]
  by fastforce

text \<open>
  The decoder lets nothing unchecked through: a decoded record passes validation under the
  record limits, its payload respects the payload bound, and the peer-facing decoder answers a peer
  without the capability with an error whatever the payload is.
\<close>

theorem decode_record_safe:
  assumes "DecodeRecordForPeer payload caps L = Inr r"
  shows "Validate r (RecordLimits L) = Inr () \<and>
    int (length payload) \<le> MaxPayloadBytes (normalized_transport L) \<and>
    LifecycleCapabilityV1 \<in> set caps"
  using assms
  by (auto simp: DecodeRecordForPeer_def DecodeRecord_def Let_def resE normalized_transport_def
      HasLifecycleCapability_def list_ex_iff split: prod.splits if_splits)

theorem decode_record_safe_witness:
  "\<exists>p. DecodeRecordForPeer p [LifecycleCapabilityV1] \<lparr>MaxPayloadBytes = 0, RecordLimits = example_limits\<rparr>
         = Inr (example_record 1) \<and>
     int (length p) \<le> MaxPayloadBytes (normalized_transport \<lparr>MaxPayloadBytes = 0, RecordLimits = example_limits\<rparr>)"
proof -
  let ?L = "\<lparr>MaxPayloadBytes = 0, RecordLimits = example_limits\<rparr>"
  obtain p where p: "EncodeRecord (example_record 1) ?L = Inr p" using example_encodes by blast
  have "DecodeRecordForPeer p [LifecycleCapabilityV1] ?L = Inr (example_record 1)"
    using transport_decodes [OF p] by simp
  with decode_record_safe [OF this] show ?thesis by blast
qed

end
