(* ===== verification/Go_World.thy ===== *)
theory Go_World
  imports Prelude "HOL-Library.AList"
begin

text \<open>
  The file system and the cancellation context, as far as the program uses them.

  \<^item> A file is an inode; a directory entry maps a name to an inode.  An open file is its inode
    number, so a file that is renamed over stays readable and writable through the old handle.
    An inode keeps its current content and the content of its last \<^verbatim>\<open>fsync\<close>; the directory keeps its
    current entries and the entries of its last \<^verbatim>\<open>fsync\<close>.
  \<^item> Every system call takes the next outcome of a plan: success, failure (a write may have written
    some bytes before it failed), or, for a write, a short count.  An exhausted plan means success.
    Statements about all plans are statements about all failures.
  \<^item> \<^verbatim>\<open>ctx.Err()\<close> counts down the calls left before the context is cancelled.
  \<^item> \<open>crash\<close> relates a world to the worlds a restart may find: an entry of a directory is the
    current or the synced one; a file has its synced content, its current content or, when it grew
    since the last sync, a prefix in between.
  \<^item> A path is resolved lexically, as \<^verbatim>\<open>filepath.Clean\<close> does: no symbolic links.
\<close>

section \<open>Paths\<close>

text \<open>A clean path: whether it is rooted, and its components.\<close>

datatype cpath = CPath bool "bytes list"

fun split_slash :: "bytes \<Rightarrow> bytes list" where
  "split_slash [] = [[]]"
| "split_slash (c # cs) =
     (if c = CHR ''/'' then [] # split_slash cs
      else (case split_slash cs of [] \<Rightarrow> [[c]] | s # ss \<Rightarrow> (c # s) # ss))"

definition clean_step :: "bool \<Rightarrow> bytes list \<Rightarrow> bytes \<Rightarrow> bytes list" where
  "clean_step rooted cs s =
     (if s = [] \<or> s = ''.'' then cs
      else if s = ''..'' then
        (if cs \<noteq> [] \<and> last cs \<noteq> ''..'' then butlast cs else if rooted then cs else cs @ [s])
      else cs @ [s])"

definition rooted :: "bytes \<Rightarrow> bool" where
  "rooted p \<longleftrightarrow> p \<noteq> [] \<and> hd p = CHR ''/''"

text \<open>\<^verbatim>\<open>filepath.Clean\<close>, with the joined text left as its components.\<close>

definition Clean :: "bytes \<Rightarrow> cpath" where
  "Clean p = CPath (rooted p) (foldl (clean_step (rooted p)) [] (split_slash p))"

definition base_seg :: "bytes \<Rightarrow> bytes" where
  "base_seg p = last (split_slash p)"

text \<open>\<^verbatim>\<open>filepath.Dir\<close>: the clean form of everything before the last segment.\<close>

definition Dir :: "bytes \<Rightarrow> cpath" where
  "Dir p = CPath (rooted p) (foldl (clean_step (rooted p)) [] (butlast (split_slash p)))"

text \<open>Only a path whose last segment is a proper name can name a file.\<close>

definition file_name_ok :: "bytes \<Rightarrow> bool" where
  "file_name_ok p \<longleftrightarrow> base_seg p \<noteq> [] \<and> base_seg p \<noteq> ''.'' \<and> base_seg p \<noteq> ''..''"

datatype fname = Path cpath | Temp cpath nat

fun dir_of :: "fname \<Rightarrow> cpath" where
  "dir_of (Path (CPath r cs)) = CPath r (butlast cs)"
| "dir_of (Temp d n) = d"

lemma split_slash_nonempty [simp]: "split_slash p \<noteq> []"
  by (induction p) (auto split: list.splits)

lemma dir_of_Clean: "file_name_ok p \<Longrightarrow> dir_of (Path (Clean p)) = Dir p"
proof -
  assume ok: "file_name_ok p"
  obtain ys y where y: "split_slash p = ys @ [y]" by (metis append_butlast_last_id split_slash_nonempty)
  with ok show ?thesis by (simp add: Clean_def Dir_def clean_step_def file_name_ok_def base_seg_def)
qed

section \<open>The world\<close>

record inode =
  icontent :: bytes
  isynced :: bytes

datatype outcome = OK | Fail nat | Short nat

record world =
  wdir :: "(fname \<times> nat) list"
  wdir_synced :: "(fname \<times> nat) list"
  winodes :: "inode list"
  wtemps :: nat
  wplan :: "outcome list"
  wpolls :: "nat option"

definition file_content :: "nat \<Rightarrow> world \<Rightarrow> bytes" where
  "file_content i w = icontent (winodes w ! i)"

definition set_inode :: "nat \<Rightarrow> inode \<Rightarrow> world \<Rightarrow> world" where
  "set_inode i f w = w\<lparr>winodes := (winodes w)[i := f]\<rparr>"

section \<open>System calls\<close>

definition next_outcome :: "(world, outcome) M" where
  "next_outcome w = (Inr (if wplan w = [] then OK else hd (wplan w)), w\<lparr>wplan := tl (wplan w)\<rparr>)"

text \<open>A call that either fails without an effect or runs \<open>m\<close>.\<close>

definition sysM :: "(world, 'a) M \<Rightarrow> (world, 'a) M" where
  "sysM m = bindM next_outcome (\<lambda>out.
     case out of Fail _ \<Rightarrow> throwM (EStd ErrOS) | _ \<Rightarrow> m)"

text \<open>\<^verbatim>\<open>ctx.Err()\<close>\<close>

definition pollM :: "(world, unit) M" where
  "pollM w =
     (case wpolls w of
        None \<Rightarrow> (Inr (), w)
      | Some 0 \<Rightarrow> (Inl (EStd ErrContext), w)
      | Some (Suc n) \<Rightarrow> (Inr (), w\<lparr>wpolls := Some n\<rparr>))"

text \<open>\<^verbatim>\<open>os.Open\<close> and \<^verbatim>\<open>os.OpenFile\<close> without \<^verbatim>\<open>O_CREATE\<close>\<close>

definition os_open :: "bytes \<Rightarrow> (world, nat) M" where
  "os_open p = sysM (\<lambda>w.
     if \<not> file_name_ok p then (Inl (EStd ErrOS), w)
     else case map_of (wdir w) (Path (Clean p)) of
            None \<Rightarrow> (Inl (EStd ErrNotExist), w)
          | Some i \<Rightarrow> (Inr i, w))"

text \<open>\<^verbatim>\<open>os.OpenFile\<close> with \<^verbatim>\<open>O_CREATE\<close>\<close>

definition os_create :: "bytes \<Rightarrow> (world, nat) M" where
  "os_create p = sysM (\<lambda>w.
     if \<not> file_name_ok p then (Inl (EStd ErrOS), w)
     else case map_of (wdir w) (Path (Clean p)) of
            Some i \<Rightarrow> (Inr i, w)
          | None \<Rightarrow>
              (Inr (length (winodes w)),
               w\<lparr>winodes := winodes w @ [\<lparr>icontent = [], isynced = []\<rparr>],
                 wdir := AList.update (Path (Clean p)) (length (winodes w)) (wdir w)\<rparr>))"

definition f_size :: "nat \<Rightarrow> (world, int) M" where
  "f_size i = sysM (getM (\<lambda>w. int (length (file_content i w))))"

definition f_read :: "nat \<Rightarrow> (world, bytes) M" where
  "f_read i = sysM (getM (file_content i))"

definition f_seek :: "(world, unit) M" where
  "f_seek = sysM (returnM ())"

definition f_close :: "(world, unit) M" where
  "f_close = sysM (returnM ())"

text \<open>One \<^verbatim>\<open>Write\<close> at the end of the file; the result is the number of bytes written.\<close>

definition append_bytes :: "nat \<Rightarrow> bytes \<Rightarrow> world \<Rightarrow> world" where
  "append_bytes i data w = set_inode i ((winodes w ! i)\<lparr>icontent := file_content i w @ data\<rparr>) w"

definition f_write :: "nat \<Rightarrow> bytes \<Rightarrow> (world, nat) M" where
  "f_write i data = bindM next_outcome (\<lambda>out w.
     case out of
       OK \<Rightarrow> (Inr (length data), append_bytes i data w)
     | Short n \<Rightarrow> (Inr (min n (length data)), append_bytes i (take n data) w)
     | Fail n \<Rightarrow> (Inl (EStd ErrOS), append_bytes i (take n data) w))"

definition f_sync :: "nat \<Rightarrow> (world, unit) M" where
  "f_sync i = sysM (modifyM (\<lambda>w. set_inode i ((winodes w ! i)\<lparr>isynced := file_content i w\<rparr>) w))"

definition f_truncate :: "nat \<Rightarrow> nat \<Rightarrow> (world, unit) M" where
  "f_truncate i n = sysM (modifyM (\<lambda>w. set_inode i ((winodes w ! i)\<lparr>icontent := take n (file_content i w)\<rparr>) w))"

text \<open>\<^verbatim>\<open>os.CreateTemp\<close>: a name no other file has.\<close>

definition create_temp :: "cpath \<Rightarrow> (world, fname \<times> nat) M" where
  "create_temp d = sysM (\<lambda>w.
     (Inr (Temp d (wtemps w), length (winodes w)),
      w\<lparr>wtemps := Suc (wtemps w), winodes := winodes w @ [\<lparr>icontent = [], isynced = []\<rparr>],
        wdir := AList.update (Temp d (wtemps w)) (length (winodes w)) (wdir w)\<rparr>))"

definition os_rename :: "fname \<Rightarrow> bytes \<Rightarrow> (world, unit) M" where
  "os_rename from p = sysM (\<lambda>w.
     if \<not> file_name_ok p then (Inl (EStd ErrOS), w)
     else case map_of (wdir w) from of
            None \<Rightarrow> (Inl (EStd ErrNotExist), w)
          | Some i \<Rightarrow> (Inr (), w\<lparr>wdir := AList.update (Path (Clean p)) i (AList.delete from (wdir w))\<rparr>))"

definition os_remove :: "fname \<Rightarrow> (world, unit) M" where
  "os_remove f = sysM (\<lambda>w.
     if map_of (wdir w) f = None then (Inl (EStd ErrNotExist), w)
     else (Inr (), w\<lparr>wdir := AList.delete f (wdir w)\<rparr>))"

text \<open>A call whose error the source drops (\<^verbatim>\<open>_ = f.Close()\<close>).\<close>

definition ignoreM :: "('s, 'a) M \<Rightarrow> ('s, unit) M" where
  "ignoreM m = bindM (tryM m) (\<lambda>_. returnM ())"

text \<open>Cleaning up when a call fails; the error of the clean-up is dropped.\<close>

definition onErrorM :: "('s, 'b) M \<Rightarrow> ('s, 'a) M \<Rightarrow> ('s, 'a) M" where
  "onErrorM c m = bindM (tryM m) (\<lambda>r.
     case r of Inl e \<Rightarrow> bindM (ignoreM c) (\<lambda>_. throwM e) | Inr x \<Rightarrow> returnM x)"

text \<open>\<^verbatim>\<open>defer func() { _ = c() }()\<close>\<close>

definition deferM :: "('s, 'b) M \<Rightarrow> ('s, 'a) M \<Rightarrow> ('s, 'a) M" where
  "deferM c m = bindM (tryM m) (\<lambda>r. bindM (ignoreM c) (\<lambda>_. liftE r))"

text \<open>\<^verbatim>\<open>syncDirectory\<close>'s effect on the entries of one directory.\<close>

definition sync_entries :: "cpath \<Rightarrow> world \<Rightarrow> world" where
  "sync_entries d w =
     w\<lparr>wdir_synced := filter (\<lambda>e. dir_of (fst e) \<noteq> d) (wdir_synced w) @
                      filter (\<lambda>e. dir_of (fst e) = d) (wdir w)\<rparr>"

section \<open>Components beside the world\<close>

text \<open>A method of a component runs on the pair of the world and the component's fields.\<close>

definition osM :: "(world, 'a) M \<Rightarrow> (world \<times> 'c, 'a) M" where
  "osM = zoomM fst (\<lambda>w s. (w, snd s))"

definition selfM :: "('c \<Rightarrow> 'a) \<Rightarrow> (world \<times> 'c, 'a) M" where
  "selfM f = getM (\<lambda>s. f (snd s))"

definition setM :: "('c \<Rightarrow> 'c) \<Rightarrow> (world \<times> 'c, unit) M" where
  "setM f = modifyM (apsnd f)"

lemma osM_eval [monad]: "osM m s = (case m (fst s) of (r, w) \<Rightarrow> (r, (w, snd s)))"
  by (simp add: osM_def zoomM_def)

lemma selfM_eval [monad]: "selfM f s = (Inr (f (snd s)), s)"
  by (simp add: selfM_def monad)

lemma setM_eval [monad]: "setM f s = (Inr (), (fst s, f (snd s)))"
  by (cases s) (simp add: setM_def monad)

lemma wp_osM [wps]: "wp (osM m) Q E = (\<lambda>s. wp m (\<lambda>x w. Q x (w, snd s)) (\<lambda>e w. E e (w, snd s)) (fst s))"
  by (simp add: osM_def wps)

lemma wp_selfM [wps]: "wp (selfM f) Q E = (\<lambda>s. Q (f (snd s)) s)"
  by (simp add: selfM_def wps)

lemma wp_setM [wps]: "wp (setM f) Q E = (\<lambda>s. Q () (fst s, f (snd s)))"
  by (auto simp: setM_def wps apsnd_def map_prod_def split_beta)

section \<open>Crashes\<close>

definition crash_image :: "inode \<Rightarrow> bytes \<Rightarrow> bool" where
  "crash_image f c \<longleftrightarrow>
     c = isynced f \<or> c = icontent f \<or> prefix (isynced f) c \<and> prefix c (icontent f)"

definition crash :: "world \<Rightarrow> world \<Rightarrow> bool" where
  "crash w w' \<longleftrightarrow>
     (\<forall>f. map_of (wdir w') f = map_of (wdir w) f \<or> map_of (wdir w') f = map_of (wdir_synced w) f) \<and>
     wdir_synced w' = wdir w' \<and> length (winodes w') = length (winodes w) \<and>
     (\<forall>i<length (winodes w). crash_image (winodes w ! i) (file_content i w') \<and>
        isynced (winodes w' ! i) = file_content i w') \<and>
     wtemps w' = wtemps w"

section \<open>Reasoning about system calls\<close>

text \<open>A world in which every call succeeds and the context is not cancelled.\<close>

definition calm :: "world \<Rightarrow> bool" where
  "calm w \<longleftrightarrow> wplan w = [] \<and> wpolls w = None"

lemma next_outcome_calm: "calm w \<Longrightarrow> next_outcome w = (Inr OK, w)"
  by (simp add: next_outcome_def calm_def)

lemma sysM_calm: "calm w \<Longrightarrow> sysM m w = m w"
  by (simp add: sysM_def monad next_outcome_calm)

lemma pollM_calm: "calm w \<Longrightarrow> pollM w = (Inr (), w)"
  by (simp add: pollM_def calm_def)

lemma calm_updates [simp]:
  "calm (set_inode i f w) = calm w" "calm (append_bytes i d w) = calm w" "calm (sync_entries d' w) = calm w"
  "calm (wdir_update g w) = calm w" "calm (winodes_update h w) = calm w" "calm (wtemps_update k w) = calm w"
  by (simp_all add: calm_def set_inode_def append_bytes_def sync_entries_def)

text \<open>Any call may fail before its effect; only the plan has changed then.\<close>

lemma wp_sysM:
  assumes "\<And>pl. E (EStd ErrOS) (w\<lparr>wplan := pl\<rparr>)" and "\<And>pl. wp m Q E (w\<lparr>wplan := pl\<rparr>)"
  shows "wp (sysM m) Q E w"
  using assms unfolding sysM_def wp_bind wp_def [of next_outcome] next_outcome_def
  by (auto simp: wps split: outcome.split)

lemma wp_pollM:
  assumes "\<And>p. E (EStd ErrContext) (w\<lparr>wpolls := p\<rparr>)" and "\<And>p. Q () (w\<lparr>wpolls := p\<rparr>)"
  shows "wp pollM Q E w"
  using assms(1) [of "wpolls w"] assms(2) [of "wpolls w"] assms(2)
  by (auto simp: wp_def pollM_def split: option.split nat.split)

lemma wp_f_write:
  assumes "\<And>pl n. E (EStd ErrOS) (append_bytes i (take n data) (w\<lparr>wplan := pl\<rparr>))"
    and "\<And>pl n. Q (min n (length data)) (append_bytes i (take n data) (w\<lparr>wplan := pl\<rparr>))"
  shows "wp (f_write i data) Q E w"
  using assms(1) assms(2) [of "length data"] assms(2)
  unfolding f_write_def wp_bind wp_def [of next_outcome] next_outcome_def
  by (auto simp: wp_def split: outcome.split)

text \<open>The same files and entries; the plan and the context may differ.\<close>

definition same_fs :: "world \<Rightarrow> world \<Rightarrow> bool" where
  "same_fs w v \<longleftrightarrow> wdir v = wdir w \<and> wdir_synced v = wdir_synced w \<and> winodes v = winodes w \<and> wtemps v = wtemps w"

lemma same_fs_refl [simp]: "same_fs w w"
  by (simp add: same_fs_def)

lemma same_fs_trans [trans]: "same_fs u v \<Longrightarrow> same_fs v w \<Longrightarrow> same_fs u w"
  by (simp add: same_fs_def)

lemma same_fs_content: "same_fs w v \<Longrightarrow> file_content i v = file_content i w"
  by (simp add: same_fs_def file_content_def)

lemma same_fs_append: "same_fs w v \<Longrightarrow> same_fs (append_bytes i d w) (append_bytes i d v)"
  by (simp add: same_fs_def append_bytes_def set_inode_def file_content_def)

lemma same_fs_set: "same_fs w v \<Longrightarrow> same_fs (set_inode i f w) (set_inode i f v)"
  by (simp add: same_fs_def set_inode_def)

text \<open>The rules for chains of calls: what holds of every world with the same files.\<close>

named_theorems fsI \<open>weakest preconditions of calls up to the plan\<close>

lemma wp_sysM_fs:
  assumes "\<And>v. same_fs w v \<Longrightarrow> E (EStd ErrOS) v" and "\<And>v. same_fs w v \<Longrightarrow> wp m Q E v"
  shows "wp (sysM m) Q E w"
  by (rule wp_sysM; rule assms) (simp_all add: same_fs_def)

lemma wp_pollM_fs [fsI]:
  assumes "\<And>v. same_fs w v \<Longrightarrow> E (EStd ErrContext) v" and "\<And>v. same_fs w v \<Longrightarrow> Q () v"
  shows "wp pollM Q E w"
  by (rule wp_pollM; rule assms) (simp_all add: same_fs_def)

lemma wp_seek_fs [fsI]:
  assumes "\<And>v. same_fs w v \<Longrightarrow> E (EStd ErrOS) v" and "\<And>v. same_fs w v \<Longrightarrow> Q () v"
  shows "wp f_seek Q E w"
  unfolding f_seek_def by (rule wp_sysM_fs) (simp_all add: wps assms)

lemma wp_close_fs [fsI]:
  assumes "\<And>v. same_fs w v \<Longrightarrow> E (EStd ErrOS) v" and "\<And>v. same_fs w v \<Longrightarrow> Q () v"
  shows "wp f_close Q E w"
  unfolding f_close_def by (rule wp_sysM_fs) (simp_all add: wps assms)

lemma wp_size_fs [fsI]:
  assumes "\<And>v. same_fs w v \<Longrightarrow> E (EStd ErrOS) v"
    and "\<And>v. same_fs w v \<Longrightarrow> Q (int (length (file_content i w))) v"
  shows "wp (f_size i) Q E w"
  unfolding f_size_def by (rule wp_sysM_fs) (simp_all add: wps assms same_fs_content)

lemma wp_read_fs [fsI]:
  assumes "\<And>v. same_fs w v \<Longrightarrow> E (EStd ErrOS) v" and "\<And>v. same_fs w v \<Longrightarrow> Q (file_content i w) v"
  shows "wp (f_read i) Q E w"
  unfolding f_read_def by (rule wp_sysM_fs) (simp_all add: wps assms same_fs_content)

lemma wp_sync_fs [fsI]:
  assumes "\<And>v. same_fs w v \<Longrightarrow> E (EStd ErrOS) v"
    and "\<And>v. same_fs (set_inode i ((winodes w ! i)\<lparr>isynced := file_content i w\<rparr>) w) v \<Longrightarrow> Q () v"
  shows "wp (f_sync i) Q E w"
  unfolding f_sync_def
  by (rule wp_sysM_fs) (simp_all add: wps assms same_fs_def set_inode_def file_content_def)

lemma wp_truncate_fs [fsI]:
  assumes "\<And>v. same_fs w v \<Longrightarrow> E (EStd ErrOS) v"
    and "\<And>v. same_fs (set_inode i ((winodes w ! i)\<lparr>icontent := take n (file_content i w)\<rparr>) w) v \<Longrightarrow> Q () v"
  shows "wp (f_truncate i n) Q E w"
  unfolding f_truncate_def
  by (rule wp_sysM_fs) (simp_all add: wps assms same_fs_def set_inode_def file_content_def)

lemma wp_open_fs [fsI]:
  assumes "\<And>v. same_fs w v \<Longrightarrow> E (EStd ErrOS) v"
    and "\<And>v. same_fs w v \<Longrightarrow> map_of (wdir w) (Path (Clean p)) = None \<Longrightarrow> E (EStd ErrNotExist) v"
    and "\<And>i v. same_fs w v \<Longrightarrow> file_name_ok p \<Longrightarrow> map_of (wdir w) (Path (Clean p)) = Some i \<Longrightarrow> Q i v"
  shows "wp (os_open p) Q E w"
  unfolding os_open_def
  by (rule wp_sysM_fs) (auto simp: wp_def assms same_fs_def split: option.split)

lemma wp_ignoreM [wps]: "wp (ignoreM m) Q E = wp m (\<lambda>_. Q ()) (\<lambda>_. Q ())"
  by (simp add: ignoreM_def wps)

lemma wp_onErrorM [wps]: "wp (onErrorM c m) Q E = wp m Q (\<lambda>e. wp c (\<lambda>_. E e) (\<lambda>_. E e))"
  by (simp add: onErrorM_def wps)

lemma wp_deferM [wps]:
  "wp (deferM c m) Q E = wp m (\<lambda>x. wp c (\<lambda>_. Q x) (\<lambda>_. Q x)) (\<lambda>e. wp c (\<lambda>_. E e) (\<lambda>_. E e))"
  by (simp add: deferM_def wps)

lemma onErrorM_ok: "m s = (Inr x, s') \<Longrightarrow> onErrorM c m s = (Inr x, s')"
  by (simp add: onErrorM_def monad)

text \<open>
  \<open>only_temps w w'\<close>: no file that has a path changed, and no inode that existed before did; at most
  temporary files were added or removed.
\<close>

definition only_temps :: "world \<Rightarrow> world \<Rightarrow> bool" where
  "only_temps w w' \<longleftrightarrow>
     (\<forall>c. map_of (wdir w') (Path c) = map_of (wdir w) (Path c)) \<and>
     (\<forall>c. map_of (wdir_synced w') (Path c) = map_of (wdir_synced w) (Path c)) \<and>
     prefix (winodes w) (winodes w')"

text \<open>Every directory entry names an inode.\<close>

definition world_wf :: "world \<Rightarrow> bool" where
  "world_wf w \<longleftrightarrow>
     (\<forall>f i. map_of (wdir w) f = Some i \<longrightarrow> i < length (winodes w)) \<and>
     (\<forall>f i. map_of (wdir_synced w) f = Some i \<longrightarrow> i < length (winodes w))"

lemma only_temps_refl [simp]: "only_temps w w"
  by (simp add: only_temps_def)

lemma only_temps_trans: "only_temps u v \<Longrightarrow> only_temps v w \<Longrightarrow> only_temps u w"
  by (auto simp: only_temps_def intro: prefix_order.trans)

lemma only_temps_plan [simp]:
  "only_temps w (v\<lparr>wplan := pl\<rparr>) = only_temps w v" "only_temps w (v\<lparr>wpolls := p\<rparr>) = only_temps w v"
  "only_temps (w\<lparr>wplan := pl\<rparr>) v = only_temps w v" "only_temps (w\<lparr>wpolls := p\<rparr>) v = only_temps w v"
  by (simp_all add: only_temps_def)

lemma only_temps_inode:
  "only_temps w v \<Longrightarrow> length (winodes w) \<le> i \<Longrightarrow> only_temps w (set_inode i f v)"
  by (auto simp: only_temps_def set_inode_def prefix_def list_update_append1)
    (metis append_eq_conv_conj length_list_update list_update_append not_less take_append)

lemma map_of_filter_key: "map_of (filter (\<lambda>e. P (fst e)) al) k = (if P k then map_of al k else None)"
  by (induction al) auto

lemma sync_entries_synced:
  "map_of (wdir_synced (sync_entries d w)) f =
     (if dir_of f = d then map_of (wdir w) f else map_of (wdir_synced w) f)"
  by (simp add: sync_entries_def map_add_def map_of_filter_key [of "\<lambda>x. dir_of x \<noteq> d"]
      map_of_filter_key [of "\<lambda>x. dir_of x = d"] split: option.split)

lemma sync_entries_other [simp]:
  "wdir (sync_entries d w) = wdir w" "winodes (sync_entries d w) = winodes w"
  "file_content i (sync_entries d w) = file_content i w"
  by (simp_all add: sync_entries_def file_content_def)

lemma file_content_set [simp]:
  "i < length (winodes w) \<Longrightarrow> file_content i (set_inode i f w) = icontent f"
  "i \<noteq> j \<Longrightarrow> file_content j (set_inode i f w) = file_content j w"
  by (simp_all add: file_content_def set_inode_def)

section \<open>Calm runs\<close>

named_theorems calm_run \<open>evaluation of the system calls in a calm world\<close>

lemmas calls_calm [calm_run] = sysM_calm pollM_calm

text \<open>No files at all.\<close>

definition empty_world :: world where
  "empty_world = \<lparr>wdir = [], wdir_synced = [], winodes = [], wtemps = 0, wplan = [], wpolls = None\<rparr>"

lemma empty_world_simps [simp]: "world_wf empty_world" "calm empty_world" "wdir empty_world = []" "wdir_synced empty_world = []"
  by (simp_all add: world_wf_def calm_def empty_world_def)

end
