(* ===== verification/Lifecycle_Files.thy ===== *)
theory Lifecycle_Files
  imports Go_World Go_Codec
begin

text \<open>
  The file helpers of \<^verbatim>\<open>internal/lifecycle/journal.go\<close> that the journal, the authority, the watermark
  book and the membership book share: the length-and-checksum envelope, the bounded read, the
  complete write, the directory sync and the atomic replacement of a file.

  The main results are the round trip of the envelope and the contract of \<open>atomicWrite\<close>
  (\<open>wp_atomicWrite\<close>): whatever call fails, the target is either untouched or holds the complete new
  content, and after a return without error the new content survives a crash.
\<close>

section \<open>Envelopes\<close>

definition encodeEnvelope :: "bytes \<Rightarrow> err + bytes" where
  "encodeEnvelope payload =
     (if payload = [] \<or> length payload > 2 ^ 32 - 1 then Inl (EModel ErrRecordTooLarge)
      else Inr (put_u32 (of_nat (length payload)) @ payload @ put_u32 (crc32c payload)))"

text \<open>\<^verbatim>\<open>data[from:to]\<close>\<close>

definition slice :: "bytes \<Rightarrow> nat \<Rightarrow> nat \<Rightarrow> bytes" where
  "slice data from to = take (to - from) (drop from data)"

definition decodeEnvelope :: "bytes \<Rightarrow> nat \<Rightarrow> int \<Rightarrow> err \<Rightarrow> err \<Rightarrow> err + (bytes \<times> nat)" where
  "decodeEnvelope data offset maxLen corrupt checksum =
     (if offset > length data \<or> length data - offset < 4 then Inl corrupt
      else let len = unat (get_u32 (slice data offset (offset + 4))) in
      if len = 0 \<or> int len > maxLen then Inl corrupt
      else let total = 4 + len + 4 in
      if length data - offset < total then Inl corrupt
      else let payload = slice data (offset + 4) (offset + 4 + len);
               want = get_u32 (slice data (offset + 4 + len) (offset + total)) in
      if crc32c payload \<noteq> want then Inl checksum
      else Inr (payload, offset + total))"

section \<open>Reading and writing\<close>

definition readBounded :: "nat \<Rightarrow> int \<Rightarrow> int \<Rightarrow> (world, bytes) M" where
  "readBounded file fsize maxSize =
     bindM (guardM (fsize > maxSize) (EJournal ErrJournalLimit)) (\<lambda>_.
     bindM f_seek (\<lambda>_.
     bindM (f_read file) (\<lambda>content.
     let data = take (nat (maxSize + 1)) content in
     bindM (guardM (int (length data) > maxSize) (EJournal ErrJournalLimit)) (\<lambda>_.
     returnM data))))"

function writeFull :: "nat \<Rightarrow> bytes \<Rightarrow> (world, unit) M" where
  "writeFull file data w =
     (if data = [] then (Inr (), w)
      else case f_write file data w of
             (Inl e, w') \<Rightarrow> (Inl e, w')
           | (Inr written, w') \<Rightarrow>
               if written = 0 then (Inl (EStd ErrShortWrite), w')
               else writeFull file (drop written data) w')"
  by pat_completeness auto
termination
  by (relation "measure (\<lambda>(i, d, w). length d)") auto

declare writeFull.simps [simp del]

definition syncDirectory :: "cpath \<Rightarrow> (world, unit) M" where
  "syncDirectory path =
     bindM (sysM (returnM ())) (\<lambda>_.
     bindM (tryM (sysM (modifyM (sync_entries path)))) (\<lambda>result.
     bindM (ignoreM f_close) (\<lambda>_.
     liftE result)))"

definition atomicWrite :: "bytes \<Rightarrow> bytes \<Rightarrow> (world, unit) M" where
  "atomicWrite path data =
     bindM pollM (\<lambda>_.
     bindM (create_temp (Dir path)) (\<lambda>(tmp, file).
     bindM (onErrorM (os_remove tmp)
       (bindM (onErrorM f_close (writeFull file data)) (\<lambda>_.
        bindM (onErrorM f_close (f_sync file)) (\<lambda>_.
        bindM f_close (\<lambda>_.
        bindM pollM (\<lambda>_.
        os_rename tmp path)))))) (\<lambda>_.
     syncDirectory (Dir path))))"

section \<open>Envelopes round-trip\<close>

lemma slice_append_left [simp]: "slice (xs @ ys) (length xs + a) (length xs + b) = slice ys a b"
  by (simp add: slice_def)

lemma decode_encode_envelope:
  assumes "encodeEnvelope payload = Inr env" and "int (length payload) \<le> m"
  shows "decodeEnvelope (pre @ env @ rest) (length pre) m c k = Inr (payload, length pre + length env)"
    and "length env = length payload + 8" and "env = put_u32 (of_nat (length payload)) @ payload @ put_u32 (crc32c payload)"
    and "payload \<noteq> []"
proof -
  have p: "payload \<noteq> []" "length payload < 2 ^ 32"
    and e: "env = put_u32 (of_nat (length payload)) @ payload @ put_u32 (crc32c payload)"
    using assms(1) by (auto simp: encodeEnvelope_def split: if_splits)
  have u: "unat (of_nat (length payload) :: u32) = length payload"
    using p(2) by (simp add: unat_of_nat take_bit_nat_eq_self)
  show "length env = length payload + 8" by (simp add: e)
  have "slice (pre @ env @ rest) (length pre) (length pre + 4) = put_u32 (of_nat (length payload))"
    "slice (pre @ env @ rest) (length pre + 4) (length pre + 4 + length payload) = payload"
    "slice (pre @ env @ rest) (length pre + 4 + length payload) (length pre + (4 + length payload + 4)) = put_u32 (crc32c payload)"
    by (simp_all add: e slice_def)
  then show "decodeEnvelope (pre @ env @ rest) (length pre) m c k = Inr (payload, length pre + length env)"
    using p(1) assms(2) by (simp add: decodeEnvelope_def u e Let_def)
qed (use assms in \<open>auto simp: encodeEnvelope_def split: if_splits\<close>)

section \<open>The contract of the file helpers\<close>

lemma append_bytes_simps [simp]:
  "length (winodes (append_bytes i d w)) = length (winodes w)" "wdir (append_bytes i d w) = wdir w"
  "wdir_synced (append_bytes i d w) = wdir_synced w"
  by (simp_all add: append_bytes_def set_inode_def)

lemma append_bytes_plan: "append_bytes i d (w\<lparr>wplan := pl\<rparr>) = (append_bytes i d w)\<lparr>wplan := pl\<rparr>"
  by (simp add: append_bytes_def set_inode_def file_content_def)

lemma append_bytes_append:
  "i < length (winodes w) \<Longrightarrow> append_bytes i b (append_bytes i a w) = append_bytes i (a @ b) w"
  by (simp add: append_bytes_def set_inode_def file_content_def)

lemma append_bytes_Nil [simp]: "append_bytes i [] w = w"
  by (simp add: append_bytes_def set_inode_def file_content_def)

lemma wp_writeFull:
  assumes "i < length (winodes w)"
    and "\<And>e pl n. E e ((append_bytes i (take n data) w)\<lparr>wplan := pl\<rparr>)"
    and "\<And>pl. Q () ((append_bytes i data w)\<lparr>wplan := pl\<rparr>)"
  shows "wp (writeFull i data) Q E w"
  using assms
proof (induction i data w rule: writeFull.induct)
  case (1 i data w)
  show ?case
  proof (cases "data = []")
    case True
    with "1.prems"(3) [of "wplan w"] show ?thesis by (simp add: wp_def writeFull.simps)
  next
    case False
    obtain r w1 where f: "f_write i data w = (r, w1)" by (cases "f_write i data w")
    have w1: "\<exists>pl n. w1 = (append_bytes i (take n data) w)\<lparr>wplan := pl\<rparr> \<and> (\<forall>k. r = Inr k \<longrightarrow> k = min n (length data))"
    proof -
      have "wp (f_write i data) (\<lambda>k v. \<exists>pl n. v = (append_bytes i (take n data) w)\<lparr>wplan := pl\<rparr> \<and> k = min n (length data))
        (\<lambda>_ v. \<exists>pl n. v = (append_bytes i (take n data) w)\<lparr>wplan := pl\<rparr>) w"
        by (rule wp_f_write) (auto simp: append_bytes_plan)
      with f show ?thesis by (cases r) (auto simp: wp_def)
    qed
    show ?thesis
    proof (cases r)
      case (Inl e)
      with f w1 False "1.prems"(2) show ?thesis by (auto simp: wp_def writeFull.simps)
    next
      case (Inr k)
      with w1 obtain pl n where v: "w1 = (append_bytes i (take n data) w)\<lparr>wplan := pl\<rparr>" and k: "k = min n (length data)"
        by blast
      show ?thesis
      proof (cases "k = 0")
        case True
        with f v False Inr "1.prems"(2) show ?thesis by (auto simp: wp_def writeFull.simps)
      next
        case k0: False
        have t: "take n data = take k data" by (simp add: k min_def)
        have j: "append_bytes i x w1 = (append_bytes i (take k data @ x) w)\<lparr>wplan := pl\<rparr>" for x
          using "1.prems"(1) by (simp add: v t append_bytes_plan append_bytes_append)
        have pf: "take k data @ take m (drop k data) = take (k + m) data" for m
          by (simp add: take_add)
        have "wp (writeFull i (drop k data)) Q E w1"
        proof (rule "1.IH" [OF False f [unfolded Inr, symmetric] _ k0])
          show "i < length (winodes w1)" using "1.prems"(1) by (simp add: v)
          show "E e ((append_bytes i (take m (drop k data)) w1)\<lparr>wplan := pl'\<rparr>)" for e pl' m
            using "1.prems"(2) [of e pl' "k + m"] by (simp add: j pf)
          show "Q () ((append_bytes i (drop k data) w1)\<lparr>wplan := pl'\<rparr>)" for pl'
            using "1.prems"(3) [of pl'] by (simp add: j)
        qed simp
        with f Inr False k0 show ?thesis by (simp add: wp_def writeFull.simps [of i data])
      qed
    qed
  qed
qed

lemma wp_writeFull_fs:
  assumes "i < length (winodes w)"
    and "\<And>e t v. prefix t data \<Longrightarrow> same_fs (append_bytes i t w) v \<Longrightarrow> E e v"
    and "\<And>v. same_fs (append_bytes i data w) v \<Longrightarrow> Q () v"
  shows "wp (writeFull i data) Q E w"
  using assms(1)
proof (rule wp_writeFull)
  show "E e ((append_bytes i (take n data) w)\<lparr>wplan := pl\<rparr>)" for e pl n
    by (rule assms(2) [of "take n data"]) (simp_all add: take_is_prefix same_fs_def)
  show "Q () ((append_bytes i data w)\<lparr>wplan := pl\<rparr>)" for pl
    by (rule assms(3)) (simp add: same_fs_def)
qed

text \<open>
  A temporary file in the making: nothing that has a path has changed since \<open>w\<close>, and \<open>tmp\<close> names an
  inode created after \<open>w\<close> with content \<open>c\<close>.
\<close>

definition temp_file :: "world \<Rightarrow> fname \<Rightarrow> nat \<Rightarrow> bytes \<Rightarrow> world \<Rightarrow> bool" where
  "temp_file w tmp i c v \<longleftrightarrow>
     only_temps w v \<and> (\<exists>d n. tmp = Temp d n) \<and> map_of (wdir v) tmp = Some i \<and>
     length (winodes w) \<le> i \<and> i < length (winodes v) \<and> file_content i v = c"

text \<open>
  The target \<open>p\<close> names a new inode with complete and synced content \<open>data\<close>; every other path is as in
  \<open>w\<close>.  When \<open>durable\<close>, the entries of the directory of \<open>p\<close> have been synced too.
\<close>

definition installed :: "bool \<Rightarrow> world \<Rightarrow> bytes \<Rightarrow> bytes \<Rightarrow> nat \<Rightarrow> world \<Rightarrow> bool" where
  "installed durable w p data i w' \<longleftrightarrow>
     length (winodes w) \<le> i \<and> i < length (winodes w') \<and>
     winodes w' ! i = \<lparr>icontent = data, isynced = data\<rparr> \<and>
     prefix (winodes w) (winodes w') \<and> file_name_ok p \<and>
     (\<forall>c. map_of (wdir w') (Path c) = (if c = Clean p then Some i else map_of (wdir w) (Path c))) \<and>
     (\<forall>c. map_of (wdir_synced w') (Path c) =
        (if durable \<and> dir_of (Path c) = Dir p then map_of (wdir w') (Path c)
         else map_of (wdir_synced w) (Path c)))"

lemma temp_file_plan [simp]:
  "temp_file w tmp i c (v\<lparr>wplan := pl\<rparr>) = temp_file w tmp i c v"
  "temp_file w tmp i c (v\<lparr>wpolls := p\<rparr>) = temp_file w tmp i c v"
  by (simp_all add: temp_file_def file_content_def)

lemma installed_plan [simp]:
  "installed b w p d i (v\<lparr>wplan := pl\<rparr>) = installed b w p d i v"
  "installed b w p d i (v\<lparr>wpolls := q\<rparr>) = installed b w p d i v"
  by (simp_all add: installed_def)

lemma temp_file_left [simp]:
  "temp_file (w\<lparr>wplan := pl\<rparr>) tmp i c v = temp_file w tmp i c v"
  "temp_file (w\<lparr>wpolls := p\<rparr>) tmp i c v = temp_file w tmp i c v"
  by (simp_all add: temp_file_def)

lemma temp_file_only_temps: "temp_file w tmp i c v \<Longrightarrow> only_temps w v"
  by (simp add: temp_file_def)

lemma temp_file_append:
  "temp_file w tmp i c v \<Longrightarrow> temp_file w tmp i (c @ d) (append_bytes i d v)"
  by (auto simp: temp_file_def append_bytes_def only_temps_inode) (simp_all add: set_inode_def)

lemma wp_close:
  "(\<And>pl. E (EStd ErrOS) (w\<lparr>wplan := pl\<rparr>)) \<Longrightarrow> (\<And>pl. Q () (w\<lparr>wplan := pl\<rparr>)) \<Longrightarrow> wp f_close Q E w"
  unfolding f_close_def by (rule wp_sysM) (simp_all add: wps)

lemma wp_seek:
  "(\<And>pl. E (EStd ErrOS) (w\<lparr>wplan := pl\<rparr>)) \<Longrightarrow> (\<And>pl. Q () (w\<lparr>wplan := pl\<rparr>)) \<Longrightarrow> wp f_seek Q E w"
  unfolding f_seek_def by (rule wp_sysM) (simp_all add: wps)

lemma wp_create_temp:
  assumes "\<And>e v. only_temps w v \<Longrightarrow> E e v" and "\<And>tmp i v. temp_file w tmp i [] v \<Longrightarrow> Q (tmp, i) v"
  shows "wp (create_temp d) Q E w"
  unfolding create_temp_def
proof (rule wp_sysM)
  show "E (EStd ErrOS) (w\<lparr>wplan := pl\<rparr>)" for pl by (rule assms(1)) simp
qed (simp add: wp_def assms(2) temp_file_def only_temps_def update_conv' file_content_def)

lemma wp_temp_write:
  assumes "temp_file w tmp i c v" and "\<And>e c' v'. temp_file w tmp i c' v' \<Longrightarrow> E e v'"
    and "\<And>v'. temp_file w tmp i (c @ data) v' \<Longrightarrow> Q () v'"
  shows "wp (writeFull i data) Q E v"
proof (rule wp_writeFull)
  show "i < length (winodes v)" using assms(1) by (simp add: temp_file_def)
  show "E e ((append_bytes i (take n data) v)\<lparr>wplan := pl\<rparr>)" for e pl n
    by (rule assms(2) [of "c @ take n data"]) (simp add: temp_file_append [OF assms(1)])
  show "Q () ((append_bytes i data v)\<lparr>wplan := pl\<rparr>)" for pl
    by (rule assms(3)) (simp add: temp_file_append [OF assms(1)])
qed

lemma wp_temp_sync:
  assumes "temp_file w tmp i c v" and "\<And>e v'. temp_file w tmp i c v' \<Longrightarrow> E e v'"
    and "\<And>v'. temp_file w tmp i c v' \<Longrightarrow> isynced (winodes v' ! i) = c \<Longrightarrow> Q () v'"
  shows "wp (f_sync i) Q E v"
  unfolding f_sync_def
proof (rule wp_sysM)
  show "E (EStd ErrOS) (v\<lparr>wplan := pl\<rparr>)" for pl by (rule assms(2)) (simp add: assms(1))
  have "Q () (set_inode i ((winodes u ! i)\<lparr>isynced := file_content i u\<rparr>) u)" if u: "temp_file w tmp i c u" for u
  proof (rule assms(3))
    let ?u = "set_inode i ((winodes u ! i)\<lparr>isynced := file_content i u\<rparr>) u"
    show "temp_file w tmp i c ?u"
      using u by (auto simp: temp_file_def only_temps_inode) (simp_all add: set_inode_def file_content_def)
    show "isynced (winodes ?u ! i) = c" using u by (simp add: temp_file_def set_inode_def)
  qed
  from this [of "v\<lparr>wplan := pl\<rparr>" for pl] assms(1)
  show "wp (modifyM (\<lambda>w. set_inode i ((winodes w ! i)\<lparr>isynced := file_content i w\<rparr>) w)) Q E (v\<lparr>wplan := pl\<rparr>)" for pl
    by (simp add: wps)
qed

lemma wp_temp_remove:
  assumes "temp_file w tmp i c v" and "\<And>v'. only_temps w v' \<Longrightarrow> R v'"
  shows "wp (os_remove tmp) (\<lambda>_. R) (\<lambda>_. R) v"
  unfolding os_remove_def
  by (rule wp_sysM) (use assms in \<open>auto simp: wp_def temp_file_def only_temps_def delete_conv'\<close>)

lemma wp_temp_rename:
  assumes "temp_file w tmp i c v" and "isynced (winodes v ! i) = c"
    and "\<And>e v'. temp_file w tmp i c v' \<Longrightarrow> E e v'" and "\<And>v'. installed False w p c i v' \<Longrightarrow> Q () v'"
  shows "wp (os_rename tmp p) Q E v"
  unfolding os_rename_def
proof (rule wp_sysM)
  show "E (EStd ErrOS) (v\<lparr>wplan := pl\<rparr>)" for pl by (rule assms(3)) (simp add: assms(1))
  have "winodes v ! i = \<lparr>icontent = c, isynced = c\<rparr>"
    using assms(1,2) by (simp add: temp_file_def file_content_def)
  then have "installed False w p c i (v\<lparr>wplan := pl, wdir := AList.update (Path (Clean p)) i (AList.delete tmp (wdir v))\<rparr>)"
    if "file_name_ok p" for pl
    using assms(1) that by (auto simp: installed_def temp_file_def only_temps_def update_conv' delete_conv')
  moreover have "map_of (wdir v) tmp = Some i" using assms(1) by (simp add: temp_file_def)
  moreover have "temp_file w tmp i c (v\<lparr>wplan := pl\<rparr>)" for pl using assms(1) by simp
  ultimately show "wp (\<lambda>w. if \<not> file_name_ok p then (Inl (EStd ErrOS), w)
      else case map_of (wdir w) tmp of None \<Rightarrow> (Inl (EStd ErrNotExist), w)
        | Some i \<Rightarrow> (Inr (), w\<lparr>wdir := AList.update (Path (Clean p)) i (AList.delete tmp (wdir w))\<rparr>)) Q E
      (v\<lparr>wplan := pl\<rparr>)" for pl
    by (auto simp: wp_def intro: assms(3,4))
qed

lemma wp_syncDirectory:
  assumes "installed False w p c i v" and "\<And>e v'. installed False w p c i v' \<Longrightarrow> E e v'"
    and "\<And>v'. installed True w p c i v' \<Longrightarrow> Q () v'"
  shows "wp (syncDirectory (Dir p)) Q E v"
proof -
  have s: "installed True w p c i (sync_entries (Dir p) (v\<lparr>wplan := pl\<rparr>))" for pl
    using assms(1) by (auto simp: installed_def sync_entries_synced)
  show ?thesis
    unfolding syncDirectory_def wp_bind
    by (rule wp_sysM) (use assms s in \<open>auto simp: wps intro!: wp_sysM wp_close\<close>)
qed

text \<open>The contract of \<open>atomicWrite\<close>.\<close>

lemma wp_atomicWrite:
  assumes "\<And>e v. only_temps w v \<Longrightarrow> E e v" and "\<And>e i v. installed False w p data i v \<Longrightarrow> E e v"
    and "\<And>i v. installed True w p data i v \<Longrightarrow> Q () v"
  shows "wp (atomicWrite p data) Q E w"
  unfolding atomicWrite_def wp_bind split_beta
proof (rule wp_pollM)
  let ?rm = "\<lambda>tmp e. wp (os_remove tmp) (\<lambda>_. E e) (\<lambda>_. E e)"
  let ?cl = "\<lambda>tmp e. wp f_close (\<lambda>_. ?rm tmp e) (\<lambda>_. ?rm tmp e)"
  show "E (EStd ErrContext) (w\<lparr>wpolls := q\<rparr>)" for q by (rule assms(1)) simp
  have cleanup: "?rm tmp e v" if "temp_file w tmp i c v" for tmp i c v e
    using that assms(1) by (rule wp_temp_remove)
  have closing: "?cl tmp e v" if "temp_file w tmp i c v" for tmp i c v e
    by (rule wp_close) (use that cleanup in auto)
  show "wp (create_temp (Dir p)) (\<lambda>x. wp (onErrorM (os_remove (fst x))
         (bindM (onErrorM f_close (writeFull (snd x) data)) (\<lambda>_.
          bindM (onErrorM f_close (f_sync (snd x))) (\<lambda>_. bindM f_close (\<lambda>_. bindM pollM (\<lambda>_. os_rename (fst x) p))))))
         (\<lambda>_. wp (syncDirectory (Dir p)) Q E) E) E (w\<lparr>wpolls := q\<rparr>)" for q
  proof (rule wp_create_temp, use assms(1) in simp, simp add: wps)
    fix tmp i v assume t: "temp_file w tmp i [] v"
    have last: "wp (syncDirectory (Dir p)) Q E v'" if "installed False w p data i v'" for v'
      using that assms(2,3) by (rule wp_syncDirectory)
    have ren: "wp (os_rename tmp p) (\<lambda>_. wp (syncDirectory (Dir p)) Q E)
        (?rm tmp) v'"
      if "temp_file w tmp i data v'" "isynced (winodes v' ! i) = data" for v'
      by (rule wp_temp_rename [OF that]) (auto intro: cleanup last)
    show "wp (writeFull i data) (\<lambda>x. wp (f_sync i) (\<lambda>x. wp f_close (\<lambda>x. wp pollM (\<lambda>x. wp (os_rename tmp p)
         (\<lambda>_. wp (syncDirectory (Dir p)) Q E) (?rm tmp))
         (?rm tmp)) (?rm tmp))
         (?cl tmp))
         (?cl tmp) v"
      by (rule wp_temp_write [OF t], erule closing, rule wp_temp_sync, assumption, erule closing)
        (auto intro!: wp_close wp_pollM ren cleanup)
  qed
qed

section \<open>Undisturbed runs\<close>

lemma writeFull_calm [calm_run]:
  "calm w \<Longrightarrow> i < length (winodes w) \<Longrightarrow> writeFull i data w = (Inr (), append_bytes i data w)"
  by (cases data) (simp_all add: writeFull.simps f_write_def monad next_outcome_calm)

lemma simple_calm [calm_run]:
  "calm w \<Longrightarrow> f_close w = (Inr (), w)" "calm w \<Longrightarrow> f_seek w = (Inr (), w)"
  "calm w \<Longrightarrow> f_read i w = (Inr (file_content i w), w)"
  "calm w \<Longrightarrow> f_size i w = (Inr (int (length (file_content i w))), w)"
  by (simp_all add: f_close_def f_seek_def f_read_def f_size_def sysM_calm monad)

lemma syncDirectory_calm [calm_run]: "calm w \<Longrightarrow> syncDirectory d w = (Inr (), sync_entries d w)"
  by (simp add: syncDirectory_def monad ignoreM_def calm_run)

lemma f_sync_calm [calm_run]:
  "calm w \<Longrightarrow> f_sync i w = (Inr (), set_inode i ((winodes w ! i)\<lparr>isynced := file_content i w\<rparr>) w)"
  by (simp add: f_sync_def monad calm_run)

lemma atomicWrite_calm:
  assumes "calm w" and "file_name_ok p"
  shows "\<exists>i v. atomicWrite p data w = (Inr (), v) \<and> calm v \<and> installed True w p data i v"
proof -
  have "fst (atomicWrite p data w) = Inr () \<and> calm (snd (atomicWrite p data w))"
    using assms
    by (simp add: atomicWrite_def monad calm_run create_temp_def onErrorM_def os_rename_def
        append_bytes_def set_inode_def update_conv')
  moreover have "wp (atomicWrite p data) (\<lambda>_ v. \<exists>i. installed True w p data i v) (\<lambda>_ _. True) w"
    by (rule wp_atomicWrite) auto
  ultimately show ?thesis
    by (cases "atomicWrite p data w") (auto simp: wp_def)
qed

section \<open>Crashes\<close>

text \<open>The content found under a path.\<close>

definition path_content :: "bytes \<Rightarrow> world \<Rightarrow> bytes option" where
  "path_content p w = map_option (\<lambda>i. file_content i w) (map_of (wdir w) (Path (Clean p)))"

lemma crash_entry:
  "crash w u \<Longrightarrow> map_of (wdir w) f = map_of (wdir_synced w) f \<Longrightarrow> map_of (wdir u) f = map_of (wdir w) f"
  by (metis crash_def)

lemma crash_content:
  "crash w u \<Longrightarrow> i < length (winodes w) \<Longrightarrow> crash_image (winodes w ! i) (file_content i u)"
  by (simp add: crash_def)

lemma crash_synced_content:
  assumes "crash w u" and "i < length (winodes w)" and "isynced (winodes w ! i) = icontent (winodes w ! i)"
  shows "file_content i u = file_content i w"
  using crash_content [OF assms(1,2)] assms(3) by (auto simp: crash_image_def file_content_def prefix_order.antisym)

lemma installed_crash:
  assumes "installed True w p data i v" and "crash v u"
  shows "path_content p u = Some data" and "map_of (wdir u) (Path (Clean p)) = Some i"
    and "isynced (winodes u ! i) = data" and "i < length (winodes u)"
proof -
  have e: "map_of (wdir v) (Path (Clean p)) = Some i" "map_of (wdir_synced v) (Path (Clean p)) = Some i"
    using assms(1) by (auto simp: installed_def dir_of_Clean)
  with crash_entry [OF assms(2)] show u: "map_of (wdir u) (Path (Clean p)) = Some i" by simp
  have i: "i < length (winodes v)" using assms(1) by (simp add: installed_def)
  then have "file_content i u = data"
    using crash_synced_content [OF assms(2) i] assms(1) by (simp add: installed_def file_content_def)
  then show "path_content p u = Some data" "isynced (winodes u ! i) = data" "i < length (winodes u)"
    using u i assms(2) by (auto simp: path_content_def crash_def)
qed

lemma not_installed_crash:
  assumes "installed False w p data i v" and "crash v u"
  shows "path_content p u = Some data \<or> map_of (wdir u) (Path (Clean p)) = map_of (wdir_synced w) (Path (Clean p))"
proof -
  have i: "i < length (winodes v)" and v: "map_of (wdir v) (Path (Clean p)) = Some i"
    and s: "map_of (wdir_synced v) (Path (Clean p)) = map_of (wdir_synced w) (Path (Clean p))"
    and c: "winodes v ! i = \<lparr>icontent = data, isynced = data\<rparr>"
    using assms(1) by (auto simp: installed_def)
  have "file_content i u = data"
    using crash_synced_content [OF assms(2) i] c by (simp add: file_content_def)
  moreover have "map_of (wdir u) (Path (Clean p)) = Some i \<or>
      map_of (wdir u) (Path (Clean p)) = map_of (wdir_synced w) (Path (Clean p))"
    using assms(2) v s unfolding crash_def by metis
  ultimately show ?thesis by (auto simp: path_content_def)
qed

lemma prefix_nth_eq: "prefix xs ys \<Longrightarrow> i < length xs \<Longrightarrow> ys ! i = xs ! i"
  by (auto simp: prefix_def nth_append)

section \<open>Properties\<close>

text \<open>
  C13. Crash safety of \<^verbatim>\<open>atomicWrite\<close>.  Whatever system call fails and wherever the machine stops, a
  restart finds under the path either the complete new data or what a crash may leave of the old
  file (nothing, if there was none); after a return without error it finds the new data.  The
  entry of the old file is assumed to be on disk.
\<close>

theorem atomicWrite_crash_safe:
  assumes "world_wf w" and "map_of (wdir w) (Path (Clean p)) = map_of (wdir_synced w) (Path (Clean p))"
    and "atomicWrite p data w = (r, v)" and "crash v u"
  shows "(r = Inr () \<longrightarrow> path_content p u = Some data) \<and>
    (path_content p u = Some data \<or>
     (case map_of (wdir w) (Path (Clean p)) of
        None \<Rightarrow> path_content p u = None
      | Some i \<Rightarrow> \<exists>c. path_content p u = Some c \<and> crash_image (winodes w ! i) c))"
proof -
  let ?old = "\<lambda>v u. case map_of (wdir w) (Path (Clean p)) of
      None \<Rightarrow> path_content p u = None | Some i \<Rightarrow> \<exists>c. path_content p u = Some c \<and> crash_image (winodes w ! i) c"
  have old: "?old v u" if "map_of (wdir u) (Path (Clean p)) = map_of (wdir w) (Path (Clean p))"
    "prefix (winodes w) (winodes v)" "crash v u" for v u
  proof (cases "map_of (wdir w) (Path (Clean p))")
    case (Some i)
    then have i: "i < length (winodes w)" using assms(1) by (auto simp: world_wf_def)
    have "crash_image (winodes w ! i) (file_content i u)"
      using crash_content [OF that(3), of i] that(2) i prefix_length_le [OF that(2)]
      by (simp add: prefix_nth_eq)
    with Some that(1) show ?thesis by (simp add: path_content_def)
  qed (use that in \<open>simp add: path_content_def\<close>)
  have "wp (atomicWrite p data)
     (\<lambda>_ v. \<forall>u. crash v u \<longrightarrow> path_content p u = Some data)
     (\<lambda>_ v. \<forall>u. crash v u \<longrightarrow> path_content p u = Some data \<or> ?old v u) w"
  proof (rule wp_atomicWrite)
    show "\<forall>u. crash v u \<longrightarrow> path_content p u = Some data \<or> ?old v u" if "only_temps w v" for v
      using that assms(2) crash_entry [of v _ "Path (Clean p)"] old [of _ v] by (auto simp: only_temps_def)
    show "\<forall>u. crash v u \<longrightarrow> path_content p u = Some data \<or> ?old v u" if "installed False w p data i v" for i v
      using not_installed_crash [OF that] that assms(2) old [of _ v] by (auto simp: installed_def)
    show "\<forall>u. crash v u \<longrightarrow> path_content p u = Some data" if "installed True w p data i v" for i v
      using installed_crash(1) [OF that] by blast
  qed
  with assms(3,4) show ?thesis by (cases r) (auto simp: wp_def)
qed

text \<open>The crash in which everything reached the disk.\<close>

definition settle :: "world \<Rightarrow> world" where
  "settle w = w\<lparr>wdir_synced := wdir w, winodes := map (\<lambda>f. f\<lparr>isynced := icontent f\<rparr>) (winodes w)\<rparr>"

lemma crash_settle: "crash w (settle w)"
  by (auto simp: crash_def settle_def crash_image_def file_content_def)

theorem atomicWrite_crash_safe_witness:
  "\<exists>v. atomicWrite ''f'' ''x'' empty_world = (Inr (), v) \<and> crash v (settle v) \<and>
       path_content ''f'' (settle v) = Some ''x''"
proof -
  obtain v where v: "atomicWrite ''f'' ''x'' empty_world = (Inr (), v)"
    using atomicWrite_calm [of empty_world "''f''" "''x''"] by (auto simp: file_name_ok_def base_seg_def)
  with atomicWrite_crash_safe [OF _ _ v crash_settle] show ?thesis by (simp add: crash_settle)
qed

end
