(* ===== verification/Lifecycle_Journal.thy ===== *)
theory Lifecycle_Journal
  imports Lifecycle_Model Lifecycle_Files
begin

text \<open>
  \<^verbatim>\<open>internal/lifecycle/journal.go\<close>: the append-only journal.  A method runs on the pair of the world and
  the \<^verbatim>\<open>Journal\<close> fields; a journal's file is the inode it was opened on.  This theory holds the file
  format, opening with recovery of a torn tail, \<^verbatim>\<open>Append\<close>, \<^verbatim>\<open>Records\<close>, \<^verbatim>\<open>Replay\<close> and \<^verbatim>\<open>Close\<close>; checkpoints and
  compaction are in \<^verbatim>\<open>Lifecycle_Compaction\<close>.

  The lemmas show that parsing undoes writing (\<open>parse_journal_bytes\<close>), that a torn last entry is
  dropped and nothing else (\<open>parse_torn\<close>), the invariant of an open journal and its file
  (\<open>journal_inv\<close>), and what a restart after a crash finds.
\<close>

section \<open>Options\<close>

definition journalHeaderBytes :: nat where "journalHeaderBytes = 28"
definition journalFormat :: nat where "journalFormat = 1"
definition journalMagic :: bytes where "journalMagic = ''SHLJ''"

record JournalOptions =
  oLimits :: Limits
  MaxJournalBytes :: int
  MaxJournalEntries :: int

definition normalized_options :: "JournalOptions \<Rightarrow> err + JournalOptions" where
  "normalized_options opts =
     (let opts = opts\<lparr>oLimits := normalized_limits (oLimits opts),
                      MaxJournalBytes := or_default DefaultMaxJournalBytes (MaxJournalBytes opts),
                      MaxJournalEntries := or_default DefaultMaxJournalEntries (MaxJournalEntries opts)\<rparr> in
      bindE (guardE (MaxJournalBytes opts < int journalHeaderBytes) (EJournal ErrJournalLimit)) (\<lambda>_.
      bindE (guardE (MaxRecordBytes (oLimits opts) > 2 ^ 32 - 1) (EJournal ErrJournalLimit)) (\<lambda>_.
      Inr opts)))"

section \<open>File format\<close>

definition encodeJournalHeader :: "Version \<Rightarrow> bytes" where
  "encodeJournalHeader floor =
     (let header = journalMagic @ [char_of journalFormat] @ replicate 3 (CHR 0x00) @
                   put_u64 (Epoch floor) @ put_u64 (Sequence floor)
      in header @ put_u32 (crc32c header))"

definition decodeJournalHeader :: "bytes \<Rightarrow> err + Version" where
  "decodeJournalHeader header =
     (if length header \<noteq> journalHeaderBytes \<or> take 4 header \<noteq> journalMagic \<or> header ! 4 \<noteq> char_of journalFormat
      then Inl (EJournal ErrJournalCorrupt)
      else if crc32c (take 24 header) \<noteq> get_u32 (slice header 24 28) then Inl (EJournal ErrJournalChecksum)
      else Inr (MkVersion (get_u64 (slice header 8 16)) (get_u64 (slice header 16 24))))"

text \<open>
  The loop of \<^verbatim>\<open>parseJournal\<close>; \<open>rest\<close> is \<^verbatim>\<open>data[offset:]\<close>.  The result is the floor, the records, the
  size of the valid part and whether a torn tail follows it.
\<close>

function parse_loop :: "Limits \<Rightarrow> Version \<Rightarrow> bytes \<Rightarrow> nat \<Rightarrow> Version \<Rightarrow> Record list \<Rightarrow>
    err + (Version \<times> Record list \<times> nat \<times> bool)" where
  "parse_loop limits headerFloor rest offset latest records =
     (if rest = [] then Inr (headerFloor, records, offset, False)
      else if length rest < 4 then Inr (headerFloor, records, offset, True)
      else
        (let len = unat (get_u32 (take 4 rest)) in
         if len = 0 \<or> int len > MaxRecordBytes limits then Inl (EJournal ErrJournalCorrupt)
         else if length rest < 4 + len + 4 then Inr (headerFloor, records, offset, True)
         else
           (let payload = take len (drop 4 rest); want = get_u32 (take 4 (drop (4 + len) rest)) in
            if crc32c payload \<noteq> want then Inl (EJournal ErrJournalChecksum)
            else (case unmarshal_record payload of
                    Inl e \<Rightarrow> Inl (EWrap (EJournal ErrJournalCorrupt))
                  | Inr record \<Rightarrow>
                      (case Validate record limits of
                         Inl e \<Rightarrow> Inl (EWrap (EJournal ErrJournalCorrupt))
                       | Inr _ \<Rightarrow>
                           if Compare (rVersion record) latest \<le> 0 then Inl (EJournal ErrJournalVersionOrder)
                           else parse_loop limits headerFloor (drop (4 + len + 4) rest)
                                  (offset + (4 + len + 4)) (rVersion record) (records @ [record]))))))"
  by pat_completeness auto
termination
  by (relation "measure (\<lambda>(l, f, rest, _). length rest)") auto

declare parse_loop.simps [simp del]

definition parseJournal :: "bytes \<Rightarrow> Limits \<Rightarrow> err + (Version \<times> Record list \<times> nat \<times> bool)" where
  "parseJournal data limits =
     (if length data < journalHeaderBytes then Inl (EJournal ErrJournalCorrupt)
      else bindE (decodeJournalHeader (take journalHeaderBytes data)) (\<lambda>headerFloor.
           parse_loop limits headerFloor (drop journalHeaderBytes data) journalHeaderBytes headerFloor []))"

section \<open>The journal\<close>

record Recovery =
  TruncatedTail :: bool
  recFloor :: Version
  recLastVersion :: Version
  recEntries :: nat

record JournalStats =
  jsFloor :: Version
  jsLast :: Version
  jsEntries :: nat
  jsBytes :: int

record Journal =
  jPath :: bytes
  jFile :: "nat option"
  jLimits :: Limits
  jMaxBytes :: int
  jMaxEntries :: int
  jSize :: int
  jFloor :: Version
  jLast :: Version
  jRecords :: "Record list"
  jClosed :: bool

definition last_version :: "Version \<Rightarrow> Record list \<Rightarrow> Version" where
  "last_version floor records = (if records = [] then floor else rVersion (last records))"

definition OpenJournal :: "bytes \<Rightarrow> JournalOptions \<Rightarrow> (world, Journal \<times> Recovery) M" where
  "OpenJournal path options =
     bindM (guardM (path = []) (EJournal ErrJournalCorrupt)) (\<lambda>_.
     bindM (liftE (normalized_options options)) (\<lambda>normalized.
     bindM (os_create path) (\<lambda>file.
     onErrorM f_close
      (bindM (f_size file) (\<lambda>fsize.
       bindM (guardM (fsize > MaxJournalBytes normalized) (EJournal ErrJournalLimit)) (\<lambda>_.
       if fsize = 0 then
         bindM (writeFull file (encodeJournalHeader zeroVersion)) (\<lambda>_.
         bindM (f_sync file) (\<lambda>_.
         bindM f_seek (\<lambda>_.
         returnM
           (\<lparr>jPath = path, jFile = Some file, jLimits = oLimits normalized,
             jMaxBytes = MaxJournalBytes normalized, jMaxEntries = MaxJournalEntries normalized,
             jSize = int journalHeaderBytes, jFloor = zeroVersion, jLast = zeroVersion,
             jRecords = [], jClosed = False\<rparr>,
            \<lparr>TruncatedTail = False, recFloor = zeroVersion, recLastVersion = zeroVersion, recEntries = 0\<rparr>))))
       else
         bindM (readBounded file fsize (MaxJournalBytes normalized)) (\<lambda>data.
         bindM (liftE (parseJournal data (oLimits normalized))) (\<lambda>(floor, records, validSize, truncated).
         bindM (if truncated
                then bindM (f_truncate file validSize) (\<lambda>_. f_sync file)
                else returnM ()) (\<lambda>_.
         bindM f_seek (\<lambda>_.
         bindM (guardM (int (length records) > MaxJournalEntries normalized) (EJournal ErrJournalLimit)) (\<lambda>_.
         returnM
           (\<lparr>jPath = path, jFile = Some file, jLimits = oLimits normalized,
             jMaxBytes = MaxJournalBytes normalized, jMaxEntries = MaxJournalEntries normalized,
             jSize = int validSize, jFloor = floor, jLast = last_version floor records,
             jRecords = records, jClosed = False\<rparr>,
            \<lparr>TruncatedTail = truncated, recFloor = floor, recLastVersion = last_version floor records,
             recEntries = length records\<rparr>))))))))))))"

definition ensureOpenLocked :: "(world \<times> Journal, nat) M" where
  "ensureOpenLocked =
     bindM (selfM (\<lambda>j. (jClosed j, jFile j))) (\<lambda>(closed, file).
       if closed then throwM (EJournal ErrJournalClosed)
       else case file of None \<Rightarrow> throwM (EJournal ErrJournalClosed) | Some f \<Rightarrow> returnM f)"

definition Append :: "Record \<Rightarrow> (world \<times> Journal, unit) M" where
  "Append record =
     bindM (osM pollM) (\<lambda>_.
     bindM (selfM jLimits) (\<lambda>limits.
     bindM (liftE (Validate record limits)) (\<lambda>_.
     bindM (liftE (encodeEnvelope (marshal_record record))) (\<lambda>entry.
     bindM ensureOpenLocked (\<lambda>file.
     bindM (selfM (\<lambda>j. j)) (\<lambda>j.
     bindM (guardM (Compare (rVersion record) (jLast j) \<le> 0) (EJournal ErrJournalVersionOrder)) (\<lambda>_.
     bindM (guardM (int (length (jRecords j)) \<ge> jMaxEntries j \<or> jSize j + int (length entry) > jMaxBytes j)
              (EJournal ErrJournalLimit)) (\<lambda>_.
     bindM (osM pollM) (\<lambda>_.
     bindM (osM f_seek) (\<lambda>_.
     bindM (osM (writeFull file entry)) (\<lambda>_.
     bindM (osM (f_sync file)) (\<lambda>_.
     setM (\<lambda>j. j\<lparr>jRecords := jRecords j @ [record], jLast := rVersion record,
                 jSize := jSize j + int (length entry)\<rparr>)))))))))))))"

definition Records :: "(world \<times> Journal, Record list) M" where
  "Records =
     bindM (osM pollM) (\<lambda>_.
     bindM ensureOpenLocked (\<lambda>_.
     bindM (selfM jRecords) (\<lambda>records.
     bindM (forM (\<lambda>record. osM pollM) records) (\<lambda>_.
     returnM records))))"

text \<open>The callback of \<^verbatim>\<open>Replay\<close> works on the same world and on a state of its own beside the journal's.\<close>

definition Replay :: "(Record \<Rightarrow> (world \<times> Journal \<times> 's, unit) M) \<Rightarrow> (world \<times> Journal \<times> 's, unit) M" where
  "Replay apply =
     bindM (zoomM (\<lambda>(w, j, s). (w, j)) (\<lambda>(w, j) (_, _, s). (w, j, s)) Records) (\<lambda>records.
     forM (\<lambda>record. bindM (osM pollM) (\<lambda>_. apply record)) records)"

definition CloseJournal :: "(world \<times> Journal, unit) M" where
  "CloseJournal =
     bindM (selfM (\<lambda>j. (jClosed j, jFile j))) (\<lambda>(closed, file).
     if closed then returnM ()
     else
       bindM (setM (jClosed_update (\<lambda>_. True))) (\<lambda>_.
       if file = None then returnM ()
       else bindM (tryM (osM f_close)) (\<lambda>result.
            bindM (setM (jFile_update (\<lambda>_. None))) (\<lambda>_.
            liftE result))))"

definition JournalStats_of :: "Journal \<Rightarrow> JournalStats" where
  "JournalStats_of j =
     \<lparr>jsFloor = jFloor j, jsLast = jLast j, jsEntries = length (jRecords j), jsBytes = jSize j\<rparr>"

section \<open>The format round-trips\<close>

lemma length_journal_header [simp]: "length (encodeJournalHeader v) = 28"
  by (simp add: encodeJournalHeader_def journalMagic_def Let_def)

lemma decode_journal_header: "decodeJournalHeader (encodeJournalHeader v) = Inr v"
proof -
  let ?p = "journalMagic @ [char_of journalFormat] @ replicate 3 (CHR 0x00)"
  let ?h = "?p @ put_u64 (Epoch v) @ put_u64 (Sequence v)"
  have l: "length ?p = 8" "length ?h = 24" by (simp_all add: journalMagic_def)
  have h: "encodeJournalHeader v = ?h @ put_u32 (crc32c ?h)" by (simp add: encodeJournalHeader_def Let_def)
  have "take 24 (encodeJournalHeader v) = ?h" "slice (encodeJournalHeader v) 24 28 = put_u32 (crc32c ?h)"
    unfolding h slice_def using l by (simp_all del: append_assoc)
  moreover have "slice (encodeJournalHeader v) 8 16 = put_u64 (Epoch v)"
    "slice (encodeJournalHeader v) 16 24 = put_u64 (Sequence v)"
    unfolding h slice_def by (simp_all add: journalMagic_def)
  moreover have "take 4 (encodeJournalHeader v) = journalMagic" "encodeJournalHeader v ! 4 = char_of journalFormat"
    unfolding h by (simp_all add: journalMagic_def)
  ultimately show ?thesis by (simp add: decodeJournalHeader_def journalHeaderBytes_def)
qed

definition journal_entry :: "Record \<Rightarrow> bytes" where
  "journal_entry r = put_u32 (of_nat (length (marshal_record r))) @ marshal_record r @ put_u32 (crc32c (marshal_record r))"

definition journal_bytes :: "Version \<Rightarrow> Record list \<Rightarrow> bytes" where
  "journal_bytes floor records = encodeJournalHeader floor @ concat (map journal_entry records)"

fun increasing :: "Version \<Rightarrow> Record list \<Rightarrow> bool" where
  "increasing v [] = True"
| "increasing v (r # rs) = (v < rVersion r \<and> increasing (rVersion r) rs)"

text \<open>Limits as an open journal has them.\<close>

definition limits_ok :: "Limits \<Rightarrow> bool" where
  "limits_ok L \<longleftrightarrow> normalized_limits L = L \<and> MaxRecordBytes L \<le> 2 ^ 32 - 1"

lemma increasing_append [simp]:
  "increasing v (rs @ qs) \<longleftrightarrow> increasing v rs \<and> increasing (last_version v rs) qs"
  by (induction rs arbitrary: v) (auto simp: last_version_def)

lemma last_version_simps [simp]:
  "last_version v [] = v" "last_version v (rs @ [r]) = rVersion r"
  "last_version v (r # rs) = last_version (rVersion r) rs"
  by (auto simp: last_version_def)

lemma increasing_le_last: "increasing v rs \<Longrightarrow> v \<le> last_version v rs"
  by (induction rs arbitrary: v) (auto intro: order_trans less_imp_le)

lemma increasing_bounds:
  "increasing v rs \<Longrightarrow> r \<in> set rs \<Longrightarrow> v < rVersion r \<and> rVersion r \<le> last_version v rs"
proof (induction rs arbitrary: v)
  case (Cons a rs)
  then show ?case using increasing_le_last [of "rVersion a" rs] by (auto intro: order.strict_trans)
qed simp

lemma marshal_nonempty [simp]: "marshal_record r \<noteq> []"
  by (simp add: marshal_record_def record_json_def)

lemma length_journal_entry: "length (journal_entry r) = length (marshal_record r) + 8"
  by (simp add: journal_entry_def)

lemma marshal_length:
  assumes "limits_ok L" and "valid_record L r"
  shows "int (length (marshal_record r)) \<le> MaxRecordBytes L" and "length (marshal_record r) < 2 ^ 32"
  using assms by (auto simp: limits_ok_def valid_record_def)

lemma encode_record_entry:
  assumes "limits_ok L" and "valid_record L r"
  shows "encodeEnvelope (marshal_record r) = Inr (journal_entry r)"
  using marshal_length [OF assms] by (simp add: encodeEnvelope_def journal_entry_def)

lemma entry_length_word:
  assumes "limits_ok L" and "valid_record L r"
  shows "unat (of_nat (length (marshal_record r)) :: u32) = length (marshal_record r)"
  using marshal_length(2) [OF assms] by (simp add: unat_of_nat take_bit_nat_eq_self)

lemma parse_entry:
  assumes "limits_ok L" and "valid_record L r" and "v < rVersion r"
  shows "parse_loop L fl (journal_entry r @ rest) off v rs =
    parse_loop L fl rest (off + length (journal_entry r)) (rVersion r) (rs @ [r])"
proof -
  note len = marshal_length(1) [OF assms(1,2)] and w = entry_length_word [OF assms(1,2)]
  have "Validate r L = Inr ()" using assms(2) by (simp add: Validate_ok)
  moreover have "drop (4 + length (marshal_record r) + 4) (journal_entry r @ rest) = rest"
    by (simp add: journal_entry_def)
  ultimately show ?thesis
    using assms(3) [folded not_le] len unmarshal_marshal [OF assms(2)]
    by (subst parse_loop.simps) (simp add: journal_entry_def [of r] w Let_def)
qed

lemma parse_entries:
  assumes "limits_ok L" and "\<forall>r\<in>set qs. valid_record L r" and "increasing v qs"
  shows "parse_loop L fl (concat (map journal_entry qs) @ rest) off v rs =
    parse_loop L fl rest (off + length (concat (map journal_entry qs))) (last_version v qs) (rs @ qs)"
  using assms(2,3)
proof (induction qs arbitrary: off v rs)
  case (Cons r qs)
  then show ?case by (simp add: parse_entry [OF assms(1)] add.assoc)
qed simp

lemma parse_partial:
  assumes "limits_ok L" and "valid_record L r" and "strict_prefix t (journal_entry r)" and "t \<noteq> []"
  shows "parse_loop L fl t off v rs = Inr (fl, rs, off, True)"
proof (cases "length t < 4")
  case True
  with assms(4) show ?thesis by (subst parse_loop.simps) simp
next
  case False
  note len = marshal_length(1) [OF assms(1,2)] and w = entry_length_word [OF assms(1,2)]
  from assms(3) have t: "t = take (length t) (journal_entry r)" and l: "length t < length (journal_entry r)"
    by (auto simp: strict_prefix_def prefix_def)
  have "take 4 t = take 4 (journal_entry r)" using False by (subst t) (simp add: min_def)
  then have "take 4 t = put_u32 (of_nat (length (marshal_record r)))" by (simp add: journal_entry_def)
  with False l len w assms(4) show ?thesis
    by (subst parse_loop.simps) (simp add: Let_def length_journal_entry)
qed

lemma parse_journal_bytes:
  assumes "limits_ok L" and "\<forall>r\<in>set rs. valid_record L r" and "increasing fl rs"
  shows "parseJournal (journal_bytes fl rs) L = Inr (fl, rs, length (journal_bytes fl rs), False)"
    and "parseJournal (journal_bytes fl rs @ t) L =
      parse_loop L fl t (length (journal_bytes fl rs)) (last_version fl rs) rs"
proof -
  show e: "parseJournal (journal_bytes fl rs @ t) L =
      parse_loop L fl t (length (journal_bytes fl rs)) (last_version fl rs) rs" for t
    using parse_entries [OF assms, of fl t 28 "[]"] decode_journal_header [of fl]
    by (simp add: parseJournal_def journal_bytes_def journalHeaderBytes_def)
  from e [of "[]"] show "parseJournal (journal_bytes fl rs) L = Inr (fl, rs, length (journal_bytes fl rs), False)"
    by (simp add: parse_loop.simps)
qed

lemma parse_torn:
  assumes "limits_ok L" and "\<forall>r\<in>set rs. valid_record L r" and "increasing fl rs"
    and "valid_record L r" and "strict_prefix t (journal_entry r)" and "t \<noteq> []"
  shows "parseJournal (journal_bytes fl rs @ t) L = Inr (fl, rs, length (journal_bytes fl rs), True)"
  using parse_journal_bytes(2) [OF assms(1-3)] parse_partial [OF assms(1,4-6)] by simp

section \<open>The invariant of a journal\<close>

definition journal_fields :: "Journal \<Rightarrow> bool" where
  "journal_fields j \<longleftrightarrow>
     limits_ok (jLimits j) \<and> (\<forall>r\<in>set (jRecords j). valid_record (jLimits j) r) \<and>
     increasing (jFloor j) (jRecords j) \<and> jLast j = last_version (jFloor j) (jRecords j) \<and>
     jSize j = int (length (journal_bytes (jFloor j) (jRecords j))) \<and> jSize j \<le> jMaxBytes j \<and>
     int (length (jRecords j)) \<le> jMaxEntries j"

abbreviation journal_image :: "Journal \<Rightarrow> bytes" where
  "journal_image j \<equiv> journal_bytes (jFloor j) (jRecords j)"

text \<open>An open journal: its file holds, and has synced, exactly what the fields say.\<close>

definition journal_inv :: "world \<times> Journal \<Rightarrow> bool" where
  "journal_inv s \<longleftrightarrow>
     (case s of (w, j) \<Rightarrow> journal_fields j \<and>
       (\<not> jClosed j \<longrightarrow> (\<exists>i. jFile j = Some i \<and> i < length (winodes w) \<and>
          winodes w ! i = \<lparr>icontent = journal_image j, isynced = journal_image j\<rparr>)))"

text \<open>The file can be found under the journal's path now, and after a restart.\<close>

definition linked :: "world \<times> Journal \<Rightarrow> bool" where
  "linked s \<longleftrightarrow>
     (case s of (w, j) \<Rightarrow> file_name_ok (jPath j) \<and> jPath j \<noteq> [] \<and>
        map_of (wdir w) (Path (Clean (jPath j))) = jFile j \<and>
        map_of (wdir_synced w) (Path (Clean (jPath j))) = jFile j)"

text \<open>What \<open>Append\<close> requires of a record besides an undisturbed system.\<close>

definition appendable :: "Journal \<Rightarrow> Record \<Rightarrow> bool" where
  "appendable j r \<longleftrightarrow>
     \<not> jClosed j \<and> valid_record (jLimits j) r \<and> jLast j < rVersion r \<and>
     int (length (jRecords j)) < jMaxEntries j \<and> jSize j + int (length (journal_entry r)) \<le> jMaxBytes j"

definition appended :: "Journal \<Rightarrow> Record \<Rightarrow> Journal" where
  "appended j r = j\<lparr>jRecords := jRecords j @ [r], jLast := rVersion r,
     jSize := jSize j + int (length (journal_entry r))\<rparr>"

lemma journal_bytes_append: "journal_bytes v (rs @ [r]) = journal_bytes v rs @ journal_entry r"
  by (simp add: journal_bytes_def)

lemma appended_simps [simp]:
  "jRecords (appended j r) = jRecords j @ [r]" "jLast (appended j r) = rVersion r"
  "jFloor (appended j r) = jFloor j" "jPath (appended j r) = jPath j" "jFile (appended j r) = jFile j"
  "jClosed (appended j r) = jClosed j" "jLimits (appended j r) = jLimits j"
  "jMaxBytes (appended j r) = jMaxBytes j" "jMaxEntries (appended j r) = jMaxEntries j"
  by (simp_all add: appended_def)

lemma appended_fields: "journal_fields j \<Longrightarrow> appendable j r \<Longrightarrow> journal_fields (appended j r)"
  by (auto simp: journal_fields_def appendable_def journal_bytes_append) (simp_all add: appended_def)

lemma wp_ensureOpen:
  "wp ensureOpenLocked Q E s =
     (case s of (w, j) \<Rightarrow> if jClosed j then E (EJournal ErrJournalClosed) s
        else case jFile j of None \<Rightarrow> E (EJournal ErrJournalClosed) s | Some f \<Rightarrow> Q f s)"
  by (cases s) (simp add: ensureOpenLocked_def wps split_beta split: option.split)

lemma wp_Append:
  assumes "journal_fields j" and "\<not> jClosed j" and "jFile j = Some i" and "i < length (winodes w)"
    and err: "\<And>e t v. prefix t (journal_entry r) \<Longrightarrow> (t \<noteq> [] \<Longrightarrow> appendable j r) \<Longrightarrow>
        same_fs (append_bytes i t w) v \<Longrightarrow> E e (v, j)"
    and ok: "\<And>v. appendable j r \<Longrightarrow>
        same_fs (set_inode i \<lparr>icontent = file_content i w @ journal_entry r,
                              isynced = file_content i w @ journal_entry r\<rparr> w) v \<Longrightarrow> Q () (v, appended j r)"
  shows "wp (Append r) Q E (w, j)"
proof -
  have early: "E e (v, j)" if "same_fs w v" for e v using err [of "[]"] that by simp
  have wr: "wp (writeFull i (journal_entry r)) (\<lambda>_. wp (f_sync i)
        (\<lambda>_ u. Q () (u, appended j r)) (\<lambda>e u. E e (u, j))) (\<lambda>e u. E e (u, j)) v"
    if v: "same_fs w v" and a: "appendable j r" for v
  proof (rule wp_writeFull_fs)
    show "i < length (winodes v)" using v assms(4) by (simp add: same_fs_def)
    show "E e (u, j)" if "prefix t (journal_entry r)" "same_fs (append_bytes i t v) u" for e t u
      using err [OF that(1) a] same_fs_trans [OF same_fs_append [OF v] that(2)] by blast
    fix u assume u: "same_fs (append_bytes i (journal_entry r) v) u"
    then have u': "same_fs (append_bytes i (journal_entry r) w) u"
      using same_fs_append [OF v] same_fs_trans by blast
    show "wp (f_sync i) (\<lambda>_ u. Q () (u, appended j r)) (\<lambda>e u. E e (u, j)) u"
    proof (rule wp_sync_fs)
      show "E (EStd ErrOS) (x, j)" if "same_fs u x" for x
        using err [of "journal_entry r" x, OF _ a] same_fs_trans [OF u' that] by simp
      show "Q () (x, appended j r)"
        if "same_fs (set_inode i ((winodes u ! i)\<lparr>isynced := file_content i u\<rparr>) u) x" for x
        using that u' assms(4) by (intro ok [OF a], cases "winodes w ! i")
          (simp add: same_fs_def append_bytes_def set_inode_def file_content_def)
    qed
  qed
  have entry: "encodeEnvelope (marshal_record r) = Inr (journal_entry r)" if "Validate r (jLimits j) = Inr ()"
    using encode_record_entry [of "jLimits j" r] that assms(1) by (simp add: journal_fields_def Validate_ok)
  have fin: "(v, j\<lparr>jRecords := jRecords j @ [r], jLast := rVersion r, jSize := jSize j + int (length (journal_entry r))\<rparr>)
      = (v, appended j r)" for v :: world by (simp add: appended_def)
  have core: "wp pollM (\<lambda>_. wp f_seek (\<lambda>_. wp (writeFull i (journal_entry r)) (\<lambda>_. wp (f_sync i)
      (\<lambda>_ u. Q () (u, appended j r)) (\<lambda>e u. E e (u, j))) (\<lambda>e u. E e (u, j))) (\<lambda>e u. E e (u, j))) (\<lambda>e u. E e (u, j)) v"
    if "same_fs w v" "appendable j r" for v
    by (intro wp_pollM_fs wp_seek_fs wr early) (use that in \<open>auto intro: same_fs_trans\<close>)
  show ?thesis
    unfolding Append_def
    apply (simp add: wps wp_ensureOpen assms(2,3))
    apply (rule wp_pollM_fs, simp add: early)
    apply (cases "Validate r (jLimits j)"; simp add: early)
    using core by (simp add: entry wps wp_ensureOpen assms(2,3) early not_less not_le appendable_def
        Validate_ok [symmetric, of _ _ "()"] fin)
qed

lemma journal_invE:
  assumes "journal_inv (w, j)" and "\<not> jClosed j"
  obtains i where "journal_fields j" "jFile j = Some i" "i < length (winodes w)"
    "winodes w ! i = \<lparr>icontent = journal_image j, isynced = journal_image j\<rparr>" "file_content i w = journal_image j"
  using assms by (auto simp: journal_inv_def file_content_def)

text \<open>A successful append keeps the invariant and adds the record.\<close>

lemma Append_ok:
  assumes "journal_inv (w, j)" and "Append r (w, j) = (Inr (), (v, j'))"
  shows "journal_inv (v, j') \<and> j' = appended j r \<and> appendable j r \<and> wdir v = wdir w \<and> wdir_synced v = wdir_synced w \<and>
    length (winodes v) = length (winodes w) \<and> (\<forall>k. jFile j \<noteq> Some k \<longrightarrow> k < length (winodes w) \<longrightarrow> winodes v ! k = winodes w ! k)"
proof (cases "jClosed j")
  case True
  have "wp (Append r) (\<lambda>_ _. False) (\<lambda>_ _. True) (w, j)"
    unfolding Append_def using True
    by (simp add: wps wp_ensureOpen split: sum.split) (auto intro!: wp_pollM simp: wps wp_ensureOpen split: sum.split)
  with assms(2) show ?thesis by (simp add: wp_def)
next
  case False
  with assms(1) obtain i where i: "journal_fields j" "jFile j = Some i" "i < length (winodes w)"
    "winodes w ! i = \<lparr>icontent = journal_image j, isynced = journal_image j\<rparr>" "file_content i w = journal_image j"
    by (rule journal_invE)
  let ?Q = "\<lambda>_ (v, j'). journal_inv (v, j') \<and> j' = appended j r \<and> appendable j r \<and>
    wdir v = wdir w \<and> wdir_synced v = wdir_synced w \<and>
    length (winodes v) = length (winodes w) \<and> (\<forall>k. jFile j \<noteq> Some k \<longrightarrow> k < length (winodes w) \<longrightarrow> winodes v ! k = winodes w ! k)"
  have "wp (Append r) ?Q (\<lambda>_ _. True) (w, j)"
  proof (rule wp_Append [OF i(1) False i(2,3)])
    fix v assume a: "appendable j r" and v: "same_fs (set_inode i \<lparr>icontent = file_content i w @ journal_entry r,
      isynced = file_content i w @ journal_entry r\<rparr> w) v"
    show "?Q () (v, appended j r)"
      using a v i appended_fields [OF i(1) a]
      by (auto simp: journal_inv_def same_fs_def set_inode_def journal_bytes_append)
  qed simp
  with assms(2) show ?thesis by (auto simp: wp_def)
qed

text \<open>A failed append leaves the fields alone and at most a part of the entry behind the old content.\<close>

lemma Append_err:
  assumes "journal_inv (w, j)" and "\<not> jClosed j" and "Append r (w, j) = (Inl e, (v, j'))"
  shows "j' = j \<and> (\<exists>i t. jFile j = Some i \<and> prefix t (journal_entry r) \<and> (t \<noteq> [] \<longrightarrow> appendable j r) \<and>
    same_fs (append_bytes i t w) v)"
proof -
  from assms(1,2) obtain i where i: "journal_fields j" "jFile j = Some i" "i < length (winodes w)"
    by (rule journal_invE)
  have "wp (Append r) (\<lambda>_ _. True) (\<lambda>_ (v, j'). j' = j \<and> (\<exists>i t. jFile j = Some i \<and> prefix t (journal_entry r) \<and>
      (t \<noteq> [] \<longrightarrow> appendable j r) \<and> same_fs (append_bytes i t w) v)) (w, j)"
    by (rule wp_Append [OF i(1) assms(2) i(2,3)]) (use i in auto)
  with assms(3) show ?thesis by (simp add: wp_def)
qed

lemma Append_calm:
  assumes "journal_fields j" and "\<not> jClosed j" and "jFile j = Some i" and "i < length (winodes w)" and "calm w"
  shows "Append r (w, j) =
    (case Validate r (jLimits j) of
       Inl e \<Rightarrow> (Inl e, (w, j))
     | Inr _ \<Rightarrow>
         if rVersion r \<le> jLast j then (Inl (EJournal ErrJournalVersionOrder), (w, j))
         else if \<not> appendable j r then (Inl (EJournal ErrJournalLimit), (w, j))
         else (Inr (), (set_inode i \<lparr>icontent = file_content i w @ journal_entry r,
                                      isynced = file_content i w @ journal_entry r\<rparr> w, appended j r)))"
proof -
  have entry: "encodeEnvelope (marshal_record r) = Inr (journal_entry r)" if "Validate r (jLimits j) = Inr ()"
    using encode_record_entry [of "jLimits j" r] that assms(1) by (simp add: journal_fields_def Validate_ok)
  show ?thesis
  proof (cases "Validate r (jLimits j)")
    case (Inl e)
    with assms(5) show ?thesis by (auto simp: Append_def monad calm_run)
  next
    case (Inr u)
    let ?v = "append_bytes i (journal_entry r) w"
    have v: "set_inode i ((winodes ?v ! i)\<lparr>isynced := file_content i ?v\<rparr>) ?v =
      set_inode i \<lparr>icontent = file_content i w @ journal_entry r, isynced = file_content i w @ journal_entry r\<rparr> w"
      using assms(4) by (cases "winodes w ! i") (simp add: append_bytes_def set_inode_def file_content_def)
    have "calm ?v" using assms(5) by simp
    with Inr assms entry v show ?thesis
      by (auto simp: Append_def ensureOpenLocked_def monad calm_run appendable_def appended_def not_le not_less
          Validate_ok [symmetric, of _ _ "()"])
  qed
qed

lemma append_behaviour_lemma:
  assumes "journal_inv (w, j)" and "\<not> jClosed j" and "calm w" and "Append r (w, j) = (res, (v, j'))"
  shows "(\<forall>e. Validate r (jLimits j) = Inl e \<longrightarrow> res = Inl e \<and> v = w \<and> j' = j) \<and>
    (Validate r (jLimits j) = Inr () \<longrightarrow>
       (if Compare (rVersion r) (jLast j) \<le> 0 then res = Inl (EJournal ErrJournalVersionOrder) \<and> v = w \<and> j' = j
        else if int (length (jRecords j)) \<ge> jMaxEntries j \<or> jSize j + int (length (journal_entry r)) > jMaxBytes j
             then res = Inl (EJournal ErrJournalLimit) \<and> v = w \<and> j' = j
        else res = Inr () \<and> journal_inv (v, j') \<and> jRecords j' = jRecords j @ [r] \<and> jLast j' = rVersion r))"
proof -
  from assms(1,2) obtain i where i: "journal_fields j" "jFile j = Some i" "i < length (winodes w)" by (rule journal_invE)
  note a = Append_calm [OF i(1) assms(2) i(2,3) assms(3), of r] and k = Append_ok [OF assms(1), of r v j']
  show ?thesis
  proof (cases "Validate r (jLimits j)")
    case (Inr u)
    then have full: "appendable j r \<longleftrightarrow> \<not> Compare (rVersion r) (jLast j) \<le> 0 \<and>
        \<not> (int (length (jRecords j)) \<ge> jMaxEntries j \<or> jSize j + int (length (journal_entry r)) > jMaxBytes j)"
      using assms(2) by (auto simp: appendable_def Validate_ok)
    show ?thesis
    proof (cases "appendable j r")
      case True
      with a Inr full assms(4) have "res = Inr ()" by simp
      with k assms(4) Inr full True show ?thesis by auto
    next
      case False
      with a Inr assms(4) full show ?thesis by (cases "rVersion r \<le> jLast j") simp_all
    qed
  qed (use a assms(4) in simp)
qed

section \<open>Opening\<close>

lemma normalized_options_ok:
  assumes "normalized_options opts = Inr n"
  shows "limits_ok (oLimits n)" and "28 \<le> MaxJournalBytes n" and "0 < MaxJournalEntries n"
  using assms
  by (auto simp: normalized_options_def limits_ok_def Let_def journalHeaderBytes_def or_default_def default_limits
      split: if_splits)

lemma f_truncate_calm [calm_run]:
  "calm w \<Longrightarrow> f_truncate i n w = (Inr (), set_inode i ((winodes w ! i)\<lparr>icontent := take n (file_content i w)\<rparr>) w)"
  by (simp add: f_truncate_def monad calm_run)

lemma readBounded_calm [calm_run]:
  assumes "calm w" and "int (length (file_content i w)) \<le> m"
  shows "readBounded i (int (length (file_content i w))) m w = (Inr (file_content i w), w)"
  using assms by (simp add: readBounded_def monad calm_run Let_def)

text \<open>Opening an existing file whose content parses.\<close>

lemma OpenJournal_existing:
  assumes "normalized_options opts = Inr n" and "calm w" and "p \<noteq> []" and "file_name_ok p"
    and "map_of (wdir w) (Path (Clean p)) = Some i"
    and "file_content i w = journal_bytes fl rs @ t" and "isynced (winodes w ! i) = file_content i w"
    and i: "i < length (winodes w)"
    and parse: "parseJournal (journal_bytes fl rs @ t) (oLimits n) = Inr (fl, rs, length (journal_bytes fl rs), t \<noteq> [])"
    and len: "int (length (journal_bytes fl rs @ t)) \<le> MaxJournalBytes n" "int (length rs) \<le> MaxJournalEntries n"
  shows "\<exists>j rec v. OpenJournal p opts w = (Inr (j, rec), v) \<and> jFloor j = fl \<and> jRecords j = rs \<and> jPath j = p \<and>
    jFile j = Some i \<and> \<not> jClosed j \<and> jLimits j = oLimits n \<and> jMaxBytes j = MaxJournalBytes n \<and>
    jMaxEntries j = MaxJournalEntries n \<and> jLast j = last_version fl rs \<and> jSize j = int (length (journal_bytes fl rs)) \<and>
    TruncatedTail rec = (t \<noteq> []) \<and> calm v \<and> wdir v = wdir w \<and> wdir_synced v = wdir_synced w \<and>
    length (winodes v) = length (winodes w) \<and> (\<forall>k. k \<noteq> i \<longrightarrow> winodes v ! k = winodes w ! k) \<and>
    winodes v ! i = \<lparr>icontent = journal_bytes fl rs, isynced = journal_bytes fl rs\<rparr>"
proof -
  have ne: "journal_bytes fl rs \<noteq> []" by (simp add: journal_bytes_def encodeJournalHeader_def Let_def journalMagic_def)
  have pos: "int (length (journal_bytes fl rs)) + int (length t) \<noteq> 0"
    using ne [folded length_greater_0_conv] by linarith
  have op: "os_create p w = (Inr i, w)" using assms(2,4,5) by (simp add: os_create_def calm_run)
  have rd: "readBounded i (int (length (journal_bytes fl rs)) + int (length t)) (MaxJournalBytes n) w = (Inr (journal_bytes fl rs @ t), w)"
    using readBounded_calm [OF assms(2), of i "MaxJournalBytes n"] assms(6) len by simp
  have full: "winodes w ! i = \<lparr>icontent = journal_bytes fl rs @ t, isynced = journal_bytes fl rs @ t\<rparr>"
    using assms(6,7) by (cases "winodes w ! i") (simp add: file_content_def)
  show ?thesis
    using assms(1-3) op rd ne pos parse len assms(6) full i
    by (cases "t = []") (auto simp: OpenJournal_def monad onErrorM_def calm_run set_inode_def file_content_def)
qed

lemma reopened_inv:
  assumes "jFloor j = fl" "jRecords j = rs" "jFile j = Some i" "jLast j = last_version fl rs"
    "jSize j = int (length (journal_bytes fl rs))" "winodes v ! i = \<lparr>icontent = journal_bytes fl rs, isynced = journal_bytes fl rs\<rparr>"
    and "limits_ok (jLimits j)" "\<forall>r\<in>set rs. valid_record (jLimits j) r" "increasing fl rs" "jSize j \<le> jMaxBytes j"
    "int (length rs) \<le> jMaxEntries j" "i < length (winodes v)"
  shows "journal_inv (v, j)"
  using assms by (auto simp: journal_inv_def journal_fields_def)

text \<open>Opening a new journal.\<close>

lemma OpenJournal_new:
  assumes "normalized_options opts = Inr n" and "calm w" and "p \<noteq> []" and "file_name_ok p"
    and "map_of (wdir w) (Path (Clean p)) = None"
  shows "\<exists>j rec v. OpenJournal p opts w = (Inr (j, rec), v) \<and> jFloor j = zeroVersion \<and> jRecords j = [] \<and> jPath j = p \<and>
    jFile j = Some (length (winodes w)) \<and> \<not> jClosed j \<and> jLimits j = oLimits n \<and> jMaxBytes j = MaxJournalBytes n \<and>
    jMaxEntries j = MaxJournalEntries n \<and> jLast j = zeroVersion \<and> calm v \<and>
    map_of (wdir v) (Path (Clean p)) = Some (length (winodes w)) \<and> wdir_synced v = wdir_synced w \<and> journal_inv (v, j)"
proof -
  note n = normalized_options_ok [OF assms(1)]
  let ?w1 = "w\<lparr>winodes := winodes w @ [\<lparr>icontent = [], isynced = []\<rparr>],
               wdir := AList.update (Path (Clean p)) (length (winodes w)) (wdir w)\<rparr>"
  have op: "os_create p w = (Inr (length (winodes w)), ?w1)" using assms(2,4,5) by (simp add: os_create_def calm_run)
  have c: "calm ?w1" using assms(2) by simp
  have z: "file_content (length (winodes w)) ?w1 = []" by (simp add: file_content_def)
  show ?thesis
    using assms(1,3) op c z n
    by (auto simp: OpenJournal_def monad onErrorM_def calm_run journal_inv_def journal_fields_def append_bytes_def
        set_inode_def file_content_def update_conv' journal_bytes_def journalHeaderBytes_def list_update_append)
qed

section \<open>Restarting after a crash\<close>

text \<open>Options under which a journal with the limits of \<open>j\<close> is opened.\<close>

definition options_of :: "JournalOptions \<Rightarrow> Journal \<Rightarrow> bool" where
  "options_of opts j \<longleftrightarrow>
     normalized_options opts = Inr \<lparr>oLimits = jLimits j, MaxJournalBytes = jMaxBytes j, MaxJournalEntries = jMaxEntries j\<rparr>"

lemma crash_between:
  assumes "crash v u" and "i < length (winodes v)" and "isynced (winodes v ! i) = a"
    and "icontent (winodes v ! i) = a @ t"
  obtains t' where "prefix t' t" "file_content i u = a @ t'"
proof -
  have "crash_image (winodes v ! i) (file_content i u)" using assms(1,2) by (rule crash_content)
  then have "prefix a (file_content i u)" "prefix (file_content i u) (a @ t)"
    using assms(3,4) by (auto simp: crash_image_def)
  then show ?thesis using that by (auto simp: prefix_def)
qed

text \<open>What the next start finds when \<open>j\<close>'s file holds the old content and a part of one more entry.\<close>

lemma reopen_after_crash:
  assumes "journal_fields j" and "options_of opts j" and "file_name_ok (jPath j)" "jPath j \<noteq> []"
    and u: "calm u" "map_of (wdir u) (Path (Clean (jPath j))) = Some i" "i < length (winodes u)"
      "isynced (winodes u ! i) = file_content i u"
    and t: "file_content i u = journal_image j @ t" "prefix t (journal_entry r)" "t \<noteq> [] \<Longrightarrow> appendable j r"
  shows "\<exists>j2 rec v. OpenJournal (jPath j) opts u = (Inr (j2, rec), v) \<and> jFloor j2 = jFloor j \<and>
    jRecords j2 = (if t = journal_entry r then jRecords j @ [r] else jRecords j) \<and> journal_inv (v, j2)"
proof -
  note f = assms(1) [unfolded journal_fields_def]
  let ?rs = "if t = journal_entry r then jRecords j @ [r] else jRecords j"
  let ?t = "if t = journal_entry r then [] else t"
  have e: "journal_entry r \<noteq> []" by (simp add: journal_entry_def)
  have ap: "appendable j r" if "t = journal_entry r" using t(3) that e by simp
  have valid: "\<forall>x\<in>set ?rs. valid_record (jLimits j) x" "increasing (jFloor j) ?rs" "int (length ?rs) \<le> jMaxEntries j"
    using f ap by (auto simp: appendable_def)
  have c: "file_content i u = journal_bytes (jFloor j) ?rs @ ?t"
    using t(1) by (simp add: journal_bytes_append)
  have len: "int (length (journal_bytes (jFloor j) ?rs @ ?t)) \<le> jMaxBytes j"
    using f t(3) prefix_length_le [OF t(2)] unfolding c [symmetric] t(1) by (cases "t = []") (auto simp: appendable_def)
  have parse: "parseJournal (journal_bytes (jFloor j) ?rs @ ?t) (jLimits j) =
      Inr (jFloor j, ?rs, length (journal_bytes (jFloor j) ?rs), ?t \<noteq> [])"
  proof (cases "?t = []")
    case True
    then show ?thesis using parse_journal_bytes(1) [OF _ valid(1,2)] f by simp
  next
    case False
    then have "t \<noteq> journal_entry r" "t \<noteq> []" by (auto split: if_splits)
    with t(2,3) show ?thesis
      using parse_torn [OF _ valid(1,2), of r t] f by (auto simp: appendable_def strict_prefix_def)
  qed
  from OpenJournal_existing [OF assms(2) [unfolded options_of_def] u(1) assms(4,3) u(2) c u(4) u(3), simplified, OF parse]
    len valid(3)
  obtain j2 rec v where o: "OpenJournal (jPath j) opts u = (Inr (j2, rec), v)"
    "jFloor j2 = jFloor j" "jRecords j2 = ?rs" "jFile j2 = Some i" "jLimits j2 = jLimits j" "jMaxBytes j2 = jMaxBytes j"
    "jMaxEntries j2 = jMaxEntries j" "jLast j2 = last_version (jFloor j) ?rs"
    "jSize j2 = int (length (journal_bytes (jFloor j) ?rs))" "length (winodes v) = length (winodes u)"
    "winodes v ! i = \<lparr>icontent = journal_bytes (jFloor j) ?rs, isynced = journal_bytes (jFloor j) ?rs\<rparr>"
    by fastforce
  have "journal_inv (v, j2)"
    using o f valid len u(3) by (intro reopened_inv [OF o(2,3,4,8,9,11)]) auto
  with o show ?thesis by blast
qed

section \<open>Sample values\<close>

definition example_options :: JournalOptions where
  "example_options = \<lparr>oLimits = example_limits, MaxJournalBytes = 0, MaxJournalEntries = 0\<rparr>"

lemma example_options_ok:
  "normalized_options example_options =
     Inr \<lparr>oLimits = normalized_limits example_limits, MaxJournalBytes = 67108864, MaxJournalEntries = 65536\<rparr>"
  by (simp add: normalized_options_def example_options_def or_default_def default_limits Let_def
      normalized_limits_def example_limits_def journalHeaderBytes_def)

lemma example_limits_ok [simp]: "limits_ok (normalized_limits example_limits)"
  using normalized_options_ok [OF example_options_ok] by simp

lemma example_valid [simp]:
  "valid_record example_limits (example_record 1)" "valid_record example_limits (example_record 2)"
  using example_record_valid(1,2) unfolding Validate_ok by simp_all

lemma example_entry_length: "length (journal_entry (example_record 1)) < 256" "length (journal_entry (example_record 2)) < 256"
  by (simp_all add: ev length_journal_entry)

text \<open>A file system with one journal on disk under the name \<^verbatim>\<open>j\<close>, holding one record, and the journal open.\<close>

definition example_journal :: Journal where
  "example_journal =
     \<lparr>jPath = ''j'', jFile = Some 0, jLimits = normalized_limits example_limits, jMaxBytes = 67108864,
      jMaxEntries = 65536, jSize = int (length (journal_bytes zeroVersion [example_record 1])),
      jFloor = zeroVersion, jLast = MkVersion 1 1, jRecords = [example_record 1], jClosed = False\<rparr>"

definition example_world :: world where
  "example_world =
     \<lparr>wdir = [(Path (Clean ''j''), 0)], wdir_synced = [(Path (Clean ''j''), 0)],
      winodes = [\<lparr>icontent = journal_bytes zeroVersion [example_record 1], isynced = journal_bytes zeroVersion [example_record 1]\<rparr>],
      wtemps = 0, wplan = [], wpolls = None\<rparr>"

lemma example_version [simp]: "rVersion (example_record n) = MkVersion 1 n"
  by (simp add: example_record_def)

lemma zero_less_example [simp]: "zeroVersion < MkVersion 1 n"
  by (simp add: zeroVersion_def less_Version_def)

lemma example_less [simp]: "MkVersion 1 1 < MkVersion 1 2"
  by (simp add: less_Version_def)

lemma example_journal_inv: "journal_inv (example_world, example_journal)" "linked (example_world, example_journal)"
  "calm example_world" "options_of example_options example_journal" "appendable example_journal (example_record 2)"
  using example_entry_length
  by (auto simp: journal_inv_def journal_fields_def linked_def example_world_def example_journal_def calm_def
      options_of_def example_options_ok appendable_def journal_bytes_def file_name_ok_def base_seg_def)

section \<open>Properties\<close>

text \<open>
  The journal format round-trips and tolerates a torn tail.  Parsing the bytes of a journal gives
  back its floor and its records; if a proper part of one more entry follows, parsing gives the
  same floor and records, the size of the intact part, and reports the tail.
\<close>

theorem journal_parse_roundtrip:
  assumes "limits_ok L" and "\<forall>r\<in>set rs. Validate r L = Inr ()" and "increasing floor rs"
    and "Validate r L = Inr ()" and "strict_prefix t (journal_entry r)"
  shows "parseJournal (journal_bytes floor rs @ t) L = Inr (floor, rs, length (journal_bytes floor rs), t \<noteq> [])"
  using parse_journal_bytes(1) [OF assms(1) _ assms(3)] parse_torn [OF assms(1) _ assms(3) _ assms(5)] assms(2,4)
  by (cases "t = []") (auto simp: Validate_ok)

theorem journal_parse_roundtrip_witness:
  "parseJournal (journal_bytes zeroVersion [example_record 1] @ take 5 (journal_entry (example_record 2)))
     (normalized_limits example_limits) =
   Inr (zeroVersion, [example_record 1], length (journal_bytes zeroVersion [example_record 1]), True)"
proof -
  have "strict_prefix (take 5 (journal_entry (example_record 2))) (journal_entry (example_record 2))"
    by (simp add: strict_prefix_def take_is_prefix length_journal_entry)
  moreover have "take 5 (journal_entry (example_record 2)) \<noteq> []" by (simp add: journal_entry_def)
  ultimately show ?thesis
    using journal_parse_roundtrip [of "normalized_limits example_limits" "[example_record 1]" zeroVersion "example_record 2"]
    by simp
qed

text \<open>
  C12. \<^verbatim>\<open>Append\<close> is atomic and durable.  Take an open journal whose file is on disk and run \<^verbatim>\<open>Append\<close> under
  any pattern of failing, short or cancelled calls, then crash.  The next \<^verbatim>\<open>OpenJournal\<close> succeeds and
  finds the old records, or the old records and the new one, and nothing else; if \<^verbatim>\<open>Append\<close> had returned
  without error, it finds the new one.
\<close>

theorem append_crash_atomic:
  assumes "journal_inv (w, j)" and "linked (w, j)" and "\<not> jClosed j" and "options_of opts j"
    and "Append r (w, j) = (res, (v, j'))" and "crash v u" and "calm u"
  shows "\<exists>j2 rec u2. OpenJournal (jPath j) opts u = (Inr (j2, rec), u2) \<and> journal_inv (u2, j2) \<and>
    jFloor j2 = jFloor j \<and> (jRecords j2 = jRecords j \<or> jRecords j2 = jRecords j @ [r]) \<and>
    (res = Inr () \<longrightarrow> jRecords j2 = jRecords j @ [r])"
proof -
  from assms(1,3) obtain i where i: "journal_fields j" "jFile j = Some i" "i < length (winodes w)"
    "winodes w ! i = \<lparr>icontent = journal_image j, isynced = journal_image j\<rparr>" by (rule journal_invE)
  have lk: "file_name_ok (jPath j)" "jPath j \<noteq> []" "map_of (wdir w) (Path (Clean (jPath j))) = Some i"
    "map_of (wdir_synced w) (Path (Clean (jPath j))) = Some i"
    using assms(2) i(2) by (auto simp: linked_def)
  have v: "wdir v = wdir w \<and> wdir_synced v = wdir_synced w \<and> length (winodes v) = length (winodes w) \<and>
    (\<exists>t. prefix t (journal_entry r) \<and> (t \<noteq> [] \<longrightarrow> appendable j r) \<and>
      (res = Inr () \<longrightarrow> file_content i u = journal_image j @ journal_entry r) \<and> file_content i u = journal_image j @ t)"
  proof (cases res)
    case (Inl e)
    with Append_err [OF assms(1,3), of r e v j'] assms(5) i(2) obtain t where t: "prefix t (journal_entry r)"
      "t \<noteq> [] \<longrightarrow> appendable j r" "same_fs (append_bytes i t w) v" by auto
    then have "winodes v ! i = \<lparr>icontent = journal_image j @ t, isynced = journal_image j\<rparr>" "i < length (winodes v)"
      using i by (auto simp: same_fs_def append_bytes_def set_inode_def file_content_def)
    with crash_between [OF assms(6), of i] obtain t' where "prefix t' t" "file_content i u = journal_image j @ t'" by auto
    with t Inl show ?thesis
      by (auto simp: same_fs_def intro!: exI [of _ t'] intro: prefix_order.trans)
  next
    case (Inr a)
    with Append_ok [OF assms(1)] assms(5) have a: "journal_inv (v, appended j r)" "appendable j r"
      "wdir v = wdir w" "wdir_synced v = wdir_synced w" "length (winodes v) = length (winodes w)" by auto
    have "winodes v ! i = \<lparr>icontent = journal_image j @ journal_entry r, isynced = journal_image j @ journal_entry r\<rparr>"
      "i < length (winodes v)"
      using a(1) assms(3) i(2) by (auto simp: journal_inv_def journal_bytes_append)
    with crash_synced_content [OF assms(6), of i] have "file_content i u = journal_image j @ journal_entry r"
      by (simp add: file_content_def)
    with a show ?thesis by auto
  qed
  then obtain t where t: "prefix t (journal_entry r)" "t \<noteq> [] \<Longrightarrow> appendable j r"
    "res = Inr () \<longrightarrow> t = journal_entry r" "file_content i u = journal_image j @ t" by auto
  have u: "map_of (wdir u) (Path (Clean (jPath j))) = Some i"
    using crash_entry [OF assms(6)] v lk(3,4) by metis
  have ui: "i < length (winodes u)" "isynced (winodes u ! i) = file_content i u"
    using assms(6) v i(3) by (auto simp: crash_def)
  from reopen_after_crash [OF i(1) assms(4) lk(1,2) assms(7) u ui t(4,1,2)] t(3)
  show ?thesis by (auto split: if_splits)
qed

lemma example_append:
  "\<exists>v. Append (example_record 2) (example_world, example_journal) = (Inr (), (v, appended example_journal (example_record 2))) \<and> calm v"
proof -
  have v: "Validate (example_record 2) (jLimits example_journal) = Inr ()"
    by (simp add: example_journal_def)
  have "jLast example_journal < rVersion (example_record 2)" by (simp add: example_journal_def)
  moreover have "journal_fields example_journal" "\<not> jClosed example_journal" "jFile example_journal = Some 0"
    "0 < length (winodes example_world)"
    using example_journal_inv(1) by (auto simp: journal_inv_def example_journal_def example_world_def)
  ultimately show ?thesis
    using Append_calm [of example_journal 0 example_world "example_record 2"] example_journal_inv(3,5) v
    by (simp add: not_le [symmetric])
qed

lemma calm_settle [simp]: "calm (settle w) = calm w"
  by (simp add: calm_def settle_def)

theorem append_crash_atomic_witness:
  "\<exists>v j' j2 rec u2. Append (example_record 2) (example_world, example_journal) = (Inr (), (v, j')) \<and>
     OpenJournal ''j'' example_options (settle v) = (Inr (j2, rec), u2) \<and>
     jRecords j2 = [example_record 1, example_record 2]"
proof -
  obtain v where v: "Append (example_record 2) (example_world, example_journal) =
      (Inr (), (v, appended example_journal (example_record 2)))" "calm v" using example_append by blast
  have j: "jPath example_journal = ''j''" "jRecords example_journal = [example_record 1]" "\<not> jClosed example_journal"
    by (simp_all add: example_journal_def)
  from append_crash_atomic [OF example_journal_inv(1,2) j(3) example_journal_inv(4) v(1) crash_settle] v j
  show ?thesis by fastforce
qed

text \<open>
  What \<^verbatim>\<open>Append\<close> does when no call fails: an invalid record, a version that does not increase and a
  full journal are refused with their errors and nothing changes; every other record is appended,
  the new state satisfies the invariant, and the file holds exactly the header and the records.
\<close>

theorem append_behaviour:
  assumes "journal_inv (w, j)" and "\<not> jClosed j" and "calm w" and "Append r (w, j) = (res, (v, j'))"
  shows "(\<forall>e. Validate r (jLimits j) = Inl e \<longrightarrow> res = Inl e \<and> v = w \<and> j' = j) \<and>
    (Validate r (jLimits j) = Inr () \<longrightarrow>
       (if Compare (rVersion r) (jLast j) \<le> 0 then res = Inl (EJournal ErrJournalVersionOrder) \<and> v = w \<and> j' = j
        else if int (length (jRecords j)) \<ge> jMaxEntries j \<or> jSize j + int (length (journal_entry r)) > jMaxBytes j
             then res = Inl (EJournal ErrJournalLimit) \<and> v = w \<and> j' = j
        else res = Inr () \<and> journal_inv (v, j') \<and> jRecords j' = jRecords j @ [r] \<and> jLast j' = rVersion r))"
  using append_behaviour_lemma [OF assms] .

theorem append_behaviour_witness:
  "\<exists>v j'. Append (example_record 2) (example_world, example_journal) = (Inr (), (v, j')) \<and> journal_inv (v, j') \<and>
     jRecords j' = [example_record 1, example_record 2]"
proof -
  obtain v where v: "Append (example_record 2) (example_world, example_journal) =
      (Inr (), (v, appended example_journal (example_record 2)))" using example_append by blast
  have "\<not> jClosed example_journal" "Validate (example_record 2) (jLimits example_journal) = Inr ()"
    "\<not> Compare (rVersion (example_record 2)) (jLast example_journal) \<le> 0" "jRecords example_journal = [example_record 1]"
    by (simp_all add: example_journal_def not_le)
  with append_behaviour [OF example_journal_inv(1) _ example_journal_inv(3) v] v example_journal_inv(5)
  show ?thesis by (auto simp: appendable_def)
qed

section \<open>Observations\<close>





text \<open>The crash that loses everything not synced.\<close>

definition lose_unsynced :: "world \<Rightarrow> world" where
  "lose_unsynced w = w\<lparr>wdir := wdir_synced w, winodes := map (\<lambda>f. f\<lparr>icontent := isynced f\<rparr>) (winodes w)\<rparr>"

lemma crash_lose: "crash w (lose_unsynced w)"
  by (auto simp: crash_def lose_unsynced_def crash_image_def file_content_def)

text \<open>
  C21. The entry of a new journal is not synced.  \<^verbatim>\<open>OpenJournal\<close> creates the file and syncs its content, but
  not the directory, and \<^verbatim>\<open>Append\<close> syncs only the file: a crash may lose the entry, and with it every
  record whose append was acknowledged.
\<close>

theorem new_journal_can_vanish:
  "\<exists>j rec v v2 j2 u.
     OpenJournal ''j'' example_options empty_world = (Inr (j, rec), v) \<and>
     Append (example_record 1) (v, j) = (Inr (), (v2, j2)) \<and> crash v2 u \<and> path_content ''j'' u = None"
proof -
  obtain j rec v where o: "OpenJournal ''j'' example_options empty_world = (Inr (j, rec), v)" "jFloor j = zeroVersion"
    "jRecords j = []" "\<not> jClosed j" "jLimits j = normalized_limits example_limits" "jMaxBytes j = 67108864"
    "jMaxEntries j = 65536" "jLast j = zeroVersion" "calm v" "wdir_synced v = []" "journal_inv (v, j)"
    using OpenJournal_new [OF example_options_ok, of empty_world "''j''"]
    by (auto simp: file_name_ok_def base_seg_def)
  obtain v2 j2 res where a: "Append (example_record 1) (v, j) = (res, (v2, j2))" by (metis prod.collapse)
  have "jSize j = 28" using o by (simp add: journal_inv_def journal_fields_def journal_bytes_def)
  moreover have "\<not> Compare (rVersion (example_record 1)) (jLast j) \<le> 0"
    unfolding o(8) Compare_simps not_le example_version by (rule zero_less_example)
  moreover have "Validate (example_record 1) (jLimits j) = Inr ()" by (simp add: o(5))
  ultimately have r: "res = Inr ()"
    using append_behaviour_lemma [OF o(11,4,9) a] o(3,6,7) example_entry_length(1) by simp
  have "wdir_synced v2 = []" using Append_ok [OF o(11) a [unfolded r]] o(10) by simp
  then have "path_content ''j'' (lose_unsynced v2) = None" by (simp add: path_content_def lose_unsynced_def)
  with o(1) a r crash_lose [of v2] show ?thesis by blast
qed

end
