(* ===== verification/Lifecycle_Compaction.thy ===== *)
theory Lifecycle_Compaction
  imports Lifecycle_Journal
begin

text \<open>
  \<^verbatim>\<open>internal/lifecycle/journal.go\<close>, second part: checkpoints, \<^verbatim>\<open>Compact\<close> and \<^verbatim>\<open>InstallSnapshot\<close>.

  The lemmas show that a saved checkpoint loads as its normal form, that a successful compaction
  keeps the replayed state and the invariant of the journal and never outruns a peer, and that
  wherever a compaction or an installation is interrupted, a restart never finds the shortened
  journal without the checkpoint that covers what was dropped.
\<close>

section \<open>Checkpoints\<close>

record Checkpoint =
  Watermark :: Version
  cpRecords :: "Record list"

definition zeroCheckpoint :: Checkpoint where
  "zeroCheckpoint = \<lparr>Watermark = zeroVersion, cpRecords = []\<rparr>"

definition checkpoint_json :: "Checkpoint \<Rightarrow> json" where
  "checkpoint_json c =
     JObj [(''watermark'', version_json (Watermark c)), (''records'', JArr (map record_json (cpRecords c)))]"

definition dec_checkpoint :: "Checkpoint decoder" where
  "dec_checkpoint = struct_decode False
     [(''watermark'', field (dec_version False) Watermark Watermark_update),
      (''records'', field (dec_slice (dec_record False) zeroRecord) cpRecords cpRecords_update)]"

definition normalizeCheckpoint :: "Checkpoint \<Rightarrow> Limits \<Rightarrow> err + (Checkpoint \<times> Limits)" where
  "normalizeCheckpoint checkpoint limits =
     (let limits = normalized_limits limits in
      bindE (normalizeCheckpointRecords (cpRecords checkpoint) (Watermark checkpoint) limits) (\<lambda>records.
      Inr (\<lparr>Watermark = Watermark checkpoint, cpRecords = records\<rparr>, limits)))"

definition encodeCheckpoint :: "Checkpoint \<Rightarrow> Limits \<Rightarrow> err + (bytes \<times> Limits)" where
  "encodeCheckpoint checkpoint limits =
     (let limits = normalized_limits limits in
      bindE (normalizeCheckpoint checkpoint limits) (\<lambda>(normalized, _).
      bindE (encodeEnvelope (json_print (checkpoint_json normalized))) (\<lambda>envelope.
      bindE (guardE (int (length envelope) > MaxCheckpointBytes limits) (EJournal ErrCheckpointTooLarge)) (\<lambda>_.
      Inr (envelope, limits)))))"

definition SaveCheckpoint :: "bytes \<Rightarrow> Checkpoint \<Rightarrow> Limits \<Rightarrow> (world, unit) M" where
  "SaveCheckpoint path checkpoint limits =
     bindM (guardM (path = []) (EJournal ErrNilCheckpointPath)) (\<lambda>_.
     bindM (liftE (encodeCheckpoint checkpoint limits)) (\<lambda>(encoded, normalized).
     bindM (guardM (int (length encoded) > MaxCheckpointBytes normalized) (EJournal ErrCheckpointTooLarge)) (\<lambda>_.
     atomicWrite path encoded)))"

definition LoadCheckpoint :: "bytes \<Rightarrow> Limits \<Rightarrow> (world, Checkpoint) M" where
  "LoadCheckpoint path limits =
     bindM (guardM (path = []) (EJournal ErrNilCheckpointPath)) (\<lambda>_.
     bindM pollM (\<lambda>_.
     let limits = normalized_limits limits in
     bindM (os_open path) (\<lambda>file.
     deferM f_close
      (bindM (f_size file) (\<lambda>fsize.
       bindM (guardM (fsize > MaxCheckpointBytes limits) (EJournal ErrCheckpointTooLarge)) (\<lambda>_.
       bindM (f_read file) (\<lambda>data.
       bindM (liftE (decodeEnvelope data 0 (MaxCheckpointBytes limits)
                (EJournal ErrCheckpointCorrupt) (EJournal ErrCheckpointChecksum))) (\<lambda>(payload, nxt).
       bindM (guardM (nxt \<noteq> length data) (EJournal ErrCheckpointCorrupt)) (\<lambda>_.
       bindM (liftE (mapE (\<lambda>_. EWrap (EJournal ErrCheckpointCorrupt))
                (json_unmarshal dec_checkpoint zeroCheckpoint payload))) (\<lambda>checkpoint.
       bindM (liftE (normalizeCheckpoint checkpoint limits)) (\<lambda>(normalized, _).
       returnM normalized)))))))))))"

section \<open>Rewriting the journal\<close>

fun rewrite_loop :: "nat \<Rightarrow> int \<Rightarrow> int \<Rightarrow> Record list \<Rightarrow> (world, int) M" where
  "rewrite_loop file maxBytes sz [] = returnM sz"
| "rewrite_loop file maxBytes sz (record # records) =
     bindM pollM (\<lambda>_.
     bindM (liftE (encodeEnvelope (marshal_record record))) (\<lambda>entry.
     bindM (guardM (sz + int (length entry) > maxBytes) (EJournal ErrJournalLimit)) (\<lambda>_.
     bindM (writeFull file entry) (\<lambda>_.
     rewrite_loop file maxBytes (sz + int (length entry)) records))))"

definition rewriteLocked :: "bytes \<Rightarrow> int \<Rightarrow> Version \<Rightarrow> Record list \<Rightarrow> (world, nat \<times> int) M" where
  "rewriteLocked path maxBytes floor records =
     bindM (create_temp (Dir path)) (\<lambda>(tmp, file).
     bindM (onErrorM (os_remove tmp)
       (bindM (onErrorM f_close
          (bindM (writeFull file (encodeJournalHeader floor)) (\<lambda>_.
           rewrite_loop file maxBytes (int (length (encodeJournalHeader floor))) records))) (\<lambda>sz.
        bindM (onErrorM f_close (f_sync file)) (\<lambda>_.
        bindM f_close (\<lambda>_.
        bindM pollM (\<lambda>_.
        bindM (os_rename tmp path) (\<lambda>_.
        returnM sz))))))) (\<lambda>sz.
     bindM (syncDirectory (Dir path)) (\<lambda>_.
     bindM (os_open path) (\<lambda>newFile.
     bindM (onErrorM f_close f_seek) (\<lambda>_.
     returnM (newFile, sz))))))"

section \<open>Compaction\<close>

record CompactionRequest =
  CheckpointPath :: bytes
  reqWatermark :: Version
  reqRecords :: "Record list"
  reqBase :: "Checkpoint option"
  PeerWatermarks :: "Version list"

definition compactionBaseLocked :: "Journal \<Rightarrow> Checkpoint option \<Rightarrow> err + Checkpoint" where
  "compactionBaseLocked j base =
     (if IsZero (jFloor j) then
        (case base of
           None \<Rightarrow> Inr zeroCheckpoint
         | Some base \<Rightarrow>
             bindE (normalizeCheckpoint base (jLimits j)) (\<lambda>(validated, _).
             bindE (guardE (\<not> IsZero (Watermark validated)) (EJournal ErrCompactionBaseMismatch)) (\<lambda>_.
             Inr validated)))
      else
        (case base of
           None \<Rightarrow> Inl (EJournal ErrCompactionBaseMismatch)
         | Some base \<Rightarrow>
             bindE (normalizeCheckpoint base (jLimits j)) (\<lambda>(validated, _).
             bindE (guardE (Watermark validated \<noteq> jFloor j) (EJournal ErrCompactionBaseMismatch)) (\<lambda>_.
             Inr validated))))"

text \<open>The loops that apply the base and the covered part of the journal to a fresh store.\<close>

fun apply_each :: "Record list \<Rightarrow> Store \<Rightarrow> err + Store" where
  "apply_each [] state = Inr state"
| "apply_each (record # records) state =
     (case Apply record state of
        (Inl e, _) \<Rightarrow> Inl (EWrap (EJournal ErrCompactionUnsafe))
      | (Inr _, state') \<Rightarrow> apply_each records state')"

definition covered :: "Version \<Rightarrow> Record list \<Rightarrow> Record list" where
  "covered watermark records = takeWhile (\<lambda>record. \<not> Compare (rVersion record) watermark > 0) records"

text \<open>Replacing the file, floor and records after a rewrite.\<close>

definition swap_file :: "Version \<Rightarrow> Record list \<Rightarrow> nat \<Rightarrow> int \<Rightarrow> (world \<times> Journal, unit) M" where
  "swap_file watermark tail newFile newSize =
     bindM (onErrorM (osM f_close) (osM f_close)) (\<lambda>_.
     setM (\<lambda>j. j\<lparr>jFile := Some newFile, jFloor := watermark, jRecords := tail, jSize := newSize,
                 jLast := last_version watermark tail\<rparr>))"

definition Compact :: "CompactionRequest \<Rightarrow> (world \<times> Journal, unit) M" where
  "Compact request =
     bindM (guardM (CheckpointPath request = []) (EJournal ErrNilCheckpointPath)) (\<lambda>_.
     bindM (osM pollM) (\<lambda>_.
     bindM ensureOpenLocked (\<lambda>_.
     bindM (selfM (\<lambda>j. j)) (\<lambda>j.
     bindM (guardM (Clean (CheckpointPath request) = Clean (jPath j)) (EJournal ErrCompactionUnsafe)) (\<lambda>_.
     bindM (guardM (Compare (reqWatermark request) (jFloor j) \<le> 0) (EJournal ErrCompactionNoProgress)) (\<lambda>_.
     bindM (guardM (Compare (reqWatermark request) (jLast j) > 0) (EJournal ErrCompactionWatermark)) (\<lambda>_.
     bindM (guardM (list_ex (\<lambda>peer. Compare peer (reqWatermark request) < 0) (PeerWatermarks request))
              (EJournal ErrPeerBehindWatermark)) (\<lambda>_.
     bindM (liftE (compactionBaseLocked j (reqBase request))) (\<lambda>base.
     bindM (liftE (normalizeCheckpoint
              \<lparr>Watermark = reqWatermark request, cpRecords = reqRecords request\<rparr> (jLimits j))) (\<lambda>(checkpoint, _).
     bindM (liftE (apply_each (cpRecords base) (NewStore (jLimits j)))) (\<lambda>state.
     let prefix = covered (reqWatermark request) (jRecords j) in
     bindM (liftE (apply_each prefix state)) (\<lambda>state.
     bindM (guardM (length prefix = 0) (EJournal ErrCompactionNoProgress)) (\<lambda>_.
     bindM (guardM (\<not> recordsEqual (Snapshot state) (cpRecords checkpoint)) (EJournal ErrCompactionUnsafe)) (\<lambda>_.
     bindM (liftE (encodeCheckpoint
              \<lparr>Watermark = reqWatermark request, cpRecords = cpRecords checkpoint\<rparr> (jLimits j))) (\<lambda>(checkpointBytes, _).
     bindM (osM (atomicWrite (CheckpointPath request) checkpointBytes)) (\<lambda>_.
     let tail = drop (length prefix) (jRecords j) in
     bindM (osM (rewriteLocked (jPath j) (jMaxBytes j) (reqWatermark request) tail)) (\<lambda>(newFile, newSize).
     swap_file (reqWatermark request) tail newFile newSize)))))))))))))))))"

definition InstallSnapshot :: "bytes \<Rightarrow> Checkpoint \<Rightarrow> (world \<times> Journal, unit) M" where
  "InstallSnapshot checkpointPath checkpoint =
     bindM (guardM (checkpointPath = []) (EJournal ErrNilCheckpointPath)) (\<lambda>_.
     bindM (osM pollM) (\<lambda>_.
     bindM ensureOpenLocked (\<lambda>_.
     bindM (selfM (\<lambda>j. j)) (\<lambda>j.
     bindM (guardM (Clean checkpointPath = Clean (jPath j)) (EJournal ErrCompactionUnsafe)) (\<lambda>_.
     bindM (liftE (normalizeCheckpoint checkpoint (jLimits j))) (\<lambda>(normalized, _).
     bindM (guardM (Compare (Watermark normalized) (jLast j) < 0) (EJournal ErrSnapshotStale)) (\<lambda>_.
     bindM (osM (SaveCheckpoint checkpointPath normalized (jLimits j))) (\<lambda>_.
     bindM (osM (rewriteLocked (jPath j) (jMaxBytes j) (Watermark normalized) [])) (\<lambda>(newFile, newSize).
     swap_file (Watermark normalized) [] newFile newSize)))))))))"

section \<open>Checkpoints round-trip\<close>

lemma normalizeCheckpoint_ok:
  "normalizeCheckpoint c L = Inr (n, L') \<longleftrightarrow>
     L' = normalized_limits L \<and> Watermark n = Watermark c \<and>
     normalizeCheckpointRecords (cpRecords c) (Watermark c) L = Inr (cpRecords n)"
proof -
  have "normalizeCheckpointRecords rs v (normalized_limits L) = normalizeCheckpointRecords rs v L" for rs v
    by (simp add: normalizeCheckpointRecords_def Let_def)
  then show ?thesis
    by (cases n) (auto simp: normalizeCheckpoint_def Let_def resE)
qed

lemma normalizeCheckpoint_idem:
  assumes "normalizeCheckpoint c L = Inr (n, L')"
  shows "normalizeCheckpoint n L = Inr (n, L')"
  using assms by (auto simp: normalizeCheckpoint_ok normalizeCheckpointRecords_ok sort_key_sorted_id)

lemma normalizeCheckpoint_limits [simp]:
  "normalizeCheckpoint c (normalized_limits L) = normalizeCheckpoint c L"
  by (simp add: normalizeCheckpoint_def Let_def)

lemma checkpoint_names [simp]: "valid_utf8 ''watermark''" "valid_utf8 ''records''"
  by (rule valid_utf8_ascii, simp)+

lemma dec_checkpoint_rt [json_rt]: "dec_checkpoint zeroCheckpoint (checkpoint_json c) = Some c"
  by (simp add: dec_checkpoint_def struct_decode_def checkpoint_json_def zeroCheckpoint_def find_field_def
      field_def json_rt dec_slice_rt)

lemma checkpoint_json_depth: "json_depth (checkpoint_json c) \<le> 4"
proof -
  have "foldr max (map json_depth (map record_json (cpRecords c))) 0 \<le> 2"
    unfolding map_map by (rule foldr_max_le) simp
  then show ?thesis by (simp add: checkpoint_json_def o_def)
qed

lemma checkpoint_json_wf: "normalizeCheckpoint c L = Inr (n, L') \<Longrightarrow> json_wf (checkpoint_json n)"
  by (auto simp: checkpoint_json_def normalizeCheckpoint_ok normalizeCheckpointRecords_ok intro: record_json_wf)

lemma checkpoint_unmarshal:
  assumes "normalizeCheckpoint c L = Inr (n, L')"
  shows "json_unmarshal dec_checkpoint zeroCheckpoint (json_print (checkpoint_json n)) = Inr n"
  using checkpoint_json_wf [OF assms] checkpoint_json_depth [of n]
  by (intro json_unmarshal_print) (auto simp: json_rt max_nesting_def)

lemma encodeCheckpointE:
  assumes "encodeCheckpoint c L = Inr (b, L')"
  obtains n where "normalizeCheckpoint c L = Inr (n, normalized_limits L)" "encodeEnvelope (json_print (checkpoint_json n)) = Inr b"
    "int (length b) \<le> MaxCheckpointBytes (normalized_limits L)" "L' = normalized_limits L"
  using assms by (auto simp: encodeCheckpoint_def Let_def resE normalizeCheckpoint_ok split: if_splits)

text \<open>Loading what was saved.\<close>

lemma LoadCheckpoint_saved:
  assumes "encodeCheckpoint c L = Inr (b, L')" and "normalizeCheckpoint c L = Inr (n, L'')"
    and "calm w" and "p \<noteq> []" and "file_name_ok p" and "path_content p w = Some b"
  shows "LoadCheckpoint p L w = (Inr n, w)"
proof -
  from assms(1) obtain n' where n': "normalizeCheckpoint c L = Inr (n', normalized_limits L)"
    "encodeEnvelope (json_print (checkpoint_json n')) = Inr b" "int (length b) \<le> MaxCheckpointBytes (normalized_limits L)"
    by (rule encodeCheckpointE)
  from n'(1) assms(2) have [simp]: "n' = n" by simp
  obtain i where i: "map_of (wdir w) (Path (Clean p)) = Some i" "file_content i w = b"
    using assms(6) by (auto simp: path_content_def)
  have op: "os_open p w = (Inr i, w)" using assms(3,5) i by (simp add: os_open_def calm_run)
  have l: "length b = length (json_print (checkpoint_json n)) + 8"
    using n'(2) by (auto simp: encodeEnvelope_def split: if_splits)
  have d: "decodeEnvelope b 0 (MaxCheckpointBytes (normalized_limits L)) x y = Inr (json_print (checkpoint_json n), length b)" for x y
    using decode_encode_envelope(1) [of "json_print (checkpoint_json n)" b "MaxCheckpointBytes (normalized_limits L)" "[]" "[]"]
      n'(2,3) l by simp
  have "normalizeCheckpoint n L = Inr (n, normalized_limits L)" using n'(1) by (auto intro: normalizeCheckpoint_idem)
  with assms(3,4) op i n'(3) d checkpoint_unmarshal [OF assms(2)] show ?thesis
    by (simp add: LoadCheckpoint_def monad calm_run deferM_def ignoreM_def Let_def)
qed

section \<open>Rewriting\<close>

lemma installed_same_fs: "installed b w p d i v \<Longrightarrow> same_fs v u \<Longrightarrow> installed b w p d i u"
  by (simp add: installed_def same_fs_def)

lemma temp_file_same_fs: "temp_file w tmp i c v \<Longrightarrow> same_fs v u \<Longrightarrow> temp_file w tmp i c u"
  by (simp add: temp_file_def same_fs_def only_temps_def file_content_def)

lemma only_temps_same_fs: "only_temps w v \<Longrightarrow> same_fs v u \<Longrightarrow> only_temps w u"
  by (simp add: same_fs_def only_temps_def)

lemma wp_rewrite_loop:
  assumes "limits_ok L" and "\<forall>r\<in>set rs. valid_record L r" and "temp_file w tmp i c v"
    and "\<And>e c' v'. temp_file w tmp i c' v' \<Longrightarrow> E e v'"
    and "\<And>v'. temp_file w tmp i (c @ concat (map journal_entry rs)) v' \<Longrightarrow>
           Q (sz + int (length (concat (map journal_entry rs)))) v'"
  shows "wp (rewrite_loop i m sz rs) Q E v"
  using assms(2,3,5)
proof (induction rs arbitrary: sz c v)
  case Nil
  then show ?case by (simp add: wps)
next
  case (Cons r rs)
  have e: "encodeEnvelope (marshal_record r) = Inr (journal_entry r)"
    using Cons.prems(1) encode_record_entry [OF assms(1)] by simp
  have w: "wp (writeFull i (journal_entry r)) (\<lambda>_. wp (rewrite_loop i m (sz + int (length (journal_entry r))) rs) Q E) E u"
    if "temp_file w tmp i c u" for u
    by (rule wp_temp_write [OF that]) (use Cons.prems in \<open>auto intro: assms(4) Cons.IH simp: add.assoc\<close>)
  show ?case
    by (simp add: wps e) (rule wp_pollM_fs; use Cons.prems(2) in \<open>auto intro!: assms(4) w intro: temp_file_same_fs\<close>)
qed

lemma wp_rewriteLocked:
  assumes "limits_ok L" and "\<forall>r\<in>set rs. valid_record L r"
    and err: "\<And>e v. only_temps w v \<Longrightarrow> E e v" "\<And>e b i v. installed b w p (journal_bytes fl rs) i v \<Longrightarrow> E e v"
    and ok: "\<And>i v. installed True w p (journal_bytes fl rs) i v \<Longrightarrow> Q (i, int (length (journal_bytes fl rs))) v"
  shows "wp (rewriteLocked p m fl rs) Q E w"
proof -
  let ?rm = "\<lambda>tmp e. wp (os_remove tmp) (\<lambda>_. E e) (\<lambda>_. E e)"
  let ?cl = "\<lambda>tmp e. wp f_close (\<lambda>_. ?rm tmp e) (\<lambda>_. ?rm tmp e)"
  have cleanup: "?rm tmp e v" if "temp_file w tmp i c v" for tmp i c v e
    using that err(1) by (rule wp_temp_remove)
  have closing: "?cl tmp e v" if "temp_file w tmp i c v" for tmp i c v e
    by (rule wp_close) (use that cleanup in auto)
  let ?n = "int (length (journal_bytes fl rs))"
  let ?fin = "\<lambda>sz. wp (syncDirectory (Dir p)) (\<lambda>_. wp (os_open p) (\<lambda>f. wp f_seek (\<lambda>_. Q (f, sz)) (\<lambda>e. wp f_close (\<lambda>_. E e) (\<lambda>_. E e))) E) E"
  have opened: "wp (os_open p) (\<lambda>f. wp f_seek (\<lambda>_. Q (f, ?n)) (\<lambda>e. wp f_close (\<lambda>_. E e) (\<lambda>_. E e))) E v"
    if v: "installed True w p (journal_bytes fl rs) i v" for i v
  proof (rule wp_open_fs)
    fix k u assume u: "same_fs v u" and k: "map_of (wdir v) (Path (Clean p)) = Some k"
    from k v have "k = i" by (simp add: installed_def)
    with u v show "wp f_seek (\<lambda>_. Q (k, ?n)) (\<lambda>e. wp f_close (\<lambda>_. E e) (\<lambda>_. E e)) u"
      by (intro wp_seek_fs wp_close_fs) (auto intro!: ok err(2) intro: installed_same_fs same_fs_trans)
  qed (use v in \<open>auto intro!: err(2) intro: installed_same_fs\<close>)
  have fin: "?fin ?n v" if "installed False w p (journal_bytes fl rs) i v" for i v
    by (rule wp_syncDirectory [OF that]) (auto intro: err(2) opened)
  have ren: "wp (os_rename tmp p) (\<lambda>_. ?fin ?n) (?rm tmp) v"
    if "temp_file w tmp i (journal_bytes fl rs) v" "isynced (winodes v ! i) = journal_bytes fl rs" for tmp i v
    by (rule wp_temp_rename [OF that]) (auto intro: cleanup fin)
  have synced: "wp (f_sync i) (\<lambda>_. wp f_close (\<lambda>_. wp pollM (\<lambda>_. wp (os_rename tmp p) (\<lambda>_. ?fin ?n)
        (?rm tmp)) (?rm tmp))
        (?rm tmp))
        (?cl tmp) v"
    if "temp_file w tmp i (journal_bytes fl rs) v" for tmp i v
    by (rule wp_temp_sync [OF that], erule closing) (auto intro!: wp_close wp_pollM ren cleanup)
  show ?thesis
    unfolding rewriteLocked_def wp_bind split_beta
  proof (rule wp_create_temp)
    fix tmp i v assume t: "temp_file w tmp i [] v"
    have "wp (writeFull i (encodeJournalHeader fl)) (\<lambda>_. wp (rewrite_loop i m (int (length (encodeJournalHeader fl))) rs)
       (\<lambda>sz. wp (f_sync i) (\<lambda>_. wp f_close (\<lambda>_. wp pollM (\<lambda>_. wp (os_rename tmp p) (\<lambda>_. ?fin sz)
        (?rm tmp)) (?rm tmp))
        (?rm tmp))
        (?cl tmp))
       (?cl tmp))
       (?cl tmp) v"
    proof (rule wp_temp_write [OF t], erule closing, rule wp_rewrite_loop [OF assms(1,2)], assumption, erule closing)
      fix v' v'' assume "temp_file w tmp i (([] @ encodeJournalHeader fl) @ concat (map journal_entry rs)) v''"
      then show "wp (f_sync i) (\<lambda>_. wp f_close (\<lambda>_. wp pollM (\<lambda>_. wp (os_rename tmp p)
         (\<lambda>_. ?fin (int (length (encodeJournalHeader fl)) + int (length (concat (map journal_entry rs)))))
        (?rm tmp)) (?rm tmp))
        (?rm tmp))
        (?cl tmp) v''"
        using synced [of tmp i v''] by (simp add: journal_bytes_def)
    qed
    then show "wp (onErrorM (os_remove (fst (tmp, i)))
       (bindM (onErrorM f_close (bindM (writeFull (snd (tmp, i)) (encodeJournalHeader fl)) (\<lambda>_.
           rewrite_loop (snd (tmp, i)) m (int (length (encodeJournalHeader fl))) rs))) (\<lambda>sz.
        bindM (onErrorM f_close (f_sync (snd (tmp, i)))) (\<lambda>_. bindM f_close (\<lambda>_. bindM pollM (\<lambda>_.
        bindM (os_rename (fst (tmp, i)) p) (\<lambda>_. returnM sz)))))))
       (\<lambda>sz. wp (syncDirectory (Dir p)) (\<lambda>_. wp (os_open p) (\<lambda>newFile. wp (onErrorM f_close f_seek)
          (\<lambda>_. wp (returnM (newFile, sz)) Q E) E) E) E) E v"
      by (simp add: wps)
  qed (rule err(1))
qed

section \<open>The contract of the two rewriting methods\<close>

text \<open>The two files a compaction or an installation writes, and how far it may get.\<close>

definition replaces :: "bytes \<Rightarrow> bytes \<Rightarrow> bytes \<Rightarrow> bytes \<Rightarrow> world \<Rightarrow> world \<Rightarrow> bool" where
  "replaces cpath cbytes jpath jbytes w v \<longleftrightarrow>
     only_temps w v \<or>
     (\<exists>i. installed False w cpath cbytes i v) \<or>
     (\<exists>i v1. installed True w cpath cbytes i v1 \<and>
        (only_temps v1 v \<or> (\<exists>b k. installed b v1 jpath jbytes k v)))"

definition replaced :: "bytes \<Rightarrow> bytes \<Rightarrow> bytes \<Rightarrow> bytes \<Rightarrow> nat \<Rightarrow> world \<Rightarrow> world \<Rightarrow> bool" where
  "replaced cpath cbytes jpath jbytes k w v \<longleftrightarrow>
     (\<exists>i v1. installed True w cpath cbytes i v1 \<and> installed True v1 jpath jbytes k v)"

definition moved :: "Journal \<Rightarrow> Version \<Rightarrow> Record list \<Rightarrow> nat \<Rightarrow> Journal" where
  "moved j watermark tail k = j\<lparr>jFile := Some k, jFloor := watermark, jRecords := tail,
     jSize := int (length (journal_bytes watermark tail)), jLast := last_version watermark tail\<rparr>"

lemma only_temps_left: "same_fs w u \<Longrightarrow> only_temps u v \<Longrightarrow> only_temps w v"
  by (simp add: same_fs_def only_temps_def)

lemma installed_left: "same_fs w u \<Longrightarrow> installed b u p d i v \<Longrightarrow> installed b w p d i v"
  by (simp add: same_fs_def installed_def)

lemma replaces_early: "same_fs w v \<Longrightarrow> replaces c cb p jb w v"
  using only_temps_same_fs only_temps_refl unfolding replaces_def by blast

text \<open>The file operations both methods end with.\<close>

lemma wp_write_and_swap:
  assumes "limits_ok L" and "\<forall>r\<in>set tail. valid_record L r" and w: "same_fs w u"
    and err: "\<And>e v. replaces cp cb p (journal_bytes wm tail) w v \<Longrightarrow> E e (v, j)"
    and ok: "\<And>k v. replaced cp cb p (journal_bytes wm tail) k w v \<Longrightarrow> Q () (v, moved j wm tail k)"
  shows "wp (atomicWrite cp cb) (\<lambda>_. wp (rewriteLocked p m wm tail)
      (\<lambda>x v. wp (swap_file wm tail (fst x) (snd x)) Q E (v, j)) (\<lambda>e v. E e (v, j))) (\<lambda>e v. E e (v, j)) u"
proof (rule wp_atomicWrite)
  show "E e (v, j)" if "only_temps u v" for e v
    using only_temps_left [OF w that] by (intro err) (simp add: replaces_def)
  show "E e (v, j)" if "installed False u cp cb i v" for e i v
    using installed_left [OF w that] by (intro err) (auto simp: replaces_def)
  fix i v1 assume "installed True u cp cb i v1"
  with w have v1: "installed True w cp cb i v1" by (rule installed_left)
  show "wp (rewriteLocked p m wm tail) (\<lambda>x v. wp (swap_file wm tail (fst x) (snd x)) Q E (v, j)) (\<lambda>e v. E e (v, j)) v1"
  proof (rule wp_rewriteLocked [OF assms(1,2)])
    show "E e (v, j)" if "only_temps v1 v" for e v
      using v1 that by (intro err) (auto simp: replaces_def)
    show "E e (v, j)" if "installed b v1 p (journal_bytes wm tail) k v" for e b k v
      using v1 that by (intro err) (auto simp: replaces_def)
    fix k v assume v: "installed True v1 p (journal_bytes wm tail) k v"
    have e: "E e (v', j)" if "same_fs v v'" for e v'
      using v1 installed_same_fs [OF v that] by (intro err) (auto simp: replaces_def)
    have q: "Q () (v', moved j wm tail k)" if "same_fs v v'" for v'
      using v1 installed_same_fs [OF v that] by (intro ok) (auto simp: replaced_def)
    have mv: "j\<lparr>jFile := Some k, jFloor := wm, jRecords := tail, jSize := int (length (journal_bytes wm tail)),
        jLast := last_version wm tail\<rparr> = moved j wm tail k" by (simp add: moved_def)
    show "wp (swap_file wm tail (fst (k, int (length (journal_bytes wm tail)))) (snd (k, int (length (journal_bytes wm tail))))) Q E (v, j)"
      using e q unfolding swap_file_def
      by (auto simp: wps mv intro!: wp_close_fs intro: same_fs_trans)
  qed
qed

text \<open>The checks of \<^verbatim>\<open>Compact\<close> that do not touch a file.\<close>

definition compaction_checks :: "Journal \<Rightarrow> CompactionRequest \<Rightarrow> Checkpoint \<Rightarrow> Checkpoint \<Rightarrow> bytes \<Rightarrow> bool" where
  "compaction_checks j req base cp cbytes \<longleftrightarrow>
     CheckpointPath req \<noteq> [] \<and> Clean (CheckpointPath req) \<noteq> Clean (jPath j) \<and>
     jFloor j < reqWatermark req \<and> reqWatermark req \<le> jLast j \<and>
     (\<forall>peer\<in>set (PeerWatermarks req). reqWatermark req \<le> peer) \<and>
     compactionBaseLocked j (reqBase req) = Inr base \<and>
     normalizeCheckpoint \<lparr>Watermark = reqWatermark req, cpRecords = reqRecords req\<rparr> (jLimits j) = Inr (cp, normalized_limits (jLimits j)) \<and>
     covered (reqWatermark req) (jRecords j) \<noteq> [] \<and>
     (\<exists>s1 s2. apply_each (cpRecords base) (NewStore (jLimits j)) = Inr s1 \<and>
        apply_each (covered (reqWatermark req) (jRecords j)) s1 = Inr s2 \<and> Snapshot s2 = cpRecords cp) \<and>
     encodeCheckpoint cp (jLimits j) = Inr (cbytes, normalized_limits (jLimits j))"

abbreviation kept :: "Version \<Rightarrow> Record list \<Rightarrow> Record list" where
  "kept watermark records \<equiv> drop (length (covered watermark records)) records"

lemma wp_Compact:
  assumes f: "journal_fields j" "\<not> jClosed j" "jFile j = Some i"
    and err: "\<And>e v. same_fs w v \<Longrightarrow> E e (v, j)"
      "\<And>e base cp cb v. compaction_checks j req base cp cb \<Longrightarrow>
         replaces (CheckpointPath req) cb (jPath j) (journal_bytes (reqWatermark req) (kept (reqWatermark req) (jRecords j))) w v \<Longrightarrow> E e (v, j)"
    and ok: "\<And>base cp cb k v. compaction_checks j req base cp cb \<Longrightarrow>
         replaced (CheckpointPath req) cb (jPath j) (journal_bytes (reqWatermark req) (kept (reqWatermark req) (jRecords j))) k w v \<Longrightarrow>
         Q () (v, moved j (reqWatermark req) (kept (reqWatermark req) (jRecords j)) k)"
  shows "wp (Compact req) Q E (w, j)"
proof -
  let ?tail = "kept (reqWatermark req) (jRecords j)"
  have L: "limits_ok (jLimits j)" "\<forall>r\<in>set ?tail. valid_record (jLimits j) r"
    using f(1) by (auto simp: journal_fields_def dest: in_set_dropD)
  have fin: "wp (atomicWrite (CheckpointPath req) cb) (\<lambda>_. wp (rewriteLocked (jPath j) (jMaxBytes j) (reqWatermark req) ?tail)
      (\<lambda>x v. wp (swap_file (reqWatermark req) ?tail (fst x) (snd x)) Q E (v, j)) (\<lambda>e v. E e (v, j))) (\<lambda>e v. E e (v, j)) u"
    if "same_fs w u" "compaction_checks j req base cp cb" for u base cp cb
    by (rule wp_write_and_swap [OF L that(1)]) (use err(2) [OF that(2)] ok [OF that(2)] in auto)
  have norm: "\<lparr>Watermark = reqWatermark req, cpRecords = cpRecords cp\<rparr> = cp"
    if "normalizeCheckpoint \<lparr>Watermark = reqWatermark req, cpRecords = reqRecords req\<rparr> (jLimits j) = Inr (cp, L')" for cp L'
    using that by (cases cp) (simp add: normalizeCheckpoint_ok)
  have lim: "L' = normalized_limits (jLimits j)" if "normalizeCheckpoint c (jLimits j) = Inr (cp, L')" for c cp L'
    using that by (simp add: normalizeCheckpoint_ok)
  have enc: "L' = normalized_limits (jLimits j)" if "encodeCheckpoint c (jLimits j) = Inr (b, L')" for c b L'
    using that by (rule encodeCheckpointE)
  show ?thesis
    unfolding Compact_def
    apply (simp add: wps wp_ensureOpen f err, intro impI)
    apply (rule wp_pollM_fs, simp add: err)
    apply (auto simp: wps wp_ensureOpen f err Let_def list_ex_iff not_less not_le split_beta split: sum.splits)
    apply (rule fin, assumption)
    apply (auto simp: compaction_checks_def norm dest: enc lim)
    done
qed

definition install_checks :: "Journal \<Rightarrow> bytes \<Rightarrow> Checkpoint \<Rightarrow> Checkpoint \<Rightarrow> bytes \<Rightarrow> bool" where
  "install_checks j path cp n cbytes \<longleftrightarrow>
     path \<noteq> [] \<and> Clean path \<noteq> Clean (jPath j) \<and>
     normalizeCheckpoint cp (jLimits j) = Inr (n, normalized_limits (jLimits j)) \<and> jLast j \<le> Watermark n \<and>
     encodeCheckpoint n (jLimits j) = Inr (cbytes, normalized_limits (jLimits j))"

lemma wp_InstallSnapshot:
  assumes f: "journal_fields j" "\<not> jClosed j" "jFile j = Some i"
    and err: "\<And>e v. same_fs w v \<Longrightarrow> E e (v, j)"
      "\<And>e n cb v. install_checks j path cp n cb \<Longrightarrow>
         replaces path cb (jPath j) (journal_bytes (Watermark n) []) w v \<Longrightarrow> E e (v, j)"
    and ok: "\<And>n cb k v. install_checks j path cp n cb \<Longrightarrow>
         replaced path cb (jPath j) (journal_bytes (Watermark n) []) k w v \<Longrightarrow> Q () (v, moved j (Watermark n) [] k)"
  shows "wp (InstallSnapshot path cp) Q E (w, j)"
proof -
  have L: "limits_ok (jLimits j)" "\<forall>r\<in>set []. valid_record (jLimits j) r"
    using f(1) by (auto simp: journal_fields_def)
  have fin: "wp (atomicWrite path cb) (\<lambda>_. wp (rewriteLocked (jPath j) (jMaxBytes j) (Watermark n) [])
      (\<lambda>x v. wp (swap_file (Watermark n) [] (fst x) (snd x)) Q E (v, j)) (\<lambda>e v. E e (v, j))) (\<lambda>e v. E e (v, j)) u"
    if "same_fs w u" "install_checks j path cp n cb" for u n cb
    by (rule wp_write_and_swap [OF L that(1)]) (use err(2) [OF that(2)] ok [OF that(2)] in auto)
  have lim: "L' = normalized_limits (jLimits j)" if "normalizeCheckpoint c (jLimits j) = Inr (n, L')" for c n L'
    using that by (simp add: normalizeCheckpoint_ok)
  have enc: "L' = normalized_limits (jLimits j)" if "encodeCheckpoint c (jLimits j) = Inr (b, L')" for c b L'
    using that by (rule encodeCheckpointE)
  show ?thesis
    unfolding InstallSnapshot_def SaveCheckpoint_def
    apply (simp add: wps wp_ensureOpen f err, intro impI)
    apply (rule wp_pollM_fs, simp add: err)
    apply (auto simp: wps wp_ensureOpen f err not_less not_le split_beta split: sum.splits)
    apply (rule fin, assumption)
    apply (auto simp: install_checks_def dest: enc lim)
    done
qed

section \<open>Crashes during a rewrite\<close>

lemma installed_entry:
  assumes "installed b w p d i v"
  shows "map_of (wdir v) (Path (Clean p)) = Some i" and "path_content p v = Some d"
  using assms by (auto simp: installed_def path_content_def file_content_def)

text \<open>A path other than the target keeps its file, and stays durable if it was.\<close>

lemma installed_other:
  assumes "installed b w p d i v" and "Clean q \<noteq> Clean p" and "map_of (wdir w) (Path (Clean q)) = Some k"
    and "map_of (wdir_synced w) (Path (Clean q)) = Some k" and "k < length (winodes w)"
  shows "map_of (wdir v) (Path (Clean q)) = Some k" and "map_of (wdir_synced v) (Path (Clean q)) = Some k"
    and "winodes v ! k = winodes w ! k" and "k < length (winodes v)"
  using assms by (auto simp: installed_def prefix_nth_eq dest: prefix_length_le)

lemma only_temps_other:
  assumes "only_temps w v" and "map_of (wdir w) (Path (Clean q)) = Some k"
    and "map_of (wdir_synced w) (Path (Clean q)) = Some k" and "k < length (winodes w)"
  shows "map_of (wdir v) (Path (Clean q)) = Some k" and "map_of (wdir_synced v) (Path (Clean q)) = Some k"
    and "winodes v ! k = winodes w ! k" and "k < length (winodes v)"
  using assms by (auto simp: only_temps_def prefix_nth_eq dest: prefix_length_le)

lemma durable_crash:
  assumes "crash v u" and "map_of (wdir v) (Path (Clean p)) = Some k" and "map_of (wdir_synced v) (Path (Clean p)) = Some k"
    and "k < length (winodes v)" and "winodes v ! k = \<lparr>icontent = d, isynced = d\<rparr>"
  shows "path_content p u = Some d"
proof -
  have "map_of (wdir u) (Path (Clean p)) = Some k" using crash_entry [OF assms(1)] assms(2,3) by simp
  moreover have "file_content k u = d"
    using crash_synced_content [OF assms(1,4)] assms(5) by (simp add: file_content_def)
  ultimately show ?thesis by (simp add: path_content_def)
qed

lemma replaces_crash:
  assumes "replaces cp cb p jb w v" and "Clean cp \<noteq> Clean p" and "crash v u"
    and "map_of (wdir w) (Path (Clean p)) = Some k" and "map_of (wdir_synced w) (Path (Clean p)) = Some k"
    and "k < length (winodes w)" and "winodes w ! k = \<lparr>icontent = d, isynced = d\<rparr>"
  shows "path_content p u = Some d \<or> path_content p u = Some jb \<and> path_content cp u = Some cb \<and> file_name_ok cp"
proof -
  note o = installed_other [OF _ assms(2) [symmetric] assms(4-6)] and t = only_temps_other [OF _ assms(4-6)]
  consider "only_temps w v" | i where "installed False w cp cb i v"
    | i v1 where "installed True w cp cb i v1" "only_temps v1 v"
    | i v1 b n where "installed True w cp cb i v1" "installed b v1 p jb n v"
    using assms(1) unfolding replaces_def by blast
  then show ?thesis
  proof cases
    case 1
    then show ?thesis using durable_crash [OF assms(3) t(1,2,4)] t(3) assms(7) by simp
  next
    case 2
    then show ?thesis using durable_crash [OF assms(3) o(1,2,4)] o(3) assms(7) by simp
  next
    case 3
    note o1 = o [OF 3(1)]
    note t1 = only_temps_other [OF 3(2) o1(1,2,4)]
    show ?thesis using durable_crash [OF assms(3) t1(1,2,4)] t1(3) o1(3) assms(7) by simp
  next
    case 4
    note o1 = o [OF 4(1)]
    have i: "map_of (wdir v1) (Path (Clean cp)) = Some i" "map_of (wdir_synced v1) (Path (Clean cp)) = Some i"
      "i < length (winodes v1)" "winodes v1 ! i = \<lparr>icontent = cb, isynced = cb\<rparr>"
      using 4(1) by (auto simp: installed_def dir_of_Clean)
    note c = installed_other [OF 4(2) assms(2) i(1-3)]
    have cc: "path_content cp u = Some cb \<and> file_name_ok cp"
      using durable_crash [OF assms(3) c(1,2,4)] c(3) i(4) 4(1) by (simp add: installed_def)
    have n: "map_of (wdir v) (Path (Clean p)) = Some n" "n < length (winodes v)" "winodes v ! n = \<lparr>icontent = jb, isynced = jb\<rparr>"
      "prefix (winodes v1) (winodes v)" using 4(2) by (auto simp: installed_def)
    have k: "winodes v ! k = \<lparr>icontent = d, isynced = d\<rparr>" "k < length (winodes v)"
      using prefix_nth_eq [OF n(4) o1(4)] prefix_length_le [OF n(4)] o1(3,4) assms(7) by auto
    have "map_of (wdir_synced v) (Path (Clean p)) \<in> {Some n, Some k}"
      using 4(2) o1(2) n(1) by (auto simp: installed_def)
    then have "map_of (wdir u) (Path (Clean p)) \<in> {Some n, Some k}"
      using assms(3) n(1) unfolding crash_def by (metis insertCI)
    moreover have "file_content n u = jb" "file_content k u = d"
      using crash_synced_content [OF assms(3)] n(2,3) k by (simp_all add: file_content_def)
    ultimately show ?thesis using cc by (auto simp: path_content_def)
  qed
qed

lemma replaced_state:
  assumes "replaced cp cb p jb k w v" and "Clean cp \<noteq> Clean p"
  shows "map_of (wdir v) (Path (Clean p)) = Some k" and "map_of (wdir_synced v) (Path (Clean p)) = Some k"
    and "k < length (winodes v)" and "winodes v ! k = \<lparr>icontent = jb, isynced = jb\<rparr>"
    and "\<exists>i. map_of (wdir v) (Path (Clean cp)) = Some i \<and> map_of (wdir_synced v) (Path (Clean cp)) = Some i \<and>
      i < length (winodes v) \<and> winodes v ! i = \<lparr>icontent = cb, isynced = cb\<rparr>"
    and "file_name_ok p" and "file_name_ok cp"
proof -
  from assms(1) obtain i v1 where v1: "installed True w cp cb i v1" and v: "installed True v1 p jb k v"
    by (auto simp: replaced_def)
  show "map_of (wdir v) (Path (Clean p)) = Some k" "map_of (wdir_synced v) (Path (Clean p)) = Some k"
    "k < length (winodes v)" "winodes v ! k = \<lparr>icontent = jb, isynced = jb\<rparr>" "file_name_ok p"
    using v by (auto simp: installed_def dir_of_Clean)
  have i: "map_of (wdir v1) (Path (Clean cp)) = Some i" "map_of (wdir_synced v1) (Path (Clean cp)) = Some i"
    "i < length (winodes v1)" "winodes v1 ! i = \<lparr>icontent = cb, isynced = cb\<rparr>" "file_name_ok cp"
    using v1 by (auto simp: installed_def dir_of_Clean)
  then show "file_name_ok cp" by simp
  from installed_other [OF v assms(2) i(1-3)] i(4)
  show "\<exists>i. map_of (wdir v) (Path (Clean cp)) = Some i \<and> map_of (wdir_synced v) (Path (Clean cp)) = Some i \<and>
      i < length (winodes v) \<and> winodes v ! i = \<lparr>icontent = cb, isynced = cb\<rparr>" by auto
qed

text \<open>The journal a restart finds, and the checkpoint beside it.\<close>

definition survives :: "Journal \<Rightarrow> bytes \<Rightarrow> Version \<Rightarrow> Record list \<Rightarrow> world \<Rightarrow> bool" where
  "survives j path wm tail u \<longleftrightarrow>
     path_content (jPath j) u = Some (journal_bytes (jFloor j) (jRecords j)) \<or>
     path_content (jPath j) u = Some (journal_bytes wm tail) \<and>
     (\<exists>cp. LoadCheckpoint path (jLimits j) u = (Inr cp, u) \<and> Watermark cp = wm)"

lemma replaced_replaces: "replaced c cb p jb k w v \<Longrightarrow> replaces c cb p jb w v"
  by (auto simp: replaced_def replaces_def)

lemma survives_early:
  assumes "journal_inv (w, j)" and "linked (w, j)" and "\<not> jClosed j" and "same_fs w v" and "crash v u"
  shows "survives j path wm tail u"
proof -
  obtain i where f: "jFile j = Some i" "i < length (winodes w)"
    "winodes w ! i = \<lparr>icontent = journal_bytes (jFloor j) (jRecords j), isynced = journal_bytes (jFloor j) (jRecords j)\<rparr>"
    using assms(1,3) by (rule journal_invE)
  with assms(2,4) show ?thesis
    using durable_crash [OF assms(5), of "jPath j" i] by (auto simp: linked_def same_fs_def survives_def)
qed

lemma survives_rewrite:
  assumes "journal_inv (w, j)" and "linked (w, j)" and "\<not> jClosed j" and "crash v u" and "calm u"
    and "path \<noteq> []" and "Clean path \<noteq> Clean (jPath j)"
    and "normalizeCheckpoint c (jLimits j) = Inr (n, normalized_limits (jLimits j))"
    and "encodeCheckpoint n (jLimits j) = Inr (cb, normalized_limits (jLimits j))"
    and "replaces path cb (jPath j) (journal_bytes wm tail) w v" and "wm = Watermark n"
  shows "survives j path wm tail u"
proof -
  obtain i where f: "jFile j = Some i" "i < length (winodes w)"
    "winodes w ! i = \<lparr>icontent = journal_bytes (jFloor j) (jRecords j), isynced = journal_bytes (jFloor j) (jRecords j)\<rparr>"
    using assms(1,3) by (rule journal_invE)
  have lk: "map_of (wdir w) (Path (Clean (jPath j))) = Some i" "map_of (wdir_synced w) (Path (Clean (jPath j))) = Some i"
    using assms(2) f(1) by (auto simp: linked_def)
  from replaces_crash [OF assms(10,7,4) lk f(2,3)] show ?thesis
    using LoadCheckpoint_saved [OF assms(9) normalizeCheckpoint_idem [OF assms(8)] assms(5,6)] assms(11)
    by (auto simp: survives_def)
qed

section \<open>Compaction keeps the replayed state\<close>

lemma apply_each_ok: "apply_each rs s = Inr t \<Longrightarrow> t = apply_all rs s"
  by (induction rs arbitrary: s) (auto simp: apply_all_def split: prod.splits sum.splits)

lemma apply_all_simps [simp]: "apply_all [] s = s" "apply_all (r # rs) s = apply_all rs (snd (Apply r s))"
  "apply_all (rs @ qs) s = apply_all qs (apply_all rs s)"
  by (simp_all add: apply_all_def)

lemma apply_all_cong:
  assumes "store_wf L s" and "store_wf L t" and "\<And>k. lookup s k = lookup t k" and "\<forall>r\<in>set rs. valid_record L r"
  shows "lookup (apply_all rs s) k = lookup (apply_all rs t) k"
  using assms
proof (induction rs arbitrary: s t)
  case (Cons r rs)
  have "lookup (snd (Apply r s)) x = lookup (snd (Apply r t)) x" for x
    using Cons.prems by (auto simp: lookup_Apply)
  with Cons show ?case by (simp add: Apply_wf)
qed simp

text \<open>The store a restart builds from a checkpoint.\<close>

definition restore :: "Limits \<Rightarrow> Checkpoint \<Rightarrow> Store" where
  "restore L c = snd (ReplaceSnapshot (cpRecords c) (NewStore L))"

lemma restore_wf: "store_wf L (restore L c)"
  by (simp add: restore_def ReplaceSnapshot_wf NewStore_wf)

lemma restore_lookup:
  assumes "\<forall>r\<in>set (cpRecords c). valid_record L r" and "distinct (map record_key (cpRecords c))"
  shows "lookup (restore L c) k = map_of (map (\<lambda>r. (record_key r, r)) (cpRecords c)) k"
  using ReplaceSnapshot_ok [OF assms] by (simp add: restore_def NewStore_def)

text \<open>Applying duplicate-free records to an empty store is the same as installing them.\<close>

lemma apply_distinct:
  assumes "\<forall>r\<in>set rs. valid_record L r" and "distinct (map record_key rs)"
    and "store_wf L s" and "\<forall>r\<in>set rs. lookup s (record_key r) = None"
  shows "lookup (apply_all rs s) k =
    (case map_of (map (\<lambda>r. (record_key r, r)) rs) k of None \<Rightarrow> lookup s k | Some r \<Rightarrow> Some r)"
  using assms
proof (induction rs arbitrary: s)
  case (Cons r rs)
  have "map_of (map (\<lambda>r. (record_key r, r)) rs) (record_key r) = None"
    using Cons.prems(2) by (auto simp: map_of_eq_None_iff)
  moreover have "\<forall>q\<in>set rs. record_key q \<noteq> record_key r" using Cons.prems(2) by (metis distinct.simps(2) image_eqI list.map(2) set_map)
  ultimately show ?case
    using Cons.prems Cons.IH [of "snd (Apply r s)"]
    by (auto simp: Apply_wf lookup_Apply split: option.split)
qed simp

lemma restore_apply:
  assumes "\<forall>r\<in>set (cpRecords c). valid_record L r" and "distinct (map record_key (cpRecords c))"
  shows "lookup (apply_all (cpRecords c) (NewStore L)) k = lookup (restore L c) k"
  using apply_distinct [OF assms NewStore_wf] restore_lookup [OF assms]
  by (auto simp: NewStore_def split: option.split)

lemma normalized_checkpoint_records:
  assumes "normalizeCheckpoint c L = Inr (n, L')"
  shows "\<forall>r\<in>set (cpRecords n). valid_record L r" and "distinct (map record_key (cpRecords n))"
  using assms by (auto simp: normalizeCheckpoint_ok normalizeCheckpointRecords_ok)

lemma base_records:
  assumes "compactionBaseLocked j b = Inr base"
  shows "\<forall>r\<in>set (cpRecords base). valid_record (jLimits j) r" and "distinct (map record_key (cpRecords base))"
    and "Watermark base = jFloor j"
  using assms
  by (auto simp: compactionBaseLocked_def zeroCheckpoint_def IsZero_def resE split: if_splits option.splits
      dest: normalized_checkpoint_records)

lemma covered_alt: "covered v rs = takeWhile (\<lambda>r. rVersion r \<le> v) rs"
  by (simp add: covered_def not_less)

lemma covered_kept: "covered v rs @ kept v rs = rs" "kept v rs = dropWhile (\<lambda>r. rVersion r \<le> v) rs"
  by (simp_all add: covered_alt flip: dropWhile_eq_drop)

lemma increasing_kept: "increasing fl rs \<Longrightarrow> increasing v (kept v rs)"
  unfolding covered_kept(2) by (induction rs arbitrary: fl) (auto simp: not_le)

lemma last_version_kept:
  assumes "v \<le> last_version fl rs" and "increasing fl rs" and "covered v rs \<noteq> []"
  shows "last_version v (kept v rs) = last_version fl rs"
proof (cases "kept v rs = []")
  case True
  then have c: "covered v rs = rs" using covered_kept(1) [of v rs] by simp
  with assms(3) have "last rs \<in> set (covered v rs)" by (metis last_in_set)
  then have "rVersion (last rs) \<le> v" unfolding covered_alt by (auto dest: set_takeWhileD)
  with assms True c show ?thesis by (auto simp: last_version_def)
next
  case False
  moreover have "last (kept v rs) = last rs" using False by simp
  ultimately show ?thesis by (auto simp: last_version_def)
qed

lemma journal_bytes_length_drop: "length (journal_bytes v (drop n rs)) \<le> length (journal_bytes fl rs)"
proof -
  have "length (concat (map journal_entry (drop n rs))) \<le> length (concat (map journal_entry rs))"
    by (induction rs arbitrary: n) (auto simp: drop_Cons split: nat.split intro: le_SucI trans_le_add2)
  then show ?thesis by (simp add: journal_bytes_def)
qed

lemma moved_fields:
  assumes "journal_fields j" and "increasing v (drop n (jRecords j))"
  shows "journal_fields (moved j v (drop n (jRecords j)) k)"
  using assms journal_bytes_length_drop [of v n "jRecords j" "jFloor j"]
  by (auto simp: journal_fields_def moved_def dest: in_set_dropD)

lemma moved_simps [simp]:
  "jFloor (moved j v rs k) = v" "jRecords (moved j v rs k) = rs" "jFile (moved j v rs k) = Some k"
  "jPath (moved j v rs k) = jPath j" "jClosed (moved j v rs k) = jClosed j" "jLast (moved j v rs k) = last_version v rs"
  "jLimits (moved j v rs k) = jLimits j"
  by (simp_all add: moved_def)

lemma moved_inv:
  assumes "journal_fields (moved j v rs k)" and "replaced cp cb (jPath j) (journal_bytes v rs) k w u"
    and "Clean cp \<noteq> Clean (jPath j)" and "jPath j \<noteq> []"
  shows "journal_inv (u, moved j v rs k) \<and> linked (u, moved j v rs k)"
  using assms(1,4) replaced_state [OF assms(2,3)] by (auto simp: journal_inv_def linked_def)

text \<open>The checkpoint of a compaction and the kept records stand for the old base and all records.\<close>

lemma compaction_state:
  assumes "journal_fields j" and c: "compaction_checks j req base cp cb"
  shows "Snapshot (apply_all (kept (reqWatermark req) (jRecords j)) (restore (jLimits j) cp)) =
    Snapshot (apply_all (jRecords j) (restore (jLimits j) base))"
proof -
  let ?L = "jLimits j" and ?v = "reqWatermark req"
  have valid: "\<forall>r\<in>set (jRecords j). valid_record ?L r" using assms(1) by (simp add: journal_fields_def)
  from c obtain s1 s2 where s: "apply_each (cpRecords base) (NewStore ?L) = Inr s1"
    "apply_each (covered ?v (jRecords j)) s1 = Inr s2" "Snapshot s2 = cpRecords cp"
    by (auto simp: compaction_checks_def)
  have b: "\<forall>r\<in>set (cpRecords base). valid_record ?L r" "distinct (map record_key (cpRecords base))"
    using c base_records [of j "reqBase req" base] by (auto simp: compaction_checks_def)
  have s1: "s1 = apply_all (cpRecords base) (NewStore ?L)" and s2: "s2 = apply_all (covered ?v (jRecords j)) s1"
    using s(1,2) by (auto dest: apply_each_ok)
  have wf1: "store_wf ?L s1" and wf2: "store_wf ?L s2" unfolding s2 s1 by (simp_all add: apply_all_wf NewStore_wf)
  have cv: "\<forall>r\<in>set (covered ?v (jRecords j)). valid_record ?L r" using valid by (auto simp: covered_alt dest: set_takeWhileD)
  have kv: "\<forall>r\<in>set (kept ?v (jRecords j)). valid_record ?L r" using valid by (auto dest: in_set_dropD)
  have l2: "lookup s2 k = lookup (apply_all (covered ?v (jRecords j)) (restore ?L base)) k" for k
    unfolding s2 using restore_apply [OF b] by (intro apply_all_cong [OF wf1 restore_wf _ cv]) (simp add: s1)
  have n: "\<forall>r\<in>set (cpRecords cp). valid_record ?L r" "distinct (map record_key (cpRecords cp))"
    using c normalized_checkpoint_records by (auto simp: compaction_checks_def)
  have lc: "lookup (restore ?L cp) k = lookup s2 k" for k
  proof -
    have "lookup (restore ?L cp) k = Some r \<longleftrightarrow> lookup s2 k = Some r" for r
      using map_of_records [OF n(2), of k r] set_Snapshot [OF wf2, of r] lookup_key [OF wf2, of k r]
      by (auto simp: restore_lookup [OF n] s(3))
    then show ?thesis by (cases "lookup s2 k"; cases "lookup (restore ?L cp) k") auto
  qed
  have "lookup (apply_all (kept ?v (jRecords j)) (restore ?L cp)) k = lookup (apply_all (jRecords j) (restore ?L base)) k" for k
    using apply_all_cong [OF restore_wf apply_all_wf [OF restore_wf] _ kv, of cp "covered ?v (jRecords j)" base k] lc l2
      covered_kept(1) [of ?v "jRecords j"] by (metis apply_all_simps(3))
  then show ?thesis
    by (intro Snapshot_cong [of ?L _ ?L]) (simp_all add: apply_all_wf restore_wf)
qed

section \<open>Undisturbed compaction\<close>

lemma rewrite_loop_calm [calm_run]:
  assumes "limits_ok L" and "calm w" and "i < length (winodes w)" and "\<forall>r\<in>set rs. valid_record L r"
    and "sz + int (length (concat (map journal_entry rs))) \<le> m"
  shows "rewrite_loop i m sz rs w =
    (Inr (sz + int (length (concat (map journal_entry rs)))), append_bytes i (concat (map journal_entry rs)) w)"
  using assms(2-)
proof (induction rs arbitrary: sz w)
  case (Cons r rs)
  then show ?case
    using encode_record_entry [OF assms(1), of r]
    by (simp add: monad calm_run append_bytes_append add.assoc)
qed (simp add: monad)

lemma set_inode_simps:
  "wdir (set_inode i f w) = wdir w" "wdir_synced (set_inode i f w) = wdir_synced w"
  "length (winodes (set_inode i f w)) = length (winodes w)"
  by (simp_all add: set_inode_def)

lemma rewriteLocked_calm:
  assumes "limits_ok L" and "calm w" and "file_name_ok p" and "\<forall>r\<in>set rs. valid_record L r"
    and "int (length (journal_bytes fl rs)) \<le> m"
  shows "\<exists>k v. rewriteLocked p m fl rs w = (Inr (k, int (length (journal_bytes fl rs))), v) \<and> calm v"
proof -
  let ?w = "w\<lparr>wtemps := Suc (wtemps w), winodes := winodes w @ [\<lparr>icontent = [], isynced = []\<rparr>],
      wdir := AList.update (Temp (Dir p) (wtemps w)) (length (winodes w)) (wdir w)\<rparr>"
  have m: "28 + int (length (concat (map journal_entry rs))) \<le> m" using assms(5) by (simp add: journal_bytes_def)
  have c: "create_temp (Dir p) w = (Inr (Temp (Dir p) (wtemps w), length (winodes w)), ?w)" "calm ?w"
    using assms(2) by (simp_all add: create_temp_def calm_run)
  have l: "rewrite_loop (length (winodes w)) m 28 rs (append_bytes (length (winodes w)) (encodeJournalHeader fl) ?w) =
    (Inr (28 + int (length (concat (map journal_entry rs)))),
     append_bytes (length (winodes w)) (concat (map journal_entry rs)) (append_bytes (length (winodes w)) (encodeJournalHeader fl) ?w))"
    using rewrite_loop_calm [OF assms(1) _ _ assms(4) m, of "append_bytes (length (winodes w)) (encodeJournalHeader fl) ?w"] c(2) by simp
  have "fst (rewriteLocked p m fl rs w) \<in> range (\<lambda>k. Inr (k, int (length (journal_bytes fl rs)))) \<and> calm (snd (rewriteLocked p m fl rs w))"
    using c assms(2,3) l
    by (simp add: rewriteLocked_def monad calm_run onErrorM_def os_rename_def os_open_def
        update_conv' journal_bytes_def set_inode_simps)
  then show ?thesis by (cases "rewriteLocked p m fl rs w") auto
qed

lemma Compact_calm:
  assumes "journal_inv (w, j)" and "\<not> jClosed j" and "calm w" and "compaction_checks j req base cp cb"
    and "file_name_ok (CheckpointPath req)" and "file_name_ok (jPath j)"
  shows "fst (Compact req (w, j)) = Inr ()"
proof -
  obtain i where f: "journal_fields j" "jFile j = Some i" using assms(1,2) by (rule journal_invE)
  obtain i1 v1 where v1: "atomicWrite (CheckpointPath req) cb w = (Inr (), v1)" "calm v1"
    using atomicWrite_calm [OF assms(3,5)] by blast
  let ?tail = "kept (reqWatermark req) (jRecords j)"
  have L: "limits_ok (jLimits j)" "\<forall>r\<in>set ?tail. valid_record (jLimits j) r"
    using f(1) by (auto simp: journal_fields_def dest: in_set_dropD)
  have "int (length (journal_bytes (reqWatermark req) ?tail)) \<le> jMaxBytes j"
    using f(1) journal_bytes_length_drop [of "reqWatermark req" "length (covered (reqWatermark req) (jRecords j))" "jRecords j" "jFloor j"]
    unfolding journal_fields_def by linarith
  from rewriteLocked_calm [OF L(1) v1(2) assms(6) L(2) this] obtain k n v2 where
    v2: "rewriteLocked (jPath j) (jMaxBytes j) (reqWatermark req) ?tail v1 = (Inr (k, n), v2)" "calm v2" by blast
  have norm: "\<lparr>Watermark = reqWatermark req, cpRecords = cpRecords cp\<rparr> = cp"
    using assms(4) by (cases cp) (simp add: compaction_checks_def normalizeCheckpoint_ok)
  have peers: "\<not> list_ex (\<lambda>peer. peer < reqWatermark req) (PeerWatermarks req)"
    using assms(4) by (auto simp: compaction_checks_def list_ex_iff)
  obtain s1 s2 where "apply_each (cpRecords base) (NewStore (jLimits j)) = Inr s1"
    "apply_each (covered (reqWatermark req) (jRecords j)) s1 = Inr s2" "Snapshot s2 = cpRecords cp"
    using assms(4) by (auto simp: compaction_checks_def)
  moreover note assms(4) [unfolded compaction_checks_def]
  moreover have "\<not> reqWatermark req \<le> jFloor j" "\<not> jLast j < reqWatermark req"
    using assms(4) by (auto simp: compaction_checks_def)
  ultimately show ?thesis
    using assms(2,3) f v1 v2 norm peers
    by (simp add: Compact_def monad calm_run ensureOpenLocked_def Let_def swap_file_def onErrorM_def)
qed

lemma InstallSnapshot_calm:
  assumes "journal_inv (w, j)" and "\<not> jClosed j" and "calm w" and "install_checks j path cp n cb"
    and "file_name_ok path" and "file_name_ok (jPath j)"
  shows "fst (InstallSnapshot path cp (w, j)) = Inr ()"
proof -
  obtain i where f: "journal_fields j" "jFile j = Some i" using assms(1,2) by (rule journal_invE)
  obtain v1 where v1: "atomicWrite path cb w = (Inr (), v1)" "calm v1"
    using atomicWrite_calm [OF assms(3,5)] by blast
  have L: "limits_ok (jLimits j)" using f(1) by (auto simp: journal_fields_def)
  have "int (length (journal_bytes (Watermark n) [])) \<le> jMaxBytes j"
    using f(1) journal_bytes_length_drop [of "Watermark n" "length (jRecords j)" "jRecords j" "jFloor j"]
    unfolding journal_fields_def by simp
  from rewriteLocked_calm [OF L v1(2) assms(6) _ this] obtain k m v2 where
    v2: "rewriteLocked (jPath j) (jMaxBytes j) (Watermark n) [] v1 = (Inr (k, m), v2)" "calm v2" by auto
  have "\<not> MaxCheckpointBytes (normalized_limits (jLimits j)) < int (length cb)"
    using assms(4) by (auto simp: install_checks_def not_less elim: encodeCheckpointE)
  moreover have "\<not> Watermark n < jLast j" using assms(4) by (auto simp: install_checks_def)
  ultimately show ?thesis using assms(2-4) f v1 v2
    by (simp add: InstallSnapshot_def SaveCheckpoint_def install_checks_def monad calm_run ensureOpenLocked_def swap_file_def
        onErrorM_def)
qed

section \<open>Sample values\<close>

text \<open>A restart after which everything unsynced survived and every call succeeds.\<close>

definition restart :: "world \<Rightarrow> world" where
  "restart w = (settle w)\<lparr>wplan := [], wpolls := None\<rparr>"

lemma crash_restart: "crash w (restart w)" and calm_restart: "calm (restart w)"
  using crash_settle [of w] by (auto simp: restart_def crash_def file_content_def calm_def)

definition example_checkpoint :: Checkpoint where
  "example_checkpoint = \<lparr>Watermark = MkVersion 1 1, cpRecords = [example_record 1]\<rparr>"

definition example_request :: CompactionRequest where
  "example_request = \<lparr>CheckpointPath = ''c'', reqWatermark = MkVersion 1 1, reqRecords = [example_record 1],
     reqBase = None, PeerWatermarks = [MkVersion 1 2]\<rparr>"

lemma example_normalize:
  "normalizeCheckpoint example_checkpoint (normalized_limits example_limits) =
     Inr (example_checkpoint, normalized_limits example_limits)"
  using less_imp_neq [OF zero_less_example [of 1]]
  by (auto simp: normalizeCheckpoint_ok normalizeCheckpointRecords_ok example_checkpoint_def)

lemma example_encode:
  "\<exists>cb. encodeCheckpoint example_checkpoint (normalized_limits example_limits) = Inr (cb, normalized_limits example_limits)"
proof -
  let ?p = "json_print (checkpoint_json example_checkpoint)"
  have l: "length ?p < 1000" "?p \<noteq> []" by (simp_all add: ev checkpoint_json_def example_checkpoint_def)
  have "67108864 \<le> MaxCheckpointBytes (normalized_limits example_limits)"
    by (simp add: normalized_limits_def example_limits_def or_default_def default_limits)
  with l example_normalize show ?thesis
    by (simp add: encodeCheckpoint_def Let_def encodeEnvelope_def)
qed

lemma example_apply:
  "apply_each [example_record 1] (NewStore (normalized_limits example_limits)) =
     Inr \<lparr>sLimits = normalized_limits example_limits, sRecords = [((''ns'', ''key''), example_record 1)]\<rparr>"
proof -
  have "Validate (example_record 1) (normalized_limits example_limits) = Inr ()" by simp
  then show ?thesis
    by (simp add: Apply_eval NewStore_def classifyRecord_def)
      (simp add: record_key_def example_record_def)
qed

lemma example_checks:
  "\<exists>cb. compaction_checks example_journal example_request zeroCheckpoint example_checkpoint cb"
proof -
  obtain cb where cb: "encodeCheckpoint example_checkpoint (normalized_limits example_limits) = Inr (cb, normalized_limits example_limits)"
    using example_encode by blast
  have "Clean ''c'' \<noteq> Clean ''j''" by (simp add: Clean_def rooted_def clean_step_def)
  moreover have "covered (MkVersion 1 1) [example_record 1] = [example_record 1]" by (simp add: covered_alt)
  moreover have "MkVersion 1 1 \<le> MkVersion 1 2" by (simp add: less_imp_le)
  ultimately show ?thesis
    using cb example_normalize example_apply
    by (auto simp: compaction_checks_def example_journal_def example_request_def compactionBaseLocked_def IsZero_def
        zeroCheckpoint_def Snapshot_def example_checkpoint_def)
qed

section \<open>Properties\<close>

text \<open>
  C3. A successful \<^verbatim>\<open>Compact\<close> loses nothing.  The journal still satisfies its invariant and its file is
  durable; its floor is the requested watermark, which no peer is behind; the checkpoint on disk
  loads with that watermark; and restoring the checkpoint and replaying the kept records gives the
  same state as restoring the old base and replaying all records.
\<close>

theorem compact_preserves_state:
  assumes "journal_inv (w, j)" and "linked (w, j)" and "\<not> jClosed j" and "Compact req (w, j) = (Inr (), (v, j'))"
  shows "journal_inv (v, j') \<and> linked (v, j') \<and> jFloor j' = reqWatermark req \<and> jLast j' = jLast j \<and>
    (\<forall>peer\<in>set (PeerWatermarks req). Compare (jFloor j') peer \<le> 0) \<and>
    (\<exists>base cp. compactionBaseLocked j (reqBase req) = Inr base \<and> Watermark cp = jFloor j' \<and>
       (\<forall>u. same_fs v u \<and> calm u \<longrightarrow> LoadCheckpoint (CheckpointPath req) (jLimits j) u = (Inr cp, u)) \<and>
       Snapshot (apply_all (jRecords j') (restore (jLimits j) cp)) =
       Snapshot (apply_all (jRecords j) (restore (jLimits j) base)))"
proof -
  obtain i where f: "journal_fields j" "jFile j = Some i" using assms(1,3) by (rule journal_invE)
  let ?v = "reqWatermark req" and ?tail = "kept (reqWatermark req) (jRecords j)"
  let ?R = "\<lambda>s. \<exists>base cp cb k v. s = (v, moved j ?v ?tail k) \<and> compaction_checks j req base cp cb \<and>
    replaced (CheckpointPath req) cb (jPath j) (journal_bytes ?v ?tail) k w v"
  have "wp (Compact req) (\<lambda>_. ?R) (\<lambda>_ _. True) (w, j)"
    by (rule wp_Compact [OF f(1) assms(3) f(2)]) auto
  with assms(4) obtain base cp cb k where j': "j' = moved j ?v ?tail k"
    and c: "compaction_checks j req base cp cb"
    and r: "replaced (CheckpointPath req) cb (jPath j) (journal_bytes ?v ?tail) k w v"
    by (auto simp: wp_def)
  note c' = c [unfolded compaction_checks_def]
  have inc: "increasing (jFloor j) (jRecords j)" "jLast j = last_version (jFloor j) (jRecords j)"
    using f(1) by (auto simp: journal_fields_def)
  have path: "jPath j \<noteq> []" using assms(2) by (simp add: linked_def)
  have inv: "journal_inv (v, j') \<and> linked (v, j')"
    unfolding j' using moved_fields [OF f(1) increasing_kept [OF inc(1)]] r c' path by (intro moved_inv) auto
  have lastv: "jLast j' = jLast j"
    unfolding j' using last_version_kept inc c' by simp
  have load: "LoadCheckpoint (CheckpointPath req) (jLimits j) u = (Inr cp, u)" if "same_fs v u" "calm u" for u
  proof (rule LoadCheckpoint_saved)
    show "encodeCheckpoint cp (jLimits j) = Inr (cb, normalized_limits (jLimits j))" using c' by simp
    show "normalizeCheckpoint cp (jLimits j) = Inr (cp, normalized_limits (jLimits j))"
      using c' by (auto intro: normalizeCheckpoint_idem)
    show "path_content (CheckpointPath req) u = Some cb"
      using replaced_state(5) [OF r] c' that(1) by (auto simp: path_content_def same_fs_def file_content_def)
  qed (use that c' replaced_state [OF r] in auto)
  have wm: "Watermark cp = ?v" using c' by (simp add: normalizeCheckpoint_ok)
  show ?thesis
    using inv lastv load wm c' compaction_state [OF f(1) c] by (auto simp: j')
qed

theorem compact_preserves_state_witness:
  "\<exists>v j'. Compact example_request (example_world, example_journal) = (Inr (), (v, j')) \<and> journal_inv (v, j') \<and>
     linked (v, j') \<and> jFloor j' = MkVersion 1 1"
proof -
  obtain cb where c: "compaction_checks example_journal example_request zeroCheckpoint example_checkpoint cb"
    using example_checks by blast
  have j: "\<not> jClosed example_journal" "reqWatermark example_request = MkVersion 1 1"
    by (simp_all add: example_journal_def example_request_def)
  have "file_name_ok (CheckpointPath example_request)" "file_name_ok (jPath example_journal)"
    by (simp_all add: example_request_def example_journal_def file_name_ok_def base_seg_def)
  from Compact_calm [OF example_journal_inv(1) j(1) example_journal_inv(3) c this] obtain v j' where
    v: "Compact example_request (example_world, example_journal) = (Inr (), (v, j'))"
    by (metis prod.collapse)
  from compact_preserves_state [OF example_journal_inv(1,2) j(1) v] v j(2) show ?thesis by auto
qed

text \<open>
  C4. Checkpoint first.  Interrupt a compaction anywhere: a restart finds under the journal's path
  either the old journal, complete, or the compacted one, complete, and in the second case the
  checkpoint that covers the dropped records is on disk under its path and loads.
\<close>

theorem compact_crash_safe:
  assumes "journal_inv (w, j)" and "linked (w, j)" and "\<not> jClosed j" and "Compact req (w, j) = (res, (v, j'))"
    and "crash v u" and "calm u"
  shows "path_content (jPath j) u = Some (journal_bytes (jFloor j) (jRecords j)) \<or>
    path_content (jPath j) u = Some (journal_bytes (reqWatermark req)
      (dropWhile (\<lambda>r. rVersion r \<le> reqWatermark req) (jRecords j))) \<and>
    (\<exists>cp. LoadCheckpoint (CheckpointPath req) (jLimits j) u = (Inr cp, u) \<and> Watermark cp = reqWatermark req)"
proof -
  obtain i where f: "journal_fields j" "jFile j = Some i" using assms(1,3) by (rule journal_invE)
  let ?wm = "reqWatermark req"
  let ?R = "\<lambda>s. \<forall>u. crash (fst s) u \<longrightarrow> calm u \<longrightarrow> survives j (CheckpointPath req) ?wm (kept ?wm (jRecords j)) u"
  have r: "?R (v, j'')" if c: "compaction_checks j req base cp cb"
    and "replaces (CheckpointPath req) cb (jPath j) (journal_bytes ?wm (kept ?wm (jRecords j))) w v" for base cp cb v j''
  proof -
    note c' = c [unfolded compaction_checks_def]
    from c' have "?wm = Watermark cp" by (simp add: normalizeCheckpoint_ok)
    with survives_rewrite [OF assms(1-3)] c' that(2) show ?thesis by auto
  qed
  have "wp (Compact req) (\<lambda>_. ?R) (\<lambda>_. ?R) (w, j)"
  proof (rule wp_Compact [OF f(1) assms(3) f(2)])
    show "?R (v, j)" if "same_fs w v" for v using survives_early [OF assms(1-3) that] by simp
    show "?R (v, j)" if "compaction_checks j req base cp cb"
      "replaces (CheckpointPath req) cb (jPath j) (journal_bytes ?wm (kept ?wm (jRecords j))) w v" for base cp cb v
      using that by (rule r)
    show "?R (v, moved j ?wm (kept ?wm (jRecords j)) k)" if "compaction_checks j req base cp cb"
      "replaced (CheckpointPath req) cb (jPath j) (journal_bytes ?wm (kept ?wm (jRecords j))) k w v" for base cp cb k v
      using that(1) replaced_replaces [OF that(2)] by (rule r)
  qed
  then have "?R (v, j')" using assms(4) by (cases res) (auto simp: wp_def)
  with assms(5,6) show ?thesis by (simp add: survives_def covered_kept(2))
qed

theorem compact_crash_safe_witness:
  "\<exists>res v j'. Compact example_request (example_world, example_journal) = (res, (v, j')) \<and>
     (path_content ''j'' (restart v) = Some (journal_bytes zeroVersion [example_record 1]) \<or>
      path_content ''j'' (restart v) = Some (journal_bytes (MkVersion 1 1) []))"
proof -
  obtain res v j' where v: "Compact example_request (example_world, example_journal) = (res, (v, j'))"
    by (metis prod.collapse)
  have "\<not> jClosed example_journal" by (simp add: example_journal_def)
  from compact_crash_safe [OF example_journal_inv(1,2) this v crash_restart calm_restart] v show ?thesis
    by (auto simp: example_journal_def example_request_def)
qed

text \<open>
  C11. Installing a snapshot.  Whatever fails and wherever the process stops, a restart finds the old
  journal or the empty journal whose floor is the snapshot's watermark, and then the snapshot loads.
  A successful installation never moves behind the journal: the watermark it establishes as floor
  and last version is at least the last version before.  A snapshot that is behind it is refused
  and changes nothing.
\<close>

theorem install_snapshot_safe:
  assumes "journal_inv (w, j)" and "linked (w, j)" and "\<not> jClosed j" and "InstallSnapshot path cp (w, j) = (res, (v, j'))"
  shows "(\<forall>u. crash v u \<and> calm u \<longrightarrow>
       path_content (jPath j) u = Some (journal_bytes (jFloor j) (jRecords j)) \<or>
       path_content (jPath j) u = Some (journal_bytes (Watermark cp) []) \<and>
       (\<exists>n. LoadCheckpoint path (jLimits j) u = (Inr n, u) \<and> Watermark n = Watermark cp)) \<and>
    (res = Inr () \<longrightarrow> journal_inv (v, j') \<and> linked (v, j') \<and> jFloor j' = Watermark cp \<and> jLast j' = Watermark cp \<and>
       jRecords j' = [] \<and> jLast j \<le> jLast j') \<and>
    (Watermark cp < jLast j \<longrightarrow> res \<noteq> Inr () \<and> same_fs w v) \<and> (res \<noteq> Inr () \<longrightarrow> j' = j)"
proof -
  obtain i where f: "journal_fields j" "jFile j = Some i" using assms(1,3) by (rule journal_invE)
  have path: "jPath j \<noteq> []" using assms(2) by (simp add: linked_def)
  let ?C = "\<lambda>s. \<forall>u. crash (fst s) u \<longrightarrow> calm u \<longrightarrow> survives j path (Watermark cp) [] u"
  let ?E = "\<lambda>s. ?C s \<and> snd s = j \<and> (Watermark cp < jLast j \<longrightarrow> same_fs w (fst s))"
  let ?Q = "\<lambda>s. ?C s \<and> jLast j \<le> Watermark cp \<and> journal_inv s \<and> linked s \<and> jFloor (snd s) = Watermark cp \<and>
    jLast (snd s) = Watermark cp \<and> jRecords (snd s) = []"
  have c: "?C (v, j'')" if c: "install_checks j path cp n cb" "replaces path cb (jPath j) (journal_bytes (Watermark n) []) w v" for n cb v j''
  proof -
    from c(1) have "Watermark cp = Watermark n" by (simp add: install_checks_def normalizeCheckpoint_ok)
    with survives_rewrite [OF assms(1-3), of v _ path cp n cb "Watermark cp" "[]"] c show ?thesis
      by (auto simp: install_checks_def)
  qed
  have wm: "Watermark n = Watermark cp \<and> jLast j \<le> Watermark cp" if "install_checks j path cp n cb" for n cb
    using that by (auto simp: install_checks_def normalizeCheckpoint_ok)
  have "wp (InstallSnapshot path cp) (\<lambda>_. ?Q) (\<lambda>_. ?E) (w, j)"
  proof (rule wp_InstallSnapshot [OF f(1) assms(3) f(2)])
    show "?E (v, j)" if "same_fs w v" for v using survives_early [OF assms(1-3) that] that by simp
    show "?E (v, j)" if "install_checks j path cp n cb" "replaces path cb (jPath j) (journal_bytes (Watermark n) []) w v" for n cb v
      using c [OF that] wm [OF that(1)] by auto
    fix n cb k v
    assume a: "install_checks j path cp n cb" and r: "replaced path cb (jPath j) (journal_bytes (Watermark n) []) k w v"
    have "journal_fields (moved j (Watermark n) [] k)"
      using moved_fields [OF f(1), of "Watermark n" "length (jRecords j)" k] by simp
    from moved_inv [OF this r] a path have "journal_inv (v, moved j (Watermark n) [] k) \<and> linked (v, moved j (Watermark n) [] k)"
      by (simp add: install_checks_def)
    then show "?Q (v, moved j (Watermark n) [] k)"
      using c [OF a replaced_replaces [OF r]] wm [OF a] by (simp add: last_version_def)
  qed
  with assms(4) have "if res = Inr () then ?Q (v, j') else ?E (v, j')" by (cases res) (auto simp: wp_def)
  then show ?thesis by (auto simp: survives_def split: if_splits)
qed

theorem install_snapshot_safe_witness:
  "\<exists>v j'. InstallSnapshot ''c'' example_checkpoint (example_world, example_journal) = (Inr (), (v, j')) \<and>
     journal_inv (v, j') \<and> jFloor j' = MkVersion 1 1 \<and> jRecords j' = []"
proof -
  have j: "\<not> jClosed example_journal" "jPath example_journal = ''j''" "jLast example_journal = MkVersion 1 1"
    "jLimits example_journal = normalized_limits example_limits" by (simp_all add: example_journal_def)
  obtain cb where c: "encodeCheckpoint example_checkpoint (normalized_limits example_limits) = Inr (cb, normalized_limits example_limits)"
    using example_encode by blast
  have wm: "Watermark example_checkpoint = MkVersion 1 1" by (simp add: example_checkpoint_def)
  have "Clean ''c'' \<noteq> Clean ''j''" by (simp add: Clean_def rooted_def clean_step_def)
  with c j wm example_normalize have "install_checks example_journal ''c'' example_checkpoint example_checkpoint cb"
    by (simp add: install_checks_def)
  from InstallSnapshot_calm [OF example_journal_inv(1) j(1) example_journal_inv(3) this]
  have "fst (InstallSnapshot ''c'' example_checkpoint (example_world, example_journal)) = Inr ()"
    by (simp add: j(2) file_name_ok_def base_seg_def)
  then obtain v j' where v: "InstallSnapshot ''c'' example_checkpoint (example_world, example_journal) = (Inr (), (v, j'))"
    by (metis prod.collapse)
  from install_snapshot_safe [OF example_journal_inv(1,2) j(1) v] v wm show ?thesis by simp
qed

end
