(* ===== verification/Lifecycle_StateFile.thy ===== *)
theory Lifecycle_StateFile
  imports Lifecycle_Files Lifecycle_Model
begin

text \<open>
  The durable-state idiom of \<^verbatim>\<open>authority.go\<close>, \<^verbatim>\<open>watermark.go\<close> and \<^verbatim>\<open>membership.go\<close>: a small JSON value in
  an envelope, read with \<^verbatim>\<open>os.ReadFile\<close> at start and replaced with \<^verbatim>\<open>atomicWrite\<close> by every change.  The
  three files repeat the same statements with their own error sentinels; the sentinels are arguments
  here.

  \<open>holds p S w\<close> says that whatever crash happens now, the file \<open>p\<close> has one of the contents \<open>S\<close>; the
  locale \<open>state_file\<close> is the contract a decoder owes to its encoder, and gives what a restart reads.
\<close>

section \<open>Definitions\<close>

text \<open>\<^verbatim>\<open>os.ReadFile\<close>\<close>

definition os_read_file :: "bytes \<Rightarrow> (world, bytes) M" where
  "os_read_file path = bindM (os_open path) (\<lambda>file. deferM f_close (f_read file))"

text \<open>The checks between reading the file and decoding its payload.\<close>

definition open_envelope :: "err \<Rightarrow> err \<Rightarrow> err \<Rightarrow> int \<Rightarrow> bytes \<Rightarrow> err + bytes" where
  "open_envelope corrupt checksum limit maxBytes data =
     bindE (guardE (data = []) corrupt) (\<lambda>_.
     bindE (guardE (int (length data) > maxBytes) limit) (\<lambda>_.
     bindE (decodeEnvelope data 0 maxBytes corrupt checksum) (\<lambda>(payload, next).
     bindE (guardE (next \<noteq> length data) corrupt) (\<lambda>_.
     Inr payload))))"

text \<open>The strict decoding of a payload that must hold exactly one value.\<close>

definition decode_state :: "'a decoder \<Rightarrow> 'a \<Rightarrow> err \<Rightarrow> bytes \<Rightarrow> err + 'a" where
  "decode_state f z corrupt payload =
     bindE (mapE (EJoin corrupt) (json_decode f z payload)) (\<lambda>(state, rest).
       if skip_ws rest = [] then Inr state
       else (case json_value rest of
               Some _ \<Rightarrow> Inl corrupt
             | None \<Rightarrow> Inl (EJoin corrupt (EStd ErrJSON))))"

text \<open>Encoding the payload and checking the size of the file.\<close>

definition seal_state :: "err \<Rightarrow> err \<Rightarrow> int \<Rightarrow> bytes \<Rightarrow> err + bytes" where
  "seal_state corrupt limit maxBytes payload =
     bindE (mapE (EJoin corrupt) (encodeEnvelope payload)) (\<lambda>envelope.
     bindE (guardE (int (length envelope) > maxBytes) limit) (\<lambda>_.
     Inr envelope))"

section \<open>Reading what was sealed\<close>

lemma open_sealed:
  assumes "seal_state c l m payload = Inr data"
  shows "open_envelope c' k l' m data = Inr payload"
proof -
  have e: "encodeEnvelope payload = Inr data" and l: "int (length data) \<le> m"
    using assms by (auto simp: seal_state_def resE split: if_splits)
  have n: "length data = length payload + 8"
    using e by (auto simp: encodeEnvelope_def split: if_splits)
  from decode_encode_envelope(1) [OF e, of m "[]" "[]"] n l show ?thesis
    by (auto simp: open_envelope_def)
qed

lemma seal_state_ok:
  assumes "payload \<noteq> []" and "int (length payload) + 8 \<le> m" and "length payload < 2 ^ 32"
  shows "\<exists>data. seal_state c l m payload = Inr data"
  using assms by (simp add: seal_state_def encodeEnvelope_def)

lemma decode_state_print:
  assumes "json_wf j" and "json_depth j \<le> max_nesting" and "f z j = Some x"
  shows "decode_state f z c (json_print j) = Inr x"
  using json_decode_print [of j f z x] assms by (simp add: decode_state_def)

section \<open>What a restart finds\<close>

text \<open>
  Both the current and the synced entry of \<open>p\<close> name a file that is on disk with a content in \<open>S\<close>
  (\<open>None\<close>: there is no such entry).
\<close>

definition entry_holds :: "bytes option set \<Rightarrow> world \<Rightarrow> nat option \<Rightarrow> bool" where
  "entry_holds S w e \<longleftrightarrow>
     (case e of None \<Rightarrow> None \<in> S
      | Some i \<Rightarrow> i < length (winodes w) \<and> isynced (winodes w ! i) = icontent (winodes w ! i) \<and>
          Some (icontent (winodes w ! i)) \<in> S)"

definition holds :: "bytes \<Rightarrow> bytes option set \<Rightarrow> world \<Rightarrow> bool" where
  "holds p S w \<longleftrightarrow> entry_holds S w (map_of (wdir w) (Path (Clean p))) \<and>
     entry_holds S w (map_of (wdir_synced w) (Path (Clean p)))"

lemma holds_mono: "holds p S w \<Longrightarrow> S \<subseteq> T \<Longrightarrow> holds p T w"
  by (auto simp: holds_def entry_holds_def split: option.splits)

lemma holds_same_fs: "holds p S w \<Longrightarrow> same_fs w v \<Longrightarrow> holds p S v"
  by (auto simp: holds_def entry_holds_def same_fs_def split: option.splits)

lemma entry_holds_prefix: "entry_holds S w e \<Longrightarrow> prefix (winodes w) (winodes v) \<Longrightarrow> entry_holds S v e"
  by (auto simp: entry_holds_def prefix_nth_eq dest: prefix_length_le split: option.splits)

lemma holds_only_temps: "holds p S w \<Longrightarrow> only_temps w v \<Longrightarrow> holds p S v"
  by (auto simp: holds_def only_temps_def intro: entry_holds_prefix)

lemma holds_content: "holds p S w \<Longrightarrow> path_content p w \<in> S"
  by (auto simp: holds_def entry_holds_def path_content_def file_content_def split: option.splits)

lemma holds_crash:
  assumes "holds p S w" and "crash w u"
  shows "holds p S u"
proof -
  have "entry_holds S u e" if "entry_holds S w e" for e
    using that crash_content [OF assms(2)] crash_synced_content [OF assms(2)] assms(2)
    by (auto simp: entry_holds_def crash_def file_content_def split: option.splits)
  with assms show ?thesis unfolding holds_def crash_def by metis
qed

text \<open>What other components do to the rest of the file system does not matter.\<close>

definition untouched :: "bytes \<Rightarrow> world \<Rightarrow> world \<Rightarrow> bool" where
  "untouched p w v \<longleftrightarrow>
     map_of (wdir v) (Path (Clean p)) = map_of (wdir w) (Path (Clean p)) \<and>
     map_of (wdir_synced v) (Path (Clean p)) = map_of (wdir_synced w) (Path (Clean p)) \<and>
     length (winodes w) \<le> length (winodes v) \<and>
     (\<forall>i. Some i \<in> {map_of (wdir w) (Path (Clean p)), map_of (wdir_synced w) (Path (Clean p))} \<longrightarrow>
        winodes v ! i = winodes w ! i)"

lemma holds_untouched: "holds p S w \<Longrightarrow> untouched p w v \<Longrightarrow> holds p S v"
  by (auto simp: holds_def entry_holds_def untouched_def split: option.splits)

text \<open>A replacement: after an error the old and the new content are possible.\<close>

lemma wp_replace:
  assumes "holds p S w"
    and "\<And>v. holds p {Some data} v \<Longrightarrow> Q () v" and "\<And>e v. holds p (insert (Some data) S) v \<Longrightarrow> E e v"
  shows "wp (atomicWrite p data) Q E w"
proof (rule wp_atomicWrite)
  show "E e v" if "only_temps w v" for e v
    using holds_only_temps [OF assms(1) that] by (intro assms(3)) (auto intro: holds_mono)
  have old: "entry_holds S v (map_of (wdir_synced w) (Path (Clean p)))" if "installed b w p data i v" for b i v
    using that assms(1) by (auto simp: installed_def holds_def intro: entry_holds_prefix)
  show "E e v" if "installed False w p data i v" for e i v
    using that old [OF that]
    by (intro assms(3)) (auto simp: holds_def installed_def entry_holds_def split: option.splits)
  show "Q () v" if "installed True w p data i v" for i v
    using that by (intro assms(2)) (auto simp: holds_def installed_def entry_holds_def dir_of_Clean)
qed

lemma os_read_file_calm:
  assumes "calm w" and "file_name_ok p"
  shows "os_read_file p w =
    (case path_content p w of None \<Rightarrow> Inl (EStd ErrNotExist) | Some data \<Rightarrow> Inr data, w)"
  using assms
  by (auto simp: os_read_file_def os_open_def monad calm_run deferM_def ignoreM_def path_content_def split: option.splits)

lemma wp_read_file [fsI]:
  assumes "\<And>v. same_fs w v \<Longrightarrow> E (EStd ErrOS) v"
    and "\<And>v. same_fs w v \<Longrightarrow> path_content p w = None \<Longrightarrow> E (EStd ErrNotExist) v"
    and "\<And>v data. same_fs w v \<Longrightarrow> path_content p w = Some data \<Longrightarrow> Q data v"
  shows "wp (os_read_file p) Q E w"
  unfolding os_read_file_def wp_bind
proof (rule wp_open_fs)
  show "E (EStd ErrNotExist) v" if "same_fs w v" "map_of (wdir w) (Path (Clean p)) = None" for v
    using that by (intro assms(2)) (simp_all add: path_content_def)
  fix i v assume v: "same_fs w v" and i: "map_of (wdir w) (Path (Clean p)) = Some i"
  have c: "path_content p w = Some (file_content i v)" using i v by (simp add: path_content_def same_fs_content)
  have "Q (file_content i v) u" if "same_fs v u" for u using same_fs_trans [OF v that] c by (rule assms(3))
  moreover have "E (EStd ErrOS) u" if "same_fs v u" for u using same_fs_trans [OF v that] by (rule assms(1))
  ultimately show "wp (deferM f_close (f_read i)) Q E v"
    unfolding wp_deferM by (auto intro!: wp_read_fs wp_close_fs intro: same_fs_trans)
qed (rule assms(1))

text \<open>
  The contract of a state's encoding, and what reading gives after a crash.  \<open>images\<close> are the files
  that stand for the states \<open>A\<close> under the configuration \<open>c\<close>.
\<close>

definition images :: "('c \<Rightarrow> 's \<Rightarrow> err + bytes) \<Rightarrow> ('c \<Rightarrow> 's \<Rightarrow> bool) \<Rightarrow> 'c \<Rightarrow> 's set \<Rightarrow> bytes option set" where
  "images encode good c A = {Some data | s data. s \<in> A \<and> good c s \<and> encode c s = Inr data}"

lemma images_insert:
  "good c s \<Longrightarrow> encode c s = Inr data \<Longrightarrow> insert (Some data) (images encode good c A) = images encode good c (insert s A)"
  by (auto simp: images_def)

lemma images_single: "good c s \<Longrightarrow> encode c s = Inr data \<Longrightarrow> images encode good c {s} = {Some data}"
  by (auto simp: images_def)

lemma images_mono: "A \<subseteq> B \<Longrightarrow> images encode good c A \<subseteq> images encode good c B"
  by (auto simp: images_def)

locale state_file =
  fixes encode :: "'c \<Rightarrow> 's \<Rightarrow> err + bytes" and decode :: "'c \<Rightarrow> bytes \<Rightarrow> err + 's"
    and good :: "'c \<Rightarrow> 's \<Rightarrow> bool"
  assumes decode_encode: "good c s \<Longrightarrow> encode c s = Inr data \<Longrightarrow> decode c data = Inr s"
begin

abbreviation files :: "'c \<Rightarrow> 's set \<Rightarrow> bytes option set" where
  "files \<equiv> images encode good"

lemma read_holding:
  assumes "holds p (files c A \<union> N) w" and "N \<subseteq> {None}"
  shows "path_content p w = None \<and> None \<in> N \<or>
    (\<exists>s\<in>A. \<exists>data. path_content p w = Some data \<and> decode c data = Inr s \<and> good c s \<and> encode c s = Inr data)"
proof (cases "path_content p w")
  case None
  with holds_content [OF assms(1)] show ?thesis by (auto simp: images_def)
next
  case (Some data)
  with holds_content [OF assms(1)] assms(2) obtain s where "s \<in> A" "good c s" "encode c s = Inr data"
    by (auto simp: images_def)
  with Some decode_encode show ?thesis by blast
qed

lemma wp_persist:
  assumes "holds p (files c A \<union> N) w" and "good c s" and "encode c s = Inr data"
    and "\<And>v. holds p (files c {s}) v \<Longrightarrow> Q () v" and "\<And>e v. holds p (files c (insert s A) \<union> N) v \<Longrightarrow> E e v"
  shows "wp (atomicWrite p data) Q E w"
  using assms(1)
proof (rule wp_replace)
  show "Q () v" if "holds p {Some data} v" for v using that assms(2-4) by (simp add: images_single)
  show "E e v" if "holds p (insert (Some data) (files c A \<union> N)) v" for e v
    using that assms(5) unfolding Un_insert_left [symmetric] images_insert [where good = good and encode = encode, OF assms(2,3)] by blast
qed

end

end
