(* ===== verification/Lifecycle_Authority.thy ===== *)
theory Lifecycle_Authority
  imports Lifecycle_StateFile
begin

text \<open>
  \<^verbatim>\<open>internal/lifecycle/authority.go\<close>: the durable allocator of version tokens.  The eight random bytes
  of a first start (\<^verbatim>\<open>crypto/rand\<close>) are an argument of \<open>OpenAuthority\<close>.

  \<open>authority_run\<close> is the life of an allocator over any number of calls, failures, crashes and
  restarts; the tokens it hands out strictly increase.
\<close>

section \<open>Definitions\<close>

definition DefaultMaxAuthorityStateBytes :: int where
  "DefaultMaxAuthorityStateBytes = 2 ^ 20"

record AuthorityOptions =
  aoLimits :: Limits
  aoMaxBytes :: int
  aoObserved :: Version

definition normalized_authority :: "AuthorityOptions \<Rightarrow> AuthorityOptions" where
  "normalized_authority o' =
     o'\<lparr>aoLimits := normalized_limits (aoLimits o'),
        aoMaxBytes := or_default DefaultMaxAuthorityStateBytes (aoMaxBytes o')\<rparr>"

record authorityState =
  stAuthorityID :: bytes
  stVersion :: Version

definition authority_json :: "authorityState \<Rightarrow> json" where
  "authority_json s = JObj [(''authority_id'', JStr (stAuthorityID s)), (''version'', version_json (stVersion s))]"

definition dec_authority :: "authorityState decoder" where
  "dec_authority = struct_decode True
     [(''authority_id'', field dec_string stAuthorityID stAuthorityID_update),
      (''version'', field (dec_version True) stVersion stVersion_update)]"

record Authority =
  auPath :: bytes
  auID :: bytes
  auLimits :: Limits
  auMaxBytes :: int
  auCurrent :: Version

definition initialAuthorityVersion :: "err + bytes \<Rightarrow> Version \<Rightarrow> err + Version" where
  "initialAuthorityVersion raw observed =
     (if Epoch observed \<noteq> 0 then Inr observed
      else bindE raw (\<lambda>raw.
        let epoch = get_u64 raw in
        Inr (MkVersion (if epoch = 0 then 1 else epoch) 0)))"

definition incrementAuthorityVersion :: "Version \<Rightarrow> err + Version" where
  "incrementAuthorityVersion current =
     (if Epoch current = 0 then Inl (EAuthority ErrAuthorityVersion)
      else if Sequence current < 2 ^ 64 - 1 then Inr (MkVersion (Epoch current) (Sequence current + 1))
      else if Epoch current = 2 ^ 64 - 1 then Inl (EAuthority ErrAuthorityExhausted)
      else Inr (MkVersion (Epoch current + 1) 1))"

definition validateAuthorityVersion :: "Version \<Rightarrow> err + unit" where
  "validateAuthorityVersion version = guardE (Epoch version = 0) (EAuthority ErrAuthorityVersion)"

definition decodeAuthorityState :: "bytes \<Rightarrow> err + authorityState" where
  "decodeAuthorityState payload =
     decode_state dec_authority \<lparr>stAuthorityID = [], stVersion = zeroVersion\<rparr> (EAuthority ErrAuthorityCorrupt) payload"

definition persist_authority :: "Authority \<Rightarrow> (world, unit) M" where
  "persist_authority a =
     (let payload = json_print (authority_json \<lparr>stAuthorityID = auID a, stVersion = auCurrent a\<rparr>) in
      bindM (liftE (seal_state (EAuthority ErrAuthorityCorrupt) (EAuthority ErrAuthorityLimit) (auMaxBytes a) payload)) (\<lambda>envelope.
      atomicWrite (auPath a) envelope))"

definition OpenAuthority :: "err + bytes \<Rightarrow> bytes \<Rightarrow> bytes \<Rightarrow> AuthorityOptions \<Rightarrow> (world, Authority) M" where
  "OpenAuthority raw path authorityID options =
     bindM (guardM (path = []) (EAuthority ErrNilAuthorityPath)) (\<lambda>_.
     let options = normalized_authority options in
     bindM (liftE (validateAuthorityID authorityID (aoLimits options))) (\<lambda>_.
     bindM pollM (\<lambda>_.
     let authority = \<lparr>auPath = path, auID = authorityID, auLimits = aoLimits options,
                      auMaxBytes = aoMaxBytes options, auCurrent = zeroVersion\<rparr> in
     bindM (tryM (os_read_file path)) (\<lambda>r.
     case r of
       Inl e \<Rightarrow>
         if err_is e (EStd ErrNotExist) then
           bindM (liftE (initialAuthorityVersion raw (aoObserved options))) (\<lambda>current.
           let authority = authority\<lparr>auCurrent := current\<rparr> in
           bindM (persist_authority authority) (\<lambda>_.
           returnM authority))
         else throwM e
     | Inr data \<Rightarrow>
         bindM (liftE (open_envelope (EAuthority ErrAuthorityCorrupt) (EAuthority ErrAuthorityChecksum)
                  (EAuthority ErrAuthorityLimit) (auMaxBytes authority) data)) (\<lambda>payload.
         bindM (liftE (decodeAuthorityState payload)) (\<lambda>state.
         bindM (guardM (stAuthorityID state \<noteq> authorityID) (EAuthority ErrAuthorityMismatch)) (\<lambda>_.
         bindM (liftE (validateAuthorityVersion (stVersion state))) (\<lambda>_.
         let authority = authority\<lparr>auCurrent := stVersion state\<rparr> in
         if Compare (aoObserved options) (auCurrent authority) > 0 then
           let authority = authority\<lparr>auCurrent := aoObserved options\<rparr> in
           bindM (guardM (Epoch (auCurrent authority) = 0) (EAuthority ErrAuthorityVersion)) (\<lambda>_.
           bindM (persist_authority authority) (\<lambda>_.
           returnM authority))
         else returnM authority))))))))"

definition Next :: "Version \<Rightarrow> (world \<times> Authority, Version) M" where
  "Next observed =
     bindM (osM pollM) (\<lambda>_.
     bindM (selfM auCurrent) (\<lambda>current.
     bindM (if Compare observed current > 0 then
              bindM (guardM (Epoch observed = 0) (EAuthority ErrAuthorityVersion)) (\<lambda>_.
              setM (\<lambda>a. a\<lparr>auCurrent := observed\<rparr>))
            else returnM ()) (\<lambda>_.
     bindM (selfM auCurrent) (\<lambda>current.
     bindM (liftE (incrementAuthorityVersion current)) (\<lambda>next.
     bindM (setM (\<lambda>a. a\<lparr>auCurrent := next\<rparr>)) (\<lambda>_.
     bindM (selfM (\<lambda>a. a)) (\<lambda>a.
     bindM (osM (persist_authority a)) (\<lambda>_.
     returnM next))))))))"

definition Current :: "Authority \<Rightarrow> Version" where
  "Current a = auCurrent a"

definition AuthorityID_of :: "Authority \<Rightarrow> bytes" where
  "AuthorityID_of a = auID a"

section \<open>Tokens\<close>

lemma u64_max: "(18446744073709551615 :: u64) = - 1"
  by simp

lemma u64_succ: "x \<noteq> (- 1 :: u64) \<Longrightarrow> x + 1 \<noteq> 0 \<and> x < x + 1"
  using inc_less_eq_self_iff_eq [of x] by (metis add_eq_0_iff2 not_le)

lemma increment_greater:
  assumes "incrementAuthorityVersion v = Inr t"
  shows "v < t" and "Epoch t \<noteq> 0" and "Sequence t \<noteq> 0"
proof -
  have m: "x < 2 ^ 64 - 1 \<Longrightarrow> x \<noteq> - 1" for x :: u64 by auto
  have "v < t \<and> Epoch t \<noteq> 0 \<and> Sequence t \<noteq> 0"
  proof (cases "Sequence v < 2 ^ 64 - 1")
    case True
    then have "Epoch v \<noteq> 0" "t = MkVersion (Epoch v) (Sequence v + 1)"
      using assms by (simp_all add: incrementAuthorityVersion_def split: if_splits)
    with u64_succ [OF m [OF True]] show ?thesis by (simp add: less_Version_def)
  next
    case False
    then have "Epoch v \<noteq> - 1" "t = MkVersion (Epoch v + 1) 1"
      using assms by (simp_all add: incrementAuthorityVersion_def u64_max split: if_splits)
    with u64_succ [of "Epoch v"] show ?thesis by (simp add: less_Version_def)
  qed
  then show "v < t" "Epoch t \<noteq> 0" "Sequence t \<noteq> 0" by auto
qed

text \<open>No token is skipped: a version above the current one with a positive sequence is at least the next token.\<close>

lemma increment_least:
  assumes "incrementAuthorityVersion v = Inr t" and "v < u" and "Sequence u \<noteq> 0"
  shows "t \<le> u"
proof (cases "Sequence v < 2 ^ 64 - 1")
  case True
  then have "t = MkVersion (Epoch v) (Sequence v + 1)"
    using assms(1) by (simp add: incrementAuthorityVersion_def split: if_splits)
  with assms(2) inc_le [of "Sequence v" "Sequence u"] show ?thesis
    by (auto simp: less_Version_def less_eq_Version_def)
next
  case False
  then have m: "Sequence u \<le> Sequence v"
    by (simp add: u64_max not_less word_order.extremum_unique)
  have "t = MkVersion (Epoch v + 1) 1"
    using assms(1) False by (simp add: incrementAuthorityVersion_def split: if_splits)
  moreover have "Epoch v < Epoch u" using assms(2) m by (auto simp: less_Version_def)
  moreover have "1 \<le> Sequence u" using assms(3) by (simp add: word_le_nat_alt Suc_le_eq unat_gt_0)
  ultimately show ?thesis using inc_le [of "Epoch v" "Epoch u"] by (auto simp: less_eq_Version_def)
qed

section \<open>The state file\<close>

text \<open>The configuration is the identity and the size bound; the state is the version.\<close>

definition authority_encode :: "bytes \<times> int \<Rightarrow> Version \<Rightarrow> err + bytes" where
  "authority_encode c v = seal_state (EAuthority ErrAuthorityCorrupt) (EAuthority ErrAuthorityLimit) (snd c)
     (json_print (authority_json \<lparr>stAuthorityID = fst c, stVersion = v\<rparr>))"

definition authority_decode :: "bytes \<times> int \<Rightarrow> bytes \<Rightarrow> err + Version" where
  "authority_decode c data =
     bindE (open_envelope (EAuthority ErrAuthorityCorrupt) (EAuthority ErrAuthorityChecksum)
              (EAuthority ErrAuthorityLimit) (snd c) data) (\<lambda>payload.
     bindE (decodeAuthorityState payload) (\<lambda>state.
     bindE (guardE (stAuthorityID state \<noteq> fst c) (EAuthority ErrAuthorityMismatch)) (\<lambda>_.
     bindE (validateAuthorityVersion (stVersion state)) (\<lambda>_.
     Inr (stVersion state)))))"

definition authority_good :: "bytes \<times> int \<Rightarrow> Version \<Rightarrow> bool" where
  "authority_good c v \<longleftrightarrow> valid_utf8 (fst c) \<and> Epoch v \<noteq> 0"

lemma authority_names [simp]: "valid_utf8 ''authority_id''" "valid_utf8 ''version''"
  by (rule valid_utf8_ascii, simp)+

lemma dec_authority_rt [json_rt]: "dec_authority z (authority_json s) = Some s"
  by (simp add: dec_authority_def struct_decode_def authority_json_def find_field_def field_def json_rt)

lemma decodeAuthorityState_print:
  "valid_utf8 (stAuthorityID s) \<Longrightarrow> decodeAuthorityState (json_print (authority_json s)) = Inr s"
  unfolding decodeAuthorityState_def
  by (rule decode_state_print) (simp add: authority_json_def, simp add: authority_json_def max_nesting_def, simp add: json_rt)

interpretation af: state_file authority_encode authority_decode authority_good
proof
  fix c s data assume "authority_good c s" and "authority_encode c s = Inr data"
  then show "authority_decode c data = Inr s"
    unfolding authority_encode_def authority_good_def
    by (simp add: authority_decode_def open_sealed decodeAuthorityState_print validateAuthorityVersion_def)
qed

text \<open>The authority's in-memory fields belong to the configuration.\<close>

definition authority_config :: "bytes \<Rightarrow> bytes \<Rightarrow> AuthorityOptions \<Rightarrow> Authority \<Rightarrow> bool" where
  "authority_config path authorityID options a \<longleftrightarrow>
     auPath a = path \<and> auID a = authorityID \<and> auMaxBytes a = aoMaxBytes (normalized_authority options) \<and>
     Epoch (auCurrent a) \<noteq> 0"

abbreviation authority_conf :: "bytes \<Rightarrow> AuthorityOptions \<Rightarrow> bytes \<times> int" where
  "authority_conf authorityID options \<equiv> (authorityID, aoMaxBytes (normalized_authority options))"

lemma persist_authority_alt:
  "persist_authority a = bindM (liftE (authority_encode (auID a, auMaxBytes a) (auCurrent a))) (atomicWrite (auPath a))"
  by (simp add: persist_authority_def authority_encode_def)

lemma wp_persist_authority:
  assumes "holds (auPath a) (af.files (auID a, auMaxBytes a) A \<union> N) w" and "Epoch (auCurrent a) \<noteq> 0" and "valid_utf8 (auID a)"
    and "\<And>v. holds (auPath a) (af.files (auID a, auMaxBytes a) {auCurrent a}) v \<Longrightarrow> Q () v"
    and "\<And>e v. holds (auPath a) (af.files (auID a, auMaxBytes a) (insert (auCurrent a) A) \<union> N) v \<Longrightarrow> E e v"
  shows "wp (persist_authority a) Q E w"
proof -
  have "E e w" for e
    using assms(1) by (intro assms(5), elim holds_mono) (auto simp: images_def)
  moreover have "wp (atomicWrite (auPath a) data) Q E w" if "authority_encode (auID a, auMaxBytes a) (auCurrent a) = Inr data" for data
    by (rule af.wp_persist [OF assms(1) _ that]) (use assms(2-5) in \<open>auto simp: authority_good_def\<close>)
  ultimately show ?thesis
    by (simp add: persist_authority_alt wps split: sum.split)
qed

section \<open>The methods\<close>

lemma validateAuthorityID_utf8: "validateAuthorityID a l = Inr u \<Longrightarrow> valid_utf8 a"
  by (simp add: validateAuthorityID_ok valid_authority_def printable_valid)

lemma initial_nonzero: "initialAuthorityVersion raw observed = Inr v \<Longrightarrow> Epoch v \<noteq> 0 \<and> observed \<le> v"
  by (auto simp: initialAuthorityVersion_def less_eq_Version_def Let_def word_gt_0 resE split: if_splits)

text \<open>
  The file is at least as new as every token of \<open>ts\<close>, whatever crash happens; it may be absent only
  while there are no tokens.
\<close>

definition file_covers :: "bytes \<Rightarrow> bytes \<times> int \<Rightarrow> Version list \<Rightarrow> world \<Rightarrow> bool" where
  "file_covers path c ts w \<longleftrightarrow>
     (\<exists>A N. holds path (images authority_encode authority_good c A \<union> N) w \<and> (\<forall>s\<in>A. \<forall>t\<in>set ts. t \<le> s) \<and>
        N \<subseteq> {None} \<and> (N = {} \<or> ts = []))"

definition allocates :: "bytes \<Rightarrow> bytes \<Rightarrow> AuthorityOptions \<Rightarrow> Version list \<Rightarrow> world \<times> Authority \<Rightarrow> bool" where
  "allocates path authorityID options ts s \<longleftrightarrow>
     file_covers path (authority_conf authorityID options) ts (fst s) \<and>
     auPath (snd s) = path \<and> auID (snd s) = authorityID \<and> valid_utf8 authorityID \<and>
     auMaxBytes (snd s) = aoMaxBytes (normalized_authority options) \<and>
     Epoch (auCurrent (snd s)) \<noteq> 0 \<and> (\<forall>t\<in>set ts. t \<le> auCurrent (snd s))"

lemma file_covers_mono:
  assumes "\<And>S. holds p S w \<Longrightarrow> holds p S v" and "file_covers p c ts w"
  shows "file_covers p c ts v"
proof -
  obtain A N where "holds p (af.files c A \<union> N) w" "\<forall>s\<in>A. \<forall>t\<in>set ts. t \<le> s" "N \<subseteq> {None}" "N = {} \<or> ts = []"
    using assms(2) unfolding file_covers_def by blast
  with assms(1) show ?thesis unfolding file_covers_def by (intro exI [of _ A] exI [of _ N]) auto
qed

lemma file_covers_same_fs: "same_fs w v \<Longrightarrow> file_covers p c ts w \<Longrightarrow> file_covers p c ts v"
  by (rule file_covers_mono [OF holds_same_fs])

lemma file_covers_crash: "crash w v \<Longrightarrow> file_covers p c ts w \<Longrightarrow> file_covers p c ts v"
  by (rule file_covers_mono [OF holds_crash])

lemma file_covers_untouched: "untouched p w v \<Longrightarrow> file_covers p c ts w \<Longrightarrow> file_covers p c ts v"
  by (rule file_covers_mono [OF holds_untouched])

text \<open>Persisting a version that covers the tokens.\<close>

lemma wp_persist_covers:
  assumes "file_covers (auPath a) (auID a, auMaxBytes a) ts w" and "Epoch (auCurrent a) \<noteq> 0" and "valid_utf8 (auID a)"
    and "\<forall>t\<in>set ts. t \<le> auCurrent a"
    and "\<And>v. file_covers (auPath a) (auID a, auMaxBytes a) (auCurrent a # ts) v \<Longrightarrow> Q () v"
    and "\<And>e v. file_covers (auPath a) (auID a, auMaxBytes a) ts v \<Longrightarrow> E e v"
  shows "wp (persist_authority a) Q E w"
proof -
  obtain A N where A: "holds (auPath a) (af.files (auID a, auMaxBytes a) A \<union> N) w" "\<forall>s\<in>A. \<forall>t\<in>set ts. t \<le> s"
    "N \<subseteq> {None}" "N = {} \<or> ts = []" using assms(1) unfolding file_covers_def by blast
  show ?thesis
  proof (rule wp_persist_authority [OF A(1) assms(2,3)])
    fix v assume "holds (auPath a) (af.files (auID a, auMaxBytes a) {auCurrent a}) v"
    then have "file_covers (auPath a) (auID a, auMaxBytes a) (auCurrent a # ts) v"
      unfolding file_covers_def using assms(4) by (intro exI [of _ "{auCurrent a}"] exI [of _ "{}"]) auto
    then show "Q () v" by (rule assms(5))
  next
    fix e v assume "holds (auPath a) (af.files (auID a, auMaxBytes a) (insert (auCurrent a) A) \<union> N) v"
    then have "file_covers (auPath a) (auID a, auMaxBytes a) ts v"
      unfolding file_covers_def using A(2-4) assms(4)
      by (intro exI [of _ "insert (auCurrent a) A"] exI [of _ N]) auto
    then show "E e v" by (rule assms(6))
  qed
qed

lemma file_covers_tail: "file_covers p c (t # ts) w \<Longrightarrow> file_covers p c ts w"
  unfolding file_covers_def by (elim exE, rule_tac x = A in exI, rule_tac x = N in exI) auto

text \<open>What a reader of a covering file gets.\<close>

lemma file_covers_read:
  assumes "file_covers p c ts w"
  shows "case path_content p w of
     None \<Rightarrow> ts = []
   | Some data \<Rightarrow> \<exists>s. authority_decode c data = Inr s \<and> Epoch s \<noteq> 0 \<and> (\<forall>t\<in>set ts. t \<le> s)"
proof -
  obtain A N where A: "holds p (af.files c A \<union> N) w" "\<forall>s\<in>A. \<forall>t\<in>set ts. t \<le> s" "N \<subseteq> {None}" "N = {} \<or> ts = []"
    using assms unfolding file_covers_def by blast
  from af.read_holding [OF A(1,3)] A(2,4) show ?thesis
    by (auto simp: authority_good_def split: option.split)
qed

lemma OpenAuthority_read:
  "OpenAuthority raw path authorityID options =
     bindM (guardM (path = []) (EAuthority ErrNilAuthorityPath)) (\<lambda>_.
     let options = normalized_authority options;
         authority = (\<lambda>v. \<lparr>auPath = path, auID = authorityID, auLimits = aoLimits options,
                      auMaxBytes = aoMaxBytes options, auCurrent = v\<rparr>) in
     bindM (liftE (validateAuthorityID authorityID (aoLimits options))) (\<lambda>_.
     bindM pollM (\<lambda>_.
     bindM (tryM (os_read_file path)) (\<lambda>r.
     case r of
       Inl e \<Rightarrow>
         if err_is e (EStd ErrNotExist) then
           bindM (liftE (initialAuthorityVersion raw (aoObserved options))) (\<lambda>current.
           bindM (persist_authority (authority current)) (\<lambda>_.
           returnM (authority current)))
         else throwM e
     | Inr data \<Rightarrow>
         bindM (liftE (authority_decode (authorityID, aoMaxBytes options) data)) (\<lambda>version.
         if aoObserved options > version then
           bindM (guardM (Epoch (aoObserved options) = 0) (EAuthority ErrAuthorityVersion)) (\<lambda>_.
           bindM (persist_authority (authority (aoObserved options))) (\<lambda>_.
           returnM (authority (aoObserved options))))
         else returnM (authority version))))))"
  unfolding OpenAuthority_def Let_def
  by (rule ext) (simp add: monad authority_decode_def bindE_def guardE_def split: sum.split prod.split)

lemma wp_OpenAuthority:
  assumes "file_covers path (authority_conf authorityID options) ts w"
    and err: "\<And>e v. file_covers path (authority_conf authorityID options) ts v \<Longrightarrow> E e v"
    and ok: "\<And>a v. allocates path authorityID options ts (v, a) \<Longrightarrow> Q a v"
  shows "wp (OpenAuthority raw path authorityID options) Q E w"
proof -
  let ?o = "normalized_authority options"
  let ?a = "\<lambda>v. \<lparr>auPath = path, auID = authorityID, auLimits = aoLimits ?o, auMaxBytes = aoMaxBytes ?o, auCurrent = v\<rparr>"
  have per: "wp (persist_authority (?a u)) (\<lambda>_. Q (?a u)) E v"
    if "file_covers path (authority_conf authorityID options) ts v" "Epoch u \<noteq> 0" "valid_utf8 authorityID" "\<forall>t\<in>set ts. t \<le> u" for u v
    by (rule wp_persist_covers [of _ ts])
      (use that in \<open>auto intro!: err ok simp: allocates_def dest: file_covers_tail\<close>)
  have fc: "file_covers path (authority_conf authorityID options) ts v" if "same_fs w v" for v
    by (rule file_covers_same_fs [OF that assms(1)])
  let ?F = "\<lambda>current. bindM (persist_authority (?a current)) (\<lambda>_. returnM (?a current))"
  let ?K = "\<lambda>r. case r of
       Inl e \<Rightarrow> if err_is e (EStd ErrNotExist) then bindM (liftE (initialAuthorityVersion raw (aoObserved ?o))) ?F else throwM e
     | Inr data \<Rightarrow> bindM (liftE (authority_decode (authority_conf authorityID options) data)) (\<lambda>version.
         if aoObserved ?o > version then
           bindM (guardM (Epoch (aoObserved ?o) = 0) (EAuthority ErrAuthorityVersion)) (\<lambda>_. ?F (aoObserved ?o))
         else returnM (?a version))"
  have found: "wp (if aoObserved ?o > version then
           bindM (guardM (Epoch (aoObserved ?o) = 0) (EAuthority ErrAuthorityVersion)) (\<lambda>_. ?F (aoObserved ?o))
         else returnM (?a version)) Q E v"
    if "same_fs w v" "valid_utf8 authorityID" "Epoch version \<noteq> 0" "\<forall>t\<in>set ts. t \<le> version" for v version
  proof (cases "aoObserved ?o > version")
    case True
    with that(4) have "\<forall>t\<in>set ts. t \<le> aoObserved ?o" by (meson less_imp_le order_trans)
    with per [OF fc [OF that(1)] _ that(2)] err fc [OF that(1)] True show ?thesis by (simp add: wps)
  next
    case False
    then show ?thesis using ok [of v "?a version"] that fc [OF that(1)] by (simp add: wps allocates_def)
  qed
  have absent: "wp (bindM (liftE (initialAuthorityVersion raw (aoObserved ?o))) ?F) Q E v"
    if "same_fs w v" "valid_utf8 authorityID" "ts = []" for v
    using that per [OF fc [OF that(1)]] initial_nonzero fc
    by (auto simp: wps intro!: err split: sum.split)
  have rd: "wp (tryM (os_read_file path)) (\<lambda>r. wp (?K r) Q E) E v"
    if v: "same_fs w v" and u: "valid_utf8 authorityID" for v
    unfolding wp_try
  proof (rule wp_read_file)
    fix u assume "same_fs v u"
    with v have u': "same_fs w u" by (rule same_fs_trans)
    note r = file_covers_read [OF fc [OF v]]
    show "wp (?K (Inl (EStd ErrOS))) Q E u" using err fc [OF u'] by (simp add: wps)
    show "wp (?K (Inl (EStd ErrNotExist))) Q E u" if "path_content path v = None"
      using absent [OF u' u] r that by (simp only: sum.case err_is.simps simp_thms if_True option.case)
    show "wp (?K (Inr data)) Q E u" if d: "path_content path v = Some data" for data
    proof -
      obtain s where s: "authority_decode (authority_conf authorityID options) data = Inr s" "Epoch s \<noteq> 0" "\<forall>t\<in>set ts. t \<le> s"
        using r d by auto
      from found [OF u' u s(2,3)] show ?thesis by (simp only: sum.case wp_bind wp_basic s(1))
    qed
  qed
  show ?thesis
    unfolding OpenAuthority_read Let_def
    using err fc assms(1) rd validateAuthorityID_utf8
    by (auto simp: wp_bind wp_effect wp_basic(3) intro!: wp_pollM_fs split: sum.split)
qed

lemma wp_Next:
  assumes a: "allocates path authorityID options ts s"
    and err: "\<And>e s'. allocates path authorityID options ts s' \<Longrightarrow> E e s'"
    and ok: "\<And>t s'. allocates path authorityID options (t # ts) s' \<Longrightarrow> auCurrent (snd s') = t \<Longrightarrow> \<forall>x\<in>set ts. x < t \<Longrightarrow>
      Epoch t \<noteq> 0 \<Longrightarrow> Sequence t \<noteq> 0 \<Longrightarrow> auCurrent (snd s) < t \<Longrightarrow> observed < t \<Longrightarrow> Q t s'"
  shows "wp (Next observed) Q E s"
proof -
  let ?inc = "bindM (selfM auCurrent) (\<lambda>current.
     bindM (liftE (incrementAuthorityVersion current)) (\<lambda>next.
     bindM (setM (\<lambda>a. a\<lparr>auCurrent := next\<rparr>)) (\<lambda>_.
     bindM (selfM (\<lambda>a. a)) (\<lambda>a.
     bindM (osM (persist_authority a)) (\<lambda>_.
     returnM next)))))"
  have inc: "wp ?inc Q E s'" if s': "allocates path authorityID options ts s'" "auCurrent (snd s) \<le> auCurrent (snd s')"
    "observed \<le> auCurrent (snd s')" for s'
  proof (cases "incrementAuthorityVersion (auCurrent (snd s'))")
    case (Inl e)
    then show ?thesis using err s' by (simp add: wps)
  next
    case (Inr t)
    note t = increment_greater [OF Inr]
    let ?a = "(snd s')\<lparr>auCurrent := t\<rparr>"
    have ts: "\<forall>x\<in>set ts. x < t" using s'(1) t(1) by (auto simp: allocates_def)
    have "wp (persist_authority ?a) (\<lambda>_ v. Q t (v, ?a)) (\<lambda>e v. E e (v, ?a)) (fst s')"
    proof (rule wp_persist_covers [of _ ts])
      show "Q t (v, ?a)" if "file_covers (auPath ?a) (auID ?a, auMaxBytes ?a) (auCurrent ?a # ts) v" for v
        using s' t that ts by (intro ok) (auto simp: allocates_def less_imp_le)
      show "E e (v, ?a)" if "file_covers (auPath ?a) (auID ?a, auMaxBytes ?a) ts v" for e v
        using s' t that ts by (intro err) (auto simp: allocates_def less_imp_le)
    qed (use s' t ts in \<open>auto simp: allocates_def less_imp_le\<close>)
    with Inr show ?thesis by (simp add: wps)
  qed
  have same: "allocates path authorityID options ts (v, snd s)" if "same_fs (fst s) v" for v
    using a file_covers_same_fs [OF that] by (auto simp: allocates_def)
  have adopt: "allocates path authorityID options ts (v, (snd s)\<lparr>auCurrent := observed\<rparr>)"
    if "same_fs (fst s) v" "auCurrent (snd s) < observed" "Epoch observed \<noteq> 0" for v
    using same [OF that(1)] that(2,3) by (auto simp: allocates_def)
  show ?thesis
    unfolding Next_def wp_bind [of "osM pollM"] wp_osM [of pollM]
  proof (rule wp_pollM_fs)
    show "E (EStd ErrContext) (v, snd s)" if "same_fs (fst s) v" for v using that by (intro err same)
    fix v assume v: "same_fs (fst s) v"
    have "wp ?inc Q E (v, snd s)" if "observed \<le> auCurrent (snd s)" using inc [OF same [OF v]] that by simp
    moreover have "wp ?inc Q E (v, (snd s)\<lparr>auCurrent := observed\<rparr>)" if "auCurrent (snd s) < observed" "Epoch observed \<noteq> 0"
      using inc [OF adopt [OF v that]] that by simp
    ultimately show "wp (bindM (selfM auCurrent) (\<lambda>current. bindM (if Compare observed current > 0 then
              bindM (guardM (Epoch observed = 0) (EAuthority ErrAuthorityVersion)) (\<lambda>_.
              setM (\<lambda>a. a\<lparr>auCurrent := observed\<rparr>)) else returnM ()) (\<lambda>_. ?inc))) Q E (v, snd s)"
      using err [OF same [OF v]] by (auto simp: wp_bind wp_selfM wp_setM wp_effect wp_basic not_less split: sum.split)
  qed
qed

section \<open>The life of an allocator\<close>

text \<open>
  A state is the world, the allocator of the running process (\<open>None\<close>: no process has it open) and the
  tokens returned so far, the latest first.  The process may be restarted at any moment, with or
  without a crash of the machine, and other files may change at any moment.
\<close>

inductive authority_run ::
  "bytes \<Rightarrow> bytes \<Rightarrow> AuthorityOptions \<Rightarrow> world \<Rightarrow> world \<times> Authority option \<times> Version list \<Rightarrow> bool"
  for path authorityID options w0 where
  start: "authority_run path authorityID options w0 (w0, None, [])"
| opened: "authority_run path authorityID options w0 (w, None, ts) \<Longrightarrow>
    OpenAuthority raw path authorityID (options\<lparr>aoObserved := observed\<rparr>) w = (r, v) \<Longrightarrow>
    authority_run path authorityID options w0 (v, case r of Inl _ \<Rightarrow> None | Inr a \<Rightarrow> Some a, ts)"
| next_call: "authority_run path authorityID options w0 (w, Some a, ts) \<Longrightarrow> Next observed (w, a) = (r, (v, a')) \<Longrightarrow>
    authority_run path authorityID options w0 (v, Some a', case r of Inl _ \<Rightarrow> ts | Inr t \<Rightarrow> t # ts)"
| restarted: "authority_run path authorityID options w0 (w, p, ts) \<Longrightarrow> crash w v \<or> same_fs w v \<Longrightarrow>
    authority_run path authorityID options w0 (v, None, ts)"
| other_files: "authority_run path authorityID options w0 (w, p, ts) \<Longrightarrow> untouched path w v \<Longrightarrow>
    authority_run path authorityID options w0 (v, p, ts)"

definition run_ok :: "bytes \<Rightarrow> bytes \<Rightarrow> AuthorityOptions \<Rightarrow> world \<times> Authority option \<times> Version list \<Rightarrow> bool" where
  "run_ok path authorityID options = (\<lambda>(w, p, ts).
     file_covers path (authority_conf authorityID options) ts w \<and> sorted_wrt (>) ts \<and>
     (\<forall>t\<in>set ts. Epoch t \<noteq> 0 \<and> Sequence t \<noteq> 0) \<and>
     (\<forall>a. p = Some a \<longrightarrow> allocates path authorityID options ts (w, a)))"

lemma allocates_observed [simp]:
  "allocates path authorityID (options\<lparr>aoObserved := observed\<rparr>) = allocates path authorityID options"
  "authority_conf authorityID (options\<lparr>aoObserved := observed\<rparr>) = authority_conf authorityID options"
  by (simp_all add: allocates_def fun_eq_iff normalized_authority_def)

lemma run_ok_invariant:
  assumes "authority_run path authorityID options w0 x" and "holds path {None} w0"
  shows "run_ok path authorityID options x"
  using assms(1)
proof induction
  case start
  have "file_covers path (authority_conf authorityID options) [] w0"
    unfolding file_covers_def using assms(2) by (intro exI [of _ "{}"] exI [of _ "{None}"]) (simp add: images_def)
  then show ?case by (simp add: run_ok_def)
next
  case (opened w ts raw observed r v)
  then have "file_covers path (authority_conf authorityID options) ts w" by (simp add: run_ok_def)
  then have "wp (OpenAuthority raw path authorityID (options\<lparr>aoObserved := observed\<rparr>))
     (\<lambda>a v. allocates path authorityID options ts (v, a))
     (\<lambda>_ v. file_covers path (authority_conf authorityID options) ts v) w"
    by (intro wp_OpenAuthority [where ts = ts]) auto
  with opened show ?case by (cases r) (auto simp: wp_def run_ok_def allocates_def)
next
  case (next_call w a ts observed r v a')
  then have "allocates path authorityID options ts (w, a)" by (simp add: run_ok_def)
  then have "wp (Next observed) (\<lambda>t s. allocates path authorityID options (t # ts) s \<and> (\<forall>x\<in>set ts. x < t) \<and> Epoch t \<noteq> 0 \<and> Sequence t \<noteq> 0)
     (\<lambda>_. allocates path authorityID options ts) (w, a)"
    by (rule wp_Next) auto
  with next_call show ?case by (cases r) (auto simp: wp_def run_ok_def allocates_def)
next
  case (restarted w p ts v)
  then show ?case
    using file_covers_crash file_covers_same_fs by (auto simp: run_ok_def)
next
  case (other_files w p ts v)
  then show ?case using file_covers_untouched by (auto simp: run_ok_def allocates_def)
qed

section \<open>Undisturbed runs\<close>

lemma persist_authority_calm:
  assumes "calm w" and "file_name_ok (auPath a)" and "authority_encode (auID a, auMaxBytes a) (auCurrent a) = Inr data"
  shows "\<exists>v. persist_authority a w = (Inr (), v) \<and> calm v \<and> path_content (auPath a) v = Some data"
proof -
  obtain i v where "atomicWrite (auPath a) data w = (Inr (), v)" "calm v" "installed True w (auPath a) data i v"
    using atomicWrite_calm [OF assms(1,2)] by blast
  with assms(3) show ?thesis
    by (auto simp: persist_authority_alt monad path_content_def file_content_def installed_def)
qed

lemma Next_calm:
  assumes "calm w" and "file_name_ok (auPath a)" and "Compare observed (auCurrent a) \<le> 0"
    and "incrementAuthorityVersion (auCurrent a) = Inr t" and "authority_encode (auID a, auMaxBytes a) t = Inr data"
  shows "\<exists>v. Next observed (w, a) = (Inr t, (v, a\<lparr>auCurrent := t\<rparr>)) \<and> calm v"
proof -
  obtain v where "persist_authority (a\<lparr>auCurrent := t\<rparr>) w = (Inr (), v)" "calm v"
    using persist_authority_calm [of w "a\<lparr>auCurrent := t\<rparr>" data] assms by auto
  moreover have "\<not> auCurrent a < observed" using assms(3) by simp
  ultimately show ?thesis using assms by (simp add: Next_def monad calm_run)
qed

definition example_authority :: "Version \<Rightarrow> Authority" where
  "example_authority v = \<lparr>auPath = ''a'', auID = ''node'', auLimits = normalized_limits example_limits,
     auMaxBytes = 1048576, auCurrent = v\<rparr>"

definition example_authority_options :: AuthorityOptions where
  "example_authority_options = \<lparr>aoLimits = example_limits, aoMaxBytes = 0, aoObserved = zeroVersion\<rparr>"

lemma example_authority_encode:
  assumes "v \<in> {MkVersion 1 0, MkVersion 1 1}"
  shows "\<exists>data. authority_encode (''node'', 1048576) v = Inr data"
proof -
  let ?p = "json_print (authority_json \<lparr>stAuthorityID = ''node'', stVersion = v\<rparr>)"
  consider "v = MkVersion 1 0" | "v = MkVersion 1 1" using assms by blast
  then have "?p \<noteq> [] \<and> length ?p < 1000"
    by cases (simp_all add: authority_json_def ev)
  then show ?thesis unfolding authority_encode_def by (intro seal_state_ok) simp_all
qed

lemma example_node [simp]: "validateAuthorityID ''node'' example_limits = Inr ()"
  using example_record_valid(1) unfolding Validate_ok valid_record_def validateAuthorityID_ok
  by (simp add: example_record_def)

lemma example_open:
  "\<exists>v. OpenAuthority (Inr (put_u64 1)) ''a'' ''node'' example_authority_options empty_world =
     (Inr (example_authority (MkVersion 1 0)), v) \<and> calm v"
proof -
  let ?a = "example_authority (MkVersion 1 0)"
  have o: "normalized_authority example_authority_options =
     \<lparr>aoLimits = normalized_limits example_limits, aoMaxBytes = 1048576, aoObserved = zeroVersion\<rparr>"
    by (simp add: normalized_authority_def example_authority_options_def or_default_def DefaultMaxAuthorityStateBytes_def)
  have ok: "file_name_ok ''a''" "path_content ''a'' empty_world = None"
    by (simp_all add: file_name_ok_def base_seg_def path_content_def)
  obtain v where v: "persist_authority ?a empty_world = (Inr (), v)" "calm v"
    using persist_authority_calm [of empty_world ?a] example_authority_encode [of "MkVersion 1 0"] ok
    by (auto simp: example_authority_def)
  have a: "\<lparr>auPath = ''a'', auID = ''node'', auLimits = normalized_limits example_limits, auMaxBytes = 1048576,
      auCurrent = MkVersion 1 0\<rparr> = ?a" by (simp add: example_authority_def)
  from o ok v a show ?thesis
    by (simp add: OpenAuthority_read Let_def monad calm_run os_read_file_calm initialAuthorityVersion_def zeroVersion_def)
qed

lemma example_run:
  "\<exists>w a. authority_run ''a'' ''node'' example_authority_options empty_world (w, Some a, [MkVersion 1 1]) \<and> calm w"
proof -
  obtain v where v: "OpenAuthority (Inr (put_u64 1)) ''a'' ''node'' example_authority_options empty_world =
     (Inr (example_authority (MkVersion 1 0)), v)" "calm v" using example_open by blast
  have o: "example_authority_options\<lparr>aoObserved := zeroVersion\<rparr> = example_authority_options"
    by (simp add: example_authority_options_def)
  have "OpenAuthority (Inr (put_u64 1)) ''a'' ''node'' (example_authority_options\<lparr>aoObserved := zeroVersion\<rparr>) empty_world =
     (Inr (example_authority (MkVersion 1 0)), v)" using v(1) o by simp
  from authority_run.opened [OF authority_run.start this]
  have r: "authority_run ''a'' ''node'' example_authority_options empty_world (v, Some (example_authority (MkVersion 1 0)), [])"
    by simp
  have "incrementAuthorityVersion (MkVersion 1 0) = Inr (MkVersion 1 1)" by (simp add: incrementAuthorityVersion_def)
  then obtain u where u: "Next zeroVersion (v, example_authority (MkVersion 1 0)) =
     (Inr (MkVersion 1 1), (u, (example_authority (MkVersion 1 0))\<lparr>auCurrent := MkVersion 1 1\<rparr>))" "calm u"
    using Next_calm [OF v(2), of "example_authority (MkVersion 1 0)" zeroVersion "MkVersion 1 1"]
      example_authority_encode [of "MkVersion 1 1"] by (auto simp: example_authority_def file_name_ok_def base_seg_def)
  from authority_run.next_call [OF r u(1)] u(2) show ?thesis by auto
qed

section \<open>Properties\<close>

text \<open>
  C14. No token is ever handed out twice.  Starting without a state file, over any number of opens, calls
  of \<^verbatim>\<open>Next\<close>, failed system calls, cancelled contexts, crashes and restarts, the tokens returned are
  strictly increasing, and each has a non-zero epoch and sequence.
\<close>

theorem authority_tokens_increase:
  assumes "authority_run path authorityID options w0 (w, p, ts)"
    and "map_of (wdir w0) (Path (Clean path)) = None" and "map_of (wdir_synced w0) (Path (Clean path)) = None"
  shows "sorted_wrt (\<lambda>later earlier. Compare later earlier > 0) ts \<and> distinct ts \<and>
    (\<forall>t\<in>set ts. Epoch t \<noteq> 0 \<and> Sequence t \<noteq> 0)"
proof -
  have "holds path {None} w0" using assms(2,3) by (simp add: holds_def entry_holds_def)
  from run_ok_invariant [OF assms(1) this] have *: "sorted_wrt (>) ts" "\<forall>t\<in>set ts. Epoch t \<noteq> 0 \<and> Sequence t \<noteq> 0"
    by (simp_all add: run_ok_def)
  have "distinct ts" using *(1) by (induction ts) auto
  with * show ?thesis by simp
qed

theorem authority_tokens_increase_witness:
  "\<exists>w a. authority_run ''a'' ''node'' example_authority_options empty_world (w, Some a, [MkVersion 1 1]) \<and>
     distinct [MkVersion 1 1]"
  using example_run authority_tokens_increase [of "''a''" "''node''" example_authority_options empty_world]
  by fastforce



text \<open>
  The next token is exact.  From a version with a non-zero epoch, \<^verbatim>\<open>incrementAuthorityVersion\<close> gives the
  least greater version with a non-zero sequence; it fails only at the greatest version of all, where
  both 64-bit counters would wrap around.
\<close>

theorem increment_is_successor:
  assumes "Epoch v \<noteq> 0"
  shows "if Epoch v = 2 ^ 64 - 1 \<and> Sequence v = 2 ^ 64 - 1
    then incrementAuthorityVersion v = Inl (EAuthority ErrAuthorityExhausted)
    else \<exists>t. incrementAuthorityVersion v = Inr t \<and> Compare v t < 0 \<and> Epoch t \<noteq> 0 \<and> Sequence t \<noteq> 0 \<and>
      (\<forall>u. Compare v u < 0 \<and> Sequence u \<noteq> 0 \<longrightarrow> Compare t u \<le> 0)"
proof (cases "Epoch v = 2 ^ 64 - 1 \<and> Sequence v = 2 ^ 64 - 1")
  case True
  then show ?thesis by (simp add: incrementAuthorityVersion_def)
next
  case False
  have "Sequence v \<le> 2 ^ 64 - 1" by (simp add: u64_max)
  then have "Sequence v < 2 ^ 64 - 1 \<or> Sequence v = 2 ^ 64 - 1" by (simp only: order.order_iff_strict)
  with False assms obtain t where "incrementAuthorityVersion v = Inr t"
    by (auto simp: incrementAuthorityVersion_def)
  with False increment_greater [OF this] increment_least [OF this] show ?thesis by auto
qed

theorem increment_is_successor_witness:
  "incrementAuthorityVersion (MkVersion 1 (2 ^ 64 - 1)) = Inr (MkVersion 2 1) \<and>
   Compare (MkVersion 1 (2 ^ 64 - 1)) (MkVersion 2 1) < 0"
  using increment_is_successor [of "MkVersion 1 (2 ^ 64 - 1)"]
  by (auto simp: incrementAuthorityVersion_def split: if_splits)

end
