(* ===== verification/Lifecycle_Watermark.thy ===== *)
theory Lifecycle_Watermark
  imports Lifecycle_StateFile
begin

text \<open>
  The watermark book of \<^verbatim>\<open>internal/lifecycle/watermark.go\<close>: the acknowledged version of every peer, in
  memory and in a state file.  The Go map is an association list with distinct keys.  A loop over the
  map runs in the order of the list; the order matters only for which of several errors is reported.

  The abstract view of a book is the map from peers to versions; the theorems give the effect of every
  operation on it and what a restart finds in the file.
\<close>

section \<open>Definitions\<close>

definition DefaultMaxRepairPeers :: int where "DefaultMaxRepairPeers = 1024"
definition DefaultMaxRepairPeerIDBytes :: int where "DefaultMaxRepairPeerIDBytes = 128"
definition DefaultMaxRepairWatermarkBytes :: int where "DefaultMaxRepairWatermarkBytes = 2 ^ 20"

record WatermarkOptions =
  woMaxPeers :: int
  woMaxPeerIDBytes :: int
  woMaxBytes :: int

definition normalized_watermark :: "WatermarkOptions \<Rightarrow> WatermarkOptions" where
  "normalized_watermark o' =
     \<lparr>woMaxPeers = or_default DefaultMaxRepairPeers (woMaxPeers o'),
      woMaxPeerIDBytes = or_default DefaultMaxRepairPeerIDBytes (woMaxPeerIDBytes o'),
      woMaxBytes = or_default DefaultMaxRepairWatermarkBytes (woMaxBytes o')\<rparr>"

text \<open>\<^verbatim>\<open>None\<close> is the nil map, which is what a missing member or \<^verbatim>\<open>null\<close> decodes to.\<close>

record watermarkState =
  wsWatermarks :: "(bytes \<times> Version) list option"

record WatermarkBook =
  wbPath :: bytes
  wbMaxPeers :: int
  wbMaxPeerID :: int
  wbMaxBytes :: int
  wbWatermarks :: "(bytes \<times> Version) list"

definition watermark_json :: "watermarkState \<Rightarrow> json" where
  "watermark_json s = JObj [(''watermarks'',
     case wsWatermarks s of None \<Rightarrow> JNull | Some m \<Rightarrow> JObj (map (apsnd version_json) (sort_key fst m)))]"

definition dec_opt_map :: "'a decoder \<Rightarrow> 'a \<Rightarrow> (bytes \<times> 'a) list option decoder" where
  "dec_opt_map f z m j =
     (case j of JNull \<Rightarrow> Some None
      | _ \<Rightarrow> map_option Some (dec_map f z (case m of None \<Rightarrow> [] | Some m \<Rightarrow> m) j))"

definition dec_watermarks :: "watermarkState decoder" where
  "dec_watermarks = struct_decode True
     [(''watermarks'', field (dec_opt_map (dec_version True) zeroVersion) wsWatermarks wsWatermarks_update)]"

definition cloneWatermarks :: "(bytes \<times> Version) list \<Rightarrow> (bytes \<times> Version) list" where
  "cloneWatermarks watermarks = foldl (\<lambda>clone (peer, version). AList.update peer version clone) [] watermarks"

definition validatePeer :: "WatermarkBook \<Rightarrow> bytes \<Rightarrow> err + unit" where
  "validatePeer b peer =
     bindE (guardE (peer = [] \<or> int (length peer) > wbMaxPeerID b \<or> \<not> valid_utf8 peer) (EWatermark ErrWatermarkPeerInvalid)) (\<lambda>_.
     allE_ok (\<lambda>character. guardE (\<not> is_print character) (EWatermark ErrWatermarkPeerInvalid)) (runes peer))"

definition validateState :: "WatermarkBook \<Rightarrow> watermarkState \<Rightarrow> err + unit" where
  "validateState b state =
     (case wsWatermarks state of
        None \<Rightarrow> Inl (EWatermark ErrWatermarkCorrupt)
      | Some watermarks \<Rightarrow>
          bindE (guardE (int (length watermarks) > wbMaxPeers b) (EWatermark ErrWatermarkLimit)) (\<lambda>_.
          allE_ok (\<lambda>(peer, version).
            bindE (mapE (EJoin (EWatermark ErrWatermarkCorrupt)) (validatePeer b peer)) (\<lambda>_.
            guardE (IsZero version) (EWatermark ErrWatermarkCorrupt))) watermarks))"

definition decodeWatermarkState :: "bytes \<Rightarrow> err + watermarkState" where
  "decodeWatermarkState payload =
     decode_state dec_watermarks \<lparr>wsWatermarks = None\<rparr> (EWatermark ErrWatermarkCorrupt) payload"

definition persist_watermarks :: "WatermarkBook \<Rightarrow> (bytes \<times> Version) list \<Rightarrow> (world, unit) M" where
  "persist_watermarks b watermarks =
     (let payload = json_print (watermark_json \<lparr>wsWatermarks = Some watermarks\<rparr>) in
      bindM (liftE (seal_state (EWatermark ErrWatermarkCorrupt) (EWatermark ErrWatermarkLimit) (wbMaxBytes b) payload)) (\<lambda>envelope.
      atomicWrite (wbPath b) envelope))"

definition OpenWatermarkBook :: "bytes \<Rightarrow> WatermarkOptions \<Rightarrow> (world, WatermarkBook) M" where
  "OpenWatermarkBook path options =
     bindM (guardM (path = []) (EWatermark ErrNilWatermarkPath)) (\<lambda>_.
     let options = normalized_watermark options;
         book = \<lparr>wbPath = path, wbMaxPeers = woMaxPeers options, wbMaxPeerID = woMaxPeerIDBytes options,
                 wbMaxBytes = woMaxBytes options, wbWatermarks = []\<rparr> in
     bindM (tryM (os_read_file path)) (\<lambda>r.
     case r of
       Inl e \<Rightarrow> if err_is e (EStd ErrNotExist) then returnM book else throwM e
     | Inr data \<Rightarrow>
         bindM (liftE (open_envelope (EWatermark ErrWatermarkCorrupt) (EWatermark ErrWatermarkChecksum)
                  (EWatermark ErrWatermarkLimit) (wbMaxBytes book) data)) (\<lambda>payload.
         bindM (liftE (decodeWatermarkState payload)) (\<lambda>state.
         bindM (liftE (validateState book state)) (\<lambda>_.
         returnM (book\<lparr>wbWatermarks := cloneWatermarks (the (wsWatermarks state))\<rparr>))))))"

definition Acknowledge :: "bytes \<Rightarrow> Version \<Rightarrow> (world \<times> WatermarkBook, unit) M" where
  "Acknowledge peer version =
     bindM (osM pollM) (\<lambda>_.
     bindM (selfM (\<lambda>b. b)) (\<lambda>b.
     bindM (liftE (validatePeer b peer)) (\<lambda>_.
     if IsZero version then returnM ()
     else
       let entry = map_of (wbWatermarks b) peer;
           current = (case entry of None \<Rightarrow> zeroVersion | Some v \<Rightarrow> v) in
       if Compare version current < 0 then throwM (EWatermark ErrWatermarkRegression)
       else if Compare version current = 0 \<and> entry \<noteq> None then returnM ()
       else
         bindM (guardM (entry = None \<and> int (length (wbWatermarks b)) \<ge> wbMaxPeers b) (EWatermark ErrWatermarkLimit)) (\<lambda>_.
         let next = AList.update peer version (cloneWatermarks (wbWatermarks b)) in
         bindM (osM (persist_watermarks b next)) (\<lambda>_.
         setM (\<lambda>b. b\<lparr>wbWatermarks := next\<rparr>))))))"

definition Reconcile :: "bytes \<Rightarrow> Version \<Rightarrow> (world \<times> WatermarkBook, unit) M" where
  "Reconcile peer version =
     bindM (osM pollM) (\<lambda>_.
     bindM (selfM (\<lambda>b. b)) (\<lambda>b.
     bindM (liftE (validatePeer b peer)) (\<lambda>_.
     let entry = map_of (wbWatermarks b) peer in
     if entry = Some version then returnM ()
     else
       bindM (guardM (\<not> IsZero version \<and> entry = None \<and> int (length (wbWatermarks b)) \<ge> wbMaxPeers b)
         (EWatermark ErrWatermarkLimit)) (\<lambda>_.
       let next = (if IsZero version then AList.delete peer (cloneWatermarks (wbWatermarks b))
                   else AList.update peer version (cloneWatermarks (wbWatermarks b))) in
       bindM (osM (persist_watermarks b next)) (\<lambda>_.
       setM (\<lambda>b. b\<lparr>wbWatermarks := next\<rparr>))))))"

definition Forget :: "bytes \<Rightarrow> (world \<times> WatermarkBook, unit) M" where
  "Forget peer =
     bindM (osM pollM) (\<lambda>_.
     bindM (selfM (\<lambda>b. b)) (\<lambda>b.
     bindM (liftE (validatePeer b peer)) (\<lambda>_.
     if map_of (wbWatermarks b) peer = None then returnM ()
     else
       let next = AList.delete peer (cloneWatermarks (wbWatermarks b)) in
       bindM (osM (persist_watermarks b next)) (\<lambda>_.
       setM (\<lambda>b. b\<lparr>wbWatermarks := next\<rparr>)))))"

definition Watermark_of :: "WatermarkBook \<Rightarrow> bytes \<Rightarrow> Version" where
  "Watermark_of b peer = (case map_of (wbWatermarks b) peer of None \<Rightarrow> zeroVersion | Some v \<Rightarrow> v)"

definition Snapshot_watermarks :: "WatermarkBook \<Rightarrow> (bytes \<times> Version) list" where
  "Snapshot_watermarks b = cloneWatermarks (wbWatermarks b)"

section \<open>Books\<close>

definition peer_ok :: "WatermarkBook \<Rightarrow> bytes \<Rightarrow> bool" where
  "peer_ok b peer \<longleftrightarrow> peer \<noteq> [] \<and> int (length peer) \<le> wbMaxPeerID b \<and> printable peer"

lemma validatePeer_ok: "validatePeer b peer = Inr u \<longleftrightarrow> peer_ok b peer"
  by (auto simp: validatePeer_def peer_ok_def printable_def list_all_iff resE split: if_splits)

lemma validatePeer_err: "validatePeer b peer = Inl e \<longleftrightarrow> \<not> peer_ok b peer \<and> e = EWatermark ErrWatermarkPeerInvalid"
proof -
  have "allE_ok (\<lambda>c. guardE (\<not> is_print c) x) cs = Inl e \<longleftrightarrow> \<not> list_all is_print cs \<and> e = x" for cs x
    by (induction cs) auto
  then show ?thesis by (auto simp: validatePeer_def peer_ok_def printable_def)
qed

definition marks_ok :: "WatermarkBook \<Rightarrow> (bytes \<times> Version) list \<Rightarrow> bool" where
  "marks_ok b m \<longleftrightarrow> distinct (map fst m) \<and> int (length m) \<le> wbMaxPeers b \<and>
     (\<forall>(peer, version)\<in>set m. peer_ok b peer \<and> version \<noteq> zeroVersion)"

definition book_ok :: "WatermarkBook \<Rightarrow> bool" where
  "book_ok b \<longleftrightarrow> marks_ok b (wbWatermarks b)"

lemma clone_id [simp]: "distinct (map fst m) \<Longrightarrow> cloneWatermarks m = m"
proof -
  assume "distinct (map fst m)"
  then have "foldl (\<lambda>clone (peer, version). AList.update peer version clone) acc m = acc @ m"
    if "fst ` set acc \<inter> fst ` set m = {}" for acc
    using that
  proof (induction m arbitrary: acc)
    case (Cons x m)
    then show ?case by (cases x) (auto simp: update_fresh)
  qed simp
  then show ?thesis by (simp add: cloneWatermarks_def)
qed

lemma marks_ok_update:
  assumes "marks_ok b m" and "peer_ok b peer" and "v \<noteq> zeroVersion" and "map_of m peer \<noteq> None \<or> int (length m) < wbMaxPeers b"
  shows "marks_ok b (AList.update peer v m)"
proof -
  have "length (AList.update peer v m) = (if map_of m peer = None then Suc (length m) else length m)"
    by (induction m) auto
  moreover have "set (AList.update peer v m) \<subseteq> insert (peer, v) (set m)"
    by (induction m) auto
  ultimately show ?thesis
    using assms by (auto simp: marks_ok_def distinct_update)
qed

lemma marks_ok_delete:
  assumes "marks_ok b m"
  shows "marks_ok b (AList.delete peer m)"
proof -
  have "length (AList.delete peer m) \<le> length m" "set (AList.delete peer m) \<subseteq> set m"
    by (auto simp: AList.delete_eq)
  then show ?thesis using assms distinct_delete [of m peer] by (auto simp: marks_ok_def)
qed

section \<open>The state file\<close>

definition watermark_encode :: "WatermarkBook \<Rightarrow> (bytes \<times> Version) list \<Rightarrow> err + bytes" where
  "watermark_encode b m = seal_state (EWatermark ErrWatermarkCorrupt) (EWatermark ErrWatermarkLimit) (wbMaxBytes b)
     (json_print (watermark_json \<lparr>wsWatermarks = Some m\<rparr>))"

definition watermark_decode :: "WatermarkBook \<Rightarrow> bytes \<Rightarrow> err + (bytes \<times> Version) list" where
  "watermark_decode b data =
     bindE (open_envelope (EWatermark ErrWatermarkCorrupt) (EWatermark ErrWatermarkChecksum)
              (EWatermark ErrWatermarkLimit) (wbMaxBytes b) data) (\<lambda>payload.
     bindE (decodeWatermarkState payload) (\<lambda>state.
     bindE (validateState b state) (\<lambda>_.
     Inr (cloneWatermarks (the (wsWatermarks state))))))"

text \<open>The states a file can stand for are the maps in key order.\<close>

definition watermark_good :: "WatermarkBook \<Rightarrow> (bytes \<times> Version) list \<Rightarrow> bool" where
  "watermark_good b m \<longleftrightarrow> marks_ok b m \<and> sorted (map fst m)"

lemma watermark_name [simp]: "valid_utf8 ''watermarks''"
  by (rule valid_utf8_ascii) simp

lemma marks_valid_utf8: "marks_ok b m \<Longrightarrow> (p, v) \<in> set m \<Longrightarrow> valid_utf8 p"
  by (auto simp: marks_ok_def peer_ok_def printable_valid)

lemma watermark_json_wf: "marks_ok b m \<Longrightarrow> json_wf (watermark_json \<lparr>wsWatermarks = Some m\<rparr>)"
  by (auto simp: watermark_json_def list_all_iff dest: marks_valid_utf8)

lemma watermark_json_depth: "json_depth (watermark_json \<lparr>wsWatermarks = Some m\<rparr>) \<le> max_nesting"
proof -
  have "foldr max (map (\<lambda>kv. json_depth (snd kv)) (map (apsnd version_json) (sort_key fst m))) 0 \<le> 1"
    unfolding map_map by (rule foldr_max_le) simp
  then show ?thesis by (simp add: watermark_json_def max_nesting_def o_def)
qed

lemma dec_watermarks_rt:
  assumes "distinct (map fst m)" and "sorted (map fst m)"
  shows "dec_watermarks \<lparr>wsWatermarks = None\<rparr> (watermark_json \<lparr>wsWatermarks = Some m\<rparr>) = Some \<lparr>wsWatermarks = Some m\<rparr>"
proof -
  have "dec_map (dec_version True) zeroVersion [] (JObj (map (apsnd version_json) m)) = Some m"
    using assms(1) by (rule dec_map_rt) (simp add: json_rt)
  then show ?thesis
    using assms(2)
    by (simp add: dec_watermarks_def watermark_json_def struct_decode_def find_field_def field_def dec_opt_map_def
        sort_key_sorted_id)
qed

lemma validateState_ok: "marks_ok b m \<Longrightarrow> validateState b \<lparr>wsWatermarks = Some m\<rparr> = Inr ()"
  by (auto simp: validateState_def marks_ok_def IsZero_def validatePeer_ok resE)

interpretation wf: state_file watermark_encode watermark_decode watermark_good
proof
  fix b m data assume g: "watermark_good b m" and "watermark_encode b m = Inr data"
  then have m: "marks_ok b m" "sorted (map fst m)" "distinct (map fst m)"
    and o: "open_envelope c k l (wbMaxBytes b) data = Inr (json_print (watermark_json \<lparr>wsWatermarks = Some m\<rparr>))" for c k l
    by (auto simp: watermark_good_def marks_ok_def watermark_encode_def open_sealed)
  have "decodeWatermarkState (json_print (watermark_json \<lparr>wsWatermarks = Some m\<rparr>)) = Inr \<lparr>wsWatermarks = Some m\<rparr>"
    unfolding decodeWatermarkState_def
    by (rule decode_state_print) (rule watermark_json_wf [OF m(1)], rule watermark_json_depth, rule dec_watermarks_rt [OF m(3,2)])
  with o m show "watermark_decode b data = Inr m"
    by (simp add: watermark_decode_def validateState_ok)
qed

text \<open>Encoding forgets the order in which the peers were added.\<close>

abbreviation in_order :: "(bytes \<times> Version) list \<Rightarrow> (bytes \<times> Version) list" where
  "in_order m \<equiv> sort_key fst m"

lemma watermark_encode_sorted: "watermark_encode b (in_order m) = watermark_encode b m"
  by (simp add: watermark_encode_def watermark_json_def sort_key_sorted_id)

lemma good_in_order: "marks_ok b m \<Longrightarrow> watermark_good b (in_order m)"
  by (simp add: watermark_good_def marks_ok_def)

lemma map_of_in_order: "distinct (map fst m) \<Longrightarrow> map_of (in_order m) = map_of m"
  by (simp add: map_of_inject_set)

text \<open>
  The file stands for one of the maps \<open>A\<close>, whatever crash happens; no file stands for the empty map.
\<close>

definition on_disk :: "WatermarkBook \<Rightarrow> (bytes \<times> Version) list set \<Rightarrow> world \<Rightarrow> bool" where
  "on_disk b A w \<longleftrightarrow>
     holds (wbPath b) (images watermark_encode watermark_good b A \<union> (if [] \<in> A then {None} else {})) w"

lemma on_disk_mono: "on_disk b A w \<Longrightarrow> A \<subseteq> B \<Longrightarrow> on_disk b B w"
  unfolding on_disk_def by (erule holds_mono) (auto simp: images_def)

lemma on_disk_same_fs: "on_disk b A w \<Longrightarrow> same_fs w v \<Longrightarrow> on_disk b A v"
  unfolding on_disk_def by (rule holds_same_fs)

lemma on_disk_crash: "on_disk b A w \<Longrightarrow> crash w v \<Longrightarrow> on_disk b A v"
  unfolding on_disk_def by (rule holds_crash)

lemma on_disk_marks [simp]: "on_disk (b\<lparr>wbWatermarks := m\<rparr>) A w = on_disk b A w"
  by (simp add: on_disk_def images_def watermark_encode_def watermark_good_def marks_ok_def peer_ok_def)

lemma validate_marks [simp]:
  "validatePeer (b\<lparr>wbWatermarks := m\<rparr>) = validatePeer b" "validateState (b\<lparr>wbWatermarks := m\<rparr>) = validateState b"
proof -
  show p: "validatePeer (b\<lparr>wbWatermarks := m\<rparr>) = validatePeer b" by (simp add: validatePeer_def fun_eq_iff)
  show "validateState (b\<lparr>wbWatermarks := m\<rparr>) = validateState b"
    by (rule ext) (simp add: validateState_def p split: option.split)
qed

lemma marks_ok_marks [simp]: "marks_ok (b\<lparr>wbWatermarks := m\<rparr>) = marks_ok b"
  by (simp add: fun_eq_iff marks_ok_def peer_ok_def)

lemma wp_persist_watermarks:
  assumes "on_disk b A w" and "marks_ok b m"
    and "\<And>v. on_disk b {in_order m} v \<Longrightarrow> Q () v" and "\<And>e v. on_disk b (insert (in_order m) A) v \<Longrightarrow> E e v"
  shows "wp (persist_watermarks b m) Q E w"
proof -
  have "E e w" for e using on_disk_mono [OF assms(1)] by (intro assms(4)) auto
  moreover have "wp (atomicWrite (wbPath b) data) Q E w" if "watermark_encode b m = Inr data" for data
  proof (rule wf.wp_persist [OF assms(1) [unfolded on_disk_def] good_in_order [OF assms(2)]])
    show "watermark_encode b (in_order m) = Inr data" using that by (simp only: watermark_encode_sorted)
  next
    fix v assume "holds (wbPath b) (wf.files b {in_order m}) v"
    then have "on_disk b {in_order m} v" unfolding on_disk_def by (rule holds_mono) auto
    then show "Q () v" by (rule assms(3))
  next
    fix e v assume "holds (wbPath b) (wf.files b (insert (in_order m) A) \<union> (if [] \<in> A then {None} else {})) v"
    then have "on_disk b (insert (in_order m) A) v" unfolding on_disk_def by (rule holds_mono) auto
    then show "E e v" by (rule assms(4))
  qed
  ultimately show ?thesis
    by (simp add: persist_watermarks_def flip: watermark_encode_def) (simp add: wps split: sum.split)
qed

text \<open>A book and the options it was opened with.\<close>

definition opened_with :: "WatermarkOptions \<Rightarrow> WatermarkBook \<Rightarrow> bool" where
  "opened_with options b \<longleftrightarrow> wbPath b \<noteq> [] \<and> file_name_ok (wbPath b) \<and> wbMaxPeers b = woMaxPeers (normalized_watermark options) \<and>
     wbMaxPeerID b = woMaxPeerIDBytes (normalized_watermark options) \<and> wbMaxBytes b = woMaxBytes (normalized_watermark options)"

abbreviation opened_book :: "bytes \<Rightarrow> WatermarkOptions \<Rightarrow> WatermarkBook" where
  "opened_book path o' \<equiv> \<lparr>wbPath = path, wbMaxPeers = woMaxPeers o', wbMaxPeerID = woMaxPeerIDBytes o',
     wbMaxBytes = woMaxBytes o', wbWatermarks = []\<rparr>"

lemma OpenWatermarkBook_read:
  "OpenWatermarkBook path options =
     bindM (guardM (path = []) (EWatermark ErrNilWatermarkPath)) (\<lambda>_.
     bindM (tryM (os_read_file path)) (\<lambda>r.
     case r of
       Inl e \<Rightarrow> if err_is e (EStd ErrNotExist) then returnM (opened_book path (normalized_watermark options)) else throwM e
     | Inr data \<Rightarrow> bindM (liftE (watermark_decode (opened_book path (normalized_watermark options)) data)) (\<lambda>m.
         returnM ((opened_book path (normalized_watermark options))\<lparr>wbWatermarks := m\<rparr>))))"
  unfolding OpenWatermarkBook_def Let_def
  by (rule ext) (simp add: monad watermark_decode_def bindE_def split: sum.split prod.split)

lemma OpenWatermarkBook_on_disk:
  assumes "opened_with options b" and "on_disk b A w" and "calm w"
  shows "\<exists>m\<in>A. OpenWatermarkBook (wbPath b) options w = (Inr (b\<lparr>wbWatermarks := m\<rparr>), w)"
proof -
  let ?o = "normalized_watermark options"
  have b: "\<lparr>wbPath = wbPath b, wbMaxPeers = woMaxPeers ?o, wbMaxPeerID = woMaxPeerIDBytes ?o, wbMaxBytes = woMaxBytes ?o,
      wbWatermarks = []\<rparr> = b\<lparr>wbWatermarks := []\<rparr>" using assms(1) by (cases b) (simp add: opened_with_def)
  have dec: "watermark_decode (b\<lparr>wbWatermarks := []\<rparr>) data = watermark_decode b data" for data
    by (simp add: watermark_decode_def)
  have path: "wbPath b \<noteq> []" "file_name_ok (wbPath b)" using assms(1) by (auto simp: opened_with_def)
  have "(if [] \<in> A then {None} else {}) \<subseteq> {None}" by simp
  from wf.read_holding [OF assms(2) [unfolded on_disk_def] this]
  consider "path_content (wbPath b) w = None" "[] \<in> A"
    | m data where "m \<in> A" "path_content (wbPath b) w = Some data" "watermark_decode b data = Inr m"
    by (cases "[] \<in> A") auto
  then show ?thesis
  proof cases
    case 1
    with path assms(3) show ?thesis
      by (intro bexI [of _ "[]"]) (simp_all add: OpenWatermarkBook_read [of "wbPath b"] b monad os_read_file_calm)
  next
    case 2
    with dec [of data] path assms(3) show ?thesis
      by (intro bexI [of _ m]) (simp_all add: OpenWatermarkBook_read [of "wbPath b"] b monad os_read_file_calm)
  qed
qed

section \<open>The operations\<close>

datatype book_op = Ack bytes Version | Rec bytes Version | Forg bytes

fun run_op :: "book_op \<Rightarrow> (world \<times> WatermarkBook, unit) M" where
  "run_op (Ack p v) = Acknowledge p v"
| "run_op (Rec p v) = Reconcile p v"
| "run_op (Forg p) = Forget p"

text \<open>What an operation does to the abstract map.\<close>

fun op_spec :: "book_op \<Rightarrow> (bytes \<rightharpoonup> Version) \<Rightarrow> (bytes \<rightharpoonup> Version)" where
  "op_spec (Ack p v) m = (if v = zeroVersion then m else m(p \<mapsto> v))"
| "op_spec (Rec p v) m = m(p := if v = zeroVersion then None else Some v)"
| "op_spec (Forg p) m = m(p := None)"

abbreviation view :: "WatermarkBook \<Rightarrow> bytes \<rightharpoonup> Version" where
  "view b \<equiv> map_of (wbWatermarks b)"

lemma wp_write_marks:
  assumes "on_disk b A w" and "marks_ok b m"
    and "\<And>v. on_disk b {in_order m} v \<Longrightarrow> Q () (v, b\<lparr>wbWatermarks := m\<rparr>)"
    and "\<And>e v. on_disk b (insert (in_order m) A) v \<Longrightarrow> E e (v, b)"
  shows "wp (bindM (osM (persist_watermarks b m)) (\<lambda>_. setM (\<lambda>b. b\<lparr>wbWatermarks := m\<rparr>))) Q E (w, b)"
  by (simp add: wps, rule wp_persist_watermarks [OF assms(1,2)]) (use assms(3,4) in auto)

text \<open>
  The three operations up to the write of the file: \<open>put\<close> is what has to be shown of the write of a changed map.
\<close>

lemma wp_book_body:
  assumes "\<And>v. same_fs w v \<Longrightarrow> peer_ok b p \<Longrightarrow> wp (body b) Q E (v, b)" and "\<And>e v. same_fs w v \<Longrightarrow> E e (v, b)"
  shows "wp (bindM (osM pollM) (\<lambda>_. bindM (selfM (\<lambda>b. b)) (\<lambda>b. bindM (liftE (validatePeer b p)) (\<lambda>_. body b)))) Q E (w, b)"
  unfolding wp_bind [of "osM pollM"] wp_osM [of pollM]
  by (rule wp_pollM_fs) (use assms in \<open>auto simp: wp_bind wp_selfM wp_basic validatePeer_ok split: sum.split\<close>)

abbreviation write_marks :: "WatermarkBook \<Rightarrow> (bytes \<times> Version) list \<Rightarrow> (world \<times> WatermarkBook, unit) M" where
  "write_marks b m \<equiv> bindM (osM (persist_watermarks b m)) (\<lambda>_. setM (\<lambda>b. b\<lparr>wbWatermarks := m\<rparr>))"

lemma wp_run_op_put:
  assumes b: "book_ok b"
    and put: "\<And>v m. same_fs w v \<Longrightarrow> marks_ok b m \<Longrightarrow> map_of m = op_spec op (view b) \<Longrightarrow> wp (write_marks b m) Q E (v, b)"
    and same: "\<And>v. same_fs w v \<Longrightarrow> op_spec op (view b) = view b \<Longrightarrow> Q () (v, b)"
    and early: "\<And>e v. same_fs w v \<Longrightarrow> E e (v, b)"
  shows "wp (run_op op) Q E (w, b)"
proof -
  have m: "marks_ok b (wbWatermarks b)" "distinct (map fst (wbWatermarks b))" using b by (auto simp: book_ok_def marks_ok_def)
  note upd = marks_ok_update [OF m(1)] and del = marks_ok_delete [OF m(1)]
  have poll: "wp (bindM (osM pollM) (\<lambda>_. bindM (selfM (\<lambda>b. b)) (\<lambda>b. bindM (liftE (validatePeer b p)) (\<lambda>_. body b)))) Q E (w, b)"
    if "\<And>v. same_fs w v \<Longrightarrow> peer_ok b p \<Longrightarrow> wp (body b) Q E (v, b)" for p body
    by (rule wp_book_body) (use that early in auto)
  show ?thesis
  proof (cases op)
    case (Ack p x)
    show ?thesis
      unfolding Ack run_op.simps Acknowledge_def
    proof (rule poll)
      fix v assume v: "same_fs w v" and p: "peer_ok b p"
      note put = put [OF v upd [OF p]]
      consider "x = zeroVersion" | "x \<noteq> zeroVersion" "view b p = None" | c where "x \<noteq> zeroVersion" "view b p = Some c" by auto
      then show "wp (if IsZero x then returnM () else let entry = view b p; current = (case entry of None \<Rightarrow> zeroVersion | Some v \<Rightarrow> v) in
         if Compare x current < 0 then throwM (EWatermark ErrWatermarkRegression)
         else if Compare x current = 0 \<and> entry \<noteq> None then returnM ()
         else bindM (guardM (entry = None \<and> int (length (wbWatermarks b)) \<ge> wbMaxPeers b) (EWatermark ErrWatermarkLimit)) (\<lambda>_.
           let next = AList.update p x (cloneWatermarks (wbWatermarks b)) in
           bindM (osM (persist_watermarks b next)) (\<lambda>_. setM (\<lambda>b. b\<lparr>wbWatermarks := next\<rparr>)))) Q E (v, b)"
      proof cases
        case 1
        then show ?thesis using same [OF v] by (simp add: IsZero_def wp_basic Ack)
      next
        case 2
        with put [of x] early [OF v] Ack show ?thesis
          by (simp add: IsZero_def Let_def m wp_bind [of "guardM b e" for b e] wp_effect(1) update_conv')
      next
        case 3
        consider "x < c" | "x = c" | "c < x" by (rule linorder_cases)
        with 3 put [of x] early [OF v] same [OF v] Ack show ?thesis
          by cases (simp_all add: IsZero_def Let_def m wp_bind [of "guardM b e" for b e] wp_effect(1) wp_basic update_conv' fun_upd_idem)
      qed
    qed
  next
    case (Rec p x)
    show ?thesis
      unfolding Rec run_op.simps Reconcile_def
    proof (rule poll)
      fix v assume v: "same_fs w v" and p: "peer_ok b p"
      note put = put [OF v upd [OF p]] put [OF v del]
      consider "view b p = Some x" | "view b p \<noteq> Some x" "x = zeroVersion" | "view b p \<noteq> Some x" "x \<noteq> zeroVersion" by auto
      then show "wp (let entry = view b p in if entry = Some x then returnM ()
         else bindM (guardM (\<not> IsZero x \<and> entry = None \<and> int (length (wbWatermarks b)) \<ge> wbMaxPeers b) (EWatermark ErrWatermarkLimit)) (\<lambda>_.
           let next = (if IsZero x then AList.delete p (cloneWatermarks (wbWatermarks b)) else AList.update p x (cloneWatermarks (wbWatermarks b))) in
           bindM (osM (persist_watermarks b next)) (\<lambda>_. setM (\<lambda>b. b\<lparr>wbWatermarks := next\<rparr>)))) Q E (v, b)"
      proof cases
        case 1
        then have "x \<noteq> zeroVersion" using m(1) by (auto simp: marks_ok_def dest!: map_of_SomeD)
        with 1 show ?thesis using same [OF v] by (simp add: Let_def wp_basic Rec fun_upd_idem)
      next
        case 2
        with put(2) [of p] Rec show ?thesis
          by (simp add: IsZero_def Let_def m wp_bind [of "guardM b e" for b e] wp_effect(1) delete_conv')
      next
        case 3
        with put(1) [of x] early [OF v] Rec show ?thesis
          by (auto simp add: IsZero_def Let_def m wp_bind [of "guardM b e" for b e] wp_effect(1) update_conv')
      qed
    qed
  next
    case (Forg p)
    show ?thesis
      unfolding Forg run_op.simps Forget_def
    proof (rule poll)
      fix v assume v: "same_fs w v"
      show "wp (if view b p = None then returnM () else let next = AList.delete p (cloneWatermarks (wbWatermarks b)) in
         bindM (osM (persist_watermarks b next)) (\<lambda>_. setM (\<lambda>b. b\<lparr>wbWatermarks := next\<rparr>))) Q E (v, b)"
        using same [OF v] put [OF v del, of p] Forg
        by (simp add: Let_def m wp_basic delete_conv' fun_upd_idem)
    qed
  qed
qed

text \<open>
  The contract of the three operations: on success the memory and the file have the specified map
  (or nothing had to change); on an error the memory is as before.
\<close>

lemma wp_run_op:
  assumes b: "book_ok b" and A: "on_disk b A w"
    and same: "\<And>v. same_fs w v \<Longrightarrow> op_spec op (view b) = view b \<Longrightarrow> Q () (v, b)"
    and ok: "\<And>v m. marks_ok b m \<Longrightarrow> map_of m = op_spec op (view b) \<Longrightarrow> on_disk b {in_order m} v \<Longrightarrow> Q () (v, b\<lparr>wbWatermarks := m\<rparr>)"
    and early: "\<And>e v. same_fs w v \<Longrightarrow> E e (v, b)"
    and late: "\<And>e v m. marks_ok b m \<Longrightarrow> map_of m = op_spec op (view b) \<Longrightarrow> on_disk b (insert (in_order m) A) v \<Longrightarrow> E e (v, b)"
  shows "wp (run_op op) Q E (w, b)"
proof (rule wp_run_op_put [OF b])
  fix v m assume v: "same_fs w v" "marks_ok b m" "map_of m = op_spec op (view b)"
  show "wp (write_marks b m) Q E (v, b)"
    by (rule wp_write_marks [OF on_disk_same_fs [OF A v(1)] v(2)]) (use v ok late in auto)
qed (use same early in auto)

text \<open>What an operation does to the book in memory, whatever happens on the disk.\<close>

lemma run_op_object:
  assumes "book_ok b" and ok: "\<And>v m. marks_ok b m \<Longrightarrow> map_of m = op_spec op (view b) \<Longrightarrow> Q () (v, b\<lparr>wbWatermarks := m\<rparr>)" and err: "\<And>e v. E e (v, b)"
  shows "wp (run_op op) Q E (w, b)"
proof (rule wp_run_op_put [OF assms(1)])
  fix v assume "op_spec op (view b) = view b"
  then show "Q () (v, b)" using ok [of "wbWatermarks b" v] assms(1) by (simp add: book_ok_def)
next
  fix v m assume "marks_ok b m" "map_of m = op_spec op (view b)"
  then show "wp (write_marks b m) Q E (v, b)" using ok err by (simp add: wps) (auto simp: wp_def split: prod.split sum.split)
qed (rule err)

lemma Watermark_of_view: "Watermark_of b p = (case view b p of None \<Rightarrow> zeroVersion | Some v \<Rightarrow> v)"
  by (simp add: Watermark_of_def)

text \<open>What an acknowledgement returns when no call fails.\<close>

lemma Acknowledge_regression:
  assumes "calm w" and "peer_ok b p" and "v \<noteq> zeroVersion" and "v < Watermark_of b p"
  shows "Acknowledge p v (w, b) = (Inl (EWatermark ErrWatermarkRegression), (w, b))"
proof -
  have "validatePeer b p = Inr ()" using assms(2) by (simp add: validatePeer_ok)
  with assms(1,3,4) show ?thesis
    by (simp add: Acknowledge_def monad calm_run IsZero_def Let_def Watermark_of_def)
qed

section \<open>Sample values\<close>

definition example_book :: "(bytes \<times> Version) list \<Rightarrow> WatermarkBook" where
  "example_book m = \<lparr>wbPath = ''m'', wbMaxPeers = 1024, wbMaxPeerID = 128, wbMaxBytes = 1048576, wbWatermarks = m\<rparr>"

definition example_watermark_options :: WatermarkOptions where
  "example_watermark_options = \<lparr>woMaxPeers = 0, woMaxPeerIDBytes = 0, woMaxBytes = 0\<rparr>"

lemma example_book_opened: "opened_with example_watermark_options (example_book m)"
  by (simp add: opened_with_def example_book_def file_name_ok_def base_seg_def normalized_watermark_def or_default_def
      example_watermark_options_def DefaultMaxRepairPeers_def DefaultMaxRepairPeerIDBytes_def DefaultMaxRepairWatermarkBytes_def)

lemma example_peer: "peer_ok (example_book m) ''node''"
  using example_record_valid(1) unfolding Validate_ok valid_record_def valid_authority_def
  by (simp add: peer_ok_def example_book_def example_record_def)

lemma example_book_ok: "book_ok (example_book [])" "on_disk (example_book []) {[]} empty_world"
  by (simp_all add: book_ok_def marks_ok_def example_book_def on_disk_def holds_def entry_holds_def)

lemma example_acknowledge:
  "\<exists>v. Acknowledge ''node'' (MkVersion 1 1) (empty_world, example_book []) = (Inr (), (v, example_book [(''node'', MkVersion 1 1)])) \<and> calm v"
proof -
  let ?p = "json_print (watermark_json \<lparr>wsWatermarks = Some [(''node'', MkVersion 1 1)]\<rparr>)"
  have "?p \<noteq> [] \<and> length ?p < 1000" by (simp add: watermark_json_def ev)
  then obtain data where d: "seal_state (EWatermark ErrWatermarkCorrupt) (EWatermark ErrWatermarkLimit) 1048576 ?p = Inr data"
    using seal_state_ok [of ?p 1048576] by auto
  obtain v where v: "atomicWrite ''m'' data empty_world = (Inr (), v)" "calm v"
    using atomicWrite_calm [of empty_world "''m''" data] by (auto simp: file_name_ok_def base_seg_def)
  have "MkVersion 1 1 \<noteq> zeroVersion" by (simp add: zeroVersion_def)
  moreover have "validatePeer (example_book []) ''node'' = Inr ()" using example_peer by (simp add: validatePeer_ok)
  ultimately show ?thesis
    using d v by (simp add: Acknowledge_def monad calm_run IsZero_def Let_def example_book_def persist_watermarks_def cloneWatermarks_def)
qed

section \<open>Properties\<close>



text \<open>
  Write before publish.  Let the file hold what the memory holds, let an operation run with any
  failures, and let the machine crash at its end: reopening the book succeeds.  After a success it finds
  the map of the memory; after a failure the memory is unchanged and the file has the old map or the
  one the operation was to write.
\<close>

theorem book_survives_crash:
  assumes "book_ok b" and "opened_with options b" and "on_disk b {sort_key fst (wbWatermarks b)} w"
    and "run_op op (w, b) = (res, (v, b'))" and "crash v u" and "calm u"
  shows "\<exists>b2. OpenWatermarkBook (wbPath b) options u = (Inr b2, u) \<and>
    (if res = Inr () then view b2 = view b' else b' = b \<and> (view b2 = view b \<or> view b2 = op_spec op (view b)))"
proof -
  let ?A = "{in_order (wbWatermarks b)}"
  have d: "view b = map_of (in_order (wbWatermarks b))"
    using assms(1) by (simp add: book_ok_def marks_ok_def map_of_in_order)
  let ?R = "\<lambda>B s. \<forall>u. crash (fst s) u \<longrightarrow> calm u \<longrightarrow> (\<exists>m\<in>B. OpenWatermarkBook (wbPath b) options u = (Inr (b\<lparr>wbWatermarks := m\<rparr>), u))"
  have open': "?R B (v, b'')" if "on_disk b B v" for B v b''
    using OpenWatermarkBook_on_disk [OF assms(2) on_disk_crash [OF that]] by simp
  have srt: "map_of (in_order m) = map_of m" if "marks_ok b m" for m using that by (simp add: marks_ok_def map_of_in_order)
  have "wp (run_op op) (\<lambda>_ s. \<exists>m. ?R {m} s \<and> map_of m = view (snd s))
     (\<lambda>_ s. snd s = b \<and> (\<exists>B. ?R B s \<and> (\<forall>m\<in>B. map_of m = view b \<or> map_of m = op_spec op (view b)))) (w, b)"
  proof (rule wp_run_op [OF assms(1,3)])
    fix v assume v: "same_fs w v"
    note od = open' [OF on_disk_same_fs [OF assms(3) v]]
    show "\<exists>m. ?R {m} (v, b) \<and> map_of m = view (snd (v, b))" using od d by auto
    show "snd (v, b) = b \<and> (\<exists>B. ?R B (v, b) \<and> (\<forall>m\<in>B. map_of m = view b \<or> map_of m = op_spec op (view b)))"
      using od [of b] d by (intro conjI exI [of _ ?A]) auto
  next
    fix v m assume m: "marks_ok b m" "map_of m = op_spec op (view b)" "on_disk b {in_order m} v"
    show "\<exists>m'. ?R {m'} (v, b\<lparr>wbWatermarks := m\<rparr>) \<and> map_of m' = view (snd (v, b\<lparr>wbWatermarks := m\<rparr>))"
      using open' [OF m(3)] srt [OF m(1)] by auto
  next
    fix e v m assume m: "marks_ok b m" "map_of m = op_spec op (view b)" "on_disk b (insert (in_order m) ?A) v"
    show "snd (v, b) = b \<and> (\<exists>B. ?R B (v, b) \<and> (\<forall>m\<in>B. map_of m = view b \<or> map_of m = op_spec op (view b)))"
      using open' [OF m(3), of b] srt [OF m(1)] m(2) d by (intro conjI exI [of _ "insert (in_order m) ?A"]) auto
  qed
  with assms(4-6) show ?thesis by (cases res) (fastforce simp: wp_def)+
qed

theorem book_survives_crash_witness:
  "\<exists>v b' b2. run_op (Ack ''node'' (MkVersion 1 1)) (empty_world, example_book []) = (Inr (), (v, b')) \<and>
     OpenWatermarkBook ''m'' example_watermark_options (settle v) = (Inr b2, settle v) \<and> view b2 = view b'"
proof -
  obtain v where v: "run_op (Ack ''node'' (MkVersion 1 1)) (empty_world, example_book []) =
     (Inr (), (v, example_book [(''node'', MkVersion 1 1)]))" "calm v" using example_acknowledge by auto
  have c: "calm (settle v)" using v(2) by (simp add: calm_def settle_def)
  have "on_disk (example_book []) {sort_key fst (wbWatermarks (example_book []))} empty_world"
    using example_book_ok(2) by (simp add: example_book_def)
  from book_survives_crash [OF example_book_ok(1) example_book_opened this v(1) crash_settle c] v(1) show ?thesis
    by (auto simp: example_book_def)
qed

text \<open>
  Acknowledgements never move backwards.  Whatever fails, \<^verbatim>\<open>Acknowledge\<close> lowers no peer's watermark and
  touches no other peer's; a lower version is refused with \<^verbatim>\<open>ErrWatermarkRegression\<close> and changes nothing.
\<close>

theorem acknowledge_monotone:
  assumes "book_ok b" and "on_disk b A w" and "Acknowledge p v (w, b) = (res, (w', b'))"
  shows "Compare (Watermark_of b q) (Watermark_of b' q) \<le> 0 \<and> (q \<noteq> p \<longrightarrow> Watermark_of b' q = Watermark_of b q) \<and>
    (res = Inr () \<and> v \<noteq> zeroVersion \<longrightarrow> Watermark_of b' p = v) \<and>
    (calm w \<and> peer_ok b p \<and> v \<noteq> zeroVersion \<and> Compare v (Watermark_of b p) < 0 \<longrightarrow>
       res = Inl (EWatermark ErrWatermarkRegression) \<and> (w', b') = (w, b))"
proof -
  have "wp (run_op (Ack p v)) (\<lambda>_ s. view (snd s) = op_spec (Ack p v) (view b)) (\<lambda>_ s. view (snd s) = view b) (w, b)"
    by (rule wp_run_op [OF assms(1,2)]) auto
  with assms(3) have v: "view b' = (if res = Inr () then op_spec (Ack p v) (view b) else view b)"
    by (cases res) (auto simp: wp_def)
  have "Watermark_of b p \<le> v" if "res = Inr ()" "v \<noteq> zeroVersion"
    using assms(3) that
    by (auto simp: Acknowledge_def M_inv osM_eval selfM_eval Let_def IsZero_def Watermark_of_def not_less split: if_splits prod.splits)
  with v Acknowledge_regression [of w b p v] assms(3) show ?thesis
    by (auto simp: Watermark_of_view)
qed

theorem acknowledge_monotone_witness:
  "\<exists>w' b'. Acknowledge ''node'' (MkVersion 1 1) (empty_world, example_book []) = (Inr (), (w', b')) \<and>
     Compare (Watermark_of (example_book []) ''node'') (Watermark_of b' ''node'') \<le> 0 \<and>
     Watermark_of b' ''node'' = MkVersion 1 1"
proof -
  obtain v where v: "Acknowledge ''node'' (MkVersion 1 1) (empty_world, example_book []) =
     (Inr (), (v, example_book [(''node'', MkVersion 1 1)]))" using example_acknowledge by auto
  have z: "MkVersion 1 1 \<noteq> zeroVersion" by (simp add: zeroVersion_def)
  let ?b = "example_book [(''node'', MkVersion 1 1)]"
  have "Compare (Watermark_of (example_book []) ''node'') (Watermark_of ?b ''node'') \<le> 0"
    "Watermark_of ?b ''node'' = MkVersion 1 1"
    using acknowledge_monotone [OF example_book_ok v, of "''node''"] z by blast+
  with v show ?thesis by blast
qed

end
