(* ===== verification/Lifecycle_Membership.thy ===== *)
theory Lifecycle_Membership
  imports Lifecycle_Watermark Lifecycle_Compaction
begin

text \<open>
  The membership book of \<^verbatim>\<open>internal/lifecycle/membership.go\<close>: the operator-authored set of replicas whose
  acknowledgements fence compaction.  The text of the formatted part of an error is dropped.
\<close>

section \<open>Definitions\<close>

definition DefaultMaxMembershipPeers :: int where "DefaultMaxMembershipPeers = DefaultMaxRepairPeers"
definition DefaultMaxMembershipPeerIDBytes :: int where "DefaultMaxMembershipPeerIDBytes = DefaultMaxRepairPeerIDBytes"
definition DefaultMaxMembershipBytes :: int where "DefaultMaxMembershipBytes = DefaultMaxRepairWatermarkBytes"

record MembershipOptions =
  moMaxPeers :: int
  moMaxPeerIDBytes :: int
  moMaxBytes :: int

definition normalized_membership :: "MembershipOptions \<Rightarrow> MembershipOptions" where
  "normalized_membership o' =
     \<lparr>moMaxPeers = or_default DefaultMaxMembershipPeers (moMaxPeers o'),
      moMaxPeerIDBytes = or_default DefaultMaxMembershipPeerIDBytes (moMaxPeerIDBytes o'),
      moMaxBytes = or_default DefaultMaxMembershipBytes (moMaxBytes o')\<rparr>"

record membershipState =
  msMembers :: "bytes list"

record MembershipProgress =
  Configured :: bool
  Members :: int
  Acknowledged :: int
  Minimum :: Version
  Target :: Version

record MembershipBook =
  mbPath :: bytes
  mbMaxPeers :: int
  mbMaxPeerID :: int
  mbMaxBytes :: int
  mbConfigured :: bool
  mbMembers :: "bytes list"

definition membership_json :: "membershipState \<Rightarrow> json" where
  "membership_json s = JObj [(''members'', JArr (map JStr (msMembers s)))]"

definition dec_membership :: "membershipState decoder" where
  "dec_membership = struct_decode True [(''members'', field (dec_slice dec_string []) msMembers msMembers_update)]"

definition decodeMembershipState :: "bytes \<Rightarrow> err + membershipState" where
  "decodeMembershipState payload = decode_state dec_membership \<lparr>msMembers = []\<rparr> (EMembership ErrMembershipCorrupt) payload"

definition normalizeMembers :: "MembershipBook \<Rightarrow> bytes list \<Rightarrow> err + bytes list" where
  "normalizeMembers b members =
     bindE (guardE (int (length members) > mbMaxPeers b) (EMembership ErrMembershipLimit)) (\<lambda>_.
     bindE (allE_ok (\<lambda>member.
         bindE (guardE (member = [] \<or> int (length member) > mbMaxPeerID b \<or> \<not> valid_utf8 member) (EMembership ErrMembershipPeerInvalid)) (\<lambda>_.
         allE_ok (\<lambda>character. guardE (\<not> is_print character) (EMembership ErrMembershipPeerInvalid)) (runes member))) members) (\<lambda>_.
     let normalized = sort members in
     bindE (guardE (adjacent_dup normalized) (EMembership ErrMembershipDuplicate)) (\<lambda>_.
     Inr normalized)))"

definition OpenMembershipBook :: "bytes \<Rightarrow> MembershipOptions \<Rightarrow> (world, MembershipBook) M" where
  "OpenMembershipBook path options =
     bindM (guardM (path = []) (EMembership ErrNilMembershipPath)) (\<lambda>_.
     let options = normalized_membership options;
         book = \<lparr>mbPath = path, mbMaxPeers = moMaxPeers options, mbMaxPeerID = moMaxPeerIDBytes options,
                 mbMaxBytes = moMaxBytes options, mbConfigured = False, mbMembers = []\<rparr> in
     bindM (tryM (os_read_file path)) (\<lambda>r.
     case r of
       Inl e \<Rightarrow> if err_is e (EStd ErrNotExist) then returnM book else throwM e
     | Inr data \<Rightarrow>
         bindM (liftE (open_envelope (EMembership ErrMembershipCorrupt) (EMembership ErrMembershipChecksum)
                  (EMembership ErrMembershipLimit) (mbMaxBytes book) data)) (\<lambda>payload.
         bindM (liftE (decodeMembershipState payload)) (\<lambda>state.
         bindM (liftE (mapE (EJoin (EMembership ErrMembershipCorrupt)) (normalizeMembers book (msMembers state)))) (\<lambda>members.
         returnM (book\<lparr>mbMembers := members, mbConfigured := True\<rparr>))))))"

definition Replace :: "bytes list \<Rightarrow> (world \<times> MembershipBook, unit) M" where
  "Replace members =
     bindM (osM pollM) (\<lambda>_.
     bindM (selfM (\<lambda>b. b)) (\<lambda>b.
     bindM (liftE (normalizeMembers b members)) (\<lambda>normalized.
     let payload = json_print (membership_json \<lparr>msMembers = normalized\<rparr>) in
     bindM (liftE (seal_state (EMembership ErrMembershipCorrupt) (EMembership ErrMembershipLimit) (mbMaxBytes b) payload)) (\<lambda>envelope.
     bindM (osM (atomicWrite (mbPath b) envelope)) (\<lambda>_.
     setM (\<lambda>b. b\<lparr>mbMembers := normalized, mbConfigured := True\<rparr>))))))"

text \<open>The loop of \<^verbatim>\<open>Progress\<close>; the flag says that the minimum has been set.\<close>

definition Configured_of :: "MembershipBook \<Rightarrow> bool" where
  "Configured_of b = mbConfigured b"

definition Snapshot_members :: "MembershipBook \<Rightarrow> bytes list" where
  "Snapshot_members b = mbMembers b"

fun progress_loop :: "WatermarkBook \<Rightarrow> Version \<Rightarrow> bytes list \<Rightarrow> bool \<Rightarrow> MembershipProgress \<Rightarrow> (world, MembershipProgress) M" where
  "progress_loop watermarks target [] minimumSet progress = returnM progress"
| "progress_loop watermarks target (member # members) minimumSet progress =
     bindM pollM (\<lambda>_.
     let version = Watermark_of watermarks member;
         lower = \<not> minimumSet \<or> Compare version (Minimum progress) < 0;
         progress = (if lower then progress\<lparr>Minimum := version\<rparr> else progress);
         progress = (if \<not> IsZero target \<and> Compare version target \<ge> 0
                     then progress\<lparr>Acknowledged := Acknowledged progress + 1\<rparr> else progress) in
     progress_loop watermarks target members (minimumSet \<or> lower) progress)"

definition Progress :: "MembershipBook \<Rightarrow> WatermarkBook \<Rightarrow> Version \<Rightarrow> (world, MembershipProgress) M" where
  "Progress b watermarks target =
     bindM pollM (\<lambda>_.
     progress_loop watermarks target (mbMembers b) False
       \<lparr>Configured = mbConfigured b, Members = int (length (mbMembers b)), Acknowledged = 0,
        Minimum = zeroVersion, Target = target\<rparr>)"

fun watermarks_loop :: "WatermarkBook \<Rightarrow> Version \<Rightarrow> bytes list \<Rightarrow> Version list \<Rightarrow> (world, Version list) M" where
  "watermarks_loop watermarks target [] versions = returnM versions"
| "watermarks_loop watermarks target (member # members) versions =
     bindM pollM (\<lambda>_.
     let version = Watermark_of watermarks member in
     bindM (guardM (Compare version target < 0) (EJoin (EMembership ErrMembershipBehind) (EMsg []))) (\<lambda>_.
     watermarks_loop watermarks target members (versions @ [version])))"

definition WatermarksAt :: "MembershipBook \<Rightarrow> WatermarkBook \<Rightarrow> Version \<Rightarrow> (world, Version list) M" where
  "WatermarksAt b watermarks target =
     bindM pollM (\<lambda>_.
     bindM (guardM (IsZero target) (EMembership ErrMembershipWatermarkInvalid)) (\<lambda>_.
     bindM (guardM (\<not> mbConfigured b) (EMembership ErrMembershipNotConfigured)) (\<lambda>_.
     watermarks_loop watermarks target (mbMembers b) [])))"

section \<open>Members\<close>

definition members_ok :: "MembershipBook \<Rightarrow> bytes list \<Rightarrow> bool" where
  "members_ok b ms \<longleftrightarrow> int (length ms) \<le> mbMaxPeers b \<and> distinct ms \<and>
     (\<forall>m\<in>set ms. m \<noteq> [] \<and> int (length m) \<le> mbMaxPeerID b \<and> printable m)"

lemma normalizeMembers_ok: "normalizeMembers b ms = Inr out \<longleftrightarrow> members_ok b ms \<and> out = sort ms"
  by (auto simp: normalizeMembers_def members_ok_def resE Let_def sorted_adjacent_iff printable_def list_all_iff
      split: if_splits)

definition membership_encode :: "MembershipBook \<Rightarrow> bytes list \<Rightarrow> err + bytes" where
  "membership_encode b ms = seal_state (EMembership ErrMembershipCorrupt) (EMembership ErrMembershipLimit) (mbMaxBytes b)
     (json_print (membership_json \<lparr>msMembers = ms\<rparr>))"

definition membership_decode :: "MembershipBook \<Rightarrow> bytes \<Rightarrow> err + bytes list" where
  "membership_decode b data =
     bindE (open_envelope (EMembership ErrMembershipCorrupt) (EMembership ErrMembershipChecksum)
              (EMembership ErrMembershipLimit) (mbMaxBytes b) data) (\<lambda>payload.
     bindE (decodeMembershipState payload) (\<lambda>state.
     mapE (EJoin (EMembership ErrMembershipCorrupt)) (normalizeMembers b (msMembers state))))"

definition membership_good :: "MembershipBook \<Rightarrow> bytes list \<Rightarrow> bool" where
  "membership_good b ms \<longleftrightarrow> members_ok b ms \<and> sorted ms"

lemma membership_name [simp]: "valid_utf8 ''members''"
  by (rule valid_utf8_ascii) simp

lemma membership_json_print:
  assumes "\<forall>m\<in>set ms. valid_utf8 m"
  shows "decodeMembershipState (json_print (membership_json \<lparr>msMembers = ms\<rparr>)) = Inr \<lparr>msMembers = ms\<rparr>"
proof -
  have "foldr max (map json_depth (map JStr ms)) 0 \<le> 0"
    unfolding map_map by (rule foldr_max_le) simp
  then have d: "json_depth (membership_json \<lparr>msMembers = ms\<rparr>) \<le> max_nesting"
    by (simp add: membership_json_def max_nesting_def o_def)
  have "dec_slice dec_string [] [] (JArr (map JStr ms)) = Some ms" by (rule dec_slice_rt) (simp add: json_rt)
  then have "dec_membership \<lparr>msMembers = []\<rparr> (membership_json \<lparr>msMembers = ms\<rparr>) = Some \<lparr>msMembers = ms\<rparr>"
    by (simp add: dec_membership_def membership_json_def struct_decode_def find_field_def field_def)
  with d show ?thesis
    unfolding decodeMembershipState_def by (intro decode_state_print) (use assms in \<open>auto simp: membership_json_def\<close>)
qed

interpretation mf: state_file membership_encode membership_decode membership_good
proof
  fix b ms data assume g: "membership_good b ms" and "membership_encode b ms = Inr data"
  then have o: "open_envelope c k l (mbMaxBytes b) data = Inr (json_print (membership_json \<lparr>msMembers = ms\<rparr>))" for c k l
    by (simp add: membership_encode_def open_sealed)
  have "\<forall>m\<in>set ms. valid_utf8 m" using g by (auto simp: membership_good_def members_ok_def printable_valid)
  from membership_json_print [OF this] o g show "membership_decode b data = Inr ms"
    by (auto simp: membership_decode_def membership_good_def resE normalizeMembers_ok sorted_sort_id)
qed

section \<open>The loops\<close>

lemma wp_progress_loop:
  assumes "\<And>e v. same_fs w v \<Longrightarrow> E e v"
    and "\<And>v. same_fs w v \<Longrightarrow> Q (progress\<lparr>
       Minimum := foldl (\<lambda>m x. if x < m then x else m) (Minimum progress) (map (Watermark_of wb) members),
       Acknowledged := Acknowledged progress +
         (if target = zeroVersion then 0 else int (length (filter (\<lambda>m. target \<le> Watermark_of wb m) members)))\<rparr>) v"
  shows "wp (progress_loop wb target members True progress) Q E w"
  using assms
proof (induction members arbitrary: progress w)
  case Nil
  from Nil.prems(2) [OF same_fs_refl] show ?case
    by (cases progress) (auto simp: wps split: if_splits)
next
  case (Cons m members)
  show ?case
    unfolding progress_loop.simps wp_bind
  proof (rule wp_pollM_fs)
    show "E (EStd ErrContext) v" if "same_fs w v" for v using that by (rule Cons.prems)
    fix v assume v: "same_fs w v"
    let ?x = "Watermark_of wb m"
    let ?p1 = "if ?x < Minimum progress then progress\<lparr>Minimum := ?x\<rparr> else progress"
    let ?p = "if target \<noteq> zeroVersion \<and> target \<le> ?x then ?p1\<lparr>Acknowledged := Acknowledged ?p1 + 1\<rparr> else ?p1"
    have "wp (progress_loop wb target members True ?p) Q E v"
    proof (rule Cons.IH)
      show "E e u" if "same_fs v u" for e u using same_fs_trans [OF v that] by (rule Cons.prems)
      show "Q (?p\<lparr>Minimum := foldl (\<lambda>m x. if x < m then x else m) (Minimum ?p) (map (Watermark_of wb) members),
         Acknowledged := Acknowledged ?p + (if target = zeroVersion then 0 else int (length (filter (\<lambda>m. target \<le> Watermark_of wb m) members)))\<rparr>) u"
        if "same_fs v u" for u
        using Cons.prems(2) [OF same_fs_trans [OF v that]] by (cases progress) (auto simp: ac_simps split: if_splits)
    qed
    then show "wp (let version = ?x; lower = \<not> True \<or> Compare version (Minimum progress) < 0;
         progress = (if lower then progress\<lparr>Minimum := version\<rparr> else progress);
         progress = (if \<not> IsZero target \<and> Compare version target \<ge> 0
                     then progress\<lparr>Acknowledged := Acknowledged progress + 1\<rparr> else progress) in
     progress_loop wb target members (True \<or> lower) progress) Q E v"
      by (simp add: Let_def IsZero_def)
  qed
qed

lemma foldl_least:
  fixes a :: "'a::linorder"
  shows "foldl (\<lambda>m x. if x < m then x else m) a xs = Min (set (a # xs))"
proof -
  have "foldl (\<lambda>m x. if x < m then x else m) a xs = fold min xs a"
    by (induction xs arbitrary: a) (auto simp: min_def not_less intro: arg_cong2 [of _ _ _ _ "fold min"])
  then show ?thesis by (simp only: Min.set_eq_fold)
qed

lemma wp_watermarks_loop:
  assumes "\<And>e v. same_fs w v \<Longrightarrow> E e v"
    and "\<And>v. same_fs w v \<Longrightarrow> \<forall>m\<in>set members. target \<le> Watermark_of wb m \<Longrightarrow>
       Q (versions @ map (Watermark_of wb) members) v"
  shows "wp (watermarks_loop wb target members versions) Q E w"
  using assms
proof (induction members arbitrary: versions w)
  case Nil
  then show ?case by (simp add: wps)
next
  case (Cons m members)
  show ?case
    unfolding watermarks_loop.simps wp_bind [of pollM]
  proof (rule wp_pollM_fs)
    show "E (EStd ErrContext) v" if "same_fs w v" for v using that by (rule Cons.prems)
    fix v assume v: "same_fs w v"
    have "wp (watermarks_loop wb target members (versions @ [Watermark_of wb m])) Q E v" if "target \<le> Watermark_of wb m"
      by (rule Cons.IH) (use that Cons.prems same_fs_trans [OF v] in auto)
    with Cons.prems(1) [OF v] show "wp (let version = Watermark_of wb m in
       bindM (guardM (Compare version target < 0) (EJoin (EMembership ErrMembershipBehind) (EMsg []))) (\<lambda>_.
       watermarks_loop wb target members (versions @ [version]))) Q E v"
      by (simp add: Let_def wp_bind wp_effect not_less)
  qed
qed

lemma wp_WatermarksAt:
  assumes "\<And>e v. same_fs w v \<Longrightarrow> E e v"
    and "\<And>v. same_fs w v \<Longrightarrow> mbConfigured b \<Longrightarrow> target \<noteq> zeroVersion \<Longrightarrow> \<forall>m\<in>set (mbMembers b). target \<le> Watermark_of wb m \<Longrightarrow>
       Q (map (Watermark_of wb) (mbMembers b)) v"
  shows "wp (WatermarksAt b wb target) Q E w"
  unfolding WatermarksAt_def wp_bind [of pollM]
proof (rule wp_pollM_fs)
  fix v assume v: "same_fs w v"
  have "wp (watermarks_loop wb target (mbMembers b) []) Q E v" if "mbConfigured b" "target \<noteq> zeroVersion"
    by (rule wp_watermarks_loop) (use that assms same_fs_trans [OF v] in auto)
  with assms(1) [OF v] show "wp (bindM (guardM (IsZero target) (EMembership ErrMembershipWatermarkInvalid)) (\<lambda>_.
     bindM (guardM (\<not> mbConfigured b) (EMembership ErrMembershipNotConfigured)) (\<lambda>_.
     watermarks_loop wb target (mbMembers b) []))) Q E v"
    by (simp add: wp_bind wp_effect IsZero_def)
qed (rule assms(1))

lemma wp_Progress:
  assumes "\<And>e v. same_fs w v \<Longrightarrow> E e v"
    and "\<And>v. same_fs w v \<Longrightarrow> Q \<lparr>Configured = mbConfigured b, Members = int (length (mbMembers b)),
       Acknowledged = (if target = zeroVersion then 0 else int (length (filter (\<lambda>m. target \<le> Watermark_of wb m) (mbMembers b)))),
       Minimum = (if mbMembers b = [] then zeroVersion else Min (Watermark_of wb ` set (mbMembers b))), Target = target\<rparr> v"
  shows "wp (Progress b wb target) Q E w"
  unfolding Progress_def wp_bind [of pollM]
proof (rule wp_pollM_fs)
  fix v assume v: "same_fs w v"
  let ?p0 = "\<lparr>Configured = mbConfigured b, Members = int (length (mbMembers b)), Acknowledged = 0, Minimum = zeroVersion, Target = target\<rparr>"
  show "wp (progress_loop wb target (mbMembers b) False ?p0) Q E v"
  proof (cases "mbMembers b")
    case Nil
    with assms(2) [OF v] show ?thesis by (auto simp: wp_basic split: if_splits)
  next
    case (Cons m ms)
    show ?thesis
      unfolding Cons progress_loop.simps wp_bind [of pollM]
    proof (rule wp_pollM_fs)
      fix u assume "same_fs v u"
      with v have u: "same_fs w u" by (rule same_fs_trans)
      let ?x = "Watermark_of wb m"
      let ?p = "?p0\<lparr>Minimum := ?x, Acknowledged := if target \<noteq> zeroVersion \<and> target \<le> ?x then 1 else 0\<rparr>"
      have "wp (progress_loop wb target ms True ?p) Q E u"
      proof (rule wp_progress_loop)
        show "E e u'" if "same_fs u u'" for e u' using same_fs_trans [OF u that] by (rule assms(1))
        fix u' assume "same_fs u u'"
        with u have "same_fs w u'" by (rule same_fs_trans)
        from assms(2) [OF this] show "Q (?p\<lparr>Minimum := foldl (\<lambda>m x. if x < m then x else m) (Minimum ?p) (map (Watermark_of wb) ms),
           Acknowledged := Acknowledged ?p + (if target = zeroVersion then 0 else int (length (filter (\<lambda>m. target \<le> Watermark_of wb m) ms)))\<rparr>) u'"
          by (simp add: Cons foldl_least split: if_splits)
      qed
      then show "wp (let version = ?x; lower = \<not> False \<or> Compare version (Minimum \<lparr>Configured = mbConfigured b, Members = int (length (m # ms)), Acknowledged = 0, Minimum = zeroVersion, Target = target\<rparr>) < 0;
         progress = (if lower then \<lparr>Configured = mbConfigured b, Members = int (length (m # ms)), Acknowledged = 0, Minimum = zeroVersion, Target = target\<rparr>\<lparr>Minimum := version\<rparr>
            else \<lparr>Configured = mbConfigured b, Members = int (length (m # ms)), Acknowledged = 0, Minimum = zeroVersion, Target = target\<rparr>);
         progress = (if \<not> IsZero target \<and> Compare version target \<ge> 0
                     then progress\<lparr>Acknowledged := Acknowledged progress + 1\<rparr> else progress) in
       progress_loop wb target ms (False \<or> lower) progress) Q E u"
        by (cases "target = zeroVersion"; cases "target \<le> ?x") (simp_all add: Let_def IsZero_def Cons)
    qed (use assms(1) same_fs_trans [OF v] in auto)
  qed
qed (rule assms(1))

section \<open>The file\<close>

text \<open>The file holds one of the sets \<open>A\<close>, or is absent if \<open>N\<close> says so, whatever crash happens.\<close>

definition members_on_disk :: "MembershipBook \<Rightarrow> bytes list set \<Rightarrow> bool \<Rightarrow> world \<Rightarrow> bool" where
  "members_on_disk b A absent w \<longleftrightarrow>
     holds (mbPath b) (images membership_encode membership_good b A \<union> (if absent then {None} else {})) w"

definition member_fields :: "MembershipOptions \<Rightarrow> MembershipBook \<Rightarrow> bool" where
  "member_fields options b \<longleftrightarrow> mbPath b \<noteq> [] \<and> file_name_ok (mbPath b) \<and> mbMaxPeers b = moMaxPeers (normalized_membership options) \<and>
     mbMaxPeerID b = moMaxPeerIDBytes (normalized_membership options) \<and> mbMaxBytes b = moMaxBytes (normalized_membership options)"

lemma normalizeMembers_fields [simp]:
  "normalizeMembers (b\<lparr>mbMembers := ms\<rparr>) = normalizeMembers b"
  "normalizeMembers (b\<lparr>mbConfigured := x\<rparr>) = normalizeMembers b"
  by (simp_all add: normalizeMembers_def fun_eq_iff)

abbreviation opened_members :: "bytes \<Rightarrow> MembershipOptions \<Rightarrow> MembershipBook" where
  "opened_members path o' \<equiv> \<lparr>mbPath = path, mbMaxPeers = moMaxPeers o', mbMaxPeerID = moMaxPeerIDBytes o',
     mbMaxBytes = moMaxBytes o', mbConfigured = False, mbMembers = []\<rparr>"

lemma OpenMembershipBook_read:
  "OpenMembershipBook path options =
     bindM (guardM (path = []) (EMembership ErrNilMembershipPath)) (\<lambda>_.
     bindM (tryM (os_read_file path)) (\<lambda>r.
     case r of
       Inl e \<Rightarrow> if err_is e (EStd ErrNotExist) then returnM (opened_members path (normalized_membership options)) else throwM e
     | Inr data \<Rightarrow> bindM (liftE (membership_decode (opened_members path (normalized_membership options)) data)) (\<lambda>ms.
         returnM ((opened_members path (normalized_membership options))\<lparr>mbMembers := ms, mbConfigured := True\<rparr>))))"
  unfolding OpenMembershipBook_def Let_def
  by (rule ext) (simp add: monad membership_decode_def bindE_def mapE_def split: sum.split prod.split)

lemma OpenMembershipBook_on_disk:
  assumes "member_fields options b" and "members_on_disk b A absent w" and "calm w"
  shows "\<exists>b2. OpenMembershipBook (mbPath b) options w = (Inr b2, w) \<and>
    (if mbConfigured b2 then mbMembers b2 \<in> A else absent \<and> mbMembers b2 = [])"
proof -
  let ?b = "opened_members (mbPath b) (normalized_membership options)"
  have b: "?b = b\<lparr>mbMembers := [], mbConfigured := False\<rparr>" using assms(1) by (cases b) (simp add: member_fields_def)
  have dec: "membership_decode ?b data = membership_decode b data" for data
    unfolding b by (simp add: membership_decode_def)
  have path: "mbPath b \<noteq> []" "file_name_ok (mbPath b)" using assms(1) by (auto simp: member_fields_def)
  have "(if absent then {None} else {}) \<subseteq> {None}" by simp
  from mf.read_holding [OF assms(2) [unfolded members_on_disk_def] this]
  consider "path_content (mbPath b) w = None" absent
    | ms data where "ms \<in> A" "path_content (mbPath b) w = Some data" "membership_decode b data = Inr ms"
    by (cases absent) auto
  then show ?thesis
  proof cases
    case 1
    with path assms(3) show ?thesis
      by (simp add: OpenMembershipBook_read [of "mbPath b"] monad os_read_file_calm)
  next
    case 2
    with dec [of data] path assms(3) show ?thesis
      by (simp add: OpenMembershipBook_read [of "mbPath b"] monad os_read_file_calm)
  qed
qed

lemma wp_Replace:
  assumes A: "members_on_disk b A absent w"
    and ok: "\<And>v. members_ok b ms \<Longrightarrow> members_on_disk b {sort ms} False v \<Longrightarrow> Q () (v, b\<lparr>mbMembers := sort ms, mbConfigured := True\<rparr>)"
    and early: "\<And>e v. same_fs w v \<Longrightarrow> E e (v, b)"
    and late: "\<And>e v. members_ok b ms \<Longrightarrow> members_on_disk b (insert (sort ms) A) absent v \<Longrightarrow> E e (v, b)"
  shows "wp (Replace ms) Q E (w, b)"
  unfolding Replace_def wp_bind [of "osM pollM"] wp_osM [of pollM]
proof (rule wp_pollM_fs)
  show "E (EStd ErrContext) (v, snd (w, b))" if "same_fs (fst (w, b)) v" for v using that early by simp
  fix v assume "same_fs (fst (w, b)) v"
  then have v: "same_fs w v" by simp
  have "wp (atomicWrite (mbPath b) data) (\<lambda>_ v. Q () (v, b\<lparr>mbMembers := sort ms, mbConfigured := True\<rparr>)) (\<lambda>e v. E e (v, b)) v"
    if m: "members_ok b ms" and d: "membership_encode b (sort ms) = Inr data" for data
  proof (rule mf.wp_persist [where A = A and N = "if absent then {None} else {}", OF _ _ d])
    show "holds (mbPath b) (mf.files b A \<union> (if absent then {None} else {})) v"
      using A v unfolding members_on_disk_def by (rule holds_same_fs)
    show "membership_good b (sort ms)" using m by (simp add: membership_good_def members_ok_def)
    show "Q () (u, b\<lparr>mbMembers := sort ms, mbConfigured := True\<rparr>)" if "holds (mbPath b) (mf.files b {sort ms}) u" for u
      using that m by (intro ok) (simp_all add: members_on_disk_def)
    show "E e (u, b)" if "holds (mbPath b) (mf.files b (insert (sort ms) A) \<union> (if absent then {None} else {})) u" for e u
      using that m by (intro late) (simp_all add: members_on_disk_def)
  qed
  with early [OF v] show "wp (bindM (selfM (\<lambda>b. b)) (\<lambda>b. bindM (liftE (normalizeMembers b ms)) (\<lambda>normalized.
     let payload = json_print (membership_json \<lparr>msMembers = normalized\<rparr>) in
     bindM (liftE (seal_state (EMembership ErrMembershipCorrupt) (EMembership ErrMembershipLimit) (mbMaxBytes b) payload)) (\<lambda>envelope.
     bindM (osM (atomicWrite (mbPath b) envelope)) (\<lambda>_. setM (\<lambda>b. b\<lparr>mbMembers := normalized, mbConfigured := True\<rparr>))))))
     Q E (v, snd (w, b))"
    by (auto simp: wp_bind wp_selfM wp_setM wp_osM wp_basic Let_def normalizeMembers_ok split: sum.split
        simp flip: membership_encode_def)
qed

section \<open>Sample values\<close>

definition example_members :: "bool \<Rightarrow> bytes list \<Rightarrow> MembershipBook" where
  "example_members configured ms = \<lparr>mbPath = ''s'', mbMaxPeers = 1024, mbMaxPeerID = 128, mbMaxBytes = 1048576,
     mbConfigured = configured, mbMembers = ms\<rparr>"

definition example_membership_options :: MembershipOptions where
  "example_membership_options = \<lparr>moMaxPeers = 0, moMaxPeerIDBytes = 0, moMaxBytes = 0\<rparr>"

lemma example_member_fields: "member_fields example_membership_options (example_members c ms)"
  by (simp add: member_fields_def example_members_def file_name_ok_def base_seg_def normalized_membership_def or_default_def
      example_membership_options_def DefaultMaxMembershipPeers_def DefaultMaxMembershipPeerIDBytes_def
      DefaultMaxMembershipBytes_def DefaultMaxRepairPeers_def DefaultMaxRepairPeerIDBytes_def DefaultMaxRepairWatermarkBytes_def)

lemma example_members_ok: "members_ok (example_members c ms) [''node'']"
  using example_peer [of "[]"] by (simp add: members_ok_def example_members_def peer_ok_def example_book_def)

lemma example_replace:
  "\<exists>v. Replace [''node''] (empty_world, example_members False []) = (Inr (), (v, example_members True [''node''])) \<and> calm v"
proof -
  let ?p = "json_print (membership_json \<lparr>msMembers = [''node'']\<rparr>)"
  have "?p \<noteq> [] \<and> length ?p < 1000" by (simp add: membership_json_def ev)
  then obtain data where d: "seal_state (EMembership ErrMembershipCorrupt) (EMembership ErrMembershipLimit) 1048576 ?p = Inr data"
    using seal_state_ok [of ?p 1048576] by auto
  obtain v where v: "atomicWrite ''s'' data empty_world = (Inr (), v)" "calm v"
    using atomicWrite_calm [of empty_world "''s''" data] by (auto simp: file_name_ok_def base_seg_def)
  have "normalizeMembers (example_members False []) [''node''] = Inr [''node'']"
    using example_members_ok by (simp add: normalizeMembers_ok)
  with d v show ?thesis
    by (simp add: Replace_def monad calm_run Let_def example_members_def)
qed

section \<open>Properties\<close>

text \<open>
  C17. The fence.  When \<^verbatim>\<open>WatermarksAt\<close> returns the evidence for a target and \<^verbatim>\<open>Compact\<close> succeeds with that
  target and that evidence, the membership was configured and no member has acknowledged less than the
  floor of the compacted journal: no member can need a record that was dropped.
\<close>

theorem membership_fence:
  assumes "WatermarksAt b wb (reqWatermark req) w0 = (Inr (PeerWatermarks req), w1)"
    and "journal_inv (w, j)" and "\<not> jClosed j" and "Compact req (w, j) = (Inr (), (v, j'))"
  shows "mbConfigured b \<and> (\<forall>m\<in>set (mbMembers b). Compare (jFloor j') (Watermark_of wb m) \<le> 0) \<and>
    (\<forall>r\<in>set (jRecords j) - set (jRecords j'). \<forall>m\<in>set (mbMembers b). Compare (rVersion r) (Watermark_of wb m) \<le> 0)"
proof -
  have "wp (WatermarksAt b wb (reqWatermark req)) (\<lambda>vs _. mbConfigured b \<and> (\<forall>m\<in>set (mbMembers b). reqWatermark req \<le> Watermark_of wb m))
     (\<lambda>_ _. True) w0" by (rule wp_WatermarksAt) auto
  with assms(1) have m: "mbConfigured b" "\<forall>m\<in>set (mbMembers b). reqWatermark req \<le> Watermark_of wb m" by (simp_all add: wp_def)
  obtain i where f: "journal_fields j" "jFile j = Some i" using assms(2,3) by (rule journal_invE)
  let ?tail = "kept (reqWatermark req) (jRecords j)"
  have "wp (Compact req) (\<lambda>_ s. jFloor (snd s) = reqWatermark req \<and> jRecords (snd s) = ?tail) (\<lambda>_ _. True) (w, j)"
    by (rule wp_Compact [OF f(1) assms(3) f(2)]) auto
  with assms(4) have j: "jFloor j' = reqWatermark req" "jRecords j' = ?tail" by (simp_all add: wp_def)
  have "rVersion r \<le> reqWatermark req" if r: "r \<in> set (jRecords j) - set (jRecords j')" for r
  proof -
    have "r \<in> set (covered (reqWatermark req) (jRecords j)) \<union> set ?tail"
      using r covered_kept(1) [of "reqWatermark req" "jRecords j"] by (metis DiffD1 set_append)
    with r j(2) show ?thesis by (auto simp: covered_alt dest: set_takeWhileD)
  qed
  with m j(1) show ?thesis by (auto intro: order_trans)
qed

theorem membership_fence_witness:
  "\<exists>v j'. Compact (example_request\<lparr>PeerWatermarks := [MkVersion 1 1]\<rparr>) (example_world, example_journal) = (Inr (), (v, j')) \<and>
     Compare (jFloor j') (Watermark_of (example_book [(''node'', MkVersion 1 1)]) ''node'') \<le> 0"
proof -
  let ?req = "example_request\<lparr>PeerWatermarks := [MkVersion 1 1]\<rparr>"
  obtain cb where "compaction_checks example_journal example_request zeroCheckpoint example_checkpoint cb"
    using example_checks by blast
  then have c: "compaction_checks example_journal ?req zeroCheckpoint example_checkpoint cb"
    by (simp add: compaction_checks_def example_request_def)
  have n: "file_name_ok (CheckpointPath ?req)" "file_name_ok (jPath example_journal)" "\<not> jClosed example_journal"
    by (simp_all add: example_request_def example_journal_def file_name_ok_def base_seg_def)
  from Compact_calm [OF example_journal_inv(1) n(3) example_journal_inv(3) c n(1,2)]
  obtain v j' where v: "Compact ?req (example_world, example_journal) = (Inr (), (v, j'))" by (metis prod.collapse)
  have "WatermarksAt (example_members True [''node'']) (example_book [(''node'', MkVersion 1 1)]) (reqWatermark ?req) empty_world =
     (Inr (PeerWatermarks ?req), empty_world)"
    by (simp add: WatermarksAt_def monad calm_run example_members_def example_book_def example_request_def IsZero_def
        zeroVersion_def Watermark_of_def Let_def)
  from membership_fence [OF this example_journal_inv(1) n(3) v] v show ?thesis by (auto simp: example_members_def)
qed

text \<open>
  \<^verbatim>\<open>Progress\<close> is exact: it counts the members at or above the target and reports the smallest
  watermark; and with a configured membership and a real target all members are counted exactly when
  \<^verbatim>\<open>WatermarksAt\<close> would let the compaction through.
\<close>

theorem progress_exact:
  assumes "Progress b wb target w = (Inr p, v)" and "calm w"
  shows "Members p = int (length (mbMembers b)) \<and>
    (target \<noteq> zeroVersion \<longrightarrow> Acknowledged p = int (length (filter (\<lambda>m. Compare (Watermark_of wb m) target \<ge> 0) (mbMembers b)))) \<and>
    (mbMembers b \<noteq> [] \<longrightarrow> Minimum p = Min (Watermark_of wb ` set (mbMembers b))) \<and>
    (mbConfigured b \<and> target \<noteq> zeroVersion \<longrightarrow>
       (Acknowledged p = Members p \<longleftrightarrow> WatermarksAt b wb target w = (Inr (map (Watermark_of wb) (mbMembers b)), w)))"
proof -
  let ?ok = "\<forall>m\<in>set (mbMembers b). target \<le> Watermark_of wb m"
  have "wp (Progress b wb target) (\<lambda>p _. p = \<lparr>Configured = mbConfigured b, Members = int (length (mbMembers b)),
       Acknowledged = (if target = zeroVersion then 0 else int (length (filter (\<lambda>m. target \<le> Watermark_of wb m) (mbMembers b)))),
       Minimum = (if mbMembers b = [] then zeroVersion else Min (Watermark_of wb ` set (mbMembers b))), Target = target\<rparr>) (\<lambda>_ _. True) w"
    by (rule wp_Progress) auto
  with assms(1) have p: "p = \<lparr>Configured = mbConfigured b, Members = int (length (mbMembers b)),
       Acknowledged = (if target = zeroVersion then 0 else int (length (filter (\<lambda>m. target \<le> Watermark_of wb m) (mbMembers b)))),
       Minimum = (if mbMembers b = [] then zeroVersion else Min (Watermark_of wb ` set (mbMembers b))), Target = target\<rparr>"
    by (simp add: wp_def)
  have loop: "watermarks_loop wb target ms vs w = (Inr (vs @ map (Watermark_of wb) ms), w)"
    if "\<forall>m\<in>set ms. target \<le> Watermark_of wb m" for ms vs
    using that by (induction ms arbitrary: vs) (simp_all add: monad calm_run assms(2) Let_def not_less)
  have "wp (WatermarksAt b wb target) (\<lambda>_ _. ?ok) (\<lambda>_ _. True) w" by (rule wp_WatermarksAt) auto
  then have at: "WatermarksAt b wb target w = (Inr (map (Watermark_of wb) (mbMembers b)), w) \<longleftrightarrow> ?ok"
    if "mbConfigured b" "target \<noteq> zeroVersion"
    using that loop [of "mbMembers b" "[]"] assms(2)
    by (auto simp: wp_def WatermarksAt_def monad calm_run IsZero_def)
  have "length (filter (\<lambda>m. target \<le> Watermark_of wb m) (mbMembers b)) = length (mbMembers b) \<longleftrightarrow> ?ok"
    using length_filter_less [of _ "mbMembers b" "\<lambda>m. target \<le> Watermark_of wb m"] by (metis filter_True less_irrefl)
  with at show ?thesis by (simp add: p)
qed

theorem progress_exact_witness:
  "\<exists>p. Progress (example_members True [''node'']) (example_book [(''node'', MkVersion 1 1)]) (MkVersion 1 1) empty_world = (Inr p, empty_world) \<and>
     Members p = 1 \<and> Minimum p = MkVersion 1 1"
proof -
  obtain p where p: "Progress (example_members True [''node'']) (example_book [(''node'', MkVersion 1 1)]) (MkVersion 1 1) empty_world = (Inr p, empty_world)"
    by (simp add: Progress_def monad calm_run example_members_def Let_def)
  from progress_exact [OF p] p show ?thesis
    by (auto simp: example_members_def Watermark_of_def example_book_def)
qed

text \<open>
  Replacing the membership is all or nothing.  Whatever fails and wherever the machine stops, an
  undisturbed reopening finds the new set, sorted, after a success, and the old set (or no file, if
  there was none) or the new one after a failure, in which case the book in memory is unchanged.
\<close>

theorem membership_replace_atomic:
  assumes "member_fields options b" and "Replace ms (w, b) = (res, (v, b'))" and "crash v u" and "calm u"
    and "members_on_disk b (if mbConfigured b then {mbMembers b} else {}) (\<not> mbConfigured b) w"
  shows "\<exists>b2. OpenMembershipBook (mbPath b) options u = (Inr b2, u) \<and>
    (if res = Inr () then mbMembers b' = sort ms \<and> mbConfigured b' \<and> mbMembers b2 = sort ms \<and> mbConfigured b2
     else b' = b \<and> (mbConfigured b2 \<and> mbMembers b2 = sort ms \<or> mbConfigured b2 = mbConfigured b \<and> (mbConfigured b \<longrightarrow> mbMembers b2 = mbMembers b)))"
proof -
  let ?A = "if mbConfigured b then {mbMembers b} else {}"
  let ?R = "\<lambda>B absent s. \<forall>u. crash (fst s) u \<longrightarrow> calm u \<longrightarrow> (\<exists>b2. OpenMembershipBook (mbPath b) options u = (Inr b2, u) \<and>
    (if mbConfigured b2 then mbMembers b2 \<in> B else absent \<and> mbMembers b2 = []))"
  have R: "?R B absent (v, b'')" if "members_on_disk b B absent v" for B absent v b''
  proof (intro allI impI)
    fix u assume u: "crash (fst (v, b'')) u" "calm u"
    then have "members_on_disk b B absent u" using that holds_crash by (auto simp: members_on_disk_def)
    from OpenMembershipBook_on_disk [OF assms(1) this u(2)] show "\<exists>b2. OpenMembershipBook (mbPath b) options u = (Inr b2, u) \<and>
      (if mbConfigured b2 then mbMembers b2 \<in> B else absent \<and> mbMembers b2 = [])" .
  qed
  have "wp (Replace ms) (\<lambda>_ s. ?R {sort ms} False s \<and> mbMembers (snd s) = sort ms \<and> mbConfigured (snd s))
     (\<lambda>_ s. ?R (insert (sort ms) ?A) (\<not> mbConfigured b) s \<and> snd s = b) (w, b)"
  proof (rule wp_Replace [OF assms(5)])
    fix v assume "members_on_disk b {sort ms} False v"
    from R [OF this] show "?R {sort ms} False (v, b\<lparr>mbMembers := sort ms, mbConfigured := True\<rparr>) \<and>
      mbMembers (snd (v, b\<lparr>mbMembers := sort ms, mbConfigured := True\<rparr>)) = sort ms \<and>
      mbConfigured (snd (v, b\<lparr>mbMembers := sort ms, mbConfigured := True\<rparr>))" by simp
  next
    fix v assume "same_fs w v"
    with assms(5) have "members_on_disk b (insert (sort ms) ?A) (\<not> mbConfigured b) v"
      unfolding members_on_disk_def by (elim holds_same_fs [THEN holds_mono]) (auto simp: images_def)
    from R [OF this] show "?R (insert (sort ms) ?A) (\<not> mbConfigured b) (v, b) \<and> snd (v, b) = b" by simp
  next
    fix v assume "members_on_disk b (insert (sort ms) ?A) (\<not> mbConfigured b) v"
    from R [OF this] show "?R (insert (sort ms) ?A) (\<not> mbConfigured b) (v, b) \<and> snd (v, b) = b" by simp
  qed
  with assms(2-4) show ?thesis
    by (cases res) (fastforce simp: wp_def split: if_splits)+
qed

theorem membership_replace_atomic_witness:
  "\<exists>v b2. Replace [''node''] (empty_world, example_members False []) = (Inr (), (v, example_members True [''node''])) \<and>
     OpenMembershipBook ''s'' example_membership_options (settle v) = (Inr b2, settle v) \<and> mbMembers b2 = [''node'']"
proof -
  obtain v where v: "Replace [''node''] (empty_world, example_members False []) = (Inr (), (v, example_members True [''node'']))" "calm v"
    using example_replace by blast
  have c: "calm (settle v)" using v(2) by (simp add: calm_def settle_def)
  have "members_on_disk (example_members False []) (if mbConfigured (example_members False []) then {mbMembers (example_members False [])} else {})
     (\<not> mbConfigured (example_members False [])) empty_world"
    by (simp add: members_on_disk_def example_members_def images_def holds_def entry_holds_def)
  from membership_replace_atomic [OF example_member_fields v(1) crash_settle c this] v(1) show ?thesis
    by (auto simp: example_members_def)
qed

end
