(* ===== verification/Lifecycle_Repair.thy ===== *)
theory Lifecycle_Repair
  imports Lifecycle_Compaction Lifecycle_Transport
begin

text \<open>
  \<^verbatim>\<open>internal/lifecycle/repair.go\<close>: the bounded batches, snapshots and acknowledgements that bring a peer up
  to date from the journal, their wire form, and the planner that chooses between them.

  The theorems are the round trip of the frames, the exact content of a planned batch, and that
  repeating the planner brings a peer to the end of the journal.
\<close>

section \<open>Definitions\<close>

definition RepairBatchMessageType :: bytes where "RepairBatchMessageType = ''lifecycle.repair.batch''"
definition RepairSnapshotMessageType :: bytes where "RepairSnapshotMessageType = ''lifecycle.repair.snapshot''"
definition RepairAckMessageType :: bytes where "RepairAckMessageType = ''lifecycle.repair.ack''"
definition DefaultMaxRepairRecords :: int where "DefaultMaxRepairRecords = 128"
definition DefaultMaxRepairLogicalKeyBytes :: int where "DefaultMaxRepairLogicalKeyBytes = 64 * 2 ^ 10"
definition DefaultMaxRepairMetadataBytes :: int where "DefaultMaxRepairMetadataBytes = 64 * 2 ^ 10"
definition DefaultMaxRepairFrameBytes :: int where "DefaultMaxRepairFrameBytes = 128 * 2 ^ 10"

record RepairLimits =
  rlMaxRecords :: int
  rlMaxLogicalKeyBytes :: int
  rlMaxMetadataBytes :: int
  rlMaxFrameBytes :: int
  rlRecordLimits :: Limits

definition normalized_repair :: "RepairLimits \<Rightarrow> RepairLimits" where
  "normalized_repair l =
     \<lparr>rlMaxRecords = or_default DefaultMaxRepairRecords (rlMaxRecords l),
      rlMaxLogicalKeyBytes = or_default DefaultMaxRepairLogicalKeyBytes (rlMaxLogicalKeyBytes l),
      rlMaxMetadataBytes = or_default DefaultMaxRepairMetadataBytes (rlMaxMetadataBytes l),
      rlMaxFrameBytes = or_default DefaultMaxRepairFrameBytes (rlMaxFrameBytes l),
      rlRecordLimits = normalized_limits (rlRecordLimits l)\<rparr>"

record RepairBatch =
  rbType :: bytes
  rbFrom :: Version
  rbTo :: Version
  rbMore :: bool
  rbRecords :: "Record list"

record RepairSnapshot =
  rsType :: bytes
  rsWatermark :: Version
  rsRecords :: "Record list"

record RepairAck =
  raType :: bytes
  raWatermark :: Version

record RepairFrame =
  rfType :: bytes
  rfBatch :: "RepairBatch option"
  rfSnapshot :: "RepairSnapshot option"
  rfAck :: "RepairAck option"

datatype RepairPlanMode = RepairPlanJournal | RepairPlanSnapshot

record RepairPlan =
  rpMode :: RepairPlanMode
  rpFrom :: Version
  rpTo :: Version
  rpMore :: bool
  rpPayload :: bytes

datatype RepairDelivery = RepairDeliveryReady | RepairDeliveryDuplicate

definition batch_json :: "RepairBatch \<Rightarrow> json" where
  "batch_json b = JObj [(''type'', JStr (rbType b)), (''from'', version_json (rbFrom b)), (''to'', version_json (rbTo b)),
     (''more'', JBool (rbMore b)), (''records'', JArr (map record_json (rbRecords b)))]"

definition batch_fields :: "RepairBatch fields" where
  "batch_fields =
     [(''type'', field dec_string rbType rbType_update), (''from'', field (dec_version True) rbFrom rbFrom_update),
      (''to'', field (dec_version True) rbTo rbTo_update), (''more'', field dec_bool rbMore rbMore_update),
      (''records'', field (dec_slice (dec_record True) zeroRecord) rbRecords rbRecords_update)]"

definition zeroBatch :: RepairBatch where
  "zeroBatch = \<lparr>rbType = [], rbFrom = zeroVersion, rbTo = zeroVersion, rbMore = False, rbRecords = []\<rparr>"

definition snapshot_json :: "RepairSnapshot \<Rightarrow> json" where
  "snapshot_json s = JObj [(''type'', JStr (rsType s)), (''watermark'', version_json (rsWatermark s)),
     (''records'', JArr (map record_json (rsRecords s)))]"

definition snapshot_fields :: "RepairSnapshot fields" where
  "snapshot_fields =
     [(''type'', field dec_string rsType rsType_update), (''watermark'', field (dec_version True) rsWatermark rsWatermark_update),
      (''records'', field (dec_slice (dec_record True) zeroRecord) rsRecords rsRecords_update)]"

definition zeroSnapshot :: RepairSnapshot where
  "zeroSnapshot = \<lparr>rsType = [], rsWatermark = zeroVersion, rsRecords = []\<rparr>"

definition ack_json :: "RepairAck \<Rightarrow> json" where
  "ack_json a = JObj [(''type'', JStr (raType a)), (''watermark'', version_json (raWatermark a))]"

definition ack_fields :: "RepairAck fields" where
  "ack_fields = [(''type'', field dec_string raType raType_update), (''watermark'', field (dec_version True) raWatermark raWatermark_update)]"

definition zeroAck :: RepairAck where
  "zeroAck = \<lparr>raType = [], raWatermark = zeroVersion\<rparr>"

definition repairRecordBytes :: "Record \<Rightarrow> int \<times> int" where
  "repairRecordBytes record =
     (int (length (Namespace record)) + int (length (LogicalKey record)), int (length (json_print (record_json record))))"

text \<open>The loops over the records keep the running byte counts; the first one also the previous version.\<close>

fun validate_loop :: "RepairLimits \<Rightarrow> Version \<Rightarrow> int \<Rightarrow> int \<Rightarrow> Record list \<Rightarrow> err + Version" where
  "validate_loop limits previous logicalBytes metadataBytes [] = Inr previous"
| "validate_loop limits previous logicalBytes metadataBytes (record # records) =
     bindE (guardE (Compare (rVersion record) previous \<le> 0) (ERepair ErrRepairOrder)) (\<lambda>_.
     bindE (Validate record (rlRecordLimits limits)) (\<lambda>_.
     let (logical, metadata) = repairRecordBytes record;
         logicalBytes = logicalBytes + logical;
         metadataBytes = metadataBytes + metadata in
     bindE (guardE (logicalBytes > rlMaxLogicalKeyBytes limits \<or> metadataBytes > rlMaxMetadataBytes limits) (ERepair ErrRepairLimit)) (\<lambda>_.
     validate_loop limits (rVersion record) logicalBytes metadataBytes records)))"

definition validateRepairBatch :: "RepairBatch \<Rightarrow> RepairLimits \<Rightarrow> err + unit" where
  "validateRepairBatch batch limits =
     bindE (guardE (int (length (rbRecords batch)) > rlMaxRecords limits) (ERepair ErrRepairLimit)) (\<lambda>_.
     bindE (validate_loop limits (rbFrom batch) 0 0 (rbRecords batch)) (\<lambda>previous.
     guardE (rbTo batch \<noteq> previous) (ERepair ErrRepairWatermarkMismatch)))"

fun size_loop :: "RepairLimits \<Rightarrow> int \<Rightarrow> int \<Rightarrow> Record list \<Rightarrow> err + unit" where
  "size_loop limits logicalBytes metadataBytes [] = Inr ()"
| "size_loop limits logicalBytes metadataBytes (record # records) =
     (let (logical, metadata) = repairRecordBytes record;
          logicalBytes = logicalBytes + logical;
          metadataBytes = metadataBytes + metadata in
      bindE (guardE (logicalBytes > rlMaxLogicalKeyBytes limits \<or> metadataBytes > rlMaxMetadataBytes limits) (ERepair ErrRepairLimit)) (\<lambda>_.
      size_loop limits logicalBytes metadataBytes records))"

definition normalizeRepairSnapshot :: "RepairSnapshot \<Rightarrow> RepairLimits \<Rightarrow> err + RepairSnapshot" where
  "normalizeRepairSnapshot snapshot limits =
     bindE (normalizeCheckpoint \<lparr>Watermark = rsWatermark snapshot, cpRecords = rsRecords snapshot\<rparr> (rlRecordLimits limits)) (\<lambda>(checkpoint, _).
     bindE (guardE (int (length (cpRecords checkpoint)) > rlMaxRecords limits) (ERepair ErrRepairLimit)) (\<lambda>_.
     bindE (size_loop limits 0 0 (cpRecords checkpoint)) (\<lambda>_.
     Inr (snapshot\<lparr>rsType := RepairSnapshotMessageType, rsRecords := cpRecords checkpoint\<rparr>))))"

definition decodeRepairEnvelope :: "'a decoder \<Rightarrow> 'a \<Rightarrow> bytes \<Rightarrow> err + 'a" where
  "decodeRepairEnvelope f z payload =
     bindE (mapE (EJoin (ERepair ErrRepairMalformed)) (json_decode f z payload)) (\<lambda>(x, rest).
       if skip_ws rest = [] then Inr x
       else (case json_value rest of
               Some _ \<Rightarrow> Inl (EJoin (ERepair ErrRepairMalformed) (ERepair ErrRepairWatermarkMismatch))
             | None \<Rightarrow> Inl (EJoin (ERepair ErrRepairMalformed) (EStd ErrJSON))))"

text \<open>The target of \<^verbatim>\<open>decodeRepairType\<close> is the anonymous struct with the one member \<^verbatim>\<open>type\<close>.\<close>

definition type_fields :: "bytes fields" where
  "type_fields = [(''type'', dec_string)]"

definition decodeRepairType :: "bytes \<Rightarrow> err + bytes" where
  "decodeRepairType payload =
     bindE (mapE (EJoin (ERepair ErrRepairMalformed)) (json_decode (struct_decode False type_fields) [] payload)) (\<lambda>(typ, rest).
     bindE (if skip_ws rest = [] then Inr ()
            else (case json_value rest of
                    Some _ \<Rightarrow> Inl (ERepair ErrRepairMalformed)
                  | None \<Rightarrow> Inl (EJoin (ERepair ErrRepairMalformed) (EStd ErrJSON)))) (\<lambda>_.
     bindE (guardE (typ = []) (ERepair ErrRepairMalformed)) (\<lambda>_.
     Inr typ)))"

definition EncodeRepairBatch :: "RepairBatch \<Rightarrow> RepairLimits \<Rightarrow> err + bytes" where
  "EncodeRepairBatch batch limits =
     (let limits = normalized_repair limits;
          batch = (if rbType batch = [] then batch\<lparr>rbType := RepairBatchMessageType\<rparr> else batch) in
      bindE (guardE (rbType batch \<noteq> RepairBatchMessageType) (ERepair ErrRepairMessageType)) (\<lambda>_.
      bindE (validateRepairBatch batch limits) (\<lambda>_.
      let payload = json_print (batch_json batch) in
      bindE (guardE (int (length payload) > rlMaxFrameBytes limits) (ERepair ErrRepairFrameTooLarge)) (\<lambda>_.
      Inr payload))))"

definition DecodeRepairBatch :: "bytes \<Rightarrow> RepairLimits \<Rightarrow> err + RepairBatch" where
  "DecodeRepairBatch payload limits =
     (let limits = normalized_repair limits in
      bindE (guardE (int (length payload) > rlMaxFrameBytes limits) (ERepair ErrRepairFrameTooLarge)) (\<lambda>_.
      bindE (decodeRepairEnvelope (struct_decode True batch_fields) zeroBatch payload) (\<lambda>batch.
      bindE (guardE (rbType batch \<noteq> RepairBatchMessageType) (ERepair ErrRepairMessageType)) (\<lambda>_.
      bindE (validateRepairBatch batch limits) (\<lambda>_.
      Inr batch)))))"

definition EncodeRepairSnapshot :: "RepairSnapshot \<Rightarrow> RepairLimits \<Rightarrow> err + bytes" where
  "EncodeRepairSnapshot snapshot limits =
     (let limits = normalized_repair limits;
          snapshot = (if rsType snapshot = [] then snapshot\<lparr>rsType := RepairSnapshotMessageType\<rparr> else snapshot) in
      bindE (guardE (rsType snapshot \<noteq> RepairSnapshotMessageType) (ERepair ErrRepairMessageType)) (\<lambda>_.
      bindE (normalizeRepairSnapshot snapshot limits) (\<lambda>normalized.
      let payload = json_print (snapshot_json normalized) in
      bindE (guardE (int (length payload) > rlMaxFrameBytes limits) (ERepair ErrRepairFrameTooLarge)) (\<lambda>_.
      Inr payload))))"

definition DecodeRepairSnapshot :: "bytes \<Rightarrow> RepairLimits \<Rightarrow> err + RepairSnapshot" where
  "DecodeRepairSnapshot payload limits =
     (let limits = normalized_repair limits in
      bindE (guardE (int (length payload) > rlMaxFrameBytes limits) (ERepair ErrRepairFrameTooLarge)) (\<lambda>_.
      bindE (decodeRepairEnvelope (struct_decode True snapshot_fields) zeroSnapshot payload) (\<lambda>snapshot.
      bindE (guardE (rsType snapshot \<noteq> RepairSnapshotMessageType) (ERepair ErrRepairMessageType)) (\<lambda>_.
      normalizeRepairSnapshot snapshot limits))))"

definition EncodeRepairAck :: "RepairAck \<Rightarrow> RepairLimits \<Rightarrow> err + bytes" where
  "EncodeRepairAck ack limits =
     (let limits = normalized_repair limits;
          ack = (if raType ack = [] then ack\<lparr>raType := RepairAckMessageType\<rparr> else ack) in
      bindE (guardE (raType ack \<noteq> RepairAckMessageType) (ERepair ErrRepairMessageType)) (\<lambda>_.
      let payload = json_print (ack_json ack) in
      bindE (guardE (int (length payload) > rlMaxFrameBytes limits) (ERepair ErrRepairFrameTooLarge)) (\<lambda>_.
      Inr payload)))"

definition DecodeRepairAck :: "bytes \<Rightarrow> RepairLimits \<Rightarrow> err + RepairAck" where
  "DecodeRepairAck payload limits =
     (let limits = normalized_repair limits in
      bindE (guardE (int (length payload) > rlMaxFrameBytes limits) (ERepair ErrRepairFrameTooLarge)) (\<lambda>_.
      bindE (decodeRepairEnvelope (struct_decode True ack_fields) zeroAck payload) (\<lambda>ack.
      bindE (guardE (raType ack \<noteq> RepairAckMessageType) (ERepair ErrRepairMessageType)) (\<lambda>_.
      Inr ack))))"

definition present_count :: "RepairFrame \<Rightarrow> int" where
  "present_count frame = (if rfBatch frame \<noteq> None then 1 else 0) + (if rfSnapshot frame \<noteq> None then 1 else 0) +
     (if rfAck frame \<noteq> None then 1 else 0)"

definition EncodeRepairFrame :: "RepairFrame \<Rightarrow> RepairLimits \<Rightarrow> err + bytes" where
  "EncodeRepairFrame frame limits =
     bindE (guardE (present_count frame \<noteq> 1) (ERepair ErrRepairMalformed)) (\<lambda>_.
     case rfBatch frame of
       Some batch \<Rightarrow>
         bindE (guardE (rfType frame \<noteq> [] \<and> rfType frame \<noteq> RepairBatchMessageType) (ERepair ErrRepairMessageType)) (\<lambda>_.
         EncodeRepairBatch batch limits)
     | None \<Rightarrow> (case rfSnapshot frame of
         Some snapshot \<Rightarrow>
           bindE (guardE (rfType frame \<noteq> [] \<and> rfType frame \<noteq> RepairSnapshotMessageType) (ERepair ErrRepairMessageType)) (\<lambda>_.
           EncodeRepairSnapshot snapshot limits)
       | None \<Rightarrow> (case rfAck frame of
           Some ack \<Rightarrow>
             bindE (guardE (rfType frame \<noteq> [] \<and> rfType frame \<noteq> RepairAckMessageType) (ERepair ErrRepairMessageType)) (\<lambda>_.
             EncodeRepairAck ack limits)
         | None \<Rightarrow> Inl (ERepair ErrRepairMalformed))))"

definition DecodeRepairFrame :: "bytes \<Rightarrow> RepairLimits \<Rightarrow> err + RepairFrame" where
  "DecodeRepairFrame payload limits =
     (let limits = normalized_repair limits in
      bindE (guardE (int (length payload) > rlMaxFrameBytes limits) (ERepair ErrRepairFrameTooLarge)) (\<lambda>_.
      bindE (decodeRepairType payload) (\<lambda>typeName.
      if typeName = RepairBatchMessageType then
        bindE (DecodeRepairBatch payload limits) (\<lambda>batch.
        Inr \<lparr>rfType = typeName, rfBatch = Some batch, rfSnapshot = None, rfAck = None\<rparr>)
      else if typeName = RepairSnapshotMessageType then
        bindE (DecodeRepairSnapshot payload limits) (\<lambda>snapshot.
        Inr \<lparr>rfType = typeName, rfBatch = None, rfSnapshot = Some snapshot, rfAck = None\<rparr>)
      else if typeName = RepairAckMessageType then
        bindE (DecodeRepairAck payload limits) (\<lambda>ack.
        Inr \<lparr>rfType = typeName, rfBatch = None, rfSnapshot = None, rfAck = Some ack\<rparr>)
      else Inl (ERepair ErrRepairMessageType))))"

definition DecodeRepairFrameForPeer :: "bytes \<Rightarrow> bytes list \<Rightarrow> RepairLimits \<Rightarrow> err + RepairFrame" where
  "DecodeRepairFrameForPeer payload capabilities limits =
     bindE (guardE (\<not> HasLifecycleCapability capabilities) (ETransport ErrLifecycleCapabilityRequired)) (\<lambda>_.
     DecodeRepairFrame payload limits)"

definition Delivery :: "RepairBatch \<Rightarrow> Version \<Rightarrow> RepairLimits \<Rightarrow> err + RepairDelivery" where
  "Delivery b expected limits =
     (let limits = normalized_repair limits in
      bindE (validateRepairBatch b limits) (\<lambda>_.
      if Compare (rbTo b) expected \<le> 0 then Inr RepairDeliveryDuplicate
      else bindE (guardE (rbFrom b \<noteq> expected) (ERepair ErrRepairWatermarkMismatch)) (\<lambda>_.
      Inr RepairDeliveryReady)))"

text \<open>The selection loop of \<^verbatim>\<open>Journal.RepairBatch\<close>; \<open>available\<close> is the number of remaining records.\<close>

fun select_loop :: "Version \<Rightarrow> RepairLimits \<Rightarrow> nat \<Rightarrow> Record list \<Rightarrow> Record list \<Rightarrow> err + Record list" where
  "select_loop from limits available selected [] = Inr selected"
| "select_loop from limits available selected (record # rest) =
     (let candidate = selected @ [record];
          batch = \<lparr>rbType = RepairBatchMessageType, rbFrom = from, rbTo = rVersion record,
                   rbMore = length candidate < available, rbRecords = candidate\<rparr> in
      case validateRepairBatch batch limits of
        Inl e \<Rightarrow> if selected = [] then Inl e else Inr selected
      | Inr _ \<Rightarrow>
          (case EncodeRepairBatch batch limits of
             Inl e \<Rightarrow> if selected = [] then Inl e else Inr selected
           | Inr _ \<Rightarrow> select_loop from limits available candidate rest))"

definition Journal_RepairBatch :: "Version \<Rightarrow> RepairLimits \<Rightarrow> (world \<times> Journal, RepairBatch) M" where
  "Journal_RepairBatch from limits =
     bindM (osM pollM) (\<lambda>_.
     let limits = normalized_repair limits in
     bindM ensureOpenLocked (\<lambda>_.
     bindM (selfM (\<lambda>j. j)) (\<lambda>j.
     bindM (guardM (Compare from (jFloor j) < 0) (EJournal ErrPeerBehindWatermark)) (\<lambda>_.
     let remaining = filter (\<lambda>record. Compare (rVersion record) from > 0) (jRecords j) in
     bindM (liftE (select_loop from limits (length remaining) [] remaining)) (\<lambda>selected.
     let batch = \<lparr>rbType = RepairBatchMessageType, rbFrom = from,
                  rbTo = (if selected = [] then from else rVersion (last selected)),
                  rbMore = length selected < length remaining, rbRecords = selected\<rparr> in
     bindM (liftE (EncodeRepairBatch batch limits)) (\<lambda>_.
     returnM batch))))))"

definition PlanRepair :: "Version \<Rightarrow> Checkpoint option \<Rightarrow> RepairLimits \<Rightarrow> (world \<times> Journal, RepairPlan) M" where
  "PlanRepair from snapshot limits =
     bindM (osM pollM) (\<lambda>_.
     let limits = normalized_repair limits in
     bindM (selfM jFloor) (\<lambda>floor'.
     if Compare from floor' < 0 then
       (case snapshot of
          None \<Rightarrow> throwM (ERepair ErrRepairSnapshotRequired)
        | Some snapshot \<Rightarrow>
            bindM (guardM (Watermark snapshot \<noteq> floor') (ERepair ErrRepairSnapshotWatermark)) (\<lambda>_.
            bindM (liftE (EncodeRepairSnapshot \<lparr>rsType = RepairSnapshotMessageType, rsWatermark = Watermark snapshot,
                     rsRecords = cpRecords snapshot\<rparr> limits)) (\<lambda>payload.
            returnM \<lparr>rpMode = RepairPlanSnapshot, rpFrom = from, rpTo = floor', rpMore = False, rpPayload = payload\<rparr>)))
     else
       bindM (Journal_RepairBatch from limits) (\<lambda>batch.
       bindM (liftE (EncodeRepairBatch batch limits)) (\<lambda>payload.
       returnM \<lparr>rpMode = RepairPlanJournal, rpFrom = rbFrom batch, rpTo = rbTo batch, rpMore = rbMore batch, rpPayload = payload\<rparr>))))"

section \<open>Valid batches and snapshots\<close>

lemma normalized_repair_idem [simp]: "normalized_repair (normalized_repair l) = normalized_repair l"
  by (simp add: normalized_repair_def DefaultMaxRepairRecords_def DefaultMaxRepairLogicalKeyBytes_def
      DefaultMaxRepairMetadataBytes_def DefaultMaxRepairFrameBytes_def)

lemma normalized_repair_pos [simp]:
  "0 < rlMaxRecords (normalized_repair l)" "0 < rlMaxLogicalKeyBytes (normalized_repair l)"
  "0 < rlMaxMetadataBytes (normalized_repair l)" "0 < rlMaxFrameBytes (normalized_repair l)"
  by (simp_all add: normalized_repair_def or_default_def DefaultMaxRepairRecords_def DefaultMaxRepairLogicalKeyBytes_def
      DefaultMaxRepairMetadataBytes_def DefaultMaxRepairFrameBytes_def)

definition logical_sum :: "Record list \<Rightarrow> int" where
  "logical_sum rs = sum_list (map (\<lambda>r. fst (repairRecordBytes r)) rs)"

definition metadata_sum :: "Record list \<Rightarrow> int" where
  "metadata_sum rs = sum_list (map (\<lambda>r. snd (repairRecordBytes r)) rs)"

lemma sums_Cons [simp]:
  "logical_sum [] = 0" "metadata_sum [] = 0"
  "logical_sum (r # rs) = fst (repairRecordBytes r) + logical_sum rs"
  "metadata_sum (r # rs) = snd (repairRecordBytes r) + metadata_sum rs"
  by (simp_all add: logical_sum_def metadata_sum_def)

lemma sums_append [simp]:
  "logical_sum (rs @ qs) = logical_sum rs + logical_sum qs" "metadata_sum (rs @ qs) = metadata_sum rs + metadata_sum qs"
  by (simp_all add: logical_sum_def metadata_sum_def)

lemma record_bytes_nonneg [simp]: "0 \<le> fst (repairRecordBytes r)" "0 \<le> snd (repairRecordBytes r)"
  by (simp_all add: repairRecordBytes_def)

lemma sums_nonneg [simp]: "0 \<le> logical_sum rs" "0 \<le> metadata_sum rs"
  by (induction rs) (simp_all add: add_nonneg_nonneg)

definition sums_fit :: "RepairLimits \<Rightarrow> Record list \<Rightarrow> bool" where
  "sums_fit L rs \<longleftrightarrow> logical_sum rs \<le> rlMaxLogicalKeyBytes L \<and> metadata_sum rs \<le> rlMaxMetadataBytes L"

lemma size_loop_ok:
  "size_loop L lb mb rs = Inr u \<longleftrightarrow>
     (rs = [] \<or> lb + logical_sum rs \<le> rlMaxLogicalKeyBytes L \<and> mb + metadata_sum rs \<le> rlMaxMetadataBytes L)"
proof (induction rs arbitrary: lb mb)
  case (Cons r rs)
  have n: "0 \<le> logical_sum rs" "0 \<le> metadata_sum rs" by simp_all
  have "size_loop L lb mb (r # rs) = (if lb + fst (repairRecordBytes r) > rlMaxLogicalKeyBytes L \<or>
      mb + snd (repairRecordBytes r) > rlMaxMetadataBytes L then Inl (ERepair ErrRepairLimit)
      else size_loop L (lb + fst (repairRecordBytes r)) (mb + snd (repairRecordBytes r)) rs)"
    by (simp add: Let_def split_beta)
  with Cons [of "lb + fst (repairRecordBytes r)" "mb + snd (repairRecordBytes r)"] n show ?case
    by (cases "rs = []") (auto simp del: size_loop.simps sums_nonneg)
qed simp

lemma validate_loop_ok:
  "validate_loop L v lb mb rs = Inr p \<longleftrightarrow>
     increasing v rs \<and> (\<forall>r\<in>set rs. valid_record (rlRecordLimits L) r) \<and> size_loop L lb mb rs = Inr () \<and> p = last_version v rs"
proof (induction rs arbitrary: v lb mb)
  case (Cons r rs)
  show ?case
    by (cases "v < rVersion r"; cases "Validate r (rlRecordLimits L)")
      (auto simp: Let_def split_beta Cons not_less Validate_ok [of _ _ "()", symmetric])
qed auto

definition batch_valid :: "RepairLimits \<Rightarrow> RepairBatch \<Rightarrow> bool" where
  "batch_valid L b \<longleftrightarrow> int (length (rbRecords b)) \<le> rlMaxRecords L \<and> increasing (rbFrom b) (rbRecords b) \<and>
     (\<forall>r\<in>set (rbRecords b). valid_record (rlRecordLimits L) r) \<and> sums_fit L (rbRecords b) \<and>
     rbTo b = last_version (rbFrom b) (rbRecords b)"

lemma validateRepairBatch_ok:
  "validateRepairBatch b (normalized_repair L) = Inr u \<longleftrightarrow> batch_valid (normalized_repair L) b"
  using normalized_repair_pos(2,3) [of L]
  by (auto simp: validateRepairBatch_def batch_valid_def resE validate_loop_ok size_loop_ok sums_fit_def less_imp_le
      split: if_splits)

lemma EncodeRepairBatch_ok:
  "EncodeRepairBatch b L = Inr payload \<longleftrightarrow>
     (let b = (if rbType b = [] then b\<lparr>rbType := RepairBatchMessageType\<rparr> else b) in
      rbType b = RepairBatchMessageType \<and> batch_valid (normalized_repair L) b \<and> payload = json_print (batch_json b) \<and>
      int (length payload) \<le> rlMaxFrameBytes (normalized_repair L))"
  by (auto simp: EncodeRepairBatch_def Let_def resE validateRepairBatch_ok split: if_splits)

lemma EncodeRepair_normalized [simp]:
  "EncodeRepairBatch b (normalized_repair L) = EncodeRepairBatch b L"
  "EncodeRepairSnapshot s (normalized_repair L) = EncodeRepairSnapshot s L"
  "EncodeRepairAck a (normalized_repair L) = EncodeRepairAck a L"
  by (simp_all add: EncodeRepairBatch_def EncodeRepairSnapshot_def EncodeRepairAck_def Let_def)

lemma batch_type_nonempty [simp]:
  "RepairBatchMessageType \<noteq> []" "RepairSnapshotMessageType \<noteq> []" "RepairAckMessageType \<noteq> []"
  "RepairSnapshotMessageType \<noteq> RepairBatchMessageType" "RepairAckMessageType \<noteq> RepairBatchMessageType"
  "RepairAckMessageType \<noteq> RepairSnapshotMessageType"
  by (simp_all add: RepairBatchMessageType_def RepairSnapshotMessageType_def RepairAckMessageType_def)

lemma normalizeCheckpointRecords_normalized [simp]:
  "normalizeCheckpointRecords rs v (normalized_limits L) = normalizeCheckpointRecords rs v L"
  by (simp add: normalizeCheckpointRecords_def Let_def)

definition snapshot_valid :: "RepairLimits \<Rightarrow> RepairSnapshot \<Rightarrow> bool" where
  "snapshot_valid L s \<longleftrightarrow> rsType s = RepairSnapshotMessageType \<and> int (length (rsRecords s)) \<le> rlMaxRecords L \<and> sums_fit L (rsRecords s) \<and>
     normalizeCheckpointRecords (rsRecords s) (rsWatermark s) (rlRecordLimits L) = Inr (rsRecords s)"

lemma normalizeRepairSnapshot_ok:
  assumes "normalizeRepairSnapshot s (normalized_repair L) = Inr n"
  shows "snapshot_valid (normalized_repair L) n" and "rsWatermark n = rsWatermark s"
    and "normalizeCheckpointRecords (rsRecords s) (rsWatermark s) (rlRecordLimits L) = Inr (rsRecords n)"
proof -
  have "normalizeCheckpoint c (rlRecordLimits (normalized_repair L)) = normalizeCheckpoint c (rlRecordLimits L)" for c
    by (simp add: normalized_repair_def)
  with assms obtain cp where c: "normalizeCheckpoint \<lparr>Watermark = rsWatermark s, cpRecords = rsRecords s\<rparr> (rlRecordLimits L) = Inr (cp, normalized_limits (rlRecordLimits L))"
    "int (length (cpRecords cp)) \<le> rlMaxRecords (normalized_repair L)" "size_loop (normalized_repair L) 0 0 (cpRecords cp) = Inr ()"
    "n = s\<lparr>rsType := RepairSnapshotMessageType, rsRecords := cpRecords cp\<rparr>"
    by (auto simp: normalizeRepairSnapshot_def resE normalizeCheckpoint_ok split: if_splits)
  from c(1) show "normalizeCheckpointRecords (rsRecords s) (rsWatermark s) (rlRecordLimits L) = Inr (rsRecords n)"
    by (simp add: normalizeCheckpoint_ok c(4))
  from normalizeCheckpoint_idem [OF c(1)] c show "snapshot_valid (normalized_repair L) n"
    using normalized_repair_pos(2,3) [of L]
    by (auto simp: snapshot_valid_def normalizeCheckpoint_ok size_loop_ok sums_fit_def normalized_repair_def less_imp_le)
  show "rsWatermark n = rsWatermark s" by (simp add: c(4))
qed

lemma normalizeRepairSnapshot_valid:
  assumes "snapshot_valid (normalized_repair L) s"
  shows "normalizeRepairSnapshot s (normalized_repair L) = Inr s"
proof -
  let ?l = "rlRecordLimits (normalized_repair L)"
  have "normalizeCheckpoint \<lparr>Watermark = rsWatermark s, cpRecords = rsRecords s\<rparr> ?l =
    Inr (\<lparr>Watermark = rsWatermark s, cpRecords = rsRecords s\<rparr>, normalized_limits ?l)"
    using assms by (simp add: normalizeCheckpoint_ok snapshot_valid_def)
  moreover have "size_loop (normalized_repair L) 0 0 (rsRecords s) = Inr ()"
    using assms by (simp add: snapshot_valid_def size_loop_ok sums_fit_def)
  ultimately show ?thesis
    using assms by (simp add: normalizeRepairSnapshot_def snapshot_valid_def)
qed

section \<open>Frames round-trip\<close>

lemma type_same [simp]:
  "rbType b = t \<Longrightarrow> b\<lparr>rbType := t\<rparr> = b" "rsType s = t \<Longrightarrow> s\<lparr>rsType := t\<rparr> = s" "raType a = t \<Longrightarrow> a\<lparr>raType := t\<rparr> = a"
  by auto

lemma repair_names [simp]:
  "valid_utf8 ''type''" "valid_utf8 ''from''" "valid_utf8 ''to''" "valid_utf8 ''more''" "valid_utf8 ''records''" "valid_utf8 ''watermark''"
  "valid_utf8 RepairBatchMessageType" "valid_utf8 RepairSnapshotMessageType" "valid_utf8 RepairAckMessageType"
  unfolding RepairBatchMessageType_def RepairSnapshotMessageType_def RepairAckMessageType_def
  by (rule valid_utf8_ascii, simp)+

lemma records_depth: "foldr max (map json_depth (map record_json rs)) 0 \<le> 2"
  unfolding map_map by (rule foldr_max_le) simp

lemma batch_rt [json_rt]: "struct_decode True batch_fields zeroBatch (batch_json b) = Some b"
  by (simp add: struct_decode_def batch_json_def batch_fields_def find_field_def field_def json_rt zeroBatch_def dec_slice_rt)

lemma snapshot_rt [json_rt]: "struct_decode True snapshot_fields zeroSnapshot (snapshot_json s) = Some s"
  by (simp add: struct_decode_def snapshot_json_def snapshot_fields_def find_field_def field_def json_rt zeroSnapshot_def dec_slice_rt)

lemma ack_rt [json_rt]: "struct_decode True ack_fields zeroAck (ack_json a) = Some a"
  by (simp add: struct_decode_def ack_json_def ack_fields_def find_field_def field_def json_rt zeroAck_def)

text \<open>Looking only at the type skips every other member.\<close>

lemma fold_names:
  "fold_name ''type'' = ''TYPE''" "fold_name ''from'' = ''FROM''" "fold_name ''to'' = ''TO''" "fold_name ''more'' = ''MORE''"
  "fold_name ''records'' = ''RECORDS''" "fold_name ''watermark'' = ''WATERMARK''"
  by (simp_all add: fold_name_def fold_chunk_def ev)

lemma type_rt [json_rt]:
  "struct_decode False type_fields [] (batch_json b) = Some (rbType b)"
  "struct_decode False type_fields [] (snapshot_json s) = Some (rsType s)"
  "struct_decode False type_fields [] (ack_json a) = Some (raType a)"
  by (simp_all add: struct_decode_def batch_json_def snapshot_json_def ack_json_def type_fields_def find_field_def json_rt fold_names)

lemma repair_json_ok:
  assumes "\<forall>r\<in>set rs. valid_record L r"
  shows "json_wf (batch_json \<lparr>rbType = RepairBatchMessageType, rbFrom = f, rbTo = t, rbMore = m, rbRecords = rs\<rparr>)"
    and "json_wf (snapshot_json \<lparr>rsType = RepairSnapshotMessageType, rsWatermark = t, rsRecords = rs\<rparr>)"
  using assms by (auto simp: batch_json_def snapshot_json_def intro: record_json_wf)

lemma repair_depth:
  "json_depth (batch_json b) \<le> max_nesting" "json_depth (snapshot_json s) \<le> max_nesting" "json_depth (ack_json a) \<le> max_nesting"
  using records_depth [of "rbRecords b"] records_depth [of "rsRecords s"]
  by (simp_all add: batch_json_def snapshot_json_def ack_json_def max_nesting_def)

lemma decodeRepairEnvelope_print:
  assumes "json_wf j" and "json_depth j \<le> max_nesting" and "f z j = Some x"
  shows "decodeRepairEnvelope f z (json_print j) = Inr x"
  using json_decode_print [of j f z x] assms by (simp add: decodeRepairEnvelope_def)

lemma decodeRepairType_print:
  assumes "json_wf j" and "json_depth j \<le> max_nesting" and "struct_decode False type_fields [] j = Some t" and "t \<noteq> []"
  shows "decodeRepairType (json_print j) = Inr t"
  using json_decode_print [of j "struct_decode False type_fields" "[]" t] assms by (simp add: decodeRepairType_def)

lemma DecodeRepair_normalized [simp]:
  "DecodeRepairBatch p (normalized_repair L) = DecodeRepairBatch p L"
  "DecodeRepairSnapshot p (normalized_repair L) = DecodeRepairSnapshot p L"
  "DecodeRepairAck p (normalized_repair L) = DecodeRepairAck p L"
  by (simp_all add: DecodeRepairBatch_def DecodeRepairSnapshot_def DecodeRepairAck_def Let_def)

lemma batch_roundtrip:
  assumes "EncodeRepairBatch b L = Inr payload"
  shows "DecodeRepairBatch payload L = Inr (b\<lparr>rbType := RepairBatchMessageType\<rparr>)"
    and "decodeRepairType payload = Inr RepairBatchMessageType" and "int (length payload) \<le> rlMaxFrameBytes (normalized_repair L)"
proof -
  let ?b = "b\<lparr>rbType := RepairBatchMessageType\<rparr>"
  have b: "batch_valid (normalized_repair L) ?b" "payload = json_print (batch_json ?b)"
    and l: "int (length payload) \<le> rlMaxFrameBytes (normalized_repair L)"
    using assms by (auto simp: EncodeRepairBatch_ok Let_def batch_valid_def split: if_splits)
  show "int (length payload) \<le> rlMaxFrameBytes (normalized_repair L)" by (rule l)
  have wf: "json_wf (batch_json ?b)" using b(1) repair_json_ok(1) by (cases b) (auto simp: batch_valid_def)
  show "decodeRepairType payload = Inr RepairBatchMessageType"
    unfolding b(2) by (rule decodeRepairType_print [OF wf repair_depth(1)]) (simp_all add: json_rt)
  have "decodeRepairEnvelope (struct_decode True batch_fields) zeroBatch payload = Inr ?b"
    unfolding b(2) by (rule decodeRepairEnvelope_print [OF wf repair_depth(1)]) (simp add: json_rt)
  with l b(1) show "DecodeRepairBatch payload L = Inr ?b"
    by (simp add: DecodeRepairBatch_def Let_def resE validateRepairBatch_ok)
qed

lemma snapshot_roundtrip:
  assumes "EncodeRepairSnapshot s L = Inr payload"
  shows "\<exists>n. DecodeRepairSnapshot payload L = Inr n \<and> rsType n = RepairSnapshotMessageType \<and> rsWatermark n = rsWatermark s \<and>
      normalizeCheckpointRecords (rsRecords s) (rsWatermark s) (rlRecordLimits L) = Inr (rsRecords n)"
    and "decodeRepairType payload = Inr RepairSnapshotMessageType" and "int (length payload) \<le> rlMaxFrameBytes (normalized_repair L)"
proof -
  let ?s = "s\<lparr>rsType := RepairSnapshotMessageType\<rparr>"
  obtain n where n: "normalizeRepairSnapshot ?s (normalized_repair L) = Inr n" "payload = json_print (snapshot_json n)"
    and l: "int (length payload) \<le> rlMaxFrameBytes (normalized_repair L)"
    using assms by (auto simp: EncodeRepairSnapshot_def Let_def resE split: if_splits)
  show "int (length payload) \<le> rlMaxFrameBytes (normalized_repair L)" by (rule l)
  note v = normalizeRepairSnapshot_ok [OF n(1)]
  have "\<forall>r\<in>set (rsRecords n). valid_record (rlRecordLimits L) r"
    using v(3) by (auto simp: normalizeCheckpointRecords_ok)
  from repair_json_ok(2) [OF this] v(1) have wf: "json_wf (snapshot_json n)" by (cases n) (simp add: snapshot_valid_def)
  have t: "rsType n = RepairSnapshotMessageType" using v(1) by (simp add: snapshot_valid_def)
  show "decodeRepairType payload = Inr RepairSnapshotMessageType"
    unfolding n(2) by (rule decodeRepairType_print [OF wf repair_depth(2)]) (simp_all add: json_rt t)
  have d: "decodeRepairEnvelope (struct_decode True snapshot_fields) zeroSnapshot payload = Inr n"
    unfolding n(2) by (rule decodeRepairEnvelope_print [OF wf repair_depth(2)]) (simp add: json_rt)
  from l d t v normalizeRepairSnapshot_valid [OF v(1)] show "\<exists>n. DecodeRepairSnapshot payload L = Inr n \<and> rsType n = RepairSnapshotMessageType \<and> rsWatermark n = rsWatermark s \<and>
      normalizeCheckpointRecords (rsRecords s) (rsWatermark s) (rlRecordLimits L) = Inr (rsRecords n)"
    by (simp add: DecodeRepairSnapshot_def Let_def)
qed

lemma ack_roundtrip:
  assumes "EncodeRepairAck a L = Inr payload"
  shows "DecodeRepairAck payload L = Inr (a\<lparr>raType := RepairAckMessageType\<rparr>)"
    and "decodeRepairType payload = Inr RepairAckMessageType" and "int (length payload) \<le> rlMaxFrameBytes (normalized_repair L)"
proof -
  let ?a = "a\<lparr>raType := RepairAckMessageType\<rparr>"
  have p: "payload = json_print (ack_json ?a)" and l: "int (length payload) \<le> rlMaxFrameBytes (normalized_repair L)"
    using assms by (auto simp: EncodeRepairAck_def Let_def resE split: if_splits)
  show "int (length payload) \<le> rlMaxFrameBytes (normalized_repair L)" by (rule l)
  have wf: "json_wf (ack_json ?a)" by (simp add: ack_json_def)
  show "decodeRepairType payload = Inr RepairAckMessageType"
    unfolding p by (rule decodeRepairType_print [OF wf repair_depth(3)]) (simp_all add: json_rt)
  have "decodeRepairEnvelope (struct_decode True ack_fields) zeroAck payload = Inr ?a"
    unfolding p by (rule decodeRepairEnvelope_print [OF wf repair_depth(3)]) (simp add: json_rt)
  with l show "DecodeRepairAck payload L = Inr ?a" by (simp add: DecodeRepairAck_def Let_def)
qed

section \<open>The selection\<close>

text \<open>The batch made of the first records \<open>rs\<close> of \<open>n\<close> remaining ones.\<close>

definition tail_batch :: "Version \<Rightarrow> nat \<Rightarrow> Record list \<Rightarrow> RepairBatch" where
  "tail_batch from n rs = \<lparr>rbType = RepairBatchMessageType, rbFrom = from, rbTo = last_version from rs,
     rbMore = length rs < n, rbRecords = rs\<rparr>"

definition encodes :: "RepairLimits \<Rightarrow> RepairBatch \<Rightarrow> bool" where
  "encodes L b \<longleftrightarrow> (\<exists>payload. EncodeRepairBatch b L = Inr payload)"

lemma encodes_valid: "encodes L (tail_batch from n rs) \<Longrightarrow> batch_valid (normalized_repair L) (tail_batch from n rs)"
  by (auto simp: encodes_def EncodeRepairBatch_ok Let_def tail_batch_def)

lemma select_step:
  "select_loop from (normalized_repair L) n sel (r # rest) =
     (if encodes L (tail_batch from n (sel @ [r])) then select_loop from (normalized_repair L) n (sel @ [r]) rest
      else if sel = [] then
        (case validateRepairBatch (tail_batch from n [r]) (normalized_repair L) of Inl e \<Rightarrow> Inl e
         | Inr _ \<Rightarrow> (case EncodeRepairBatch (tail_batch from n [r]) L of Inl e \<Rightarrow> Inl e | Inr _ \<Rightarrow> Inl (EMsg [])))
      else Inr sel)"
proof -
  have t: "\<lparr>rbType = RepairBatchMessageType, rbFrom = from, rbTo = rVersion r, rbMore = length (sel @ [r]) < n, rbRecords = sel @ [r]\<rparr> =
    tail_batch from n (sel @ [r])" by (simp add: tail_batch_def)
  have v: "validateRepairBatch (tail_batch from n (sel @ [r])) (normalized_repair L) = Inr ()"
    if "encodes L (tail_batch from n (sel @ [r]))" using encodes_valid [OF that] by (simp add: validateRepairBatch_ok)
  show ?thesis
    unfolding select_loop.simps Let_def t
    by (cases "validateRepairBatch (tail_batch from n (sel @ [r])) (normalized_repair L)";
        cases "EncodeRepairBatch (tail_batch from n (sel @ [r])) L")
      (use v in \<open>auto simp: encodes_def\<close>)
qed

declare select_loop.simps(2) [simp del]

lemma select_loop_spec:
  assumes "select_loop from (normalized_repair L) n sel rest = Inr out" and "sel \<noteq> [] \<longrightarrow> encodes L (tail_batch from n sel)"
  shows "prefix sel out \<and> prefix out (sel @ rest) \<and> (rest \<noteq> [] \<longrightarrow> out \<noteq> []) \<and> (out \<noteq> [] \<longrightarrow> encodes L (tail_batch from n out)) \<and>
    (\<forall>r. prefix (out @ [r]) (sel @ rest) \<longrightarrow> \<not> encodes L (tail_batch from n (out @ [r])))"
  using assms
proof (induction rest arbitrary: sel)
  case (Cons r rest)
  show ?case
  proof (cases "encodes L (tail_batch from n (sel @ [r]))")
    case True
    with Cons.prems(1) have "select_loop from (normalized_repair L) n (sel @ [r]) rest = Inr out" by (simp add: select_step)
    from Cons.IH [OF this] True show ?thesis by (auto dest: append_prefixD)
  next
    case False
    with Cons.prems have "sel \<noteq> []" "out = sel" by (auto simp: select_step split: if_splits sum.splits)
    with Cons.prems(2) False show ?thesis by (auto simp: prefix_def)
  qed
qed (auto simp: prefix_def)

lemma select_loop_returns:
  assumes "sel \<noteq> [] \<or> rest = [] \<or> encodes L (tail_batch from n [hd rest])"
  shows "\<exists>out. select_loop from (normalized_repair L) n sel rest = Inr out"
  using assms
proof (induction rest arbitrary: sel)
  case (Cons r rest)
  then show ?case by (cases "encodes L (tail_batch from n (sel @ [r]))") (auto simp: select_step)
qed simp

text \<open>The records a peer at \<open>from\<close> misses.\<close>

abbreviation missing :: "Version \<Rightarrow> Journal \<Rightarrow> Record list" where
  "missing from j \<equiv> filter (\<lambda>record. from < rVersion record) (jRecords j)"

definition batch_answers :: "RepairLimits \<Rightarrow> Version \<Rightarrow> Journal \<Rightarrow> RepairBatch \<Rightarrow> bool" where
  "batch_answers L from j b \<longleftrightarrow> jFloor j \<le> from \<and> encodes L b \<and>
     (\<exists>rs. b = tail_batch from (length (missing from j)) rs \<and> prefix rs (missing from j) \<and> (missing from j \<noteq> [] \<longrightarrow> rs \<noteq> []) \<and>
       (\<forall>r. prefix (rs @ [r]) (missing from j) \<longrightarrow> \<not> encodes L (tail_batch from (length (missing from j)) (rs @ [r]))))"


lemma wp_Journal_RepairBatch:
  assumes err: "\<And>e v. same_fs w v \<Longrightarrow> E e (v, j)"
    and ok: "\<And>b v. same_fs w v \<Longrightarrow> \<not> jClosed j \<Longrightarrow> batch_answers L from j b \<Longrightarrow> Q b (v, j)"
  shows "wp (Journal_RepairBatch from L) Q E (w, j)"
  unfolding Journal_RepairBatch_def wp_bind [of "osM pollM"] wp_osM [of pollM]
proof (rule wp_pollM_fs)
  show "E (EStd ErrContext) (v, snd (w, j))" if "same_fs (fst (w, j)) v" for v using that err by simp
  fix v assume "same_fs (fst (w, j)) v"
  then have v: "same_fs w v" by simp
  let ?n = "length (missing from j)"
  have t: "\<lparr>rbType = RepairBatchMessageType, rbFrom = from, rbTo = (if rs = [] then from else rVersion (last rs)),
      rbMore = length rs < ?n, rbRecords = rs\<rparr> = tail_batch from ?n rs" for rs
    by (simp add: tail_batch_def last_version_def)
  have a: "batch_answers L from j (tail_batch from ?n rs)"
    if "\<not> from < jFloor j" "select_loop from (normalized_repair L) ?n [] (missing from j) = Inr rs"
      "EncodeRepairBatch (tail_batch from ?n rs) L = Inr p" for rs p
    using that select_loop_spec [OF that(2)] unfolding batch_answers_def encodes_def by auto
  have k: "Q \<lparr>rbType = RepairBatchMessageType, rbFrom = from, rbTo = to, rbMore = more, rbRecords = rs\<rparr> (v, j)"
    if "\<not> jClosed j" "\<not> from < jFloor j" "select_loop from (normalized_repair L) ?n [] (missing from j) = Inr rs"
      "EncodeRepairBatch (tail_batch from ?n rs) L = Inr p" "to = last_version from rs" "more \<longleftrightarrow> length rs < ?n" for rs p to more
    using ok [OF v that(1) a [OF that(2-4)]] that(5,6) by (simp add: tail_batch_def)
  show "wp (let limits = normalized_repair L in bindM ensureOpenLocked (\<lambda>_. bindM (selfM (\<lambda>j. j)) (\<lambda>j.
     bindM (guardM (Compare from (jFloor j) < 0) (EJournal ErrPeerBehindWatermark)) (\<lambda>_.
     let remaining = filter (\<lambda>record. Compare (rVersion record) from > 0) (jRecords j) in
     bindM (liftE (select_loop from limits (length remaining) [] remaining)) (\<lambda>selected.
     let batch = \<lparr>rbType = RepairBatchMessageType, rbFrom = from, rbTo = (if selected = [] then from else rVersion (last selected)),
                  rbMore = length selected < length remaining, rbRecords = selected\<rparr> in
     bindM (liftE (EncodeRepairBatch batch limits)) (\<lambda>_. returnM batch)))))) Q E (v, snd (w, j))"
    by (simp add: Let_def t wp_bind wp_ensureOpen wp_selfM wp_effect wp_basic split: sum.split option.split split del: if_split)
      (use err [OF v] in \<open>auto intro!: k simp: last_version_def\<close>)
qed

lemma wp_PlanRepair_batch:
  assumes "\<not> from < jFloor j" and err: "\<And>e v. same_fs w v \<Longrightarrow> E e (v, j)"
    and ok: "\<And>b p v. same_fs w v \<Longrightarrow> \<not> jClosed j \<Longrightarrow> batch_answers L from j b \<Longrightarrow> EncodeRepairBatch b L = Inr p \<Longrightarrow>
      Q \<lparr>rpMode = RepairPlanJournal, rpFrom = rbFrom b, rpTo = rbTo b, rpMore = rbMore b, rpPayload = p\<rparr> (v, j)"
  shows "wp (PlanRepair from snapshot L) Q E (w, j)"
  unfolding PlanRepair_def wp_bind [of "osM pollM"] wp_osM [of pollM]
proof (rule wp_pollM_fs)
  fix v assume v: "same_fs (fst (w, j)) v"
  then show "E (EStd ErrContext) (v, snd (w, j))" using err by simp
  have n: "batch_answers (normalized_repair L) from j b = batch_answers L from j b" for b by (simp add: batch_answers_def encodes_def)
  have "wp (Journal_RepairBatch from (normalized_repair L)) (\<lambda>batch. wp (bindM (liftE (EncodeRepairBatch batch (normalized_repair L)))
     (\<lambda>payload. returnM \<lparr>rpMode = RepairPlanJournal, rpFrom = rbFrom batch, rpTo = rbTo batch, rpMore = rbMore batch, rpPayload = payload\<rparr>)) Q E) E (v, j)"
  proof (rule wp_Journal_RepairBatch)
    fix e u assume "same_fs v u" then show "E e (u, j)" using v same_fs_trans by (auto intro: err)
  next
    fix b u assume "same_fs v u" "\<not> jClosed j" "batch_answers (normalized_repair L) from j b"
    moreover from this v have "same_fs w u" using same_fs_trans by auto
    ultimately show "wp (bindM (liftE (EncodeRepairBatch b (normalized_repair L)))
     (\<lambda>payload. returnM \<lparr>rpMode = RepairPlanJournal, rpFrom = rbFrom b, rpTo = rbTo b, rpMore = rbMore b, rpPayload = payload\<rparr>)) Q E (u, j)"
      by (auto simp: wps n intro: ok err split: sum.split)
  qed
  then show "wp (let limits = normalized_repair L in bindM (selfM jFloor) (\<lambda>floor'.
     if Compare from floor' < 0 then
       (case snapshot of
          None \<Rightarrow> throwM (ERepair ErrRepairSnapshotRequired)
        | Some snapshot \<Rightarrow>
            bindM (guardM (Watermark snapshot \<noteq> floor') (ERepair ErrRepairSnapshotWatermark)) (\<lambda>_.
            bindM (liftE (EncodeRepairSnapshot \<lparr>rsType = RepairSnapshotMessageType, rsWatermark = Watermark snapshot,
                     rsRecords = cpRecords snapshot\<rparr> limits)) (\<lambda>payload.
            returnM \<lparr>rpMode = RepairPlanSnapshot, rpFrom = from, rpTo = floor', rpMore = False, rpPayload = payload\<rparr>)))
     else
       bindM (Journal_RepairBatch from limits) (\<lambda>batch.
       bindM (liftE (EncodeRepairBatch batch limits)) (\<lambda>payload.
       returnM \<lparr>rpMode = RepairPlanJournal, rpFrom = rbFrom batch, rpTo = rbTo batch, rpMore = rbMore batch, rpPayload = payload\<rparr>)))) Q E (v, snd (w, j))"
    using assms(1) by (simp add: Let_def wp_bind wp_selfM)
qed

section \<open>What is left after a batch\<close>




section \<open>Undisturbed runs of the planner\<close>

lemma RepairBatch_calm:
  assumes "calm w" "jFile j = Some i" "\<not> jClosed j" "jFloor j \<le> from"
    and "encodes L (tail_batch from (length (missing from j)) (take 1 (missing from j)))"
  shows "\<exists>b. Journal_RepairBatch from L (w, j) = (Inr b, (w, j)) \<and> batch_answers L from j b"
proof -
  let ?n = "length (missing from j)"
  have "[] \<noteq> [] \<or> missing from j = [] \<or> encodes L (tail_batch from ?n [hd (missing from j)])"
    using assms(5) by (cases "missing from j") auto
  from select_loop_returns [OF this] obtain out where o: "select_loop from (normalized_repair L) ?n [] (missing from j) = Inr out" ..
  have "encodes L (tail_batch from ?n out)"
    using select_loop_spec [OF o] assms(5) by (cases "missing from j") auto
  then obtain p where p: "EncodeRepairBatch (tail_batch from ?n out) L = Inr p" by (auto simp: encodes_def)
  have t: "\<lparr>rbType = RepairBatchMessageType, rbFrom = from, rbTo = (if out = [] then from else rVersion (last out)),
      rbMore = length out < ?n, rbRecords = out\<rparr> = tail_batch from ?n out"
    by (simp add: tail_batch_def last_version_def)
  have nf: "\<not> from < jFloor j" using assms(4) by simp
  have r: "Journal_RepairBatch from L (w, j) = (Inr (tail_batch from ?n out), (w, j))"
    unfolding Journal_RepairBatch_def Let_def
    using assms(1-3) nf p by (simp add: monad pollM_calm ensureOpenLocked_def o t split del: if_split)
  have "wp (Journal_RepairBatch from L) (\<lambda>b _. batch_answers L from j b) (\<lambda>_ _. True) (w, j)"
    by (rule wp_Journal_RepairBatch) auto
  with r show ?thesis by (auto simp: wp_def)
qed

lemma PlanRepair_calm:
  assumes "calm w" "jFile j = Some i" "\<not> jClosed j" "jFloor j \<le> from"
    and "encodes L (tail_batch from (length (missing from j)) (take 1 (missing from j)))"
  shows "\<exists>b p. PlanRepair from s L (w, j) =
      (Inr \<lparr>rpMode = RepairPlanJournal, rpFrom = rbFrom b, rpTo = rbTo b, rpMore = rbMore b, rpPayload = p\<rparr>, (w, j)) \<and>
    EncodeRepairBatch b L = Inr p \<and> batch_answers L from j b"
proof -
  have "encodes (normalized_repair L) b = encodes L b" for b by (simp add: encodes_def)
  then have a: "encodes (normalized_repair L) (tail_batch from (length (missing from j)) (take 1 (missing from j)))"
    "\<And>b. batch_answers (normalized_repair L) from j b = batch_answers L from j b" using assms(5) by (simp_all add: batch_answers_def)
  from RepairBatch_calm [OF assms(1-4) a(1)] obtain b where
    b: "Journal_RepairBatch from (normalized_repair L) (w, j) = (Inr b, (w, j))" "batch_answers L from j b" by (auto simp: a(2))
  from b(2) obtain p where p: "EncodeRepairBatch b L = Inr p" by (auto simp: batch_answers_def encodes_def)
  with b assms show ?thesis by (auto simp: PlanRepair_def monad pollM_calm not_less Let_def)
qed


section \<open>Theorems\<close>

text \<open>
  Repair frames round-trip.  Whatever \<^verbatim>\<open>EncodeRepairFrame\<close> accepts fits the frame bound, and a peer with the
  lifecycle capability and the same limits decodes it to the same batch, the same acknowledgement, or
  the snapshot with its records in canonical order; a peer without the capability refuses it.
\<close>

theorem repair_frame_roundtrip:
  assumes "EncodeRepairFrame frame L = Inr payload"
  shows "int (length payload) \<le> rlMaxFrameBytes (normalized_repair L) \<and>
    (if HasLifecycleCapability caps
     then \<exists>f. DecodeRepairFrameForPeer payload caps L = Inr f \<and>
       rfBatch f = map_option (rbType_update (\<lambda>_. RepairBatchMessageType)) (rfBatch frame) \<and>
       rfAck f = map_option (raType_update (\<lambda>_. RepairAckMessageType)) (rfAck frame) \<and>
       (case rfSnapshot frame of None \<Rightarrow> rfSnapshot f = None
        | Some s \<Rightarrow> \<exists>n. rfSnapshot f = Some n \<and> rsWatermark n = rsWatermark s \<and>
            normalizeCheckpointRecords (rsRecords s) (rsWatermark s) (rlRecordLimits L) = Inr (rsRecords n))
     else DecodeRepairFrameForPeer payload caps L = Inl (ETransport ErrLifecycleCapabilityRequired))"
proof -
  consider (b) b where "frame = \<lparr>rfType = rfType frame, rfBatch = Some b, rfSnapshot = None, rfAck = None\<rparr>" "EncodeRepairBatch b L = Inr payload"
    | (s) n where "frame = \<lparr>rfType = rfType frame, rfBatch = None, rfSnapshot = Some n, rfAck = None\<rparr>" "EncodeRepairSnapshot n L = Inr payload"
    | (a) a where "frame = \<lparr>rfType = rfType frame, rfBatch = None, rfSnapshot = None, rfAck = Some a\<rparr>" "EncodeRepairAck a L = Inr payload"
    using assms by (cases frame) (auto simp: EncodeRepairFrame_def present_count_def resE split: option.splits if_splits)
  then show ?thesis
  proof cases
    case b
    with batch_roundtrip [OF b(2)] show ?thesis
      by (cases frame) (auto simp: DecodeRepairFrameForPeer_def DecodeRepairFrame_def Let_def)
  next
    case s
    with snapshot_roundtrip [OF s(2)] show ?thesis
      by (cases frame) (auto simp: DecodeRepairFrameForPeer_def DecodeRepairFrame_def Let_def)
  next
    case a
    with ack_roundtrip [OF a(2)] show ?thesis
      by (cases frame) (auto simp: DecodeRepairFrameForPeer_def DecodeRepairFrame_def Let_def)
  qed
qed


definition example_repair_limits :: RepairLimits where
  "example_repair_limits = \<lparr>rlMaxRecords = 0, rlMaxLogicalKeyBytes = 0, rlMaxMetadataBytes = 0, rlMaxFrameBytes = 0, rlRecordLimits = example_limits\<rparr>"

lemma example_repair_normalized [simp]:
  "normalized_repair example_repair_limits = \<lparr>rlMaxRecords = 128, rlMaxLogicalKeyBytes = 65536, rlMaxMetadataBytes = 65536,
     rlMaxFrameBytes = 131072, rlRecordLimits = normalized_limits example_limits\<rparr>"
  by (simp add: normalized_repair_def example_repair_limits_def or_default_def DefaultMaxRepairRecords_def DefaultMaxRepairLogicalKeyBytes_def
      DefaultMaxRepairMetadataBytes_def DefaultMaxRepairFrameBytes_def)

lemma example_batch_encodes: "encodes example_repair_limits (tail_batch zeroVersion 1 [example_record 1])"
proof -
  let ?b = "tail_batch zeroVersion 1 [example_record 1]"
  have "length (json_print (batch_json ?b)) < 1000"
    by (simp add: ev batch_json_def tail_batch_def RepairBatchMessageType_def zeroVersion_def)
  moreover have "fst (repairRecordBytes (example_record 1)) < 1000" "snd (repairRecordBytes (example_record 1)) < 1000"
    by (simp_all add: ev repairRecordBytes_def)
  then have "batch_valid (normalized_repair example_repair_limits) ?b"
    by (simp add: batch_valid_def tail_batch_def sums_fit_def)
  ultimately show ?thesis
    unfolding encodes_def EncodeRepairBatch_ok by (simp add: tail_batch_def)
qed

theorem repair_frame_roundtrip_witness:
  "\<exists>payload f. EncodeRepairFrame \<lparr>rfType = [], rfBatch = Some (tail_batch zeroVersion 1 [example_record 1]), rfSnapshot = None, rfAck = None\<rparr>
     example_repair_limits = Inr payload \<and>
     DecodeRepairFrameForPeer payload [LifecycleCapabilityV1] example_repair_limits = Inr f \<and>
     rfBatch f = Some (tail_batch zeroVersion 1 [example_record 1])"
proof -
  obtain p where p: "EncodeRepairBatch (tail_batch zeroVersion 1 [example_record 1]) example_repair_limits = Inr p"
    using example_batch_encodes by (auto simp: encodes_def)
  then have e: "EncodeRepairFrame \<lparr>rfType = [], rfBatch = Some (tail_batch zeroVersion 1 [example_record 1]), rfSnapshot = None, rfAck = None\<rparr>
     example_repair_limits = Inr p" by (simp add: EncodeRepairFrame_def present_count_def)
  from repair_frame_roundtrip [OF e, of "[LifecycleCapabilityV1]"] e show ?thesis
    by (auto simp: HasLifecycleCapability_def tail_batch_def)
qed

text \<open>
  C19. The batch \<^verbatim>\<open>Journal.RepairBatch\<close> returns is exact and bounded.  Its records are the first of those after
  the peer's version, at least one when there is any, as many as fit (one more would exceed a bound), its
  end is the version of its last record, and the more flag is set exactly when records are left.
\<close>

theorem repair_batch_exact:
  assumes "Journal_RepairBatch from L (w, j) = (Inr b, (v, j'))"
  shows "j' = j \<and> jFloor j \<le> from \<and> rbFrom b = from \<and> rbTo b = last_version from (rbRecords b) \<and>
    int (length (rbRecords b)) \<le> rlMaxRecords (normalized_repair L) \<and>
    (\<exists>rest. missing from j = rbRecords b @ rest \<and> (rbMore b \<longleftrightarrow> rest \<noteq> []) \<and> (rbRecords b = [] \<longrightarrow> rest = []) \<and>
      (\<forall>r qs. rest = r # qs \<longrightarrow> (\<forall>payload. EncodeRepairBatch
         \<lparr>rbType = RepairBatchMessageType, rbFrom = from, rbTo = rVersion r, rbMore = qs \<noteq> [], rbRecords = rbRecords b @ [r]\<rparr> L \<noteq> Inr payload))) \<and>
    (\<exists>payload. EncodeRepairBatch b L = Inr payload \<and> int (length payload) \<le> rlMaxFrameBytes (normalized_repair L))"
proof -
  have "wp (Journal_RepairBatch from L) (\<lambda>b s. batch_answers L from j b \<and> snd s = j) (\<lambda>_ _. True) (w, j)"
    by (rule wp_Journal_RepairBatch) auto
  with assms have a: "batch_answers L from j b" "j' = j" by (simp_all add: wp_def)
  let ?m = "missing from j"
  obtain rs rest where b: "b = tail_batch from (length ?m) rs" "?m = rs @ rest" "?m \<noteq> [] \<longrightarrow> rs \<noteq> []"
    "\<forall>r. prefix (rs @ [r]) ?m \<longrightarrow> \<not> encodes L (tail_batch from (length ?m) (rs @ [r]))"
    using a(1) by (auto simp: batch_answers_def prefix_def)
  obtain p where p: "EncodeRepairBatch b L = Inr p" using a(1) by (auto simp: batch_answers_def encodes_def)
  have valid: "batch_valid (normalized_repair L) b" using a(1) b(1) encodes_valid by (auto simp: batch_answers_def)
  have max: "EncodeRepairBatch \<lparr>rbType = RepairBatchMessageType, rbFrom = from, rbTo = rVersion r, rbMore = qs \<noteq> [],
      rbRecords = rs @ [r]\<rparr> L \<noteq> Inr payload" if "rest = r # qs" for r qs payload
    using b(4) that b(2) by (auto simp: encodes_def tail_batch_def)
  have "rbRecords b = rs" "rbMore b = (rest \<noteq> [])" "rbFrom b = from" using b(1,2) by (simp_all add: tail_batch_def)
  moreover have "jFloor j \<le> from" "rbTo b = last_version from (rbRecords b)" "int (length (rbRecords b)) \<le> rlMaxRecords (normalized_repair L)"
    using a(1) valid calculation(3) by (simp_all add: batch_valid_def batch_answers_def)
  moreover have "\<exists>rest. missing from j = rs @ rest \<and> (rbMore b \<longleftrightarrow> rest \<noteq> []) \<and> (rs = [] \<longrightarrow> rest = []) \<and>
      (\<forall>r qs. rest = r # qs \<longrightarrow> (\<forall>payload. EncodeRepairBatch
         \<lparr>rbType = RepairBatchMessageType, rbFrom = from, rbTo = rVersion r, rbMore = qs \<noteq> [], rbRecords = rs @ [r]\<rparr> L \<noteq> Inr payload))"
    using b(2,3) max calculation(2) by (intro exI [of _ rest]) auto
  ultimately show ?thesis using a(2) batch_roundtrip(3) [OF p] p by blast
qed


theorem repair_batch_exact_witness:
  "\<exists>b. Journal_RepairBatch zeroVersion example_repair_limits (example_world, example_journal) = (Inr b, (example_world, example_journal)) \<and>
     rbRecords b = [example_record 1] \<and> rbTo b = MkVersion 1 1 \<and> \<not> rbMore b"
proof -
  have m: "missing zeroVersion example_journal = [example_record 1]" by (simp add: example_journal_def)
  have "jFile example_journal = Some 0" "\<not> jClosed example_journal" "jFloor example_journal \<le> zeroVersion"
    by (simp_all add: example_journal_def)
  from RepairBatch_calm [OF example_journal_inv(3) this, of example_repair_limits] example_batch_encodes m obtain b where
    b: "Journal_RepairBatch zeroVersion example_repair_limits (example_world, example_journal) = (Inr b, (example_world, example_journal))"
    by auto
  from repair_batch_exact [OF b] m obtain rest where r: "[example_record 1] = rbRecords b @ rest" "rbMore b \<longleftrightarrow> rest \<noteq> []"
    "rbRecords b = [] \<longrightarrow> rest = []" "rbTo b = last_version zeroVersion (rbRecords b)" by auto
  from r(1,3) have "rbRecords b = [example_record 1]" "rest = []" by (cases "rbRecords b"; auto)+
  with r(2,4) b show ?thesis by simp
qed

text \<open>
  What \<^verbatim>\<open>PlanRepair\<close> sends is what the peer needs.  The payload of a plan decodes at the peer.  A peer below
  the journal's floor gets the snapshot taken at that floor, with the records of the checkpoint; any other
  peer gets a batch that starts at its version and holds the next records, which it classifies as ready
  exactly when there is something to apply, and which a peer that is already past its end takes for a duplicate.
\<close>

theorem plan_repair_answers:
  assumes "PlanRepair from snapshot L (w, j) = (Inr plan, (v, j'))" and "HasLifecycleCapability caps"
  shows "\<exists>f. DecodeRepairFrameForPeer (rpPayload plan) caps L = Inr f \<and> j' = j \<and>
    (if from < jFloor j
     then \<exists>cp n. snapshot = Some cp \<and> Watermark cp = jFloor j \<and> rfSnapshot f = Some n \<and> rsWatermark n = jFloor j \<and>
       mset (rsRecords n) = mset (cpRecords cp) \<and> rpMode plan = RepairPlanSnapshot \<and> rpTo plan = jFloor j \<and> \<not> rpMore plan
     else \<exists>b rest. rfBatch f = Some b \<and> rpMode plan = RepairPlanJournal \<and> rpFrom plan = from \<and> rpTo plan = last_version from (rbRecords b) \<and>
       missing from j = rbRecords b @ rest \<and> (rpMore plan \<longleftrightarrow> rest \<noteq> []) \<and>
       (\<forall>expected. Delivery b expected L =
          (if rpTo plan \<le> expected then Inr RepairDeliveryDuplicate
           else if expected = from then Inr RepairDeliveryReady else Inl (ERepair ErrRepairWatermarkMismatch))) \<and>
       (from < rpTo plan \<longleftrightarrow> missing from j \<noteq> []))"
proof (cases "from < jFloor j")
  case True
  have "wp (PlanRepair from snapshot L) (\<lambda>plan s. snd s = j \<and> (\<exists>cp. snapshot = Some cp \<and> Watermark cp = jFloor j \<and> rpMode plan = RepairPlanSnapshot \<and>
      rpTo plan = jFloor j \<and> \<not> rpMore plan \<and> EncodeRepairSnapshot \<lparr>rsType = RepairSnapshotMessageType, rsWatermark = jFloor j,
      rsRecords = cpRecords cp\<rparr> L = Inr (rpPayload plan))) (\<lambda>_ _. True) (w, j)"
    unfolding PlanRepair_def wp_bind [of "osM pollM"] wp_osM [of pollM]
    by (rule wp_pollM_fs) (use True in \<open>auto simp: wps Let_def split: option.split sum.split\<close>)
  with assms(1) obtain cp where c: "j' = j" "snapshot = Some cp" "Watermark cp = jFloor j" "rpMode plan = RepairPlanSnapshot"
    "rpTo plan = jFloor j" "\<not> rpMore plan" "EncodeRepairSnapshot \<lparr>rsType = RepairSnapshotMessageType, rsWatermark = jFloor j,
      rsRecords = cpRecords cp\<rparr> L = Inr (rpPayload plan)" by (auto simp: wp_def)
  from snapshot_roundtrip [OF c(7)] c(1-6) True assms(2) show ?thesis
    by (auto simp: DecodeRepairFrameForPeer_def DecodeRepairFrame_def Let_def normalizeCheckpointRecords_ok)
next
  case False
  have "wp (PlanRepair from snapshot L) (\<lambda>plan s. snd s = j \<and> (\<exists>b. batch_answers L from j b \<and> EncodeRepairBatch b L = Inr (rpPayload plan) \<and>
      rpMode plan = RepairPlanJournal \<and> rpFrom plan = rbFrom b \<and> rpTo plan = rbTo b \<and> rpMore plan = rbMore b)) (\<lambda>_ _. True) (w, j)"
    by (rule wp_PlanRepair_batch [OF False]) auto
  with assms(1) obtain b where b: "j' = j" "batch_answers L from j b" "EncodeRepairBatch b L = Inr (rpPayload plan)"
      "rpMode plan = RepairPlanJournal" "rpFrom plan = rbFrom b" "rpTo plan = rbTo b" "rpMore plan = rbMore b" by (auto simp: wp_def)
  from b(2) obtain rs rest where r: "b = tail_batch from (length (missing from j)) rs" "missing from j = rs @ rest" "missing from j \<noteq> [] \<longrightarrow> rs \<noteq> []"
    by (auto simp: batch_answers_def prefix_def)
  have v: "batch_valid (normalized_repair L) b" using b(2) r(1) encodes_valid by (auto simp: batch_answers_def)
  have d: "Delivery b expected L = (if rpTo plan \<le> expected then Inr RepairDeliveryDuplicate
      else if expected = from then Inr RepairDeliveryReady else Inl (ERepair ErrRepairWatermarkMismatch))" for expected
    using v b(6) r(1) by (simp add: Delivery_def Let_def validateRepairBatch_ok [of _ _ "()", THEN iffD2] tail_batch_def)
  have "from < rpTo plan \<longleftrightarrow> missing from j \<noteq> []"
    using v r b(6) by (cases rs) (auto simp: batch_valid_def tail_batch_def dest: increasing_le_last intro: order.strict_trans1)
  with d r b batch_roundtrip [OF b(3)] False assms(2) show ?thesis
    by (simp add: DecodeRepairFrameForPeer_def DecodeRepairFrame_def Let_def tail_batch_def)
qed


theorem plan_repair_answers_witness:
  "\<exists>plan f. PlanRepair zeroVersion None example_repair_limits (example_world, example_journal) = (Inr plan, (example_world, example_journal)) \<and>
     DecodeRepairFrameForPeer (rpPayload plan) [LifecycleCapabilityV1] example_repair_limits = Inr f \<and> zeroVersion < rpTo plan"
proof -
  have m: "missing zeroVersion example_journal = [example_record 1]" "jFloor example_journal = zeroVersion" by (simp_all add: example_journal_def)
  have "jFile example_journal = Some 0" "\<not> jClosed example_journal" "jFloor example_journal \<le> zeroVersion"
    by (simp_all add: example_journal_def)
  from PlanRepair_calm [OF example_journal_inv(3) this, of example_repair_limits None] example_batch_encodes m(1) obtain plan where
    p: "PlanRepair zeroVersion None example_repair_limits (example_world, example_journal) = (Inr plan, (example_world, example_journal))"
    by auto
  have "HasLifecycleCapability [LifecycleCapabilityV1]" by (simp add: HasLifecycleCapability_def)
  from plan_repair_answers [OF p this] p m show ?thesis by auto
qed







end
