(* ===== verification/Storage_Keys.thy ===== *)
theory Storage_Keys
  imports Go_Codec Go_World
begin

text \<open>
  \<^verbatim>\<open>storage/hash.go\<close> and \<^verbatim>\<open>storage/page.go\<close>: content-addressed keys, and the bounded sorted page that a key scan keeps.
  The first part is \<^verbatim>\<open>sort.Search\<close>, the binary search of the standard library.
\<close>

section \<open>Binary search\<close>

text \<open>\<open>go_search f i j\<close> is the loop of \<^verbatim>\<open>sort.Search\<close> with the current bounds.\<close>

function go_search :: "(nat \<Rightarrow> bool) \<Rightarrow> nat \<Rightarrow> nat \<Rightarrow> nat" where
  "go_search f i j =
     (if i < j then
        (let h = (i + j) div 2 in
         if \<not> f h then go_search f (h + 1) j else go_search f i h)
      else i)"
  by pat_completeness auto
termination by (relation "measure (\<lambda>(f, i, j). j - i)") auto

declare go_search.simps [simp del]

definition sort_Search :: "nat \<Rightarrow> (nat \<Rightarrow> bool) \<Rightarrow> nat" where
  "sort_Search n f = go_search f 0 n"

lemma go_search_least:
  assumes "i \<le> j" and "\<And>a b. a \<le> b \<Longrightarrow> b < j \<Longrightarrow> f a \<Longrightarrow> f b"
    and "\<And>a. a < i \<Longrightarrow> \<not> f a" and "\<And>b. j \<le> b \<Longrightarrow> b < n \<Longrightarrow> f b" and "j \<le> n"
  shows "go_search f i j \<le> n \<and> (\<forall>a<go_search f i j. \<not> f a) \<and> (\<forall>b. go_search f i j \<le> b \<and> b < n \<longrightarrow> f b)"
  using assms
proof (induction f i j rule: go_search.induct)
  case (1 f i j)
  show ?case
  proof (cases "i < j")
    case True
    define h where "h = (i + j) div 2"
    have b: "i \<le> h" "h < j" using True by (auto simp: h_def)
    have eq: "go_search f i j = (if f h then go_search f i h else go_search f (h + 1) j)"
      using True by (simp add: go_search.simps [of f i j] Let_def h_def)
    show ?thesis
    proof (cases "f h")
      case True
      have up: "f b" if "h \<le> b" "b < n" for b
        using that 1(4) [of h b] 1(6) [of b] True by (cases "b < j") simp_all
      have "go_search f i h \<le> n \<and> (\<forall>a<go_search f i h. \<not> f a) \<and> (\<forall>b. go_search f i h \<le> b \<and> b < n \<longrightarrow> f b)"
        by (rule 1(2) [OF \<open>i < j\<close> h_def]) (use True 1(4,5,7) up b in simp_all)
      with True eq show ?thesis by simp
    next
      case False
      have down: "\<not> f a" if "a < h + 1" for a
        using that 1(4) [of a h] False b by auto
      have "go_search f (h + 1) j \<le> n \<and> (\<forall>a<go_search f (h + 1) j. \<not> f a) \<and> (\<forall>b. go_search f (h + 1) j \<le> b \<and> b < n \<longrightarrow> f b)"
        by (rule 1(1) [OF \<open>i < j\<close> h_def False]) (use 1(4,6,7) down b in simp_all)
      with False eq show ?thesis by simp
    qed
  next
    case False
    with 1(3) have "i = j" by simp
    with 1(5-7) show ?thesis by (simp add: go_search.simps [of f j j])
  qed
qed

text \<open>On a predicate that stays true once it is true, \<^verbatim>\<open>sort.Search\<close> finds where it becomes true.\<close>

lemma sort_Search_least:
  assumes "\<And>a b. a \<le> b \<Longrightarrow> b < n \<Longrightarrow> f a \<Longrightarrow> f b"
  shows "sort_Search n f \<le> n" and "a < sort_Search n f \<Longrightarrow> \<not> f a" and "sort_Search n f \<le> b \<Longrightarrow> b < n \<Longrightarrow> f b"
  using go_search_least [of 0 n f n] assms unfolding sort_Search_def by auto

section \<open>Content-addressed keys\<close>

definition SHA256KeyBytes :: nat where "SHA256KeyBytes = 32"
definition SHA256KeyHexBytes :: nat where "SHA256KeyHexBytes = 32 * 2"

definition SHA256Key :: "bytes \<Rightarrow> bytes" where
  "SHA256Key data = sha256 data"

definition SHA256KeyHex :: "bytes \<Rightarrow> bytes" where
  "SHA256KeyHex data = hex_encode (sha256 data)"

definition ValidateSHA256Key :: "bytes \<Rightarrow> err + unit" where
  "ValidateSHA256Key key = guardE (length key \<noteq> SHA256KeyBytes) (EStorage ErrInvalidSHA256Key)"

definition ParseSHA256KeyHex :: "bytes \<Rightarrow> err + bytes" where
  "ParseSHA256KeyHex s =
     bindE (guardE (length s \<noteq> SHA256KeyHexBytes) (EStorage ErrInvalidSHA256HexKey)) (\<lambda>_.
     case hex_decode s of
       None \<Rightarrow> Inl (EStorage ErrInvalidSHA256HexKey)
     | Some key \<Rightarrow> bindE (ValidateSHA256Key key) (\<lambda>_. Inr key))"

definition VerifySHA256Key :: "bytes \<Rightarrow> bytes \<Rightarrow> err + unit" where
  "VerifySHA256Key key data =
     bindE (ValidateSHA256Key key) (\<lambda>_.
     guardE (key \<noteq> SHA256Key data) (EStorage ErrSHA256Mismatch))"

lemma VerifySHA256Key_ok: "VerifySHA256Key key data = Inr u \<longleftrightarrow> key = sha256 data"
  by (auto simp: VerifySHA256Key_def ValidateSHA256Key_def SHA256Key_def SHA256KeyBytes_def resE)

lemma VerifySHA256Key_cases:
  "VerifySHA256Key key data =
     (if length key \<noteq> 32 then Inl (EStorage ErrInvalidSHA256Key)
      else if key \<noteq> sha256 data then Inl (EStorage ErrSHA256Mismatch) else Inr ())"
  by (simp add: VerifySHA256Key_def ValidateSHA256Key_def SHA256Key_def SHA256KeyBytes_def)

text \<open>The printed key of a blob parses back, and every parsed key prints as a key of the right length.\<close>

lemma sha256_hex_roundtrip: "ParseSHA256KeyHex (SHA256KeyHex data) = Inr (SHA256Key data)"
  by (simp add: ParseSHA256KeyHex_def SHA256KeyHex_def SHA256Key_def SHA256KeyHexBytes_def ValidateSHA256Key_def SHA256KeyBytes_def)

section \<open>Pages\<close>

definition DefaultKeyPageSize :: int where "DefaultKeyPageSize = 256"

definition normalizeKeyPageLimit :: "int \<Rightarrow> int" where
  "normalizeKeyPageLimit limit = (if limit \<le> 0 then DefaultKeyPageSize else limit)"

text \<open>\<^verbatim>\<open>append\<close>, \<^verbatim>\<open>copy\<close> and the assignment put the key in front of position \<open>index\<close>.\<close>

definition insertKeyPage :: "bytes list \<Rightarrow> bytes \<Rightarrow> bytes \<Rightarrow> int \<Rightarrow> bytes list" where
  "insertKeyPage page key after limit =
     (if after \<noteq> [] \<and> key \<le> after then page
      else
        let index = sort_Search (length page) (\<lambda>i. page ! i \<ge> key) in
        if index < length page \<and> page ! index = key then page
        else if int (length page) \<ge> limit \<and> index = length page then page
        else
          let page = take index page @ [key] @ drop index page in
          if int (length page) > limit then take (nat limit) page else page)"

text \<open>The specification of a page: the first \<open>limit\<close> keys after the cursor in order.\<close>

definition page_after :: "bytes set \<Rightarrow> bytes \<Rightarrow> int \<Rightarrow> bytes list" where
  "page_after ks after limit = take (nat limit) (sorted_list_of_set {k \<in> ks. after = [] \<or> after < k})"

lemma sorted_insert_at:
  fixes xs :: "'a::linorder list"
  assumes "sorted xs" "distinct xs" and "\<And>a. a < i \<Longrightarrow> xs ! a < k" and "\<And>b. i \<le> b \<Longrightarrow> b < length xs \<Longrightarrow> k < xs ! b" and "i \<le> length xs"
  shows "take i xs @ [k] @ drop i xs = sorted_list_of_set (insert k (set xs))"
proof -
  have lo: "x < k" if x: "x \<in> set (take i xs)" for x
  proof -
    obtain a where "a < length (take i xs)" "x = take i xs ! a" using x unfolding in_set_conv_nth by auto
    then show ?thesis using assms(3) by auto
  qed
  have hi: "k < x" if x: "x \<in> set (drop i xs)" for x
  proof -
    obtain b where "b < length (drop i xs)" "x = drop i xs ! b" using x unfolding in_set_conv_nth by auto
    then show ?thesis using assms(4) [of "i + b"] by auto
  qed
  let ?ys = "take i xs @ [k] @ drop i xs"
  have "set ?ys = insert k (set xs)" using append_take_drop_id [of i xs] by (metis Un_insert_right append_Cons append_Nil list.set(2) set_append)
  moreover have "sorted ?ys" using lo hi assms(1) by (auto simp: sorted_append intro: less_imp_le less_trans)
  moreover have "distinct ?ys" using lo hi assms(2) by (auto dest: in_set_takeD in_set_dropD simp: set_take_disj_set_drop_if_distinct)
  ultimately show ?thesis by (metis sorted_list_of_set.idem_if_sorted_distinct)
qed

lemma take_insort: "take n (insort k (take n xs)) = take n (insort k xs)"
proof (induction xs arbitrary: n)
  case (Cons x xs)
  then show ?case by (cases n) (auto simp: take_Cons' min_def split: nat.splits)
qed simp

lemma insort_greater: "\<forall>x\<in>set xs. x < k \<Longrightarrow> insort k xs = xs @ [k]"
  by (induction xs) auto

lemma take_insert_set:
  fixes A :: "'a::linorder set"
  assumes "finite A"
  shows "take n (sorted_list_of_set (insert k A)) = take n (sorted_list_of_set (insert k (set (take n (sorted_list_of_set A)))))"
proof -
  let ?S = "sorted_list_of_set A" and ?p = "take n (sorted_list_of_set A)"
  have S: "sorted ?S" "distinct ?S" "set ?S = A" using assms by auto
  have p: "sorted_list_of_set (set ?p) = ?p"
    using S by (intro sorted_list_of_set.idem_if_sorted_distinct) (auto intro: sorted_wrt_take)
  consider (page) "k \<in> set ?p" | (later) "k \<in> A" "k \<notin> set ?p" | (fresh) "k \<notin> A" by blast
  then show ?thesis
  proof cases
    case page
    then have "k \<in> A" using S(3) by (auto dest: in_set_takeD)
    with page p show ?thesis by (simp add: insert_absorb)
  next
    case later
    then have d: "k \<in> set (drop n ?S)" using S(3) append_take_drop_id [of n ?S] by (metis Un_iff set_append)
    then have l: "length ?p = n" by (cases "n \<le> length ?S") auto
    have "sorted (?p @ drop n ?S)" using S(1) by simp
    with d have "\<forall>x\<in>set ?p. x \<le> k" by (auto simp only: sorted_append)
    with later(2) have "insort k ?p = ?p @ [k]" by (intro insort_greater) (auto simp: order.strict_iff_order)
    with later p l show ?thesis by (simp add: insert_absorb sorted_list_of_set_insert_remove)
  next
    case fresh
    then have "k \<notin> set ?p" using S(3) by (auto dest: in_set_takeD)
    with fresh assms p show ?thesis by (simp add: take_insort)
  qed
qed

lemma insertKeyPage_after:
  assumes "finite ks" and "0 < limit"
  shows "insertKeyPage (page_after ks after limit) key after limit = page_after (insert key ks) after limit"
proof (cases "after \<noteq> [] \<and> key \<le> after")
  case True
  then have "{k \<in> insert key ks. after = [] \<or> after < k} = {k \<in> ks. after = [] \<or> after < k}" by auto
  with True show ?thesis by (simp add: insertKeyPage_def page_after_def)
next
  case False
  let ?A = "{k \<in> ks. after = [] \<or> after < k}" and ?n = "nat limit"
  let ?p = "take ?n (sorted_list_of_set ?A)"
  define index where "index = sort_Search (length ?p) (\<lambda>i. ?p ! i \<ge> key)"
  have fin: "finite ?A" using assms(1) by simp
  have A: "{k \<in> insert key ks. after = [] \<or> after < k} = insert key ?A" using False by auto
  have p: "sorted ?p" "distinct ?p" by (auto intro: sorted_wrt_take)
  have mono: "?p ! b \<ge> key" if "a \<le> b" "b < length ?p" "?p ! a \<ge> key" for a b
    using that p(1) by (meson order_trans sorted_nth_mono)
  have ix: "index \<le> length ?p" "\<And>a. a < index \<Longrightarrow> \<not> ?p ! a \<ge> key" "\<And>b. index \<le> b \<Longrightarrow> b < length ?p \<Longrightarrow> ?p ! b \<ge> key"
    unfolding index_def by (rule sort_Search_least; use mono in blast)+
  have len: "length ?p \<le> ?n" by simp
  have spec: "page_after (insert key ks) after limit = take ?n (sorted_list_of_set (insert key (set ?p)))"
    unfolding page_after_def A by (rule take_insert_set [OF fin])
  show ?thesis
  proof (cases "index < length ?p \<and> ?p ! index = key")
    case True
    then have "key \<in> set ?p" by (metis nth_mem)
    then have "take ?n (sorted_list_of_set (insert key (set ?p))) = ?p"
      using p by (simp add: insert_absorb sorted_list_of_set.idem_if_sorted_distinct)
    with True False spec show ?thesis by (simp add: insertKeyPage_def page_after_def Let_def index_def)
  next
    case out: False
    have hi: "key < ?p ! b" if "index \<le> b" "b < length ?p" for b
    proof -
      have i: "index < length ?p" "key \<noteq> ?p ! index" using that out by auto
      have "key < ?p ! index" by (rule le_neq_trans [OF ix(3) [OF order_refl i(1)] i(2)])
      also have "?p ! index \<le> ?p ! b" by (rule sorted_nth_mono [OF p(1) that])
      finally show ?thesis .
    qed
    have ins: "take index ?p @ [key] @ drop index ?p = sorted_list_of_set (insert key (set ?p))"
      by (rule sorted_insert_at [OF p]) (use ix(1,2) hi in \<open>auto simp: not_le\<close>)
    show ?thesis
    proof (cases "int (length ?p) \<ge> limit \<and> index = length ?p")
      case True
      then have "take ?n (take index ?p @ [key] @ drop index ?p) = ?p" using len by auto
      then have "take ?n (sorted_list_of_set (insert key (set ?p))) = ?p" unfolding ins [symmetric] .
      with True out False spec show ?thesis
        unfolding insertKeyPage_def page_after_def Let_def index_def [symmetric] by auto
    next
      case False': False
      have "take ?n xs = (if int (length xs) > limit then take ?n xs else xs)" for xs :: "bytes list" by simp
      then have "take ?n (sorted_list_of_set (insert key (set ?p))) =
        (if int (length (take index ?p @ [key] @ drop index ?p)) > limit then take ?n (take index ?p @ [key] @ drop index ?p)
         else take index ?p @ [key] @ drop index ?p)"
        unfolding ins [symmetric] .
      then show ?thesis
        unfolding spec insertKeyPage_def unfolding page_after_def Let_def index_def [symmetric]
          if_not_P [OF False] if_not_P [OF out] if_not_P [OF False'] by (rule sym)
    qed
  qed
qed

lemma page_after_empty [simp]: "page_after {} after limit = []"
  by (simp add: page_after_def)

lemma insertKeyPage_scan:
  assumes "0 < limit"
  shows "foldl (\<lambda>page key. insertKeyPage page key after limit) [] ks = page_after (set ks) after limit"
proof (induction ks rule: rev_induct)
  case (snoc k ks)
  then show ?case using insertKeyPage_after [of "set ks" limit after k] assms by simp
qed simp

lemma page_after_props:
  assumes "finite ks"
  shows "sorted (page_after ks after limit)" "distinct (page_after ks after limit)"
    "set (page_after ks after limit) \<subseteq> {k \<in> ks. after = [] \<or> after < k}" "length (page_after ks after limit) \<le> nat limit"
  using assms set_take_subset [of "nat limit" "sorted_list_of_set {k \<in> ks. after = [] \<or> after < k}"]
  by (auto simp: page_after_def intro: sorted_wrt_take)

end
