(* ===== verification/Storage_Memory.thy ===== *)
theory Storage_Memory
  imports Storage_Keys
begin

text \<open>
  \<^verbatim>\<open>storage/store.go\<close> and \<^verbatim>\<open>storage/memory.go\<close>: the blob-store interfaces with the contract their clients rely on,
  and the in-process store with its ordered key index.

  The index is a \<^verbatim>\<open>github.com/google/btree\<close>, which is not part of the repository: the operations the
  store calls are the fields of the argument \<open>bt\<close>, and \<open>btree_laws\<close> states their documented behaviour.
  A Go map is an association list; whatever order a \<^verbatim>\<open>range\<close> takes is the order of some such list.
\<close>

section \<open>The interfaces\<close>

text \<open>An implementation of \<^verbatim>\<open>BlobStore\<close> with state \<open>'s\<close>; its methods also see the world, for the context and the files.\<close>

record 's BlobStore =
  bsPut :: "bytes \<Rightarrow> bytes \<Rightarrow> (world \<times> 's, unit) M"
  bsGet :: "bytes \<Rightarrow> (world \<times> 's, bytes) M"
  bsHas :: "bytes \<Rightarrow> (world \<times> 's, bool) M"
  bsDelete :: "bytes \<Rightarrow> (world \<times> 's, unit) M"

text \<open>
  A value of interface type \<^verbatim>\<open>BlobKeyLister\<close>; \<open>ListKeyPage\<close> is there when the value also implements \<^verbatim>\<open>BlobKeyPager\<close>.
\<close>

record 's BlobKeyLister =
  ListKeys :: "(world \<times> 's, bytes list) M"
  ListKeyPage :: "(bytes \<Rightarrow> int \<Rightarrow> (world \<times> 's, bytes list \<times> bytes) M) option"

text \<open>
  What a client relies on: the store is a map from keys to blobs.  A failed \<^verbatim>\<open>Put\<close> or \<^verbatim>\<open>Delete\<close> may have taken
  effect; a store may refuse to serve a blob whose content does not hash to its key.
\<close>

locale blob_store =
  fixes bs :: "'s BlobStore" and view :: "world \<times> 's \<Rightarrow> bytes \<rightharpoonup> bytes" and ok :: "world \<times> 's \<Rightarrow> bool"
  assumes put: "ok s \<Longrightarrow> wp (bsPut bs k d) (\<lambda>_ t. ok t \<and> k \<noteq> [] \<and> view t = (view s)(k \<mapsto> d))
      (\<lambda>_ t. ok t \<and> (view t = view s \<or> view t = (view s)(k \<mapsto> d))) s"
    and get: "ok s \<Longrightarrow> wp (bsGet bs k) (\<lambda>d t. ok t \<and> view t = view s \<and> view s k = Some d)
      (\<lambda>e t. ok t \<and> view t = view s \<and> (e = EStorage ErrNotFound \<longrightarrow> view s k = None)) s"
    and has: "ok s \<Longrightarrow> wp (bsHas bs k) (\<lambda>b t. ok t \<and> view t = view s \<and>
        (if b then k \<in> dom (view s) else \<forall>d. view s k = Some d \<longrightarrow> length k = 32 \<and> sha256 d \<noteq> k)) (\<lambda>_ t. ok t \<and> view t = view s) s"
    and delete: "ok s \<Longrightarrow> wp (bsDelete bs k) (\<lambda>_ t. ok t \<and> view t = (view s)(k := None))
      (\<lambda>_ t. ok t \<and> (view t = view s \<or> view t = (view s)(k := None))) s"

text \<open>
  An undisturbed read of a stored blob returns it; a \<open>strict\<close> store reports a blob that does not hash to its key instead.
\<close>

locale readable_store = blob_store bs view ok
  for bs :: "'s BlobStore" and view :: "world \<times> 's \<Rightarrow> bytes \<rightharpoonup> bytes" and ok :: "world \<times> 's \<Rightarrow> bool" +
  fixes strict :: bool
  assumes get_calm: "ok s \<Longrightarrow> calm (fst s) \<Longrightarrow> k \<noteq> [] \<Longrightarrow> view s k = Some d \<Longrightarrow>
      bsGet bs k s = (if strict \<and> length k = 32 \<and> sha256 d \<noteq> k then Inl (EStorage ErrSHA256Mismatch) else Inr d, s)"

text \<open>What the pagers return for a page: the page and its last key.\<close>

definition page_result :: "bytes list \<Rightarrow> bytes list \<times> bytes" where
  "page_result page = (if page = [] then ([], []) else (page, last page))"

text \<open>What a client of a pager relies on: over an unchanged key set a page is the exact one.\<close>

locale key_pager =
  fixes page :: "bytes \<Rightarrow> int \<Rightarrow> (world \<times> 's, bytes list \<times> bytes) M" and keys :: "world \<times> 's \<Rightarrow> bytes set" and ok :: "world \<times> 's \<Rightarrow> bool"
  assumes keys_ok: "ok s \<Longrightarrow> finite (keys s) \<and> [] \<notin> keys s"
    and page_calm: "ok s \<Longrightarrow> calm (fst s) \<Longrightarrow> 0 < limit \<Longrightarrow> page after limit s = (Inr (page_result (page_after (keys s) after limit)), s)"

section \<open>The key index\<close>

text \<open>
  \<open>btAscend\<close> and \<open>btFrom\<close> are the keys the call-backs of \<^verbatim>\<open>Ascend\<close> and \<^verbatim>\<open>AscendGreaterOrEqual\<close> are offered, in order.
\<close>

record 't btree =
  btNew :: 't
  btInsert :: "bytes \<Rightarrow> 't \<Rightarrow> 't"
  btDelete :: "bytes \<Rightarrow> 't \<Rightarrow> 't"
  btLen :: "'t \<Rightarrow> int"
  btAscend :: "'t \<Rightarrow> bytes list"
  btFrom :: "bytes \<Rightarrow> 't \<Rightarrow> bytes list"

definition btree_laws :: "'t btree \<Rightarrow> bool" where
  "btree_laws bt \<longleftrightarrow>
     btAscend bt (btNew bt) = [] \<and>
     (\<forall>t. sorted (btAscend bt t) \<and> distinct (btAscend bt t)) \<and>
     (\<forall>k t. set (btAscend bt (btInsert bt k t)) = insert k (set (btAscend bt t))) \<and>
     (\<forall>k t. set (btAscend bt (btDelete bt k t)) = set (btAscend bt t) - {k}) \<and>
     (\<forall>t. btLen bt t = int (length (btAscend bt t))) \<and>
     (\<forall>p t. btFrom bt p t = filter (\<lambda>k. p \<le> k) (btAscend bt t))"

section \<open>The store\<close>

record 't MemoryStore =
  msData :: "(bytes \<times> bytes) list"
  msKeys :: "'t option"

definition NewMemoryStore :: "'t btree \<Rightarrow> 't MemoryStore" where
  "NewMemoryStore bt = \<lparr>msData = [], msKeys = Some (btNew bt)\<rparr>"

definition ensureKeyIndexLocked :: "'t btree \<Rightarrow> 't MemoryStore \<Rightarrow> 't MemoryStore" where
  "ensureKeyIndexLocked bt m =
     (case msKeys m of
        Some _ \<Rightarrow> m
      | None \<Rightarrow> m\<lparr>msKeys := Some (foldl (\<lambda>t key. btInsert bt key t) (btNew bt) (map fst (msData m)))\<rparr>)"

definition keyString :: "bytes \<Rightarrow> err + bytes" where
  "keyString key = bindE (guardE (key = []) (EStorage ErrKeyEmpty)) (\<lambda>_. Inr key)"

definition ms_Put :: "'t btree \<Rightarrow> bytes \<Rightarrow> bytes \<Rightarrow> (world \<times> 't MemoryStore, unit) M" where
  "ms_Put bt key data =
     bindM (osM pollM) (\<lambda>_.
     bindM (liftE (keyString key)) (\<lambda>ks.
     bindM (osM pollM) (\<lambda>_.
     bindM (setM (ensureKeyIndexLocked bt)) (\<lambda>_.
     bindM (selfM (\<lambda>m. map_of (msData m) ks)) (\<lambda>exists.
     bindM (if exists = None then setM (msKeys_update (map_option (btInsert bt ks))) else returnM ()) (\<lambda>_.
     setM (msData_update (AList.update ks data))))))))"

definition ms_Get :: "bytes \<Rightarrow> (world \<times> 't MemoryStore, bytes) M" where
  "ms_Get key =
     bindM (osM pollM) (\<lambda>_.
     bindM (liftE (keyString key)) (\<lambda>ks.
     bindM (selfM (\<lambda>m. map_of (msData m) ks)) (\<lambda>v.
     case v of None \<Rightarrow> throwM (EStorage ErrNotFound) | Some data \<Rightarrow> returnM data)))"

definition ms_Has :: "bytes \<Rightarrow> (world \<times> 't MemoryStore, bool) M" where
  "ms_Has key =
     bindM (osM pollM) (\<lambda>_.
     bindM (liftE (keyString key)) (\<lambda>ks.
     selfM (\<lambda>m. map_of (msData m) ks \<noteq> None)))"

definition ms_Delete :: "'t btree \<Rightarrow> bytes \<Rightarrow> (world \<times> 't MemoryStore, unit) M" where
  "ms_Delete bt key =
     bindM (osM pollM) (\<lambda>_.
     bindM (liftE (keyString key)) (\<lambda>ks.
     bindM (osM pollM) (\<lambda>_.
     bindM (selfM (\<lambda>m. map_of (msData m) ks)) (\<lambda>v.
     if v \<noteq> None then
       bindM (setM (msData_update (AList.delete ks))) (\<lambda>_.
       setM (msKeys_update (map_option (btDelete bt ks))))
     else returnM ()))))"

definition ms_Len :: "'t MemoryStore \<Rightarrow> int" where
  "ms_Len m = int (length (msData m))"

definition ms_Snapshot :: "'t MemoryStore \<Rightarrow> (bytes \<times> bytes) list" where
  "ms_Snapshot m = msData m"

text \<open>The call-backs: each offered key is preceded by a look at the context, and the page call-back stops when the page is full.\<close>

fun collect_keys :: "bytes list \<Rightarrow> bytes list \<Rightarrow> (world, bytes list) M" where
  "collect_keys keys [] = returnM keys"
| "collect_keys keys (key # rest) = bindM pollM (\<lambda>_. collect_keys (keys @ [key]) rest)"

fun collect_page :: "bytes \<Rightarrow> int \<Rightarrow> bytes list \<Rightarrow> bytes list \<Rightarrow> (world, bytes list) M" where
  "collect_page after limit page [] = returnM page"
| "collect_page after limit page (key # rest) =
     bindM pollM (\<lambda>_.
     if after \<noteq> [] \<and> key = after then collect_page after limit page rest
     else
       let page = page @ [key] in
       if int (length page) < limit then collect_page after limit page rest else returnM page)"

fun scan_page :: "bytes \<Rightarrow> int \<Rightarrow> bytes list \<Rightarrow> bytes list \<Rightarrow> (world, bytes list) M" where
  "scan_page after limit page [] = returnM page"
| "scan_page after limit page (key # rest) =
     bindM pollM (\<lambda>_. scan_page after limit (insertKeyPage page key after limit) rest)"

definition ms_ListKeys :: "'t btree \<Rightarrow> (world \<times> 't MemoryStore, bytes list) M" where
  "ms_ListKeys bt =
     bindM (osM pollM) (\<lambda>_.
     bindM (selfM (\<lambda>m. m)) (\<lambda>m.
     case msKeys m of
       Some t \<Rightarrow> osM (collect_keys [] (btAscend bt t))
     | None \<Rightarrow> returnM (sort (map fst (msData m)))))"

definition ms_ListKeyPage :: "'t btree \<Rightarrow> bytes \<Rightarrow> int \<Rightarrow> (world \<times> 't MemoryStore, bytes list \<times> bytes) M" where
  "ms_ListKeyPage bt after limit =
     bindM (osM pollM) (\<lambda>_.
     let limit = normalizeKeyPageLimit limit in
     bindM (selfM (\<lambda>m. m)) (\<lambda>m.
     case msKeys m of
       Some t \<Rightarrow> bindM (osM (collect_page after limit [] (btFrom bt after t))) (\<lambda>page. returnM (page_result page))
     | None \<Rightarrow>
         bindM (osM (scan_page after limit [] (map fst (msData m)))) (\<lambda>page.
         bindM (osM pollM) (\<lambda>_.
         returnM (page_result page)))))"

definition memory_blobs :: "'t btree \<Rightarrow> 't MemoryStore BlobStore" where
  "memory_blobs bt = \<lparr>bsPut = ms_Put bt, bsGet = ms_Get, bsHas = ms_Has, bsDelete = ms_Delete bt\<rparr>"

definition memory_lister :: "'t btree \<Rightarrow> 't MemoryStore BlobKeyLister" where
  "memory_lister bt = \<lparr>ListKeys = ms_ListKeys bt, ListKeyPage = Some (ms_ListKeyPage bt)\<rparr>"

section \<open>The store is a map\<close>

abbreviation memory_view :: "world \<times> 't MemoryStore \<Rightarrow> bytes \<rightharpoonup> bytes" where
  "memory_view s \<equiv> map_of (msData (snd s))"

lemma keyString_cases [simp]: "keyString key = (if key = [] then Inl (EStorage ErrKeyEmpty) else Inr key)"
  by (simp add: keyString_def)

lemma ensure_data [simp]: "msData (ensureKeyIndexLocked bt m) = msData m"
  by (simp add: ensureKeyIndexLocked_def split: option.split)

lemma wp_ms_Put:
  assumes "\<And>e v. E e (v, m)"
    and "\<And>v. key \<noteq> [] \<Longrightarrow> Q () (v, (let m = ensureKeyIndexLocked bt m; m = (if map_of (msData m) key = None then msKeys_update (map_option (btInsert bt key)) m else m)
       in msData_update (AList.update key data) m))"
  shows "wp (ms_Put bt key data) Q E (w, m)"
  unfolding ms_Put_def using assms
  by (cases "key = []") (auto simp: wps Let_def intro!: fsI)

lemma wp_ms_Delete:
  assumes "\<And>e v. E e (v, m)"
    and "\<And>v. key \<noteq> [] \<Longrightarrow> Q () (v, if map_of (msData m) key = None then m
       else msKeys_update (map_option (btDelete bt key)) (msData_update (AList.delete key) m))"
  shows "wp (ms_Delete bt key) Q E (w, m)"
  unfolding ms_Delete_def using assms
  by (cases "key = []") (auto simp: wps intro!: fsI)

lemma wp_ms_Get:
  assumes "\<And>e v. (e = EStorage ErrNotFound \<longrightarrow> map_of (msData m) key = None) \<Longrightarrow> E e (v, m)"
    and "\<And>v d. map_of (msData m) key = Some d \<Longrightarrow> Q d (v, m)"
  shows "wp (ms_Get key) Q E (w, m)"
  unfolding ms_Get_def using assms
  by (cases "key = []") (auto simp: wps intro!: fsI split: option.split)

lemma wp_ms_Has:
  assumes "\<And>e v. E e (v, m)" and "\<And>v. Q (map_of (msData m) key \<noteq> None) (v, m)"
  shows "wp (ms_Has key) Q E (w, m)"
  unfolding ms_Has_def using assms
  by (cases "key = []") (auto simp: wps intro!: fsI)

interpretation mb: readable_store "memory_blobs bt" memory_view "\<lambda>_. True" False for bt :: "'t btree"
proof
  fix s :: "world \<times> 't MemoryStore" and k d
  obtain w m where s: "s = (w, m)" by (cases s)
  show "wp (bsPut (memory_blobs bt) k d) (\<lambda>_ t. True \<and> k \<noteq> [] \<and> memory_view t = (memory_view s)(k \<mapsto> d))
      (\<lambda>_ t. True \<and> (memory_view t = memory_view s \<or> memory_view t = (memory_view s)(k \<mapsto> d))) s"
    unfolding s memory_blobs_def by (simp, rule wp_ms_Put) (auto simp: Let_def update_conv')
  show "wp (bsGet (memory_blobs bt) k) (\<lambda>d t. True \<and> memory_view t = memory_view s \<and> memory_view s k = Some d)
      (\<lambda>e t. True \<and> memory_view t = memory_view s \<and> (e = EStorage ErrNotFound \<longrightarrow> memory_view s k = None)) s"
    unfolding s memory_blobs_def by (simp, rule wp_ms_Get) auto
  show "wp (bsHas (memory_blobs bt) k) (\<lambda>b t. True \<and> memory_view t = memory_view s \<and>
        (if b then k \<in> dom (memory_view s) else \<forall>d. memory_view s k = Some d \<longrightarrow> length k = 32 \<and> sha256 d \<noteq> k))
      (\<lambda>_ t. True \<and> memory_view t = memory_view s) s"
    unfolding s memory_blobs_def by (simp, rule wp_ms_Has) auto
  show "wp (bsDelete (memory_blobs bt) k) (\<lambda>_ t. True \<and> memory_view t = (memory_view s)(k := None))
      (\<lambda>_ t. True \<and> (memory_view t = memory_view s \<or> memory_view t = (memory_view s)(k := None))) s"
    unfolding s memory_blobs_def by (simp, rule wp_ms_Delete) (auto simp: AList.delete_conv')
  assume "calm (fst s)" "k \<noteq> []" "memory_view s k = Some d"
  then show "bsGet (memory_blobs bt) k s = (if False \<and> length k = 32 \<and> sha256 d \<noteq> k then Inl (EStorage ErrSHA256Mismatch) else Inr d, s)"
    by (simp add: s memory_blobs_def ms_Get_def monad calm_run)
qed

section \<open>The index and the pages\<close>

text \<open>The index, when there is one, holds exactly the keys of the map.\<close>

definition index_ok :: "'t btree \<Rightarrow> 't MemoryStore \<Rightarrow> bool" where
  "index_ok bt m \<longleftrightarrow> distinct (map fst (msData m)) \<and> [] \<notin> fst ` set (msData m) \<and>
     (\<forall>t. msKeys m = Some t \<longrightarrow> set (btAscend bt t) = fst ` set (msData m))"

abbreviation ms_keys :: "'t MemoryStore \<Rightarrow> bytes set" where
  "ms_keys m \<equiv> fst ` set (msData m)"

lemma btree_insert_all:
  assumes "btree_laws bt"
  shows "set (btAscend bt (foldl (\<lambda>t key. btInsert bt key t) t ks)) = set ks \<union> set (btAscend bt t)"
  using assms by (induction ks arbitrary: t) (simp_all add: btree_laws_def)

lemma ensure_index:
  assumes "btree_laws bt" and "index_ok bt m"
  shows "index_ok bt (ensureKeyIndexLocked bt m)" and "msKeys (ensureKeyIndexLocked bt m) \<noteq> None"
  using assms btree_insert_all [OF assms(1), of "btNew bt"]
  by (auto simp: ensureKeyIndexLocked_def index_ok_def btree_laws_def split: option.split)

lemma put_index:
  assumes "btree_laws bt" and "index_ok bt m"
  shows "wp (ms_Put bt key data) (\<lambda>_ s. index_ok bt (snd s)) (\<lambda>_ s. index_ok bt (snd s)) (w, m)"
proof (rule wp_ms_Put)
  let ?m = "ensureKeyIndexLocked bt m"
  note e = ensure_index [OF assms(1,2)]
  have k: "map_of (msData m) key = None \<longleftrightarrow> key \<notin> ms_keys m" by (simp add: map_of_eq_None_iff)
  show "index_ok bt (snd (v, (let m = ?m; m = (if map_of (msData m) key = None then msKeys_update (map_option (btInsert bt key)) m else m)
       in msData_update (AList.update key data) m)))" if key: "key \<noteq> []" for v
  proof -
    obtain t where t: "msKeys ?m = Some t" "set (btAscend bt t) = ms_keys m" using e by (auto simp: index_ok_def)
    have i: "set (btAscend bt (btInsert bt key t)) = insert key (ms_keys m)" using assms(1) t(2) by (simp add: btree_laws_def)
    have "distinct (map fst (msData m))" "[] \<notin> ms_keys m" using assms(2) by (simp_all add: index_ok_def)
    with t i key k show ?thesis
      by (cases "key \<in> ms_keys m") (simp_all add: index_ok_def Let_def distinct_update dom_update insert_absorb)
  qed
qed (use assms in simp)

lemma delete_fst: "fst ` set (AList.delete k xs) = fst ` set xs - {k}"
  by (auto simp: AList.delete_eq)

lemma delete_index:
  assumes "btree_laws bt" and "index_ok bt m"
  shows "wp (ms_Delete bt key) (\<lambda>_ s. index_ok bt (snd s)) (\<lambda>_ s. index_ok bt (snd s)) (w, m)"
proof (rule wp_ms_Delete)
  show "index_ok bt (snd (v, if map_of (msData m) key = None then m
       else msKeys_update (map_option (btDelete bt key)) (msData_update (AList.delete key) m)))" for v
    using assms by (cases "msKeys m") (simp_all add: index_ok_def distinct_delete delete_fst btree_laws_def)
qed (use assms in simp)

lemma wp_collect_keys:
  assumes "\<And>e v. same_fs w v \<Longrightarrow> E e v" and "\<And>v. same_fs w v \<Longrightarrow> Q (keys @ ks) v"
  shows "wp (collect_keys keys ks) Q E w"
  using assms
proof (induction ks arbitrary: keys w)
  case (Cons k ks)
  show ?case unfolding collect_keys.simps wp_bind
  proof (rule wp_pollM_fs)
    fix v assume v: "same_fs w v"
    then show "E (EStd ErrContext) v" by (rule Cons.prems)
    show "wp (collect_keys (keys @ [k]) ks) Q E v"
      by (rule Cons.IH) (use Cons.prems v in \<open>auto dest: same_fs_trans\<close>)
  qed
qed (simp add: wps)

lemma wp_collect_page:
  assumes "\<And>e v. same_fs w v \<Longrightarrow> E e v" and "int (length page) < limit"
    and "\<And>v. same_fs w v \<Longrightarrow> Q (page @ take (nat limit - length page) (filter (\<lambda>k. after = [] \<or> k \<noteq> after) ks)) v"
  shows "wp (collect_page after limit page ks) Q E w"
  using assms
proof (induction ks arbitrary: page w)
  case (Cons k ks)
  show ?case unfolding collect_page.simps wp_bind
  proof (rule wp_pollM_fs)
    fix v assume v: "same_fs w v"
    then show "E (EStd ErrContext) v" by (rule Cons.prems)
    have n: "nat limit - length page = Suc (nat limit - Suc (length page))" using Cons.prems(2) by simp
    have t: "same_fs w u" if "same_fs v u" for u using v that by (rule same_fs_trans)
    show "wp (if after \<noteq> [] \<and> k = after then collect_page after limit page ks
        else let page = page @ [k] in if int (length page) < limit then collect_page after limit page ks else returnM page) Q E v"
    proof (cases "after \<noteq> [] \<and> k = after")
      case True
      then show ?thesis using Cons.prems t by (auto intro!: Cons.IH)
    next
      case False
      then have p: "Q ((page @ [k]) @ take (nat limit - Suc (length page)) (filter (\<lambda>k. after = [] \<or> k \<noteq> after) ks)) u" if "same_fs v u" for u
        using Cons.prems(3) [OF t [OF that]] n by auto
      show ?thesis
      proof (cases "int (length (page @ [k])) < limit")
        case True
        then have "wp (collect_page after limit (page @ [k]) ks) Q E v" using p t Cons.prems(1) by (intro Cons.IH) auto
        with True show ?thesis unfolding if_not_P [OF False] by (simp add: Let_def)
      next
        case full: False
        then have "nat limit - Suc (length page) = 0" by simp
        with p [of v] full show ?thesis unfolding if_not_P [OF False] by (simp add: wps Let_def)
      qed
    qed
  qed
qed (simp add: wps)

lemma wp_scan_page:
  assumes "\<And>e v. same_fs w v \<Longrightarrow> E e v"
    and "\<And>v. same_fs w v \<Longrightarrow> Q (foldl (\<lambda>page key. insertKeyPage page key after limit) page ks) v"
  shows "wp (scan_page after limit page ks) Q E w"
  using assms
proof (induction ks arbitrary: page w)
  case (Cons k ks)
  show ?case unfolding scan_page.simps wp_bind
  proof (rule wp_pollM_fs)
    fix v assume v: "same_fs w v"
    then show "E (EStd ErrContext) v" by (rule Cons.prems)
    show "wp (scan_page after limit (insertKeyPage page k after limit) ks) Q E v"
      by (rule Cons.IH) (use Cons.prems v in \<open>auto dest: same_fs_trans\<close>)
  qed
qed (simp add: wps)

lemma normalize_pos [simp]: "0 < normalizeKeyPageLimit limit"
  by (simp add: normalizeKeyPageLimit_def DefaultKeyPageSize_def)

lemma ascend_page:
  assumes "btree_laws bt"
  shows "take n (filter (\<lambda>k. after = [] \<or> k \<noteq> after) (btFrom bt after t)) =
    take n (sorted_list_of_set {k \<in> set (btAscend bt t). after = [] \<or> after < k})"
proof -
  let ?xs = "filter (\<lambda>k. after = [] \<or> k \<noteq> after) (btFrom bt after t)"
  have x: "?xs = filter (\<lambda>k. after = [] \<or> after < k) (btAscend bt t)"
    using assms by (auto simp: btree_laws_def intro!: filter_cong)
  have "sorted_list_of_set (set ?xs) = ?xs"
    by (rule sorted_list_of_set.idem_if_sorted_distinct) (use assms in \<open>auto simp: btree_laws_def sorted_wrt_filter\<close>)
  moreover have "set ?xs = {k \<in> set (btAscend bt t). after = [] \<or> after < k}" unfolding x by auto
  ultimately show ?thesis by simp
qed

lemma wp_ms_ListKeyPage:
  assumes "btree_laws bt" and "index_ok bt m" and "\<And>e v. same_fs w v \<Longrightarrow> E e (v, m)"
    and "\<And>v. same_fs w v \<Longrightarrow> Q (page_result (page_after (ms_keys m) after (normalizeKeyPageLimit limit))) (v, m)"
  shows "wp (ms_ListKeyPage bt after limit) Q E (w, m)"
  unfolding ms_ListKeyPage_def wp_bind [of "osM pollM"] wp_osM [of pollM]
proof (rule wp_pollM_fs)
  fix v assume "same_fs (fst (w, m)) v"
  then have v: "same_fs w v" by simp
  then show "E (EStd ErrContext) (v, snd (w, m))" using assms(3) by simp
  let ?l = "normalizeKeyPageLimit limit"
  have t: "same_fs w u" if "same_fs v u" for u using v that by (rule same_fs_trans)
  show "wp (let limit = ?l in bindM (selfM (\<lambda>m. m)) (\<lambda>m.
     case msKeys m of
       Some t \<Rightarrow> bindM (osM (collect_page after limit [] (btFrom bt after t))) (\<lambda>page. returnM (page_result page))
     | None \<Rightarrow>
         bindM (osM (scan_page after limit [] (map fst (msData m)))) (\<lambda>page.
         bindM (osM pollM) (\<lambda>_. returnM (page_result page))))) Q E (v, snd (w, m))"
  proof (cases "msKeys m")
    case None
    have "foldl (\<lambda>page key. insertKeyPage page key after ?l) [] (map fst (msData m)) = page_after (ms_keys m) after ?l"
      by (simp add: insertKeyPage_scan)
    then show ?thesis
      by (simp add: wps Let_def None, intro wp_scan_page wp_pollM_fs) (use t assms(3,4) in \<open>auto dest: same_fs_trans\<close>)
  next
    case (Some t')
    have "take (nat ?l) (filter (\<lambda>k. after = [] \<or> k \<noteq> after) (btFrom bt after t')) = page_after (ms_keys m) after ?l"
      using ascend_page [OF assms(1)] assms(2) Some by (simp add: page_after_def index_ok_def)
    then show ?thesis
      by (simp add: wps Let_def Some, intro wp_collect_page) (use t assms(3,4) in auto)
  qed
qed

lemma collect_page_calm: "calm w \<Longrightarrow> \<exists>p. collect_page after limit page ks w = (Inr p, w)"
  by (induction ks arbitrary: page) (auto simp: monad calm_run Let_def)

lemma scan_page_calm: "calm w \<Longrightarrow> \<exists>p. scan_page after limit page ks w = (Inr p, w)"
  by (induction ks arbitrary: page) (auto simp: monad calm_run)

interpretation mp: key_pager "ms_ListKeyPage bt" "\<lambda>s. ms_keys (snd s)" "\<lambda>s. btree_laws bt \<and> index_ok bt (snd s)" for bt :: "'t btree"
proof
  fix s :: "world \<times> 't MemoryStore" assume "btree_laws bt \<and> index_ok bt (snd s)"
  then show "finite (ms_keys (snd s)) \<and> [] \<notin> ms_keys (snd s)" by (simp add: index_ok_def)
next
  fix s :: "world \<times> 't MemoryStore" and limit :: int and after
  assume ok: "btree_laws bt \<and> index_ok bt (snd s)" and c: "calm (fst s)" and l: "0 < limit"
  obtain w m where s: "s = (w, m)" by (cases s)
  have "wp (ms_ListKeyPage bt after limit) (\<lambda>r _. r = page_result (page_after (ms_keys m) after (normalizeKeyPageLimit limit))) (\<lambda>_ _. True) (w, m)"
    by (rule wp_ms_ListKeyPage) (use ok s in simp_all)
  moreover have "\<exists>r. ms_ListKeyPage bt after limit (w, m) = (Inr r, (w, m))"
  proof (cases "msKeys m")
    case None
    obtain p where "scan_page after (normalizeKeyPageLimit limit) [] (map fst (msData m)) w = (Inr p, w)"
      using scan_page_calm c s by fastforce
    with None c s show ?thesis by (simp add: ms_ListKeyPage_def monad calm_run Let_def)
  next
    case (Some t)
    obtain p where "collect_page after (normalizeKeyPageLimit limit) [] (btFrom bt after t) w = (Inr p, w)"
      using collect_page_calm c s by fastforce
    with Some c s show ?thesis by (simp add: ms_ListKeyPage_def monad calm_run Let_def)
  qed
  ultimately show "ms_ListKeyPage bt after limit s = (Inr (page_result (page_after (ms_keys (snd s)) after limit)), s)"
    using l s by (auto simp: wp_def normalizeKeyPageLimit_def)
qed

section \<open>Theorems\<close>

text \<open>A mutation of the store, what it does, and what it means on the abstract map.\<close>

datatype blob_op = PutOp bytes bytes | DeleteOp bytes

fun run_blob_op :: "'s BlobStore \<Rightarrow> blob_op \<Rightarrow> (world \<times> 's, unit) M" where
  "run_blob_op bs (PutOp k d) = bsPut bs k d"
| "run_blob_op bs (DeleteOp k) = bsDelete bs k"

fun blob_spec :: "blob_op \<Rightarrow> (bytes \<rightharpoonup> bytes) \<Rightarrow> bytes \<rightharpoonup> bytes" where
  "blob_spec (PutOp k d) m = m(k \<mapsto> d)"
| "blob_spec (DeleteOp k) m = m(k := None)"

text \<open>A list as an index: the laws can be met.\<close>

definition list_btree :: "bytes list btree" where
  "list_btree = \<lparr>btNew = [], btInsert = (#), btDelete = removeAll, btLen = (\<lambda>t. int (length (sort (remdups t)))),
     btAscend = (\<lambda>t. sort (remdups t)), btFrom = (\<lambda>p t. filter (\<lambda>k. p \<le> k) (sort (remdups t)))\<rparr>"

lemma list_btree_laws: "btree_laws list_btree"
  by (auto simp: btree_laws_def list_btree_def)

text \<open>
  C37. The in-process store refines a map, whatever its index tree does within the documented laws: a successful
  mutation is the map update, a failed one (empty key, cancelled context) changes nothing, and the index
  keeps holding exactly the keys of the map.
\<close>

theorem memory_refines_map:
  assumes "btree_laws bt" and "index_ok bt m" and "run_blob_op (memory_blobs bt) op (w, m) = (res, (v, m'))"
  shows "index_ok bt m' \<and> (case res of Inr _ \<Rightarrow> map_of (msData m') = blob_spec op (map_of (msData m)) | Inl _ \<Rightarrow> m' = m)"
proof -
  have "wp (run_blob_op (memory_blobs bt) op) (\<lambda>_ s. index_ok bt (snd s) \<and> memory_view s = blob_spec op (map_of (msData m)))
      (\<lambda>_ s. snd s = m) (w, m)"
  proof (cases op)
    case (PutOp k d)
    have "wp (ms_Put bt k d) (\<lambda>_ s. memory_view s = (map_of (msData m))(k \<mapsto> d)) (\<lambda>_ s. snd s = m) (w, m)"
      by (rule wp_ms_Put) (simp_all add: Let_def update_conv')
    from wp_conj [OF this put_index [OF assms(1,2)]] show ?thesis
      unfolding PutOp run_blob_op.simps blob_spec.simps memory_blobs_def BlobStore.simps by (rule wp_mono) simp_all
  next
    case (DeleteOp k)
    have "wp (ms_Delete bt k) (\<lambda>_ s. memory_view s = (map_of (msData m))(k := None)) (\<lambda>_ s. snd s = m) (w, m)"
      by (rule wp_ms_Delete) (auto simp: AList.delete_conv')
    from wp_conj [OF this delete_index [OF assms(1,2)]] show ?thesis
      unfolding DeleteOp run_blob_op.simps blob_spec.simps memory_blobs_def BlobStore.simps by (rule wp_mono) simp_all
  qed
  with assms(2,3) show ?thesis by (auto simp: wp_def split: sum.splits)
qed

theorem memory_refines_map_witness:
  "\<exists>v m'. run_blob_op (memory_blobs list_btree) (PutOp ''k'' ''data'') (empty_world, NewMemoryStore list_btree) = (Inr (), (v, m')) \<and>
     index_ok list_btree m' \<and> map_of (msData m') ''k'' = Some ''data''"
proof -
  obtain res v m' where r: "run_blob_op (memory_blobs list_btree) (PutOp ''k'' ''data'') (empty_world, NewMemoryStore list_btree) = (res, (v, m'))"
    by (metis prod.collapse)
  have i: "index_ok list_btree (NewMemoryStore list_btree)" by (simp add: index_ok_def NewMemoryStore_def list_btree_def)
  have "res = Inr ()" using r by (simp add: memory_blobs_def ms_Put_def monad calm_run empty_world_def pollM_def NewMemoryStore_def ensureKeyIndexLocked_def)
  with memory_refines_map [OF list_btree_laws i r] r show ?thesis by auto
qed

text \<open>
  A page is exact.  \<^verbatim>\<open>ListKeyPage\<close> returns the smallest keys after the cursor in order, as many as the limit allows,
  with the last one as the next cursor; it does so both from the ordered index and, without an index, from a
  scan of the map in any order that keeps a bounded page with \<^verbatim>\<open>insertKeyPage\<close>.
\<close>

theorem memory_page_exact:
  assumes "btree_laws bt" and "index_ok bt m" and "ms_ListKeyPage bt after limit (w, m) = (Inr (page, next), s)"
  shows "page = take (nat (normalizeKeyPageLimit limit)) (sorted_list_of_set {k \<in> dom (map_of (msData m)). after = [] \<or> after < k}) \<and>
    next = (if page = [] then [] else last page)"
proof -
  have "wp (ms_ListKeyPage bt after limit) (\<lambda>r _. r = page_result (page_after (ms_keys m) after (normalizeKeyPageLimit limit))) (\<lambda>_ _. True) (w, m)"
    by (rule wp_ms_ListKeyPage [OF assms(1,2)]) simp_all
  with assms(3) show ?thesis by (auto simp: wp_def page_result_def page_after_def dom_map_of_conv_image_fst split: if_splits)
qed

theorem memory_page_exact_witness:
  "\<exists>s. ms_ListKeyPage list_btree ''a'' 1 (empty_world, \<lparr>msData = [(''c'', []), (''a'', []), (''b'', [])], msKeys = None\<rparr>) = (Inr ([''b''], ''b''), s) \<and>
     [''b''] = take 1 (sorted_list_of_set {k \<in> {''a'', ''b'', ''c''}. ''a'' < k})"
proof -
  let ?m = "\<lparr>msData = [(''c'', []), (''a'', []), (''b'', [])], msKeys = None\<rparr> :: bytes list MemoryStore"
  have i: "index_ok list_btree ?m" by (simp add: index_ok_def)
  have r: "ms_ListKeyPage list_btree ''a'' 1 (empty_world, ?m) = (Inr ([''b''], ''b''), (empty_world, ?m))"
    by (simp add: ms_ListKeyPage_def monad pollM_def empty_world_def insertKeyPage_def sort_Search_def go_search.simps normalizeKeyPageLimit_def
        Let_def page_result_def)
  have "{''c'', ''a'', ''b''} = {''a'', ''b'', ''c''}" by auto
  with memory_page_exact [OF list_btree_laws i r] r show ?thesis by (simp add: normalizeKeyPageLimit_def insert_commute)
qed

end
