(* ===== verification/Storage_Inventory.thy ===== *)
theory Storage_Inventory
  imports Storage_Memory
begin

text \<open>
  \<^verbatim>\<open>storage/inventory.go\<close> and \<^verbatim>\<open>storage/integrity.go\<close>: the fingerprint of the keys of a store and the verification
  of its blobs, over a complete list of keys or page by page.

  A pager of a store that keeps growing can be paged forever, so the page loops carry a bound on the number of
  pages (\<open>fuel\<close>) and return \<open>None\<close> when it is used up.  The running digest is the bytes written to it.
\<close>

section \<open>The fingerprint\<close>

record InventorySummary =
  isKeyCount :: int
  isKeyBytes :: int
  isDigest :: bytes

definition zeroInventory :: InventorySummary where
  "zeroInventory = \<lparr>isKeyCount = 0, isKeyBytes = 0, isDigest = replicate 32 (CHR 0x00)\<rparr>"

definition DigestHex :: "InventorySummary \<Rightarrow> bytes" where
  "DigestHex s = hex_encode (isDigest s)"

definition appendInventoryKey :: "bytes \<Rightarrow> InventorySummary \<times> bytes \<Rightarrow> (world, InventorySummary \<times> bytes) M" where
  "appendInventoryKey key acc =
     bindM pollM (\<lambda>_.
     bindM (guardM (key = []) (EStorage ErrInventoryKeyEmpty)) (\<lambda>_.
     bindM (guardM (length key > 2 ^ 32 - 1) (EStorage ErrInventoryKeyTooLarge)) (\<lambda>_.
     case acc of (summary, digest) \<Rightarrow>
     returnM (summary\<lparr>isKeyCount := isKeyCount summary + 1, isKeyBytes := isKeyBytes summary + int (length key)\<rparr>,
              digest @ put_u32 (of_nat (length key)) @ key))))"

fun append_keys :: "bytes list \<Rightarrow> InventorySummary \<times> bytes \<Rightarrow> (world, InventorySummary \<times> bytes) M" where
  "append_keys [] acc = returnM acc"
| "append_keys (key # keys) acc = bindM (appendInventoryKey key acc) (append_keys keys)"

definition sum_digest :: "InventorySummary \<times> bytes \<Rightarrow> InventorySummary" where
  "sum_digest acc = (fst acc)\<lparr>isDigest := sha256 (snd acc)\<rparr>"

definition summarizeInventoryKeys :: "bytes list \<Rightarrow> (world, InventorySummary) M" where
  "summarizeInventoryKeys keys = bindM (append_keys keys (zeroInventory, [])) (\<lambda>acc. returnM (sum_digest acc))"

text \<open>The validation of one page, shared by both files up to the errors they return.\<close>

fun check_page :: "err \<Rightarrow> bytes option \<Rightarrow> bytes option \<Rightarrow> bytes list \<Rightarrow> (world, unit) M" where
  "check_page invalid cursor previous [] = returnM ()"
| "check_page invalid cursor previous (key # rest) =
     bindM pollM (\<lambda>_.
     bindM (guardM (key = []) (EStorage ErrInventoryKeyEmpty)) (\<lambda>_.
     bindM (guardM (case cursor of None \<Rightarrow> False | Some c \<Rightarrow> key \<le> c) invalid) (\<lambda>_.
     bindM (guardM (case previous of None \<Rightarrow> False | Some p \<Rightarrow> key \<le> p) invalid) (\<lambda>_.
     check_page invalid cursor (Some key) rest))))"

definition cursor_bytes :: "bytes option \<Rightarrow> bytes" where
  "cursor_bytes cursor = (case cursor of None \<Rightarrow> [] | Some c \<Rightarrow> c)"

definition page_shape_bad :: "bytes list \<Rightarrow> bytes \<Rightarrow> bool" where
  "page_shape_bad keys next \<longleftrightarrow> int (length keys) > DefaultKeyPageSize \<or> next = [] \<or> next \<noteq> last keys"

abbreviation pagerInvalid :: err where
  "pagerInvalid \<equiv> EStorage ErrInventoryPagerInvalid"

fun summarizePagedInventory ::
  "(bytes \<Rightarrow> int \<Rightarrow> (world \<times> 's, bytes list \<times> bytes) M) \<Rightarrow> nat \<Rightarrow> bytes option \<Rightarrow> InventorySummary \<times> bytes \<Rightarrow>
   (world \<times> 's, InventorySummary option) M" where
  "summarizePagedInventory pager 0 cursor acc = returnM None"
| "summarizePagedInventory pager (Suc fuel) cursor acc =
     bindM (osM pollM) (\<lambda>_.
     bindM (pager (cursor_bytes cursor) DefaultKeyPageSize) (\<lambda>(keys, next).
     if keys = [] then
       bindM (guardM (next \<noteq> []) (EWrap pagerInvalid)) (\<lambda>_. returnM (Some (sum_digest acc)))
     else
       bindM (guardM (page_shape_bad keys next) (EWrap pagerInvalid)) (\<lambda>_.
       bindM (osM (check_page (EWrap pagerInvalid) cursor None keys)) (\<lambda>_.
       bindM (osM (append_keys keys acc)) (\<lambda>acc.
       summarizePagedInventory pager fuel (Some next) acc)))))"

definition SummarizeInventory :: "nat \<Rightarrow> 's BlobKeyLister option \<Rightarrow> (world \<times> 's, InventorySummary option) M" where
  "SummarizeInventory fuel lister =
     (case lister of
        None \<Rightarrow> throwM (EStorage ErrNilInventoryLister)
      | Some lister \<Rightarrow>
          bindM (osM pollM) (\<lambda>_.
          case ListKeyPage lister of
            Some pager \<Rightarrow> summarizePagedInventory pager fuel None (zeroInventory, [])
          | None \<Rightarrow>
              bindM (ListKeys lister) (\<lambda>keys.
              bindM (osM (summarizeInventoryKeys (sort keys))) (\<lambda>summary.
              returnM (Some summary)))))"

section \<open>The verification of the blobs\<close>

record IntegritySummary =
  gKeyCount :: int
  gKeyBytes :: int
  gContentAddressedKeys :: int
  gVerifiedKeys :: int
  gVerifiedBytes :: int
  gOpaqueKeys :: int
  gOpaqueBytes :: int
  gCorruptKeys :: int
  gMissingKeys :: int

definition zeroIntegrity :: IntegritySummary where
  "zeroIntegrity = \<lparr>gKeyCount = 0, gKeyBytes = 0, gContentAddressedKeys = 0, gVerifiedKeys = 0, gVerifiedBytes = 0,
     gOpaqueKeys = 0, gOpaqueBytes = 0, gCorruptKeys = 0, gMissingKeys = 0\<rparr>"

definition inspect_key :: "'s BlobStore \<Rightarrow> bytes \<Rightarrow> IntegritySummary \<Rightarrow> (world \<times> 's, IntegritySummary) M" where
  "inspect_key store key summary =
     bindM (osM pollM) (\<lambda>_.
     bindM (guardM (key = []) (EStorage ErrInventoryKeyEmpty)) (\<lambda>_.
     let summary = summary\<lparr>gKeyCount := gKeyCount summary + 1, gKeyBytes := gKeyBytes summary + int (length key)\<rparr>;
         contentAddressed = (length key = SHA256KeyBytes);
         summary = (if contentAddressed then summary\<lparr>gContentAddressedKeys := gContentAddressedKeys summary + 1\<rparr>
                    else summary\<lparr>gOpaqueKeys := gOpaqueKeys summary + 1\<rparr>) in
     bindM (tryM (bsGet store key)) (\<lambda>r.
     case r of
       Inl e \<Rightarrow>
         if err_is e (EStorage ErrNotFound) then returnM (summary\<lparr>gMissingKeys := gMissingKeys summary + 1\<rparr>)
         else if contentAddressed \<and> err_is e (EStorage ErrSHA256Mismatch) then returnM (summary\<lparr>gCorruptKeys := gCorruptKeys summary + 1\<rparr>)
         else throwM e
     | Inr data \<Rightarrow>
         bindM (osM pollM) (\<lambda>_.
         if contentAddressed then
           (case VerifySHA256Key key data of
              Inl e \<Rightarrow> if err_is e (EStorage ErrSHA256Mismatch) then returnM (summary\<lparr>gCorruptKeys := gCorruptKeys summary + 1\<rparr>) else throwM e
            | Inr _ \<Rightarrow> returnM (summary\<lparr>gVerifiedKeys := gVerifiedKeys summary + 1,
                                     gVerifiedBytes := gVerifiedBytes summary + int (length data)\<rparr>))
         else returnM (summary\<lparr>gOpaqueBytes := gOpaqueBytes summary + int (length data)\<rparr>)))))"

fun inspectInventoryKeys :: "'s BlobStore \<Rightarrow> bytes list \<Rightarrow> IntegritySummary \<Rightarrow> (world \<times> 's, IntegritySummary) M" where
  "inspectInventoryKeys store [] summary = returnM summary"
| "inspectInventoryKeys store (key # keys) summary = bindM (inspect_key store key summary) (inspectInventoryKeys store keys)"

fun inspectPagedInventory ::
  "'s BlobStore \<Rightarrow> (bytes \<Rightarrow> int \<Rightarrow> (world \<times> 's, bytes list \<times> bytes) M) \<Rightarrow> nat \<Rightarrow> bytes option \<Rightarrow> IntegritySummary \<Rightarrow>
   (world \<times> 's, IntegritySummary option) M" where
  "inspectPagedInventory store pager 0 cursor summary = returnM None"
| "inspectPagedInventory store pager (Suc fuel) cursor summary =
     bindM (osM pollM) (\<lambda>_.
     bindM (pager (cursor_bytes cursor) DefaultKeyPageSize) (\<lambda>(keys, next).
     if keys = [] then
       bindM (guardM (next \<noteq> []) (EJoin pagerInvalid (EMsg ''storage: empty page returned cursor''))) (\<lambda>_. returnM (Some summary))
     else
       bindM (guardM (page_shape_bad keys next) pagerInvalid) (\<lambda>_.
       bindM (osM (check_page pagerInvalid cursor None keys)) (\<lambda>_.
       bindM (inspectInventoryKeys store keys summary) (\<lambda>summary.
       inspectPagedInventory store pager fuel (Some next) summary)))))"

text \<open>
  \<^verbatim>\<open>return summary, inspectPagedInventory(ctx, store, pager, &summary)\<close> reads the variable either after or before
  the call that fills it: Go leaves the order open.  \<open>late\<close> says which one the compiler chose.
\<close>

definition InspectInventory ::
  "bool \<Rightarrow> nat \<Rightarrow> 's BlobStore option \<Rightarrow> 's BlobKeyLister option \<Rightarrow> (world \<times> 's, IntegritySummary option) M" where
  "InspectInventory late fuel store lister =
     (case store of
        None \<Rightarrow> throwM (EStorage ErrNilBlobStore)
      | Some store \<Rightarrow> (case lister of
          None \<Rightarrow> throwM (EStorage ErrNilInventoryLister)
        | Some lister \<Rightarrow>
            bindM (osM pollM) (\<lambda>_.
            case ListKeyPage lister of
              Some pager \<Rightarrow>
                bindM (inspectPagedInventory store pager fuel None zeroIntegrity) (\<lambda>r.
                returnM (if late then r else map_option (\<lambda>_. zeroIntegrity) r))
            | None \<Rightarrow>
                bindM (ListKeys lister) (\<lambda>keys.
                bindM (inspectInventoryKeys store (sort keys) zeroIntegrity) (\<lambda>summary.
                returnM (Some summary))))))"

section \<open>Page loops\<close>

text \<open>The loop that both scans instantiate; \<open>body\<close> is what is done with the keys of a page.\<close>

fun paged_loop ::
  "err \<Rightarrow> err \<Rightarrow> (bytes list \<Rightarrow> 'a \<Rightarrow> (world \<times> 's, 'a) M) \<Rightarrow> (bytes \<Rightarrow> int \<Rightarrow> (world \<times> 's, bytes list \<times> bytes) M) \<Rightarrow>
   nat \<Rightarrow> bytes option \<Rightarrow> 'a \<Rightarrow> (world \<times> 's, 'a option) M" where
  "paged_loop e1 e2 body pager 0 cursor acc = returnM None"
| "paged_loop e1 e2 body pager (Suc fuel) cursor acc =
     bindM (osM pollM) (\<lambda>_.
     bindM (pager (cursor_bytes cursor) DefaultKeyPageSize) (\<lambda>(keys, next).
     if keys = [] then bindM (guardM (next \<noteq> []) e1) (\<lambda>_. returnM (Some acc))
     else
       bindM (guardM (page_shape_bad keys next) e2) (\<lambda>_.
       bindM (osM (check_page e2 cursor None keys)) (\<lambda>_.
       bindM (body keys acc) (\<lambda>acc.
       paged_loop e1 e2 body pager fuel (Some next) acc)))))"

lemma bindM_assoc: "bindM (bindM m f) g = bindM m (\<lambda>x. bindM (f x) g)"
  by (rule ext) (auto simp: bindM_def split: prod.splits sum.splits)

lemma bindM_return [simp]: "bindM (returnM x) f = f x" "bindM m returnM = m"
  by (rule ext, auto simp: bindM_def returnM_def split: prod.splits sum.splits)+

lemma bindM_if: "bindM (if b then m else n) f = (if b then bindM m f else bindM n f)"
  by simp

lemma summarize_is_loop:
  "summarizePagedInventory pager fuel cursor acc =
     bindM (paged_loop (EWrap pagerInvalid) (EWrap pagerInvalid) (\<lambda>ks acc. osM (append_keys ks acc)) pager fuel cursor acc)
       (\<lambda>r. returnM (map_option sum_digest r))"
proof (induction fuel arbitrary: cursor acc)
  case (Suc fuel)
  show ?case by (rule ext) (simp add: bindM_def Suc returnM_def split: prod.split sum.split)
qed simp

lemma inspect_is_loop:
  "inspectPagedInventory store pager fuel cursor summary =
     paged_loop (EJoin pagerInvalid (EMsg ''storage: empty page returned cursor'')) pagerInvalid (inspectInventoryKeys store) pager fuel cursor summary"
proof (induction fuel arbitrary: cursor summary)
  case (Suc fuel)
  show ?case by (rule ext) (simp add: bindM_def Suc returnM_def split: prod.split sum.split)
qed simp

lemma sorted_le_last: "sorted xs \<Longrightarrow> x \<in> set xs \<Longrightarrow> x \<le> last xs"
  by (induction xs) auto

lemma page_rest:
  assumes "finite ks" and "S = sorted_list_of_set {k \<in> ks. after = [] \<or> after < k}" and "S \<noteq> []" and "0 < n" and "[] \<notin> ks"
  shows "sorted_list_of_set {k \<in> ks. last (take n S) = [] \<or> last (take n S) < k} = drop n S" and "last (take n S) \<noteq> []"
proof -
  let ?p = "take n S" let ?l = "last (take n S)"
  have S: "sorted S" "distinct S" "set S = {k \<in> ks. after = [] \<or> after < k}" using assms(1,2) by auto
  have p: "?p \<noteq> []" using assms(3,4) by simp
  then have l: "?l \<in> set ?p" by simp
  then have "?l \<in> set S" by (rule in_set_takeD)
  then have lk: "?l \<in> ks" "after = [] \<or> after < ?l" using S(3) by auto
  with assms(5) show ne: "?l \<noteq> []" by auto
  have sp: "sorted (?p @ drop n S)" using S(1) by simp
  then have hi: "?l \<le> k" if "k \<in> set (drop n S)" for k using that l by (auto simp only: sorted_append)
  have lo: "k \<le> ?l" if "k \<in> set ?p" for k
    using that sp by (intro sorted_le_last) (simp_all only: sorted_append)
  have dis: "set ?p \<inter> set (drop n S) = {}" using S(2) by (simp add: set_take_disj_set_drop_if_distinct)
  have "{k \<in> ks. ?l = [] \<or> ?l < k} = set (drop n S)"
  proof (intro set_eqI iffI)
    fix k assume "k \<in> {k \<in> ks. ?l = [] \<or> ?l < k}"
    with ne have k: "k \<in> ks" "?l < k" by auto
    with lk(2) S(3) have "k \<in> set S" by (auto intro: less_trans)
    moreover have "k \<notin> set ?p" using lo k(2) by (meson not_le)
    ultimately show "k \<in> set (drop n S)" by (metis Un_iff append_take_drop_id set_append)
  next
    fix k assume k: "k \<in> set (drop n S)"
    then have "k \<in> ks" using S(3) in_set_dropD by fast
    moreover have "k \<noteq> ?l" using k l dis by auto
    ultimately show "k \<in> {k \<in> ks. ?l = [] \<or> ?l < k}" using hi [OF k] by auto
  qed
  moreover have "sorted_list_of_set (set (drop n S)) = drop n S"
    by (rule sorted_list_of_set.idem_if_sorted_distinct) (use S in \<open>auto intro: sorted_wrt_drop\<close>)
  ultimately show "sorted_list_of_set {k \<in> ks. ?l = [] \<or> ?l < k} = drop n S" by simp
qed

lemma check_page_calm:
  assumes "calm w" and "sorted_wrt (<) ks" and "[] \<notin> set ks" and "\<forall>c. cursor = Some c \<longrightarrow> (\<forall>k\<in>set ks. c < k)"
    and "\<forall>p. previous = Some p \<longrightarrow> (\<forall>k\<in>set ks. p < k)"
  shows "check_page e cursor previous ks w = (Inr (), w)"
  using assms(2-5)
proof (induction ks arbitrary: previous)
  case (Cons k ks)
  then have "check_page e cursor (Some k) ks w = (Inr (), w)" by simp
  moreover have "\<not> (case cursor of None \<Rightarrow> False | Some c \<Rightarrow> k \<le> c)" "\<not> (case previous of None \<Rightarrow> False | Some p \<Rightarrow> k \<le> p)" "k \<noteq> []"
    using Cons.prems by (auto simp: not_le split: option.splits)
  ultimately show ?case using assms(1) by (simp add: monad calm_run)
qed (simp add: monad)

context key_pager
begin

lemma paged_loop_calm:
  assumes "ok s" and "calm (fst s)" and "\<And>ks acc. set ks \<subseteq> keys s \<Longrightarrow> body ks acc s = (Inr (foldl h acc ks), s)"
    and "S = sorted_list_of_set {k \<in> keys s. cursor_bytes cursor = [] \<or> cursor_bytes cursor < k}"
    and "cursor = None \<or> cursor_bytes cursor \<noteq> []" and "length S < fuel"
  shows "paged_loop e1 e2 body page fuel cursor acc s = (Inr (Some (foldl h acc S)), s)"
  using assms(4-6)
proof (induction fuel arbitrary: cursor acc S)
  case (Suc fuel)
  let ?c = "cursor_bytes cursor"
  have fin: "finite (keys s)" "[] \<notin> keys s" using keys_ok [OF assms(1)] by simp_all
  have P: "page ?c DefaultKeyPageSize s = (Inr (page_result (take 256 S)), s)"
    using page_calm [OF assms(1,2), of DefaultKeyPageSize ?c] Suc.prems(1) by (simp add: page_after_def DefaultKeyPageSize_def)
  have poll: "osM pollM s = (Inr (), s)" using assms(2) by (simp add: monad calm_run)
  show ?case
  proof (cases "S = []")
    case True
    with P poll show ?thesis by (simp add: monad page_result_def)
  next
    case False
    let ?p = "take 256 S"
    have S: "sorted_wrt (<) S" "set S = {k \<in> keys s. ?c = [] \<or> ?c < k}" using fin Suc.prems(1) by (auto simp: strict_sorted_iff)
    have r: "sorted_list_of_set {k \<in> keys s. last ?p = [] \<or> last ?p < k} = drop 256 S" "last ?p \<noteq> []"
      by (rule page_rest [OF fin(1) Suc.prems(1) False _ fin(2)], simp)+
    have sub: "set ?p \<subseteq> {k \<in> keys s. ?c = [] \<or> ?c < k}" using S(2) set_take_subset by fastforce
    have "check_page e2 cursor None ?p (fst s) = (Inr (), fst s)"
    proof (rule check_page_calm [OF assms(2)])
      show "sorted_wrt (<) ?p" using S(1) by (rule sorted_wrt_take)
      show "[] \<notin> set ?p" using sub fin(2) by auto
      show "\<forall>c. cursor = Some c \<longrightarrow> (\<forall>k\<in>set ?p. c < k)" using sub Suc.prems(2) by (auto simp: cursor_bytes_def)
    qed simp
    then have chk: "osM (check_page e2 cursor None ?p) s = (Inr (), s)" by (simp add: monad)
    have bdy: "body ?p acc s = (Inr (foldl h acc ?p), s)" using assms(3) sub by auto
    have shp: "\<not> page_shape_bad ?p (last ?p)" using r(2) by (simp add: page_shape_bad_def DefaultKeyPageSize_def)
    have rec: "paged_loop e1 e2 body page fuel (Some (last ?p)) (foldl h acc ?p) s = (Inr (Some (foldl h (foldl h acc ?p) (drop 256 S))), s)"
    proof (rule Suc.IH)
      show "length (drop 256 S) < fuel" using Suc.prems(3) False by (cases S) auto
    qed (use r in \<open>simp_all add: cursor_bytes_def\<close>)
    have "foldl h (foldl h acc ?p) (drop 256 S) = foldl h acc S" by (metis append_take_drop_id foldl_append)
    with P poll chk bdy shp rec False show ?thesis by (simp add: monad page_result_def)
  qed
qed simp

end

section \<open>Exact results\<close>

definition add_key :: "InventorySummary \<times> bytes \<Rightarrow> bytes \<Rightarrow> InventorySummary \<times> bytes" where
  "add_key acc key = ((fst acc)\<lparr>isKeyCount := isKeyCount (fst acc) + 1, isKeyBytes := isKeyBytes (fst acc) + int (length key)\<rparr>,
     snd acc @ put_u32 (of_nat (length key)) @ key)"

lemma append_keys_calm:
  assumes "calm w" and "\<forall>k\<in>set ks. k \<noteq> [] \<and> length k < 2 ^ 32"
  shows "append_keys ks acc w = (Inr (foldl add_key acc ks), w)"
  using assms(2)
  by (induction ks arbitrary: acc) (simp_all add: monad calm_run assms(1) appendInventoryKey_def add_key_def split_beta not_less)

text \<open>The bytes the fingerprint is taken of, and the summary of a list of keys.\<close>

definition inventory_image :: "bytes list \<Rightarrow> bytes" where
  "inventory_image ks = concat (map (\<lambda>k. put_u32 (of_nat (length k)) @ k) ks)"

definition inventory_of :: "bytes list \<Rightarrow> InventorySummary" where
  "inventory_of ks = \<lparr>isKeyCount = int (length ks), isKeyBytes = int (sum_list (map length ks)), isDigest = sha256 (inventory_image ks)\<rparr>"

lemma fold_add_key:
  "foldl add_key (s, d) ks = (s\<lparr>isKeyCount := isKeyCount s + int (length ks), isKeyBytes := isKeyBytes s + int (sum_list (map length ks))\<rparr>,
     d @ inventory_image ks)"
  by (induction ks arbitrary: s d) (simp_all add: add_key_def inventory_image_def add.assoc)

lemma sum_digest_fold: "sum_digest (foldl add_key (zeroInventory, []) ks) = inventory_of ks"
  by (simp add: fold_add_key sum_digest_def inventory_of_def zeroInventory_def)

lemma collect_keys_calm: "calm w \<Longrightarrow> collect_keys keys ks w = (Inr (keys @ ks), w)"
  by (induction ks arbitrary: keys) (simp_all add: monad calm_run)

lemma ms_ListKeys_calm:
  assumes "btree_laws bt" and "index_ok bt m" and "calm w"
  shows "ms_ListKeys bt (w, m) = (Inr (sorted_list_of_set (ms_keys m)), (w, m))"
proof (cases "msKeys m")
  case None
  have "sort (map fst (msData m)) = sorted_list_of_set (ms_keys m)"
    using sorted_list_of_set_sort_remdups [of "map fst (msData m)"] assms(2) by (simp add: index_ok_def distinct_remdups_id)
  with None assms(3) show ?thesis by (simp add: ms_ListKeys_def monad calm_run)
next
  case (Some t)
  have "btAscend bt t = sorted_list_of_set (set (btAscend bt t))"
    using assms(1) by (simp add: btree_laws_def sorted_list_of_set.idem_if_sorted_distinct)
  with Some assms show ?thesis by (simp add: ms_ListKeys_def monad calm_run collect_keys_calm index_ok_def)
qed

text \<open>What a blob contributes to the verification.\<close>

definition inspected :: "(bytes \<rightharpoonup> bytes) \<Rightarrow> IntegritySummary \<Rightarrow> bytes \<Rightarrow> IntegritySummary" where
  "inspected D s k =
     (let s = s\<lparr>gKeyCount := gKeyCount s + 1, gKeyBytes := gKeyBytes s + int (length k)\<rparr> in
      if length k = 32 then
        let s = s\<lparr>gContentAddressedKeys := gContentAddressedKeys s + 1\<rparr> in
        if sha256 (the (D k)) = k then s\<lparr>gVerifiedKeys := gVerifiedKeys s + 1, gVerifiedBytes := gVerifiedBytes s + int (length (the (D k)))\<rparr>
        else s\<lparr>gCorruptKeys := gCorruptKeys s + 1\<rparr>
      else s\<lparr>gOpaqueKeys := gOpaqueKeys s + 1, gOpaqueBytes := gOpaqueBytes s + int (length (the (D k)))\<rparr>)"

context readable_store
begin

lemma inspect_key_calm:
  assumes "ok s" and "calm (fst s)" and "k \<noteq> []" and "k \<in> dom (view s)"
  shows "inspect_key bs k summary s = (Inr (inspected (view s) summary k), s)"
proof -
  obtain d where d: "view s k = Some d" using assms(4) by auto
  note g = get_calm [OF assms(1-3) d]
  have "osM pollM s = (Inr (), s)" using assms(2) by (simp add: monad calm_run)
  with g assms(3) d show ?thesis
    by (cases "length k = 32"; cases "sha256 d = k"; cases strict)
      (auto simp: inspect_key_def monad Let_def inspected_def SHA256KeyBytes_def VerifySHA256Key_cases)
qed

lemma inspect_keys_calm:
  assumes "ok s" and "calm (fst s)" and "[] \<notin> set ks" and "set ks \<subseteq> dom (view s)"
  shows "inspectInventoryKeys bs ks summary s = (Inr (foldl (inspected (view s)) summary ks), s)"
  using assms(3,4)
proof (induction ks arbitrary: summary)
  case (Cons k ks)
  then have "inspect_key bs k summary s = (Inr (inspected (view s) summary k), s)" by (intro inspect_key_calm assms) auto
  with Cons show ?case by (simp add: monad)
qed (simp add: monad)

end

text \<open>The summary of a list of keys with their blobs.\<close>

definition integrity_of :: "(bytes \<rightharpoonup> bytes) \<Rightarrow> bytes list \<Rightarrow> IntegritySummary" where
  "integrity_of D ks =
     (let hashed = filter (\<lambda>k. length k = 32) ks; opaque = filter (\<lambda>k. length k \<noteq> 32) ks;
          good = filter (\<lambda>k. sha256 (the (D k)) = k) hashed; bad = filter (\<lambda>k. sha256 (the (D k)) \<noteq> k) hashed;
          size = (\<lambda>ks. int (sum_list (map (\<lambda>k. length (the (D k))) ks))) in
      \<lparr>gKeyCount = int (length ks), gKeyBytes = int (sum_list (map length ks)), gContentAddressedKeys = int (length hashed),
       gVerifiedKeys = int (length good), gVerifiedBytes = size good, gOpaqueKeys = int (length opaque), gOpaqueBytes = size opaque,
       gCorruptKeys = int (length bad), gMissingKeys = 0\<rparr>)"

lemma fold_inspected: "foldl (inspected D) zeroIntegrity ks = integrity_of D ks"
  by (induction ks rule: rev_induct) (auto simp: integrity_of_def inspected_def zeroIntegrity_def Let_def)

section \<open>Theorems\<close>

text \<open>
  C38. The fingerprint does not depend on how the keys are listed.  For every content of the in-process store the page by
  page scan ends within one page per key and gives the same summary as the scan of the complete list: the
  number of keys, their total length, and SHA-256 over the length-prefixed keys in bytewise order.
\<close>

theorem inventory_summary_exact:
  assumes "btree_laws bt" and "index_ok bt m" and "calm w" and "\<forall>k\<in>ms_keys m. length k < 2 ^ 32" and "card (ms_keys m) < fuel"
  shows "SummarizeInventory fuel (Some (memory_lister bt)) (w, m) = (Inr (Some (inventory_of (sorted_list_of_set (ms_keys m)))), (w, m)) \<and>
    SummarizeInventory fuel (Some ((memory_lister bt)\<lparr>ListKeyPage := None\<rparr>)) (w, m) =
      (Inr (Some (inventory_of (sorted_list_of_set (ms_keys m)))), (w, m))"
proof -
  let ?S = "sorted_list_of_set (ms_keys m)"
  have ne: "[] \<notin> ms_keys m" using assms(2) by (simp add: index_ok_def)
  have a: "append_keys ks acc w = (Inr (foldl add_key acc ks), w)" if "set ks \<subseteq> ms_keys m" for ks acc
    using that assms(4) ne by (intro append_keys_calm [OF assms(3)]) auto
  have "paged_loop e1 e2 (\<lambda>ks acc. osM (append_keys ks acc)) (ms_ListKeyPage bt) fuel None acc (w, m) = (Inr (Some (foldl add_key acc ?S)), (w, m))" for e1 e2 acc
    using assms a by (intro mp.paged_loop_calm) (auto simp: monad cursor_bytes_def)
  then have p: "SummarizeInventory fuel (Some (memory_lister bt)) (w, m) = (Inr (Some (inventory_of ?S)), (w, m))"
    using assms(3) by (simp add: SummarizeInventory_def memory_lister_def summarize_is_loop monad calm_run sum_digest_fold)
  have "SummarizeInventory fuel (Some ((memory_lister bt)\<lparr>ListKeyPage := None\<rparr>)) (w, m) = (Inr (Some (inventory_of ?S)), (w, m))"
    using a [of ?S] assms(3) ms_ListKeys_calm [OF assms(1-3)]
    by (simp add: SummarizeInventory_def memory_lister_def summarizeInventoryKeys_def monad calm_run sum_digest_fold sorted_sort_id)
  with p show ?thesis by simp
qed

abbreviation example_memory :: "bytes list MemoryStore" where
  "example_memory \<equiv> \<lparr>msData = [(''k'', ''data''), (''b'', [])], msKeys = None\<rparr>"

lemma example_memory_ok: "index_ok list_btree example_memory" "sorted_list_of_set (ms_keys example_memory) = [''b'', ''k'']" "card (ms_keys example_memory) = 2"
proof -
  show "index_ok list_btree example_memory" by (simp add: index_ok_def)
  have "sorted_list_of_set (set [''b'', ''k'']) = [''b'', ''k'']" by (rule sorted_list_of_set.idem_if_sorted_distinct) simp_all
  then show "sorted_list_of_set (ms_keys example_memory) = [''b'', ''k'']" by (simp add: insert_commute)
  show "card (ms_keys example_memory) = 2" by simp
qed

theorem inventory_summary_exact_witness:
  "SummarizeInventory 3 (Some (memory_lister list_btree)) (empty_world, example_memory) =
     (Inr (Some (inventory_of [''b'', ''k''])), (empty_world, example_memory))"
  using inventory_summary_exact [OF list_btree_laws example_memory_ok(1), of empty_world 3] example_memory_ok(2,3) by simp

text \<open>
  C39. The verification of the blobs is exact: over the in-process store, the page by page scan ends within one page
  per key and counts the keys whose blob hashes to them, the ones whose blob does not, and the opaque ones.
  This holds when the returned variable is read after the scan; read before it, the summary is empty.
\<close>

theorem integrity_summary_exact:
  assumes "btree_laws bt" and "index_ok bt m" and "calm w" and "card (ms_keys m) < fuel"
  shows "InspectInventory late fuel (Some (memory_blobs bt)) (Some (memory_lister bt)) (w, m) =
    (Inr (Some (if late then integrity_of (map_of (msData m)) (sorted_list_of_set (ms_keys m)) else zeroIntegrity)), (w, m))"
proof -
  let ?S = "sorted_list_of_set (ms_keys m)"
  have ne: "[] \<notin> ms_keys m" using assms(2) by (simp add: index_ok_def)
  have a: "inspectInventoryKeys (memory_blobs bt) ks acc (w, m) = (Inr (foldl (inspected (map_of (msData m))) acc ks), (w, m))"
    if "set ks \<subseteq> ms_keys m" for ks acc
    using mb.inspect_keys_calm [of "(w, m)" ks bt acc] that assms(3) ne by (auto simp: dom_map_of_conv_image_fst)
  have "paged_loop e1 e2 (inspectInventoryKeys (memory_blobs bt)) (ms_ListKeyPage bt) fuel None acc (w, m) =
      (Inr (Some (foldl (inspected (map_of (msData m))) acc ?S)), (w, m))" for e1 e2 acc
    using assms a by (intro mp.paged_loop_calm) (auto simp: cursor_bytes_def)
  then show ?thesis
    using assms(3) by (simp add: InspectInventory_def memory_lister_def inspect_is_loop monad calm_run fold_inspected)
qed

theorem integrity_summary_exact_witness:
  "InspectInventory True 3 (Some (memory_blobs list_btree)) (Some (memory_lister list_btree)) (empty_world, example_memory) =
     (Inr (Some (integrity_of (map_of [(''k'', ''data''), (''b'', [])]) [''b'', ''k''])), (empty_world, example_memory)) \<and>
   gOpaqueKeys (integrity_of (map_of [(''k'', ''data''), (''b'', [])]) [''b'', ''k'']) = 2"
  using integrity_summary_exact [OF list_btree_laws example_memory_ok(1), of empty_world 3 True] example_memory_ok(2,3)
  by (simp add: integrity_of_def Let_def)

end
