(* ===== verification/Lifecycle_Apply.thy ===== *)
theory Lifecycle_Apply
  imports Lifecycle_Membership Lifecycle_Repair Storage_Memory
begin

text \<open>
  \<^verbatim>\<open>internal/lifecycle/apply.go\<close>: the applier, which makes one lifecycle record or one snapshot durable and then visible.

  A node is the state its components share by pointer: the blob store, the logical state, the journal and the
  watermark book.  The applier's own fields are the blob-store operations and the limits.
\<close>

section \<open>Definitions\<close>

record 's node =
  nBlobs :: 's
  nState :: Store
  nJournal :: Journal
  nWatermarks :: WatermarkBook

definition blobsM :: "(world \<times> 's, 'a) M \<Rightarrow> (world \<times> 's node, 'a) M" where
  "blobsM = zoomM (\<lambda>s. (fst s, nBlobs (snd s))) (\<lambda>t s. (fst t, (snd s)\<lparr>nBlobs := snd t\<rparr>))"

definition stateM :: "(Store, 'a) M \<Rightarrow> (world \<times> 's node, 'a) M" where
  "stateM = zoomM (\<lambda>s. nState (snd s)) (\<lambda>t s. (fst s, (snd s)\<lparr>nState := t\<rparr>))"

definition journalM :: "(world \<times> Journal, 'a) M \<Rightarrow> (world \<times> 's node, 'a) M" where
  "journalM = zoomM (\<lambda>s. (fst s, nJournal (snd s))) (\<lambda>t s. (fst t, (snd s)\<lparr>nJournal := snd t\<rparr>))"

definition bookM :: "(world \<times> WatermarkBook, 'a) M \<Rightarrow> (world \<times> 's node, 'a) M" where
  "bookM = zoomM (\<lambda>s. (fst s, nWatermarks (snd s))) (\<lambda>t s. (fst t, (snd s)\<lparr>nWatermarks := snd t\<rparr>))"

record 's Applier =
  apBlobs :: "'s BlobStore option"
  apLimits :: Limits

definition NewApplier :: "'s BlobStore option \<Rightarrow> Limits \<Rightarrow> 's Applier" where
  "NewApplier blobs limits = \<lparr>apBlobs = blobs, apLimits = normalized_limits limits\<rparr>"

text \<open>\<open>suppliedBlob\<close> is \<open>None\<close> for a nil slice.\<close>

definition ensureBlob :: "'s Applier \<Rightarrow> bytes \<Rightarrow> bytes option \<Rightarrow> (world \<times> 's node, unit) M" where
  "ensureBlob a key suppliedBlob =
     (case apBlobs a of
        None \<Rightarrow> throwM (ETransport ErrNilApplierBlobStore)
      | Some blobs \<Rightarrow>
          bindM (case suppliedBlob of
                   Some data \<Rightarrow> returnM data
                 | None \<Rightarrow>
                     bindM (tryM (blobsM (bsGet blobs key))) (\<lambda>r.
                     case r of
                       Inl e \<Rightarrow> if err_is e (EStorage ErrNotFound) then throwM (EJoin (ETransport ErrLifecycleBlobMissing) e) else throwM e
                     | Inr data \<Rightarrow> returnM data)) (\<lambda>data.
          bindM (liftE (VerifySHA256Key key data)) (\<lambda>_.
          if suppliedBlob \<noteq> None then blobsM (bsPut blobs key data) else returnM ())))"

definition Applier_Apply :: "'s Applier \<Rightarrow> bytes list \<Rightarrow> Record \<Rightarrow> bytes option \<Rightarrow> (world \<times> 's node, ApplyResult) M" where
  "Applier_Apply a capabilities record suppliedBlob =
     bindM (osM pollM) (\<lambda>_.
     bindM (guardM (\<not> HasLifecycleCapability capabilities) (ETransport ErrLifecycleCapabilityRequired)) (\<lambda>_.
     bindM (liftE (Validate record (apLimits a))) (\<lambda>_.
     bindM (selfM nState) (\<lambda>state.
     bindM (liftE (Classify record state)) (\<lambda>classification.
     if Outcome classification \<noteq> OutcomeApplied then returnM classification
     else
       bindM (if State record = StatePresent then ensureBlob a (BlobKey record) suppliedBlob else returnM ()) (\<lambda>_.
       bindM (journalM (Append record)) (\<lambda>_.
       stateM (Apply record))))))))"

definition ApplySnapshot :: "'s Applier \<Rightarrow> bytes list \<Rightarrow> Checkpoint \<Rightarrow> bytes \<Rightarrow> (world \<times> 's node, unit) M" where
  "ApplySnapshot a capabilities snapshot checkpointPath =
     bindM (osM pollM) (\<lambda>_.
     bindM (guardM (\<not> HasLifecycleCapability capabilities) (ETransport ErrLifecycleCapabilityRequired)) (\<lambda>_.
     bindM (guardM (checkpointPath = []) (EJournal ErrNilCheckpointPath)) (\<lambda>_.
     bindM (liftE (normalizeCheckpoint snapshot (apLimits a))) (\<lambda>(normalized, _).
     bindM (forM (\<lambda>record. if State record = StatePresent then ensureBlob a (BlobKey record) None else returnM ()) (cpRecords normalized)) (\<lambda>_.
     bindM (journalM (InstallSnapshot checkpointPath normalized)) (\<lambda>_.
     stateM (ReplaceSnapshot (cpRecords normalized))))))))"

section \<open>Running a component inside a node\<close>

lemma wp_parts [wps]:
  "wp (blobsM m) Q E = (\<lambda>s. wp m (\<lambda>x t. Q x (fst t, (snd s)\<lparr>nBlobs := snd t\<rparr>)) (\<lambda>e t. E e (fst t, (snd s)\<lparr>nBlobs := snd t\<rparr>)) (fst s, nBlobs (snd s)))"
  "wp (stateM n) Q' E = (\<lambda>s. wp n (\<lambda>x t. Q' x (fst s, (snd s)\<lparr>nState := t\<rparr>)) (\<lambda>e t. E e (fst s, (snd s)\<lparr>nState := t\<rparr>)) (nState (snd s)))"
  "wp (journalM j) Q'' E = (\<lambda>s. wp j (\<lambda>x t. Q'' x (fst t, (snd s)\<lparr>nJournal := snd t\<rparr>)) (\<lambda>e t. E e (fst t, (snd s)\<lparr>nJournal := snd t\<rparr>)) (fst s, nJournal (snd s)))"
  "wp (bookM b) Q''' E = (\<lambda>s. wp b (\<lambda>x t. Q''' x (fst t, (snd s)\<lparr>nWatermarks := snd t\<rparr>)) (\<lambda>e t. E e (fst t, (snd s)\<lparr>nWatermarks := snd t\<rparr>)) (fst s, nWatermarks (snd s)))"
  by (simp_all add: blobsM_def stateM_def journalM_def bookM_def wps)

lemma parts_eval [monad]:
  "blobsM m s = (case m (fst s, nBlobs (snd s)) of (r, t) \<Rightarrow> (r, (fst t, (snd s)\<lparr>nBlobs := snd t\<rparr>)))"
  "stateM n s = (case n (nState (snd s)) of (r, t) \<Rightarrow> (r, (fst s, (snd s)\<lparr>nState := t\<rparr>)))"
  "journalM j s = (case j (fst s, nJournal (snd s)) of (r, t) \<Rightarrow> (r, (fst t, (snd s)\<lparr>nJournal := snd t\<rparr>)))"
  "bookM b s = (case b (fst s, nWatermarks (snd s)) of (r, t) \<Rightarrow> (r, (fst t, (snd s)\<lparr>nWatermarks := snd t\<rparr>)))"
  by (simp_all add: blobsM_def stateM_def journalM_def bookM_def zoomM_def)

text \<open>What a journal operation does to the journal object, whatever happens on the disk.\<close>

lemma wp_any: "(\<And>x t. Q x t) \<Longrightarrow> (\<And>e t. E e t) \<Longrightarrow> wp m Q E s"
  by (auto simp: wp_def split: prod.split sum.split)

lemma Append_object:
  assumes "journal_fields j" and err: "\<And>e v. E e (v, j)"
    and ok: "\<And>v. appendable j r \<Longrightarrow> Q () (v, appended j r)"
  shows "wp (Append r) Q E (w, j)"
proof -
  have a: "appendable j r" if "Validate r (jLimits j) = Inr ()" "\<not> jClosed j" "\<not> rVersion r \<le> jLast j"
    "\<not> jMaxEntries j \<le> int (length (jRecords j))" "\<not> jMaxBytes j < jSize j + int (length (journal_entry r))"
    using that by (auto simp: appendable_def Validate_ok)
  have e: "encodeEnvelope (marshal_record r) = Inr (journal_entry r)" if "Validate r (jLimits j) = Inr ()"
    using encode_record_entry [of "jLimits j" r] that assms(1) by (simp add: journal_fields_def Validate_ok)
  show ?thesis
    unfolding Append_def wp_bind wp_osM wp_selfM fst_conv snd_conv
    apply (rule wp_any, cases "Validate r (jLimits j)")
    subgoal by (simp add: wps err)
    subgoal for x t u
      apply (simp add: wp_basic e wp_ensureOpen wp_effect err wp_selfM wp_setM split: option.split)
      apply (intro allI impI conjI)
      apply (rule wp_any)+
      apply (auto simp: err appended_def [symmetric] intro!: ok a)
      done
    subgoal by (simp add: err)
    done
qed

lemma InstallSnapshot_object:
  assumes "journal_fields j" and err: "\<And>e v. E e (v, j)"
    and ok: "\<And>n cb k v. \<not> jClosed j \<Longrightarrow> install_checks j path cp n cb \<Longrightarrow> Q () (v, moved j (Watermark n) [] k)"
  shows "wp (InstallSnapshot path cp) Q E (w, j)"
proof (cases "jClosed j \<or> jFile j = None")
  case True
  then show ?thesis
    unfolding InstallSnapshot_def
    by (auto simp: wp_bind wp_effect wp_osM wp_ensureOpen err intro!: wp_any split: option.split)
next
  case False
  then obtain i where i: "\<not> jClosed j" "jFile j = Some i" by auto
  show ?thesis by (rule wp_InstallSnapshot [OF assms(1) i]) (use err ok [OF i(1)] in auto)
qed

section \<open>The invariant of a node\<close>

text \<open>
  The logical state is a base, no newer than the journal's floor, with the journal's records applied to it in order;
  this is what a restart rebuilds from the checkpoint and the journal.
\<close>

definition based :: "Limits \<Rightarrow> Store \<Rightarrow> Journal \<Rightarrow> Store \<Rightarrow> bool" where
  "based L base j s \<longleftrightarrow> store_wf L base \<and> (\<forall>k r. lookup base k = Some r \<longrightarrow> rVersion r \<le> jFloor j) \<and> s = apply_all (jRecords j) base"

text \<open>Every visible blob record has its blob, and the blob hashes to the recorded key.\<close>

definition blobs_present :: "(bytes \<rightharpoonup> bytes) \<Rightarrow> Store \<Rightarrow> bool" where
  "blobs_present D s \<longleftrightarrow> (\<forall>k r. lookup s k = Some r \<and> State r = StatePresent \<longrightarrow> (\<exists>d. D (BlobKey r) = Some d \<and> sha256 d = BlobKey r))"

definition node_ok :: "Limits \<Rightarrow> (bytes \<rightharpoonup> bytes) \<Rightarrow> 's node \<Rightarrow> bool" where
  "node_ok L D n \<longleftrightarrow> journal_fields (nJournal n) \<and> (\<exists>base. based L base (nJournal n) (nState n)) \<and> blobs_present D (nState n)"

lemma apply_all_snoc [simp]: "apply_all (rs @ [r]) s = snd (Apply r (apply_all rs s))" "apply_all [] s = s"
  by (simp_all add: apply_all_def)

lemma based_wf: "based L base j s \<Longrightarrow> store_wf L s"
  by (auto simp: based_def apply_all_wf)

lemma apply_all_versions:
  assumes "store_wf L base" and "\<forall>k r. lookup base k = Some r \<longrightarrow> rVersion r \<le> fl" and "increasing fl rs"
    and "lookup (apply_all rs base) k = Some r"
  shows "rVersion r \<le> last_version fl rs"
  using assms(3,4)
proof (induction rs arbitrary: r rule: rev_induct)
  case (snoc q rs)
  have wf: "store_wf L (apply_all rs base)" by (rule apply_all_wf [OF assms(1)])
  have "lookup (snd (Apply q (apply_all rs base))) k = Some r \<Longrightarrow> r = q \<or> lookup (apply_all rs base) k = Some r"
    by (auto simp: Apply_eval update_conv' split: sum.splits if_splits)
  with snoc.prems(2) snoc.IH snoc.prems(1) show ?case by (auto intro: order_trans less_imp_le)
qed (simp, metis assms(2))

text \<open>No visible record is newer than the journal's last version.\<close>

lemma based_versions:
  assumes "based L base j s" and "journal_fields j" and "lookup s k = Some r"
  shows "rVersion r \<le> jLast j"
  using assms apply_all_versions [of L base "jFloor j" "jRecords j" k r] by (simp add: based_def journal_fields_def)

lemma based_append:
  assumes "based L base j s"
  shows "based L base (appended j r) (snd (Apply r s))"
  using assms by (simp add: based_def)

lemma based_install:
  assumes "store_wf L s" and "sLimits s = normalized_limits L" and "normalizeCheckpoint cp L = Inr (n, L')"
  shows "based L (s\<lparr>sRecords := map (\<lambda>r. (record_key r, r)) (cpRecords n)\<rparr>) (moved j (Watermark n) [] k) (s\<lparr>sRecords := map (\<lambda>r. (record_key r, r)) (cpRecords n)\<rparr>)"
    and "ReplaceSnapshot (cpRecords n) s = (Inr (), s\<lparr>sRecords := map (\<lambda>r. (record_key r, r)) (cpRecords n)\<rparr>)"
proof -
  have c: "\<forall>r\<in>set (cpRecords n). valid_record L r \<and> rVersion r \<le> Watermark n" "distinct (map record_key (cpRecords n))"
    using assms(3) by (auto simp: normalizeCheckpoint_ok normalizeCheckpointRecords_ok)
  then show "ReplaceSnapshot (cpRecords n) s = (Inr (), s\<lparr>sRecords := map (\<lambda>r. (record_key r, r)) (cpRecords n)\<rparr>)"
    using assms(2) by (intro ReplaceSnapshot_ok) auto
  show "based L (s\<lparr>sRecords := map (\<lambda>r. (record_key r, r)) (cpRecords n)\<rparr>) (moved j (Watermark n) [] k) (s\<lparr>sRecords := map (\<lambda>r. (record_key r, r)) (cpRecords n)\<rparr>)"
    using c assms(2) by (auto simp: based_def store_wf_def moved_def o_def dest: map_of_SomeD)
qed

lemma blobs_present_Apply:
  assumes "blobs_present D s" and "State r = StatePresent \<longrightarrow> (\<exists>d. D (BlobKey r) = Some d \<and> sha256 d = BlobKey r)"
  shows "blobs_present D (snd (Apply r s))"
  using assms by (auto simp: blobs_present_def Apply_eval update_conv' split: sum.splits if_splits)

text \<open>A store that may replace blobs, but only by blobs that hash to their key, keeps the good ones.\<close>

definition keeps_good :: "(bytes \<rightharpoonup> bytes) \<Rightarrow> (bytes \<rightharpoonup> bytes) \<Rightarrow> bool" where
  "keeps_good D D' \<longleftrightarrow> (\<forall>k d. D k = Some d \<and> sha256 d = k \<longrightarrow> (\<exists>d'. D' k = Some d' \<and> sha256 d' = k))"

lemma keeps_good_simps [simp]: "keeps_good D D" "sha256 d = k \<Longrightarrow> keeps_good D (D(k \<mapsto> d))"
  by (auto simp: keeps_good_def)

lemma keeps_good_trans: "keeps_good D D' \<Longrightarrow> keeps_good D' D'' \<Longrightarrow> keeps_good D D''"
  unfolding keeps_good_def by metis

lemma blobs_present_keeps: "blobs_present D s \<Longrightarrow> keeps_good D D' \<Longrightarrow> blobs_present D' s"
  unfolding blobs_present_def keeps_good_def by meson

section \<open>The applier keeps the invariant\<close>

datatype apply_op = ApplyRecord Record "bytes option" | ApplyCheckpoint Checkpoint bytes

fun run_apply :: "'s Applier \<Rightarrow> bytes list \<Rightarrow> apply_op \<Rightarrow> (world \<times> 's node, unit) M" where
  "run_apply a caps (ApplyRecord r supplied) = bindM (Applier_Apply a caps r supplied) (\<lambda>_. returnM ())"
| "run_apply a caps (ApplyCheckpoint cp path) = ApplySnapshot a caps cp path"

text \<open>What a client may rely on after a success: the version is covered by the journal and the state.\<close>

fun reflected :: "apply_op \<Rightarrow> 's node \<Rightarrow> bool" where
  "reflected (ApplyRecord r _) n \<longleftrightarrow> rVersion r \<le> jLast (nJournal n) \<and>
     (\<exists>p. lookup (nState n) (record_key r) = Some p \<and> rVersion r \<le> rVersion p)"
| "reflected (ApplyCheckpoint cp _) n \<longleftrightarrow> jFloor (nJournal n) = Watermark cp \<and> jRecords (nJournal n) = [] \<and>
     set (map snd (sRecords (nState n))) = set (cpRecords cp)"

lemma Classify_reflected:
  assumes "Classify r s = Inr x" and "Outcome x \<noteq> OutcomeApplied"
  shows "\<exists>p. lookup s (record_key r) = Some p \<and> rVersion r \<le> rVersion p"
  using assms by (auto simp: Classify_def resE classifyRecord_def Let_def split: option.splits if_splits)

lemma Apply_reflected:
  assumes "Classify r s = Inr x" and "Outcome x = OutcomeApplied"
  shows "lookup (snd (Apply r s)) (record_key r) = Some r"
  using assms by (auto simp: Classify_def Apply_eval update_conv')

text \<open>A record never lowers the version of any key; every operation only moves the journal forward.\<close>

definition advances :: "'s node \<Rightarrow> 's node \<Rightarrow> bool" where
  "advances n n' \<longleftrightarrow> jLast (nJournal n) \<le> jLast (nJournal n') \<and>
     (\<forall>k p. lookup (nState n) k = Some p \<longrightarrow> (\<exists>p'. lookup (nState n') k = Some p' \<and> rVersion p \<le> rVersion p'))"

lemma advances_refl [simp]: "advances n n"
  by (simp add: advances_def)

lemma advances_trans: "advances n m \<Longrightarrow> advances m l \<Longrightarrow> advances n l"
  unfolding advances_def by (meson order_trans)

lemma Apply_advances:
  assumes "lookup s k = Some p"
  shows "\<exists>p'. lookup (snd (Apply r s)) k = Some p' \<and> rVersion p \<le> rVersion p'"
  using assms by (auto simp: Apply_eval classifyRecord_def update_conv' resE split: sum.splits if_splits option.splits)

text \<open>A store whose content does not depend on the rest of the world.\<close>

locale local_blobs = blob_store bs view ok
  for bs :: "'s BlobStore" and view :: "world \<times> 's \<Rightarrow> bytes \<rightharpoonup> bytes" and ok :: "world \<times> 's \<Rightarrow> bool" +
  assumes view_local: "view (w, b) = view (v, b)" and ok_local: "ok (w, b) = ok (v, b)"

context local_blobs
begin

definition contents :: "'s \<Rightarrow> bytes \<rightharpoonup> bytes" where
  "contents b = view (empty_world, b)"

definition usable :: "'s \<Rightarrow> bool" where
  "usable b \<longleftrightarrow> ok (empty_world, b)"

lemma contents_eq: "view (w, b) = contents b" "ok (w, b) = usable b"
  unfolding contents_def usable_def by (rule view_local, rule ok_local)

lemma wp_ensureBlob:
  assumes "apBlobs a = Some bs" and "usable (nBlobs n)"
    and err: "\<And>e v b. usable b \<Longrightarrow> keeps_good (contents (nBlobs n)) (contents b) \<Longrightarrow> E e (v, n\<lparr>nBlobs := b\<rparr>)"
    and done': "\<And>v b d. usable b \<Longrightarrow> keeps_good (contents (nBlobs n)) (contents b) \<Longrightarrow> contents b key = Some d \<Longrightarrow> sha256 d = key \<Longrightarrow> Q () (v, n\<lparr>nBlobs := b\<rparr>)"
  shows "wp (ensureBlob a key supplied) Q E (w, n)"
proof (cases supplied)
  case None
  have n: "n\<lparr>nBlobs := nBlobs n\<rparr> = n" by simp
  have "wp (bsGet bs key) (\<lambda>d t. ok t \<and> view t = view (w, nBlobs n) \<and> view (w, nBlobs n) key = Some d)
      (\<lambda>e t. ok t \<and> view t = view (w, nBlobs n) \<and> (e = EStorage ErrNotFound \<longrightarrow> view (w, nBlobs n) key = None)) (w, nBlobs n)"
    by (rule get) (use assms(2) in \<open>simp add: contents_eq\<close>)
  then have "wp (bsGet bs key) (\<lambda>d t. usable (snd t) \<and> contents (snd t) = contents (nBlobs n) \<and> contents (nBlobs n) key = Some d)
      (\<lambda>e t. usable (snd t) \<and> contents (snd t) = contents (nBlobs n)) (w, nBlobs n)"
    by (rule wp_mono) (auto simp: contents_eq split: prod.splits)
  then have "wp (bsGet bs key) (\<lambda>d t. case VerifySHA256Key key d of Inl e \<Rightarrow> E e (fst t, n\<lparr>nBlobs := snd t\<rparr>) | Inr _ \<Rightarrow> Q () (fst t, n\<lparr>nBlobs := snd t\<rparr>))
      (\<lambda>e t. \<forall>e'. E e' (fst t, n\<lparr>nBlobs := snd t\<rparr>)) (w, nBlobs n)"
    by (rule wp_mono) (auto simp: VerifySHA256Key_ok split: sum.split intro!: err done')
  then show ?thesis
    unfolding ensureBlob_def assms(1) None
    by (simp add: wps) (erule wp_mono, auto simp: wps split: sum.split)
next
  case (Some d)
  show ?thesis
  proof (cases "VerifySHA256Key key d")
    case (Inl e)
    with Some assms(1,2) err [of "nBlobs n"] show ?thesis by (simp add: ensureBlob_def wps)
  next
    case (Inr u)
    then have k: "sha256 d = key" by (simp add: VerifySHA256Key_ok)
    have "wp (bsPut bs key d) (\<lambda>_ t. ok t \<and> key \<noteq> [] \<and> view t = (view (w, nBlobs n))(key \<mapsto> d))
      (\<lambda>_ t. ok t \<and> (view t = view (w, nBlobs n) \<or> view t = (view (w, nBlobs n))(key \<mapsto> d))) (w, nBlobs n)"
      by (rule put) (use assms(2) in \<open>simp add: contents_eq\<close>)
    then have "wp (bsPut bs key d) (\<lambda>_ t. Q () (fst t, n\<lparr>nBlobs := snd t\<rparr>)) (\<lambda>e t. E e (fst t, n\<lparr>nBlobs := snd t\<rparr>)) (w, nBlobs n)"
      by (rule wp_mono) (use k in \<open>auto simp: contents_eq split: prod.splits intro!: err done'\<close>)
    with Some assms(1) Inr show ?thesis by (simp add: ensureBlob_def wps)
  qed
qed

lemma wp_Applier_Apply:
  assumes "apBlobs a = Some bs" and "usable (nBlobs n)" and "journal_fields (nJournal n)"
    and err: "\<And>e v b. usable b \<Longrightarrow> keeps_good (contents (nBlobs n)) (contents b) \<Longrightarrow> E e (v, n\<lparr>nBlobs := b\<rparr>)"
    and same: "\<And>x v. HasLifecycleCapability caps \<Longrightarrow> Classify r (nState n) = Inr x \<Longrightarrow> Outcome x \<noteq> OutcomeApplied \<Longrightarrow> Q x (v, n)"
    and applied: "\<And>x v b. HasLifecycleCapability caps \<Longrightarrow> Classify r (nState n) = Inr x \<Longrightarrow> Outcome x = OutcomeApplied \<Longrightarrow>
      appendable (nJournal n) r \<Longrightarrow> usable b \<Longrightarrow> keeps_good (contents (nBlobs n)) (contents b) \<Longrightarrow>
      State r = StatePresent \<longrightarrow> (\<exists>d. contents b (BlobKey r) = Some d \<and> sha256 d = BlobKey r) \<Longrightarrow>
      Q x (v, n\<lparr>nBlobs := b, nJournal := appended (nJournal n) r, nState := snd (Apply r (nState n))\<rparr>)"
  shows "wp (Applier_Apply a caps r supplied) Q E (w, n)"
proof -
  have e: "E x (v, n)" for x v using err [of "nBlobs n" x v] assms(2) by simp
  have publish: "wp (bindM (journalM (Append r)) (\<lambda>_. stateM (Apply r))) Q E (v, n\<lparr>nBlobs := b\<rparr>)"
    if c: "HasLifecycleCapability caps" "Classify r (nState n) = Inr x" "Outcome x = OutcomeApplied"
      and b: "usable b" "keeps_good (contents (nBlobs n)) (contents b)"
        "State r = StatePresent \<longrightarrow> (\<exists>d. contents b (BlobKey r) = Some d \<and> sha256 d = BlobKey r)" for v b x
  proof -
    obtain s' where ap: "Apply r (nState n) = (Inr x, s')" using c(2) Apply_Classify [of r "nState n"] by (metis prod.collapse)
    have j: "(n\<lparr>nBlobs := b\<rparr>)\<lparr>nJournal := nJournal n\<rparr> = n\<lparr>nBlobs := b\<rparr>" by simp
    have "wp (Append r) (\<lambda>_ t. wp (stateM (Apply r)) Q E (fst t, n\<lparr>nBlobs := b, nJournal := snd t\<rparr>))
        (\<lambda>e t. E e (fst t, n\<lparr>nBlobs := b, nJournal := snd t\<rparr>)) (v, nJournal n)"
    proof (rule Append_object [OF assms(3)])
      show "E e (fst (u, nJournal n), n\<lparr>nBlobs := b, nJournal := snd (u, nJournal n)\<rparr>)" for e u using err [OF b(1,2)] j by simp
      fix u assume a: "appendable (nJournal n) r"
      from applied [OF c a b, of u] ap show "wp (stateM (Apply r)) Q E (fst (u, appended (nJournal n) r), n\<lparr>nBlobs := b, nJournal := snd (u, appended (nJournal n) r)\<rparr>)"
        by (simp add: wps wp_def)
    qed
    then show ?thesis by (simp add: wps)
  qed
  have body: "wp (if State r = StatePresent then ensureBlob a (BlobKey r) supplied else returnM ())
      (\<lambda>_. wp (bindM (journalM (Append r)) (\<lambda>_. stateM (Apply r))) Q E) E (v, n)"
    if c: "HasLifecycleCapability caps" "Classify r (nState n) = Inr x" "Outcome x = OutcomeApplied" for v x
  proof (cases "State r = StatePresent")
    case True
    have "wp (ensureBlob a (BlobKey r) supplied) (\<lambda>_. wp (bindM (journalM (Append r)) (\<lambda>_. stateM (Apply r))) Q E) E (v, n)"
      by (rule wp_ensureBlob [OF assms(1,2)]) (use err publish [OF c] in auto)
    with True show ?thesis by simp
  next
    case False
    with publish [OF c, of "nBlobs n" v] assms(2) show ?thesis by (simp add: wp_basic)
  qed
  show ?thesis
    unfolding Applier_Apply_def wp_bind [of "osM pollM"] wp_osM [of pollM]
    by (rule wp_any; cases "Classify r (nState n)")
      (use body e same in \<open>auto simp: wp_bind wp_effect wp_basic wp_selfM split: sum.split\<close>)
qed

lemma wp_ensure_all:
  assumes "apBlobs a = Some bs" and "usable (nBlobs n)"
    and err: "\<And>e v b. usable b \<Longrightarrow> keeps_good (contents (nBlobs n)) (contents b) \<Longrightarrow> E e (v, n\<lparr>nBlobs := b\<rparr>)"
    and all: "\<And>v b. usable b \<Longrightarrow> keeps_good (contents (nBlobs n)) (contents b) \<Longrightarrow>
      (\<And>r. r \<in> set rs \<Longrightarrow> State r = StatePresent \<Longrightarrow> \<exists>d. contents b (BlobKey r) = Some d \<and> sha256 d = BlobKey r) \<Longrightarrow> Q () (v, n\<lparr>nBlobs := b\<rparr>)"
  shows "wp (forM (\<lambda>r. if State r = StatePresent then ensureBlob a (BlobKey r) None else returnM ()) rs) Q E (w, n)"
proof -
  let ?I = "\<lambda>ys s. \<exists>v b. s = (v, n\<lparr>nBlobs := b\<rparr>) \<and> usable b \<and> keeps_good (contents (nBlobs n)) (contents b) \<and> set ys \<subseteq> set rs \<and>
    (\<forall>r\<in>set rs. r \<in> set ys \<or> (State r = StatePresent \<longrightarrow> (\<exists>d. contents b (BlobKey r) = Some d \<and> sha256 d = BlobKey r)))"
  show ?thesis
  proof (rule wp_forM [where I = ?I])
    show "?I rs (w, n)" using assms(2) by (intro exI [of _ w] exI [of _ "nBlobs n"]) auto
    show "Q () s" if "?I [] s" for s using that all by auto
    fix r ys and s :: "world \<times> 's node" assume "?I (r # ys) s"
    then obtain v b where s: "s = (v, n\<lparr>nBlobs := b\<rparr>)" "usable b" "keeps_good (contents (nBlobs n)) (contents b)" "r \<in> set rs" "set ys \<subseteq> set rs"
      "\<forall>q\<in>set rs. q = r \<or> q \<in> set ys \<or> (State q = StatePresent \<longrightarrow> (\<exists>d. contents b (BlobKey q) = Some d \<and> sha256 d = BlobKey q))" by auto
    have trans: "keeps_good (contents (nBlobs n)) (contents b')" if "keeps_good (contents b) (contents b')" for b'
      by (rule keeps_good_trans [OF s(3) that])
    show "wp (if State r = StatePresent then ensureBlob a (BlobKey r) None else returnM ()) (\<lambda>_. ?I ys) E s"
    proof (cases "State r = StatePresent")
      case True
      have "wp (ensureBlob a (BlobKey r) None) (\<lambda>_. ?I ys) E (v, n\<lparr>nBlobs := b\<rparr>)"
      proof (rule wp_ensureBlob [OF assms(1)])
        show "usable (nBlobs (n\<lparr>nBlobs := b\<rparr>))" using s(2) by simp
        show "E e (u, n\<lparr>nBlobs := b, nBlobs := b'\<rparr>)" if "usable b'" "keeps_good (contents (nBlobs (n\<lparr>nBlobs := b\<rparr>))) (contents b')" for e u b'
          using that err trans by simp
        fix u b' d assume b': "usable b'" "keeps_good (contents (nBlobs (n\<lparr>nBlobs := b\<rparr>))) (contents b')" "contents b' (BlobKey r) = Some d" "sha256 d = BlobKey r"
        then have kb: "keeps_good (contents b) (contents b')" by simp
        have "\<forall>q\<in>set rs. q \<in> set ys \<or> (State q = StatePresent \<longrightarrow> (\<exists>d. contents b' (BlobKey q) = Some d \<and> sha256 d = BlobKey q))"
          using s(6) b'(3,4) kb unfolding keeps_good_def by metis
        with b'(1) trans [OF kb] s(5) show "?I ys (u, n\<lparr>nBlobs := b, nBlobs := b'\<rparr>)" by auto
      qed
      with True s(1) show ?thesis by simp
    next
      case False
      with s show ?thesis by (auto simp: wp_basic)
    qed
  qed
qed

lemma wp_ApplySnapshot:
  assumes "apBlobs a = Some bs" and "usable (nBlobs n)" and "journal_fields (nJournal n)" and "store_wf L (nState n)"
    and "apLimits a = normalized_limits L"
    and err: "\<And>e v b. usable b \<Longrightarrow> keeps_good (contents (nBlobs n)) (contents b) \<Longrightarrow> E e (v, n\<lparr>nBlobs := b\<rparr>)"
    and done': "\<And>v b c k. HasLifecycleCapability caps \<Longrightarrow> normalizeCheckpoint cp L = Inr (c, normalized_limits L) \<Longrightarrow> \<not> jClosed (nJournal n) \<Longrightarrow>
      jLast (nJournal n) \<le> Watermark c \<Longrightarrow> usable b \<Longrightarrow> keeps_good (contents (nBlobs n)) (contents b) \<Longrightarrow>
      (\<And>r. r \<in> set (cpRecords c) \<Longrightarrow> State r = StatePresent \<Longrightarrow> \<exists>d. contents b (BlobKey r) = Some d \<and> sha256 d = BlobKey r) \<Longrightarrow>
      Q () (v, n\<lparr>nBlobs := b, nJournal := moved (nJournal n) (Watermark c) [] k,
                nState := (nState n)\<lparr>sRecords := map (\<lambda>r. (record_key r, r)) (cpRecords c)\<rparr>\<rparr>)"
  shows "wp (ApplySnapshot a caps cp path) Q E (w, n)"
proof -
  have e: "E x (v, n)" for x v using err [of "nBlobs n" x v] assms(2) by simp
  have nl: "normalizeCheckpoint cp (apLimits a) = normalizeCheckpoint cp L" by (simp add: assms(5) normalizeCheckpoint_def Let_def)
  have body: "wp (forM (\<lambda>r. if State r = StatePresent then ensureBlob a (BlobKey r) None else returnM ()) (cpRecords c))
      (\<lambda>_. wp (bindM (journalM (InstallSnapshot path c)) (\<lambda>_. stateM (ReplaceSnapshot (cpRecords c)))) Q E) E (v, n)"
    if c: "HasLifecycleCapability caps" "normalizeCheckpoint cp L = Inr (c, L')" for v c L'
  proof (rule wp_ensure_all [OF assms(1,2)])
    show "E e (u, n\<lparr>nBlobs := b\<rparr>)" if "usable b" "keeps_good (contents (nBlobs n)) (contents b)" for e u b using err that .
    have L': "L' = normalized_limits L" using c(2) by (simp add: normalizeCheckpoint_ok)
    fix u b assume b: "usable b" "keeps_good (contents (nBlobs n)) (contents b)"
      "\<And>r. r \<in> set (cpRecords c) \<Longrightarrow> State r = StatePresent \<Longrightarrow> \<exists>d. contents b (BlobKey r) = Some d \<and> sha256 d = BlobKey r"
    have lim: "sLimits (nState n) = normalized_limits L" using assms(4) by (simp add: store_wf_def)
    have "wp (InstallSnapshot path c) (\<lambda>_ t. wp (stateM (ReplaceSnapshot (cpRecords c))) Q E (fst t, n\<lparr>nBlobs := b, nJournal := snd t\<rparr>))
        (\<lambda>e t. E e (fst t, n\<lparr>nBlobs := b, nJournal := snd t\<rparr>)) (u, nJournal n)"
    proof (rule InstallSnapshot_object [OF assms(3)])
      have "(n\<lparr>nBlobs := b\<rparr>)\<lparr>nJournal := nJournal n\<rparr> = n\<lparr>nBlobs := b\<rparr>" by simp
      then show "E e (fst (x, nJournal n), n\<lparr>nBlobs := b, nJournal := snd (x, nJournal n)\<rparr>)" for e x using err [OF b(1,2)] by simp
      fix m cb k x assume open': "\<not> jClosed (nJournal n)" and m: "install_checks (nJournal n) path c m cb"
      have w: "Watermark m = Watermark c" using m by (simp add: install_checks_def normalizeCheckpoint_ok)
      then have "jLast (nJournal n) \<le> Watermark c" using m by (simp add: install_checks_def)
      from done' [OF c(1) c(2) [unfolded L'] open' this b] based_install(2) [OF assms(4) lim c(2)] w
      show "wp (stateM (ReplaceSnapshot (cpRecords c))) Q E (fst (x, moved (nJournal n) (Watermark m) [] k),
          n\<lparr>nBlobs := b, nJournal := snd (x, moved (nJournal n) (Watermark m) [] k)\<rparr>)"
        by (simp add: wps wp_def)
    qed
    then show "wp (bindM (journalM (InstallSnapshot path c)) (\<lambda>_. stateM (ReplaceSnapshot (cpRecords c)))) Q E (u, n\<lparr>nBlobs := b\<rparr>)"
      by (simp add: wps)
  qed
  show ?thesis
    unfolding ApplySnapshot_def wp_bind [of "osM pollM"] wp_osM [of pollM]
    by (rule wp_any; cases "normalizeCheckpoint cp L")
      (use body e nl in \<open>auto simp: wp_bind wp_effect wp_basic split_beta split: sum.split\<close>)
qed

definition node_inv :: "Limits \<Rightarrow> 's node \<Rightarrow> bool" where
  "node_inv L n \<longleftrightarrow> usable (nBlobs n) \<and> node_ok L (contents (nBlobs n)) n"

lemma node_inv_blobs:
  assumes "node_inv L n" and "usable b" and "keeps_good (contents (nBlobs n)) (contents b)"
  shows "node_inv L (n\<lparr>nBlobs := b\<rparr>)"
  using assms blobs_present_keeps by (auto simp: node_inv_def node_ok_def)

text \<open>A failure leaves state, journal and watermarks as they were.\<close>

definition only_blobs :: "Limits \<Rightarrow> 's node \<Rightarrow> 's node \<Rightarrow> bool" where
  "only_blobs L n n' \<longleftrightarrow> node_inv L n' \<and> nWatermarks n' = nWatermarks n \<and> nState n' = nState n \<and> nJournal n' = nJournal n"

lemma only_blobs: "node_inv L n \<Longrightarrow> usable b \<Longrightarrow> keeps_good (contents (nBlobs n)) (contents b) \<Longrightarrow> only_blobs L n (n\<lparr>nBlobs := b\<rparr>)"
  using node_inv_blobs by (simp add: only_blobs_def)

lemma wp_apply_record:
  assumes a: "apBlobs a = Some bs" and "node_inv L n"
    and err: "\<And>e v n'. only_blobs L n n' \<Longrightarrow> E e (v, n')"
    and ok: "\<And>x v n'. node_inv L n' \<Longrightarrow> nWatermarks n' = nWatermarks n \<Longrightarrow> advances n n' \<Longrightarrow> HasLifecycleCapability caps \<Longrightarrow>
      reflected (ApplyRecord r supplied) n' \<Longrightarrow> Q x (v, n')"
  shows "wp (Applier_Apply a caps r supplied) Q E (w, n)"
proof -
  obtain base where u: "usable (nBlobs n)" and f: "journal_fields (nJournal n)" "based L base (nJournal n) (nState n)"
      "blobs_present (contents (nBlobs n)) (nState n)"
    using assms(2) by (auto simp: node_inv_def node_ok_def)
  show ?thesis
  proof (rule wp_Applier_Apply [OF a u f(1)])
    show "E e (v, n\<lparr>nBlobs := b\<rparr>)" if "usable b" "keeps_good (contents (nBlobs n)) (contents b)" for e v b
      by (rule err) (rule only_blobs [OF assms(2) that])
    show "Q x (v, n)" if c: "HasLifecycleCapability caps" "Classify r (nState n) = Inr x" "Outcome x \<noteq> OutcomeApplied" for x v
    proof (rule ok [OF assms(2) _ _ c(1)])
      obtain p where p: "lookup (nState n) (record_key r) = Some p" "rVersion r \<le> rVersion p" using Classify_reflected [OF c(2,3)] by blast
      with order_trans [OF p(2) based_versions [OF f(2,1) p(1)]] show "reflected (ApplyRecord r supplied) n" by simp
    qed simp_all
    fix x v b assume c: "HasLifecycleCapability caps" "Classify r (nState n) = Inr x" "Outcome x = OutcomeApplied" "appendable (nJournal n) r"
      "usable b" "keeps_good (contents (nBlobs n)) (contents b)" "State r = StatePresent \<longrightarrow> (\<exists>d. contents b (BlobKey r) = Some d \<and> sha256 d = BlobKey r)"
    let ?n = "n\<lparr>nBlobs := b, nJournal := appended (nJournal n) r, nState := snd (Apply r (nState n))\<rparr>"
    have "jLast (nJournal n) \<le> rVersion r" using c(4) by (auto simp: appendable_def)
    then have "advances n ?n" using Apply_advances [of "nState n"] by (simp add: advances_def)
    moreover have "blobs_present (contents b) (snd (Apply r (nState n)))"
      using blobs_present_keeps [OF f(3) c(6)] c(7) by (rule blobs_present_Apply)
    ultimately show "Q x (v, ?n)"
      using c(5) appended_fields [OF f(1) c(4)] based_append [OF f(2), of r] Apply_reflected [OF c(2,3)]
      by (intro ok [OF _ _ _ c(1)]) (auto simp: node_inv_def node_ok_def)
  qed
qed

lemma wp_apply_snapshot:
  assumes a: "apBlobs a = Some bs" "apLimits a = normalized_limits L" and "node_inv L n"
    and err: "\<And>e v n'. only_blobs L n n' \<Longrightarrow> E e (v, n')"
    and ok: "\<And>v n'. node_inv L n' \<Longrightarrow> nWatermarks n' = nWatermarks n \<Longrightarrow> jLast (nJournal n) \<le> jLast (nJournal n') \<Longrightarrow>
      HasLifecycleCapability caps \<Longrightarrow> jLast (nJournal n') = Watermark cp \<Longrightarrow> reflected (ApplyCheckpoint cp path) n' \<Longrightarrow> Q () (v, n')"
  shows "wp (ApplySnapshot a caps cp path) Q E (w, n)"
proof -
  obtain base where u: "usable (nBlobs n)" and f: "journal_fields (nJournal n)" "based L base (nJournal n) (nState n)"
      "blobs_present (contents (nBlobs n)) (nState n)"
    using assms(3) by (auto simp: node_inv_def node_ok_def)
  have wf: "store_wf L (nState n)" using f(2) by (rule based_wf)
  show ?thesis
  proof (rule wp_ApplySnapshot [OF a(1) u f(1) wf a(2)])
    show "E e (v, n\<lparr>nBlobs := b\<rparr>)" if "usable b" "keeps_good (contents (nBlobs n)) (contents b)" for e v b
      by (rule err) (rule only_blobs [OF assms(3) that])
    fix v b c k assume c: "HasLifecycleCapability caps" "normalizeCheckpoint cp L = Inr (c, normalized_limits L)" "jLast (nJournal n) \<le> Watermark c"
      "usable b" "\<And>r. r \<in> set (cpRecords c) \<Longrightarrow> State r = StatePresent \<Longrightarrow> \<exists>d. contents b (BlobKey r) = Some d \<and> sha256 d = BlobKey r"
    let ?s = "(nState n)\<lparr>sRecords := map (\<lambda>r. (record_key r, r)) (cpRecords c)\<rparr>"
    have lim: "sLimits (nState n) = normalized_limits L" using wf by (simp add: store_wf_def)
    have "journal_fields (moved (nJournal n) (Watermark c) [] k)"
      using moved_fields [OF f(1), of "Watermark c" "length (jRecords (nJournal n))" k] by simp
    moreover have "blobs_present (contents b) ?s" using c(5) by (auto simp: blobs_present_def dest!: map_of_SomeD)
    moreover have "Watermark c = Watermark cp" "set (cpRecords c) = set (cpRecords cp)"
      using c(2) by (auto simp: normalizeCheckpoint_ok normalizeCheckpointRecords_ok)
    ultimately show "Q () (v, n\<lparr>nBlobs := b, nJournal := moved (nJournal n) (Watermark c) [] k, nState := ?s\<rparr>)"
      using c(3,4) based_install(1) [OF wf lim c(2), of "nJournal n" k]
      by (intro ok [OF _ _ _ c(1)]) (auto simp: node_inv_def node_ok_def moved_def o_def)
  qed
qed

end

interpretation ml: local_blobs "memory_blobs bt" memory_view "\<lambda>_. True" for bt :: "'t btree"
  by unfold_locales simp_all

lemma ml_contents [simp]: "local_blobs.contents memory_view b = map_of (msData b)"
  by (simp add: ml.contents_def)

section \<open>Theorems\<close>

text \<open>
  C22. The applier keeps a node recoverable.  Whatever record or snapshot arrives, and whatever fails on the way: the logical state
  is always the base at the journal's floor with the journal's records applied, every visible blob record has
  its blob in the store under its SHA-256 key, a failure leaves state and journal as they were, and a
  success means that the peer had the capability and that state and journal cover what was applied.
\<close>

theorem applier_keeps_node:
  fixes n :: "'t MemoryStore node" and bt :: "'t btree"
  assumes "node_ok L (map_of (msData (nBlobs n))) n"
    and "run_apply (NewApplier (Some (memory_blobs bt)) L) caps op (w, n) = (res, (v, n'))"
  shows "node_ok L (map_of (msData (nBlobs n'))) n' \<and> nWatermarks n' = nWatermarks n \<and>
    (case res of Inl _ \<Rightarrow> nState n' = nState n \<and> nJournal n' = nJournal n | Inr _ \<Rightarrow> HasLifecycleCapability caps \<and> reflected op n')"
proof -
  let ?a = "NewApplier (Some (memory_blobs bt)) L"
  let ?E = "\<lambda>_ s. ml.only_blobs L n (snd s)"
  let ?Q = "\<lambda>_ s. ml.node_inv L (snd s) \<and> nWatermarks (snd s) = nWatermarks n \<and> HasLifecycleCapability caps \<and> reflected op (snd s)"
  have a: "apBlobs ?a = Some (memory_blobs bt)" "apLimits ?a = normalized_limits L" by (simp_all add: NewApplier_def)
  have n: "ml.node_inv L n" using assms(1) by (simp add: ml.node_inv_def ml.usable_def)
  have "wp (run_apply ?a caps op) ?Q ?E (w, n)"
  proof (cases op)
    case (ApplyRecord r supplied)
    have "wp (Applier_Apply ?a caps r supplied) (\<lambda>_. ?Q ()) ?E (w, n)"
      by (rule ml.wp_apply_record [OF a(1) n]) (use ApplyRecord in auto)
    with ApplyRecord show ?thesis by (simp add: wps)
  next
    case (ApplyCheckpoint cp path)
    have "wp (ApplySnapshot ?a caps cp path) ?Q ?E (w, n)"
      by (rule ml.wp_apply_snapshot [OF a n]) (use ApplyCheckpoint in auto)
    with ApplyCheckpoint show ?thesis by simp
  qed
  with assms(2) show ?thesis by (auto simp: wp_def ml.only_blobs_def ml.node_inv_def split: sum.splits)
qed

definition example_node :: "bytes list MemoryStore node" where
  "example_node = \<lparr>nBlobs = NewMemoryStore list_btree, nState = apply_all [example_record 1] (NewStore example_limits),
     nJournal = example_journal, nWatermarks = example_book []\<rparr>"

lemma example_state:
  "nState example_node = \<lparr>sLimits = normalized_limits example_limits, sRecords = [((''ns'', ''key''), example_record 1)]\<rparr>"
  by (simp add: example_node_def apply_all_def Apply_eval NewStore_def classifyRecord_def record_key_def example_record_def [of 1] example_record_valid(1) [unfolded example_record_def])

lemma example_node_ok: "node_ok example_limits (map_of (msData (nBlobs example_node))) example_node"
proof -
  have "based example_limits (NewStore example_limits) example_journal (nState example_node)"
    using NewStore_wf [of example_limits] by (simp add: based_def example_node_def example_journal_def NewStore_def)
  moreover have "blobs_present (map_of (msData (nBlobs example_node))) (nState example_node)"
    unfolding example_state by (auto simp: blobs_present_def example_record_def)
  ultimately show ?thesis using example_journal_inv(1) by (auto simp: node_ok_def example_node_def journal_inv_def)
qed

lemma example_classify: "Classify (example_record 2) (nState example_node) = Inr \<lparr>Outcome = OutcomeApplied, aVersion = MkVersion 1 2\<rparr>"
  unfolding example_state by (simp add: Classify_def classifyRecord_def record_key_def Let_def)

theorem applier_keeps_node_witness:
  "\<exists>v n'. run_apply (NewApplier (Some (memory_blobs list_btree)) example_limits) [LifecycleCapabilityV1] (ApplyRecord (example_record 2) None)
       (example_world, example_node) = (Inr (), (v, n')) \<and>
     node_ok example_limits (map_of (msData (nBlobs n'))) n' \<and> MkVersion 1 2 \<le> jLast (nJournal n')"
proof -
  let ?a = "NewApplier (Some (memory_blobs list_btree)) example_limits"
  obtain v where v: "Append (example_record 2) (example_world, example_journal) = (Inr (), (v, appended example_journal (example_record 2)))"
    using example_append by blast
  have "State (example_record 2) \<noteq> StatePresent" by (simp add: example_record_def)
  moreover obtain s' where "Apply (example_record 2) (nState example_node) = (Inr \<lparr>Outcome = OutcomeApplied, aVersion = MkVersion 1 2\<rparr>, s')"
    using example_classify Apply_Classify [of "example_record 2" "nState example_node"] by (metis prod.collapse)
  moreover have "nJournal example_node = example_journal" by (simp add: example_node_def)
  ultimately obtain n' where r: "run_apply ?a [LifecycleCapabilityV1] (ApplyRecord (example_record 2) None) (example_world, example_node) = (Inr (), (v, n'))"
    using v example_classify example_journal_inv(3)
    by (auto simp: Applier_Apply_def monad calm_run HasLifecycleCapability_def NewApplier_def)
  from applier_keeps_node [OF example_node_ok r] r show ?thesis by auto
qed



end
