(* ===== verification/P2p_Frame.thy ===== *)
theory P2p_Frame
  imports Go_Codec Go_World
begin

text \<open>
  \<^verbatim>\<open>p2p/frame.go\<close> and the frame writer of \<^verbatim>\<open>p2p/tcp_transport.go\<close>: length-prefixed frames over a byte stream.

  A connection is the bytes written to it so far; a write that fails may have written some of its bytes.
  A reader is the bytes not read yet.  The last part is the contract a session relies on when it writes
  frames to a peer.
\<close>

section \<open>Definitions\<close>

definition FrameMagic :: bytes where "FrameMagic = ''SHV1''"
definition DefaultMaxFrameBytes :: int where "DefaultMaxFrameBytes = 4 * 2 ^ 20"

definition frame_limit :: "int \<Rightarrow> int" where
  "frame_limit maxPayload = (if maxPayload \<le> 0 then DefaultMaxFrameBytes else maxPayload)"

text \<open>\<^verbatim>\<open>net.Conn.Write\<close>: an incomplete write returns an error.\<close>

definition conn_write :: "bytes \<Rightarrow> (world \<times> bytes, unit) M" where
  "conn_write data = bindM (osM next_outcome) (\<lambda>out.
     case out of
       OK \<Rightarrow> setM (\<lambda>c. c @ data)
     | Fail n \<Rightarrow> bindM (setM (\<lambda>c. c @ take n data)) (\<lambda>_. throwM (EStd ErrOS))
     | Short n \<Rightarrow> bindM (setM (\<lambda>c. c @ take n data)) (\<lambda>_. throwM (EStd ErrOS)))"

definition WriteFrame :: "bytes \<Rightarrow> int \<Rightarrow> (world \<times> bytes, unit) M" where
  "WriteFrame payload maxPayload =
     (let maxPayload = frame_limit maxPayload in
      bindM (guardM (int (length payload) > maxPayload) (EP2P ErrFrameTooLarge)) (\<lambda>_.
      let hdr = FrameMagic @ put_u32 (of_nat (length payload)) in
      bindM (conn_write hdr) (\<lambda>_.
      conn_write payload)))"

text \<open>\<^verbatim>\<open>io.ReadFull\<close>\<close>

definition read_full :: "nat \<Rightarrow> (bytes, bytes) M" where
  "read_full n r =
     (if n \<le> length r then (Inr (take n r), drop n r)
      else (Inl (EStd (if r = [] then ErrEOF else ErrUnexpectedEOF)), []))"

definition ReadFrame :: "int \<Rightarrow> (bytes, bytes) M" where
  "ReadFrame maxPayload =
     (let maxPayload = frame_limit maxPayload in
      bindM (read_full 4) (\<lambda>magic.
      bindM (guardM (magic \<noteq> FrameMagic) (EP2P ErrBadMagic)) (\<lambda>_.
      bindM (read_full 4) (\<lambda>lenBuf.
      let n = get_u32 lenBuf in
      bindM (guardM (int (unat n) > maxPayload) (EP2P ErrFrameTooLarge)) (\<lambda>_.
      if n = 0 then returnM []
      else read_full (unat n))))))"

text \<open>\<^verbatim>\<open>TCPPeer.WriteFrame\<close> holds the write lock around the call.\<close>

definition TCPPeer_WriteFrame :: "bytes \<Rightarrow> int \<Rightarrow> (world \<times> bytes, unit) M" where
  "TCPPeer_WriteFrame payload maxPayload = WriteFrame payload maxPayload"

section \<open>Reading what was written\<close>

definition frame_bytes :: "bytes \<Rightarrow> bytes" where
  "frame_bytes payload = FrameMagic @ put_u32 (of_nat (length payload)) @ payload"

text \<open>Payloads whose length the header can hold.\<close>

definition frameable :: "int \<Rightarrow> bytes \<Rightarrow> bool" where
  "frameable maxPayload p \<longleftrightarrow> int (length p) \<le> frame_limit maxPayload \<and> length p < 2 ^ 32"

lemma length_FrameMagic [simp]: "length FrameMagic = 4"
  by (simp add: FrameMagic_def)

lemma unat_length: "length p < 2 ^ 32 \<Longrightarrow> unat (of_nat (length p) :: u32) = length p"
  by (simp add: unat_of_nat take_bit_nat_eq_self)

lemma ReadFrame_frame:
  assumes "frameable m p"
  shows "ReadFrame m (frame_bytes p @ rest) = (Inr p, rest)"
proof -
  let ?h = "put_u32 (of_nat (length p))"
  have u: "unat (get_u32 ?h) = length p" using assms by (simp add: frameable_def unat_length)
  then have z: "get_u32 ?h = 0 \<longleftrightarrow> p = []" by (metis length_0_conv unat_eq_zero)
  have ui: "uint (get_u32 ?h) = int (length p)" using u by (metis of_nat_unat)
  have r1: "read_full 4 (FrameMagic @ ?h @ p @ rest) = (Inr FrameMagic, ?h @ p @ rest)" by (simp add: read_full_def)
  have r2: "read_full 4 (?h @ p @ rest) = (Inr ?h, p @ rest)" by (simp add: read_full_def)
  have r3: "read_full (length p) (p @ rest) = (Inr p, rest)" by (simp add: read_full_def)
  show ?thesis
    using assms u ui z r1 r2 r3 unfolding ReadFrame_def frame_bytes_def append_assoc Let_def
    by (cases "p = []") (simp_all add: monad frameable_def del: get_put_u32)
qed

lemma prefix_cases_app: "prefix t (a @ b) \<Longrightarrow> length t < length a \<and> prefix t a \<or> (\<exists>u. t = a @ u \<and> prefix u b)"
  by (auto simp: prefix_append) (metis append_Nil2 le_neq_implies_less prefix_bot.bot_least prefix_length_le prefix_length_prefix prefix_order.antisym prefix_order.refl)

lemma ReadFrame_partial:
  assumes "frameable m p" and "strict_prefix t (frame_bytes p)"
  shows "\<exists>e. ReadFrame m t = (Inl (EStd e), []) \<and> e \<in> {ErrEOF, ErrUnexpectedEOF}"
proof -
  let ?h = "put_u32 (of_nat (length p))"
  have u: "unat (get_u32 ?h) = length p" using assms by (simp add: frameable_def unat_length)
  have ui: "uint (get_u32 ?h) = int (length p)" using u by (metis of_nat_unat)
  have l: "int (length p) \<le> frame_limit m" using assms(1) by (simp add: frameable_def)
  have pre: "prefix t (FrameMagic @ ?h @ p)" "t \<noteq> FrameMagic @ ?h @ p"
    using assms(2) by (simp_all add: strict_prefix_def frame_bytes_def)
  consider (a) "length t < 4" | (b) x where "t = FrameMagic @ x" "length x < 4" | (c) y where "t = FrameMagic @ ?h @ y" "length y < length p"
  proof (cases "length t < 4")
    case False
    then obtain x where x: "t = FrameMagic @ x" "prefix x (?h @ p)" using prefix_cases_app [OF pre(1)] by auto
    show ?thesis
    proof (cases "length x < 4")
      case False
      then obtain y where y: "x = ?h @ y" "prefix y p" using prefix_cases_app [OF x(2)] by auto
      have "y \<noteq> p" using pre(2) x(1) y(1) by auto
      with y(2) have "length y < length p" by (metis prefix_length_less strict_prefix_def)
      with that(3) x y show ?thesis by simp
    qed (use that x in blast)
  qed (use that in blast)
  then show ?thesis
  proof cases
    case a
    then show ?thesis by (simp add: ReadFrame_def monad read_full_def Let_def)
  next
    case b
    then show ?thesis by (simp add: ReadFrame_def monad read_full_def Let_def)
  next
    case c
    then have "p \<noteq> []" by auto
    with u have "get_u32 ?h \<noteq> 0" by (metis length_0_conv unat_eq_zero)
    with c u ui l show ?thesis by (simp add: ReadFrame_def monad read_full_def Let_def del: get_put_u32)
  qed
qed

lemma ReadFrame_ok:
  assumes "ReadFrame m r = (Inr p, r')"
  shows "length r' < length r \<and> int (length p) \<le> frame_limit m"
proof -
  have f: "0 < frame_limit m" by (simp add: frame_limit_def DefaultMaxFrameBytes_def)
  have "wp (ReadFrame m) (\<lambda>p t. length t < length r \<and> int (length p) \<le> frame_limit m) (\<lambda>_ _. True) r"
    using f unfolding ReadFrame_def Let_def wps by (auto simp: wp_def read_full_def wps)
  with assms show ?thesis by (simp add: wp_def)
qed

lemma ReadFrame_mono: "frame_limit m \<le> frame_limit n \<Longrightarrow> ReadFrame m t = (Inr x, r) \<Longrightarrow> ReadFrame n t = (Inr x, r)"
  by (auto simp: ReadFrame_def monad Let_def guardM_def split: prod.splits sum.splits if_splits)

text \<open>Reading the beginning of one frame gives that frame, once all of it is there, or an error.\<close>

lemma ReadFrame_prefix:
  assumes "ReadFrame m t = (Inr x, r)" and "prefix t (frame_bytes p)" and "length p < 2 ^ 32"
  shows "t = frame_bytes p \<and> x = p \<and> int (length p) \<le> frame_limit m"
proof -
  let ?n = "max (frame_limit m) (int (length p))"
  have l: "frame_limit ?n = ?n" by (simp add: frame_limit_def DefaultMaxFrameBytes_def)
  have f: "frameable ?n p" using assms(3) by (simp add: frameable_def l)
  have n: "ReadFrame ?n t = (Inr x, r)" using ReadFrame_mono [OF _ assms(1), of ?n] l by simp
  have t: "t = frame_bytes p" using ReadFrame_partial [OF f, of t] n assms(2) by (auto simp: strict_prefix_def)
  with ReadFrame_frame [OF f, of "[]"] n have "x = p" by simp
  with t ReadFrame_ok [OF assms(1)] show ?thesis by simp
qed

text \<open>What the far end reads from a stream, up to the first error.\<close>

function read_all :: "int \<Rightarrow> bytes \<Rightarrow> bytes list" where
  "read_all m r = (case ReadFrame m r of (Inr p, r') \<Rightarrow> p # read_all m r' | (Inl _, _) \<Rightarrow> [])"
  by auto
termination by (relation "measure (\<lambda>(m, r). length r)") (auto dest!: sym [THEN ReadFrame_ok])

declare read_all.simps [simp del]

lemmas ReadFrame_ok' = sym [THEN ReadFrame_ok]

lemma read_all_bounded: "p \<in> set (read_all m r) \<Longrightarrow> int (length p) \<le> frame_limit m"
proof (induction m r rule: read_all.induct)
  case (1 m r)
  then show ?case by (subst (asm) (2) read_all.simps) (auto dest: ReadFrame_ok' split: prod.splits sum.splits)
qed

lemma read_all_frames:
  assumes "\<forall>p\<in>set ps. frameable m p"
  shows "read_all m (concat (map frame_bytes ps) @ r) = ps @ read_all m r"
  using assms by (induction ps) (simp, subst read_all.simps, simp add: ReadFrame_frame)

lemma read_all_Nil [simp]: "read_all m [] = []"
  by (simp add: read_all.simps [of m "[]"] ReadFrame_def monad read_full_def Let_def)

lemma read_all_partial:
  assumes "frameable m p" and "prefix t (frame_bytes p)"
  shows "prefix (read_all m t) [p]"
proof (cases "t = frame_bytes p")
  case True
  with read_all_frames [of "[p]" m "[]"] assms show ?thesis by simp
next
  case False
  with assms(2) have "strict_prefix t (frame_bytes p)" by (simp add: strict_prefix_def)
  from ReadFrame_partial [OF assms(1) this] show ?thesis by (auto simp: read_all.simps [of m t])
qed

lemma wp_conn_write:
  assumes "\<And>w n. E (EStd ErrOS) (w, snd s @ take n data)" and "\<And>w. Q () (w, snd s @ data)"
  shows "wp (conn_write data) Q E s"
  using assms unfolding conn_write_def wps
  by (simp add: wp_def [of next_outcome] next_outcome_def wps split: outcome.split)

lemma wp_WriteFrame_bytes:
  assumes err: "\<And>e w t. prefix t (frame_bytes p) \<Longrightarrow> int (length p) \<le> frame_limit m \<or> t = [] \<Longrightarrow> E e (w, snd s @ t)"
    and ok: "\<And>w. int (length p) \<le> frame_limit m \<Longrightarrow> Q () (w, snd s @ frame_bytes p)"
  shows "wp (WriteFrame p m) Q E s"
proof (cases "int (length p) \<le> frame_limit m")
  case False
  then show ?thesis using err [of "[]"] unfolding WriteFrame_def Let_def wps by (cases s) simp
next
  case True
  let ?h = "FrameMagic @ put_u32 (of_nat (length p))"
  have "prefix (take n ?h) (?h @ p)" for n by (rule prefix_prefix [OF take_is_prefix])
  then have h: "prefix (take n ?h) (frame_bytes p)" "prefix (?h @ take n p) (frame_bytes p)" for n
    by (simp_all add: frame_bytes_def take_is_prefix del: take_append)
  have "wp (conn_write ?h) (\<lambda>_. wp (conn_write p) Q E) E s"
    using ok True h err by (auto intro!: wp_conn_write simp: frame_bytes_def)
  then show ?thesis using True unfolding WriteFrame_def Let_def wps by simp
qed

lemma wp_WriteFrame:
  assumes "length p < 2 ^ 32" and "\<And>e w t. prefix t (frame_bytes p) \<Longrightarrow> frameable m p \<or> t = [] \<Longrightarrow> E e (w, snd s @ t)"
    and "\<And>w. frameable m p \<Longrightarrow> Q () (w, snd s @ frame_bytes p)"
  shows "wp (WriteFrame p m) Q E s"
  by (rule wp_WriteFrame_bytes) (use assms in \<open>auto simp: frameable_def\<close>)

lemma WriteFrame_calm: "calm w \<Longrightarrow> frameable m p \<Longrightarrow> WriteFrame p m (w, c) = (Inr (), (w, c @ frame_bytes p))"
  by (simp add: WriteFrame_def conn_write_def monad calm_run next_outcome_calm Let_def frameable_def frame_bytes_def)

lemma wp_write_frames:
  assumes "\<forall>p\<in>set ps. length p < 2 ^ 32"
  shows "wp (forM (\<lambda>p. TCPPeer_WriteFrame p m) ps) (\<lambda>_ s. read_all m (snd s) = ps) (\<lambda>_ s. prefix (read_all m (snd s)) ps) (w, [])"
proof -
  let ?sent = "\<lambda>qs c. (\<forall>p\<in>set qs. frameable m p) \<and> c = concat (map frame_bytes qs)"
  let ?I = "\<lambda>rest s. \<exists>qs. ps = qs @ rest \<and> ?sent qs (snd s)"
  show ?thesis
  proof (rule wp_forM [where I = ?I])
    show "?I ps (w, [])" by simp
    show "read_all m (snd s) = ps" if "?I [] s" for s using that read_all_frames [of _ m "[]"] by auto
    fix p rest and s :: "world \<times> bytes" assume "?I (p # rest) s"
    then obtain qs where q: "ps = qs @ p # rest" "\<forall>p\<in>set qs. frameable m p" "snd s = concat (map frame_bytes qs)" by blast
    show "wp (TCPPeer_WriteFrame p m) (\<lambda>_. ?I rest) (\<lambda>_ s. prefix (read_all m (snd s)) ps) s"
      unfolding TCPPeer_WriteFrame_def
    proof (rule wp_WriteFrame)
      show "length p < 2 ^ 32" using assms q by simp
      show "?I rest (w, snd s @ frame_bytes p)" if "frameable m p" for w using that q by (intro exI [of _ "qs @ [p]"]) simp
      fix w t assume t: "prefix t (frame_bytes p)" "frameable m p \<or> t = []"
      have "prefix (read_all m t) [p]" using t read_all_partial by auto
      then show "prefix (read_all m (snd (w, snd s @ t))) ps" using q by (auto simp: read_all_frames prefix_Cons)
    qed
  qed
qed

text \<open>The bytes on a connection come from whole frames and from frames whose write failed half way.\<close>

definition written :: "bytes \<Rightarrow> bytes list \<Rightarrow> bool" where
  "written stream ps \<longleftrightarrow> (\<exists>ts. stream = concat ts \<and> list_all2 prefix ts (map frame_bytes ps))"

lemma written_Nil [simp]: "written [] []"
  by (simp add: written_def)

lemma written_snoc: "written c ps \<Longrightarrow> prefix t (frame_bytes p) \<Longrightarrow> written (c @ t) (ps @ [p])"
  unfolding written_def by (elim exE, rule_tac x = "ts @ [t]" in exI) (simp add: list_all2_appendI)

text \<open>What a client of a frame writer relies on: \<open>wrote c ps\<close> says that nothing but the payloads \<open>ps\<close> was handed to the connection.\<close>

locale frame_peer =
  fixes write_frame :: "bytes \<Rightarrow> int \<Rightarrow> (world \<times> 'c, unit) M" and wrote :: "'c \<Rightarrow> bytes list \<Rightarrow> bool"
  assumes wrote_snoc: "wrote (snd s) ps \<Longrightarrow> wp (write_frame p m) (\<lambda>_ t. wrote (snd t) (ps @ [p])) (\<lambda>_ t. wrote (snd t) (ps @ [p])) s"

interpretation tcp: frame_peer TCPPeer_WriteFrame written
proof
  fix s :: "world \<times> bytes" and ps p m assume "written (snd s) ps"
  then show "wp (TCPPeer_WriteFrame p m) (\<lambda>_ t. written (snd t) (ps @ [p])) (\<lambda>_ t. written (snd t) (ps @ [p])) s"
    unfolding TCPPeer_WriteFrame_def by (intro wp_WriteFrame_bytes) (auto intro: written_snoc)
qed

text \<open>
  C27. Frames arrive as they were sent.  Whatever fails while a list of payloads is written, the far end reads a prefix of the
  list and never a payload that was not written, and all of it after a success; and whatever bytes a hostile
  peer sends, a payload above the limit is never returned.
\<close>

theorem frame_stream_roundtrip:
  assumes "\<forall>p\<in>set ps. length p < 2 ^ 32" and "forM (\<lambda>p. TCPPeer_WriteFrame p m) ps (w, []) = (res, (v, stream))"
  shows "prefix (read_all m stream) ps \<and> (res = Inr () \<longrightarrow> read_all m stream = ps) \<and>
    (\<forall>bytes. \<forall>p\<in>set (read_all m bytes). int (length p) \<le> frame_limit m)"
  using wp_write_frames [OF assms(1), of m w] assms(2) read_all_bounded [of _ m] by (auto simp: wp_def split: sum.splits)

theorem frame_stream_roundtrip_witness:
  "\<exists>v stream. forM (\<lambda>p. TCPPeer_WriteFrame p 16) [''hello'', [], ''world''] (empty_world, []) = (Inr (), (v, stream)) \<and>
     read_all 16 stream = [''hello'', [], ''world'']"
proof -
  obtain v stream where r: "forM (\<lambda>p. TCPPeer_WriteFrame p 16) [''hello'', [], ''world''] (empty_world, []) = (Inr (), (v, stream))"
    by (simp add: TCPPeer_WriteFrame_def WriteFrame_calm frameable_def frame_limit_def monad)
  have "\<forall>p\<in>set [''hello'', [], ''world'']. length p < 2 ^ 32" by simp
  from frame_stream_roundtrip [OF this r] r show ?thesis by blast
qed

end
