(* ===== verification/Lifecycle_Session.thy ===== *)
theory Lifecycle_Session
  imports Lifecycle_Apply P2p_Frame
begin

text \<open>
  The repair coordinator of \<^verbatim>\<open>internal/lifecycle/watermark.go\<close> and the repair session of
  \<^verbatim>\<open>internal/lifecycle/session.go\<close>, which sends repair frames to one peer, applies the frames it receives and
  acknowledges them.

  \<^verbatim>\<open>Run\<close> blocks while it waits for the peer; it is a state machine whose steps interleave with \<^verbatim>\<open>Handle\<close>.  A wait is one
  poll, repeated as often as the schedule likes.  The two notification channels have room for one token, so
  each is a flag.  The coordinator's journal and watermark book are those of the node.
\<close>

section \<open>Definitions\<close>

subsection \<open>The coordinator\<close>

record RepairCoordinator =
  coLimits :: RepairLimits

definition NewRepairCoordinator :: "Journal option \<Rightarrow> WatermarkBook option \<Rightarrow> RepairLimits \<Rightarrow> err + RepairCoordinator" where
  "NewRepairCoordinator journal watermarks limits =
     bindE (guardE (journal = None) (ERepair ErrNilRepairJournal)) (\<lambda>_.
     bindE (guardE (watermarks = None) (EWatermark ErrNilRepairWatermarks)) (\<lambda>_.
     Inr \<lparr>coLimits = normalized_repair limits\<rparr>))"

definition Coordinator_Plan :: "RepairCoordinator \<Rightarrow> bytes \<Rightarrow> Checkpoint option \<Rightarrow> (world \<times> 's node, RepairPlan) M" where
  "Coordinator_Plan c peer snapshot =
     bindM (osM pollM) (\<lambda>_.
     bindM (selfM nWatermarks) (\<lambda>watermarks.
     bindM (liftE (validatePeer watermarks peer)) (\<lambda>_.
     journalM (PlanRepair (Watermark_of watermarks peer) snapshot (coLimits c)))))"

definition Coordinator_Acknowledge :: "bytes \<Rightarrow> Version \<Rightarrow> (world \<times> 's node, unit) M" where
  "Coordinator_Acknowledge peer version =
     bindM (osM pollM) (\<lambda>_.
     bindM (selfM (\<lambda>n. n)) (\<lambda>n.
     bindM (liftE (validatePeer (nWatermarks n) peer)) (\<lambda>_.
     bindM (guardM (\<not> IsZero version \<and> Compare version (jLast (nJournal n)) > 0) (EWatermark ErrRepairAcknowledgement)) (\<lambda>_.
     bookM (Acknowledge peer version)))))"

definition Coordinator_Reconcile :: "bytes \<Rightarrow> Version \<Rightarrow> (world \<times> 's node, unit) M" where
  "Coordinator_Reconcile peer version =
     bindM (osM pollM) (\<lambda>_.
     bindM (selfM (\<lambda>n. n)) (\<lambda>n.
     bindM (liftE (validatePeer (nWatermarks n) peer)) (\<lambda>_.
     bindM (guardM (\<not> IsZero version \<and> Compare version (jLast (nJournal n)) > 0) (EWatermark ErrRepairAcknowledgement)) (\<lambda>_.
     bookM (Reconcile peer version)))))"

subsection \<open>The session\<close>

text \<open>The peer interface: the negotiated capabilities and the frame writer over a connection of type \<open>'c\<close>.\<close>

record 'c RepairFramePeer =
  AuthCapabilities :: "bytes list"
  fpWriteFrame :: "bytes \<Rightarrow> int \<Rightarrow> (world \<times> 'c, unit) M"

text \<open>What a session shares with the rest of the process, and its mutable fields.\<close>

record ('s, 'c) session_state =
  ssNode :: "'s node"
  ssConn :: 'c
  ssHelloReceived :: bool
  ssHelloNotify :: bool
  ssAckNotify :: bool

type_synonym ('s, 'c, 'a) sessionM = "(world \<times> ('s, 'c) session_state, 'a) M"

definition nodeM :: "(world \<times> 's node, 'a) M \<Rightarrow> ('s, 'c, 'a) sessionM" where
  "nodeM = zoomM (\<lambda>s. (fst s, ssNode (snd s))) (\<lambda>t s. (fst t, (snd s)\<lparr>ssNode := snd t\<rparr>))"

definition connM :: "(world \<times> 'c, 'a) M \<Rightarrow> ('s, 'c, 'a) sessionM" where
  "connM = zoomM (\<lambda>s. (fst s, ssConn (snd s))) (\<lambda>t s. (fst t, (snd s)\<lparr>ssConn := snd t\<rparr>))"

record ('s, 'c) RepairSessionOptions =
  soPeer :: "'c RepairFramePeer option"
  soCoordinator :: "RepairCoordinator option"
  soApplier :: "'s Applier option"
  soPeerID :: bytes
  soSnapshot :: "Checkpoint option"
  soCheckpointPath :: bytes
  soMaxFrameBytes :: int
  soReconcilePeer :: bool
  soBeforeRepair :: "('s, 'c, unit) sessionM option"

record ('s, 'c) RepairSession =
  sePeer :: "'c RepairFramePeer"
  seCoordinator :: RepairCoordinator
  seApplier :: "'s Applier option"
  sePeerID :: bytes
  seSnapshot :: "Checkpoint option"
  seCheckpointPath :: bytes
  seMaxFrameBytes :: int
  seReconcilePeer :: bool
  seBeforeRepair :: "('s, 'c, unit) sessionM option"

definition NewRepairSession :: "('s, 'c) RepairSessionOptions \<Rightarrow> WatermarkBook \<Rightarrow> err + ('s, 'c) RepairSession" where
  "NewRepairSession options watermarks =
     (case soPeer options of
        None \<Rightarrow> Inl (ERepair ErrNilRepairSessionPeer)
      | Some peer \<Rightarrow>
     (case soCoordinator options of
        None \<Rightarrow> Inl (ERepair ErrNilRepairSessionCoordinator)
      | Some coordinator \<Rightarrow>
          bindE (validatePeer watermarks (soPeerID options)) (\<lambda>_.
          let maxFrameBytes = soMaxFrameBytes options;
              maxFrameBytes = (if maxFrameBytes \<le> 0 then rlMaxFrameBytes (coLimits coordinator) else maxFrameBytes);
              maxFrameBytes = (if maxFrameBytes \<le> 0 then DefaultMaxRepairFrameBytes else maxFrameBytes) in
          Inr \<lparr>sePeer = peer, seCoordinator = coordinator, seApplier = soApplier options, sePeerID = soPeerID options,
               seSnapshot = soSnapshot options, seCheckpointPath = soCheckpointPath options, seMaxFrameBytes = maxFrameBytes,
               seReconcilePeer = soReconcilePeer options, seBeforeRepair = soBeforeRepair options\<rparr>)))"

definition requireCapability :: "('s, 'c) RepairSession \<Rightarrow> ('s, 'c, unit) sessionM" where
  "requireCapability s = guardM (\<not> HasLifecycleCapability (AuthCapabilities (sePeer s))) (ETransport ErrLifecycleCapabilityRequired)"

definition peer_watermark :: "('s, 'c) RepairSession \<Rightarrow> ('s, 'c, Version) sessionM" where
  "peer_watermark s = selfM (\<lambda>t. Watermark_of (nWatermarks (ssNode t)) (sePeerID s))"

definition LastVersion_zero :: "('s, 'c, bool) sessionM" where
  "LastVersion_zero = selfM (\<lambda>t. IsZero (jLast (nJournal (ssNode t))))"

definition writeAck :: "('s, 'c) RepairSession \<Rightarrow> Version \<Rightarrow> ('s, 'c, unit) sessionM" where
  "writeAck s watermark =
     bindM (osM pollM) (\<lambda>_.
     bindM (liftE (EncodeRepairAck \<lparr>raType = RepairAckMessageType, raWatermark = watermark\<rparr> (coLimits (seCoordinator s)))) (\<lambda>payload.
     connM (fpWriteFrame (sePeer s) payload (seMaxFrameBytes s))))"

definition sendStartupWatermark :: "('s, 'c) RepairSession \<Rightarrow> ('s, 'c, unit) sessionM" where
  "sendStartupWatermark s = bindM (peer_watermark s) (writeAck s)"

definition acceptStartupWatermark :: "('s, 'c, bool) sessionM" where
  "acceptStartupWatermark =
     bindM (selfM ssHelloReceived) (\<lambda>received.
     if received then returnM False
     else bindM (setM (\<lambda>t. t\<lparr>ssHelloReceived := True, ssHelloNotify := True\<rparr>)) (\<lambda>_. returnM True))"

definition handleBatch :: "('s, 'c) RepairSession \<Rightarrow> RepairBatch \<Rightarrow> ('s, 'c, unit) sessionM" where
  "handleBatch s batch =
     (case seApplier s of
        None \<Rightarrow> throwM (ERepair ErrNilRepairSessionApplier)
      | Some applier \<Rightarrow>
          bindM (peer_watermark s) (\<lambda>expected.
          bindM (liftE (Delivery batch expected (coLimits (seCoordinator s)))) (\<lambda>delivery.
          if delivery = RepairDeliveryDuplicate then writeAck s expected
          else
            bindM (forM (\<lambda>record. nodeM (bindM (Applier_Apply applier (AuthCapabilities (sePeer s)) record None) (\<lambda>_. returnM ()))) (rbRecords batch)) (\<lambda>_.
            bindM (nodeM (Coordinator_Acknowledge (sePeerID s) (rbTo batch))) (\<lambda>_.
            writeAck s (rbTo batch))))))"

definition handleSnapshot :: "('s, 'c) RepairSession \<Rightarrow> RepairSnapshot \<Rightarrow> ('s, 'c, unit) sessionM" where
  "handleSnapshot s snapshot =
     (case seApplier s of
        None \<Rightarrow> throwM (ERepair ErrNilRepairSessionApplier)
      | Some applier \<Rightarrow>
          bindM (peer_watermark s) (\<lambda>expected.
          if Compare (rsWatermark snapshot) expected \<le> 0 then writeAck s expected
          else
            bindM (nodeM (ApplySnapshot applier (AuthCapabilities (sePeer s))
                     \<lparr>Watermark = rsWatermark snapshot, cpRecords = rsRecords snapshot\<rparr> (seCheckpointPath s))) (\<lambda>_.
            bindM (nodeM (Coordinator_Acknowledge (sePeerID s) (rsWatermark snapshot))) (\<lambda>_.
            writeAck s (rsWatermark snapshot)))))"

definition handleAck :: "('s, 'c) RepairSession \<Rightarrow> RepairAck \<Rightarrow> ('s, 'c, unit) sessionM" where
  "handleAck s ack =
     bindM (if seReconcilePeer s then acceptStartupWatermark else returnM False) (\<lambda>startup.
     if startup then
       bindM LastVersion_zero (\<lambda>empty.
       if \<not> empty then nodeM (Coordinator_Reconcile (sePeerID s) (raWatermark ack)) else returnM ())
     else
       bindM (nodeM (Coordinator_Acknowledge (sePeerID s) (raWatermark ack))) (\<lambda>_.
       setM (\<lambda>t. t\<lparr>ssAckNotify := True\<rparr>)))"

definition Handle :: "('s, 'c) RepairSession \<Rightarrow> bytes \<Rightarrow> ('s, 'c, unit) sessionM" where
  "Handle s payload =
     bindM (osM pollM) (\<lambda>_.
     bindM (requireCapability s) (\<lambda>_.
     bindM (liftE (DecodeRepairFrameForPeer payload (AuthCapabilities (sePeer s)) (coLimits (seCoordinator s)))) (\<lambda>frame.
     case rfAck frame of
       Some ack \<Rightarrow> handleAck s ack
     | None \<Rightarrow> (case rfBatch frame of
         Some batch \<Rightarrow> handleBatch s batch
       | None \<Rightarrow> (case rfSnapshot frame of
           Some snapshot \<Rightarrow> handleSnapshot s snapshot
         | None \<Rightarrow> throwM (ERepair ErrRepairMalformed))))))"

definition SendNext :: "('s, 'c) RepairSession \<Rightarrow> ('s, 'c, RepairPlan) sessionM" where
  "SendNext s =
     bindM (osM pollM) (\<lambda>_.
     bindM (requireCapability s) (\<lambda>_.
     bindM (nodeM (Coordinator_Plan (seCoordinator s) (sePeerID s) (seSnapshot s))) (\<lambda>plan.
     bindM (guardM (int (length (rpPayload plan)) > seMaxFrameBytes s) (ERepair ErrRepairFrameTooLarge)) (\<lambda>_.
     bindM (connM (fpWriteFrame (sePeer s) (rpPayload plan) (seMaxFrameBytes s))) (\<lambda>_.
     returnM plan)))))"

text \<open>One poll of a wait; the result tells whether the wait is over.\<close>

definition waitForStartupWatermark :: "('s, 'c, bool) sessionM" where
  "waitForStartupWatermark =
     bindM (selfM ssHelloReceived) (\<lambda>received.
     if received then returnM True
     else
       bindM (osM pollM) (\<lambda>_.
       bindM (selfM ssHelloNotify) (\<lambda>notified.
       bindM (setM (\<lambda>t. t\<lparr>ssHelloNotify := False\<rparr>)) (\<lambda>_.
       returnM notified))))"

definition waitForAcknowledgement :: "('s, 'c) RepairSession \<Rightarrow> Version \<Rightarrow> ('s, 'c, bool) sessionM" where
  "waitForAcknowledgement s target =
     bindM (peer_watermark s) (\<lambda>watermark.
     if Compare watermark target \<ge> 0 then returnM True
     else
       bindM (osM pollM) (\<lambda>_.
       bindM (setM (\<lambda>t. t\<lparr>ssAckNotify := False\<rparr>)) (\<lambda>_.
       returnM False)))"

datatype run_state = RunStart | RunHello | RunBefore | RunSend | RunAck RepairPlan | RunReturned "err + unit"

definition after_plan :: "RepairPlan \<Rightarrow> run_state" where
  "after_plan plan = (if rpMore plan then RunSend else RunReturned (Inr ()))"

text \<open>The code between two points where \<^verbatim>\<open>Run\<close> may wait.\<close>

fun run_body :: "('s, 'c) RepairSession \<Rightarrow> run_state \<Rightarrow> ('s, 'c, run_state) sessionM" where
  "run_body s RunStart =
     (if seReconcilePeer s then
        bindM (sendStartupWatermark s) (\<lambda>_.
        bindM LastVersion_zero (\<lambda>empty.
        returnM (if \<not> empty then RunHello else RunBefore)))
      else returnM RunBefore)"
| "run_body s RunHello = bindM waitForStartupWatermark (\<lambda>over. returnM (if over then RunBefore else RunHello))"
| "run_body s RunBefore =
     (case seBeforeRepair s of
        None \<Rightarrow> returnM RunSend
      | Some before \<Rightarrow> bindM before (\<lambda>_. returnM RunSend))"
| "run_body s RunSend =
     bindM (SendNext s) (\<lambda>plan.
     returnM (if Compare (rpTo plan) (rpFrom plan) > 0 then RunAck plan else after_plan plan))"
| "run_body s (RunAck plan) =
     bindM (waitForAcknowledgement s (rpTo plan)) (\<lambda>over.
     returnM (if over then after_plan plan else RunAck plan))"
| "run_body s (RunReturned r) = returnM (RunReturned r)"

definition run_step :: "('s, 'c) RepairSession \<Rightarrow> run_state \<Rightarrow> ('s, 'c, run_state) sessionM" where
  "run_step s st = bindM (tryM (run_body s st)) (\<lambda>r.
     returnM (case r of Inl e \<Rightarrow> RunReturned (Inl e) | Inr st \<Rightarrow> st))"

text \<open>An interleaving of \<^verbatim>\<open>Run\<close> with the frames that arrive; a failed \<^verbatim>\<open>Handle\<close> is reported to its caller and the next frame may follow.\<close>

datatype session_event = RunEvent | FrameEvent bytes

fun run_events :: "('s, 'c) RepairSession \<Rightarrow> session_event list \<Rightarrow> run_state \<Rightarrow> ('s, 'c, run_state) sessionM" where
  "run_events s [] st = returnM st"
| "run_events s (RunEvent # es) st = bindM (run_step s st) (run_events s es)"
| "run_events s (FrameEvent payload # es) st = bindM (tryM (Handle s payload)) (\<lambda>_. run_events s es st)"

section \<open>Running a component inside a session\<close>

lemma wp_session_parts [wps]:
  "wp (nodeM m) Q E = (\<lambda>s. wp m (\<lambda>x t. Q x (fst t, (snd s)\<lparr>ssNode := snd t\<rparr>)) (\<lambda>e t. E e (fst t, (snd s)\<lparr>ssNode := snd t\<rparr>)) (fst s, ssNode (snd s)))"
  "wp (connM n) Q' E = (\<lambda>s. wp n (\<lambda>x t. Q' x (fst t, (snd s)\<lparr>ssConn := snd t\<rparr>)) (\<lambda>e t. E e (fst t, (snd s)\<lparr>ssConn := snd t\<rparr>)) (fst s, ssConn (snd s)))"
  by (simp_all add: nodeM_def connM_def wps)

lemma session_parts_eval [monad]:
  "nodeM m s = (case m (fst s, ssNode (snd s)) of (r, t) \<Rightarrow> (r, (fst t, (snd s)\<lparr>ssNode := snd t\<rparr>)))"
  "connM n s = (case n (fst s, ssConn (snd s)) of (r, t) \<Rightarrow> (r, (fst t, (snd s)\<lparr>ssConn := snd t\<rparr>)))"
  by (simp_all add: nodeM_def connM_def zoomM_def)

lemma wp_poll_any:
  assumes "\<And>v. E (EStd ErrContext) (v, t)" and "\<And>v. wp (f ()) Q E (v, t)"
  shows "wp (bindM (osM pollM) f) Q E (w, t)"
  unfolding wp_bind wp_osM by (rule wp_pollM_fs) (use assms in auto)

lemma nodes_same [simp]: "n\<lparr>nJournal := nJournal n\<rparr> = n" "n\<lparr>nWatermarks := nWatermarks n\<rparr> = n" "t\<lparr>ssNode := ssNode t\<rparr> = t"
  by simp_all

section \<open>The coordinator\<close>

text \<open>A watermark is written only up to the end of the journal.\<close>

lemma wp_coordinator_op:
  assumes "book_ok (nWatermarks n)" and err: "\<And>e v. E e (v, n)"
    and ok: "\<And>v m. marks_ok (nWatermarks n) m \<Longrightarrow> map_of m = op_spec op (view (nWatermarks n)) \<Longrightarrow> version = zeroVersion \<or> version \<le> jLast (nJournal n) \<Longrightarrow>
      Q () (v, n\<lparr>nWatermarks := (nWatermarks n)\<lparr>wbWatermarks := m\<rparr>\<rparr>)"
  shows "wp (bindM (osM pollM) (\<lambda>_. bindM (selfM (\<lambda>n. n)) (\<lambda>n. bindM (liftE (validatePeer (nWatermarks n) peer)) (\<lambda>_.
     bindM (guardM (\<not> IsZero version \<and> Compare version (jLast (nJournal n)) > 0) (EWatermark ErrRepairAcknowledgement)) (\<lambda>_.
     bookM (run_op op)))))) Q E (w, n)"
proof (rule wp_poll_any)
  fix v
  have "wp (run_op op) (\<lambda>x t. Q x (fst t, n\<lparr>nWatermarks := snd t\<rparr>)) (\<lambda>e t. E e (fst t, n\<lparr>nWatermarks := snd t\<rparr>)) (v, nWatermarks n)"
    if "version = zeroVersion \<or> version \<le> jLast (nJournal n)"
    by (rule run_op_object [OF assms(1)]) (use ok that err in auto)
  then show "wp (bindM (selfM (\<lambda>n. n)) (\<lambda>n. bindM (liftE (validatePeer (nWatermarks n) peer)) (\<lambda>_.
     bindM (guardM (\<not> IsZero version \<and> Compare version (jLast (nJournal n)) > 0) (EWatermark ErrRepairAcknowledgement)) (\<lambda>_.
     bookM (run_op op))))) Q E (v, n)"
    using err by (auto simp: wps IsZero_def not_less split: sum.split)
qed (rule err)

lemma wp_Coordinator_Acknowledge:
  assumes "book_ok (nWatermarks n)" and "\<And>e v. E e (v, n)"
    and ok: "\<And>v b. book_ok b \<Longrightarrow> \<forall>q. q \<noteq> peer \<longrightarrow> Watermark_of b q = Watermark_of (nWatermarks n) q \<Longrightarrow> Watermark_of b peer = (if version = zeroVersion then Watermark_of (nWatermarks n) peer else version) \<Longrightarrow>
      version = zeroVersion \<or> version \<le> jLast (nJournal n) \<Longrightarrow> Q () (v, n\<lparr>nWatermarks := b\<rparr>)"
  shows "wp (Coordinator_Acknowledge peer version) Q E (w, n)"
  unfolding Coordinator_Acknowledge_def run_op.simps(1) [symmetric]
  by (rule wp_coordinator_op [OF assms(1)]) (auto simp: book_ok_def Watermark_of_def assms(2) intro!: ok)

lemma wp_Coordinator_Reconcile:
  assumes "book_ok (nWatermarks n)" and "\<And>e v. E e (v, n)"
    and ok: "\<And>v b. book_ok b \<Longrightarrow> \<forall>q. q \<noteq> peer \<longrightarrow> Watermark_of b q = Watermark_of (nWatermarks n) q \<Longrightarrow> Watermark_of b peer = version \<Longrightarrow> version = zeroVersion \<or> version \<le> jLast (nJournal n) \<Longrightarrow>
      Q () (v, n\<lparr>nWatermarks := b\<rparr>)"
  shows "wp (Coordinator_Reconcile peer version) Q E (w, n)"
  unfolding Coordinator_Reconcile_def run_op.simps(2) [symmetric]
  by (rule wp_coordinator_op [OF assms(1)]) (auto simp: book_ok_def Watermark_of_def assms(2) intro!: ok)

text \<open>A planned payload is a batch or a snapshot, never an acknowledgement.\<close>

definition acks_upto :: "RepairLimits \<Rightarrow> Version \<Rightarrow> bytes \<Rightarrow> bool" where
  "acks_upto R v p \<longleftrightarrow> (\<forall>f a. DecodeRepairFrame p R = Inr f \<longrightarrow> rfAck f = Some a \<longrightarrow> raWatermark a \<le> v)"

lemma acks_upto_mono: "acks_upto R v p \<Longrightarrow> v \<le> v' \<Longrightarrow> acks_upto R v' p"
  unfolding acks_upto_def by (meson order_trans)

lemma no_ack:
  assumes "decodeRepairType p = Inr t" and "t \<noteq> RepairAckMessageType"
  shows "acks_upto R v p"
  using assms by (auto simp: acks_upto_def DecodeRepairFrame_def Let_def resE split: if_splits)

lemma ack_upto:
  assumes "EncodeRepairAck a R = Inr p" and "raWatermark a \<le> v"
  shows "acks_upto R v p"
  using ack_roundtrip [OF assms(1)] assms(2) by (auto simp: acks_upto_def DecodeRepairFrame_def Let_def resE split: if_splits)

lemma wp_Coordinator_Plan:
  assumes err: "\<And>e v. E e (v, n)" and ok: "\<And>plan v. (\<And>u. acks_upto (coLimits c) u (rpPayload plan)) \<Longrightarrow> Q plan (v, n)"
  shows "wp (Coordinator_Plan c peer snapshot) Q E (w, n)"
  unfolding Coordinator_Plan_def
proof (rule wp_poll_any)
  fix v let ?f = "Watermark_of (nWatermarks n) peer"
  have b: "acks_upto (coLimits c) u p" if "EncodeRepairBatch x R = Inr p" for x p u and R
    using batch_roundtrip(2) [OF that] by (rule no_ack) (use batch_type_nonempty(5,6) in metis)
  have s: "acks_upto (coLimits c) u p" if "EncodeRepairSnapshot x R = Inr p" for x p u and R
    using snapshot_roundtrip(2) [OF that] by (rule no_ack) (use batch_type_nonempty(5,6) in metis)
  have "wp (PlanRepair ?f snapshot (coLimits c)) (\<lambda>x t. Q x (fst t, n\<lparr>nJournal := snd t\<rparr>)) (\<lambda>e t. E e (fst t, n\<lparr>nJournal := snd t\<rparr>)) (v, nJournal n)"
  proof (cases "?f < jFloor (nJournal n)")
    case False
    show ?thesis by (rule wp_PlanRepair_batch [OF False]) (use err ok b in auto)
  next
    case True
    show ?thesis
      unfolding PlanRepair_def
      by (rule wp_poll_any) (use True err ok s in \<open>auto simp: wps Let_def split: option.split sum.split\<close>)
  qed
  then show "wp (bindM (selfM nWatermarks) (\<lambda>watermarks. bindM (liftE (validatePeer watermarks peer)) (\<lambda>_.
     journalM (PlanRepair (Watermark_of watermarks peer) snapshot (coLimits c))))) Q E (v, n)"
    using err by (simp add: wps split: sum.split)
qed (rule err)

section \<open>The session keeps the node and acknowledges only what is applied\<close>

lemma reflected_advances: "reflected (ApplyRecord r x) n \<Longrightarrow> advances n n' \<Longrightarrow> reflected (ApplyRecord r x) n'"
  unfolding reflected.simps advances_def by (meson order_trans)

locale session_parts = local_blobs bs view ok + frame_peer write_frame wrote
  for bs :: "'s BlobStore" and view :: "world \<times> 's \<Rightarrow> bytes \<rightharpoonup> bytes" and ok :: "world \<times> 's \<Rightarrow> bool"
    and write_frame :: "bytes \<Rightarrow> int \<Rightarrow> (world \<times> 'c, unit) M" and wrote :: "'c \<Rightarrow> bytes list \<Rightarrow> bool"
begin

text \<open>The session uses the node's applier and the given connection.\<close>

definition wired :: "Limits \<Rightarrow> ('s, 'c) RepairSession \<Rightarrow> bool" where
  "wired L s \<longleftrightarrow> fpWriteFrame (sePeer s) = write_frame \<and>
     (\<forall>a. seApplier s = Some a \<longrightarrow> apBlobs a = Some bs \<and> apLimits a = normalized_limits L)"

text \<open>\<open>P\<close> has the peers that are watched besides the peer of the session, and a version that the journal keeps covering.\<close>

definition session_inv :: "Limits \<Rightarrow> bytes set \<times> Version \<Rightarrow> ('s, 'c) RepairSession \<Rightarrow> ('s, 'c) session_state \<Rightarrow> bool" where
  "session_inv L P s t \<longleftrightarrow> (let n = ssNode t in
     node_inv L n \<and> book_ok (nWatermarks n) \<and> (\<forall>q\<in>insert (sePeerID s) (fst P). Watermark_of (nWatermarks n) q \<le> jLast (nJournal n)) \<and>
     snd P \<le> jLast (nJournal n) \<and>
     (\<exists>ps. wrote (ssConn t) ps \<and> (\<forall>p\<in>set ps. acks_upto (coLimits (seCoordinator s)) (jLast (nJournal n)) p)))"

abbreviation keeps_inv :: "Limits \<Rightarrow> bytes set \<times> Version \<Rightarrow> ('s, 'c) RepairSession \<Rightarrow> ('s, 'c, 'a) sessionM \<Rightarrow> ('s, 'c) session_state \<Rightarrow> bool" where
  "keeps_inv L P s m t \<equiv> (\<forall>w. wp m (\<lambda>_ u. session_inv L P s (snd u)) (\<lambda>_ u. session_inv L P s (snd u)) (w, t))"

lemma session_inv_node:
  assumes "session_inv L P s t" and "node_inv L n" and "nWatermarks n = nWatermarks (ssNode t)" and "jLast (nJournal (ssNode t)) \<le> jLast (nJournal n)"
  shows "session_inv L P s (t\<lparr>ssNode := n\<rparr>)"
  using assms unfolding session_inv_def Let_def by (auto intro: order_trans acks_upto_mono)

lemma session_inv_blobs: "session_inv L P s t \<Longrightarrow> only_blobs L (ssNode t) n \<Longrightarrow> session_inv L P s (t\<lparr>ssNode := n\<rparr>)"
  by (rule session_inv_node) (simp_all add: only_blobs_def)

lemma node_inv_book [simp]: "node_inv L (n\<lparr>nWatermarks := b\<rparr>) = node_inv L n"
  by (simp add: node_inv_def node_ok_def)

lemma session_inv_book:
  assumes "session_inv L P s t" and "book_ok b" and "Watermark_of b (sePeerID s) \<le> jLast (nJournal (ssNode t))"
    and "\<forall>q. q \<noteq> sePeerID s \<longrightarrow> Watermark_of b q = Watermark_of (nWatermarks (ssNode t)) q"
  shows "session_inv L P s (t\<lparr>ssNode := (ssNode t)\<lparr>nWatermarks := b\<rparr>\<rparr>)"
  using assms unfolding session_inv_def Let_def by (auto, metis)

lemma session_inv_flags [simp]:
  "session_inv L P s (t\<lparr>ssAckNotify := x\<rparr>) = session_inv L P s t" "session_inv L P s (t\<lparr>ssHelloNotify := x\<rparr>) = session_inv L P s t"
  "session_inv L P s (t\<lparr>ssHelloReceived := x\<rparr>) = session_inv L P s t"
  by (simp_all add: session_inv_def)

lemma wp_write:
  assumes "wired L s" and "session_inv L P s t" and "acks_upto (coLimits (seCoordinator s)) (jLast (nJournal (ssNode t))) p"
  shows "wp (fpWriteFrame (sePeer s) p m) (\<lambda>_ u. session_inv L P s (t\<lparr>ssConn := snd u\<rparr>)) (\<lambda>_ u. session_inv L P s (t\<lparr>ssConn := snd u\<rparr>)) (w, ssConn t)"
proof -
  obtain ps where ps: "wrote (snd (w, ssConn t)) ps" "\<forall>p\<in>set ps. acks_upto (coLimits (seCoordinator s)) (jLast (nJournal (ssNode t))) p"
    using assms(2) by (auto simp: session_inv_def Let_def)
  have f: "fpWriteFrame (sePeer s) = write_frame" using assms(1) by (simp add: wired_def)
  show ?thesis
    unfolding f by (rule wp_mono [OF wrote_snoc [OF ps(1)]]; use assms(2,3) ps(2) in \<open>auto simp: session_inv_def Let_def intro!: exI [of _ "ps @ [p]"]\<close>)
qed

text \<open>The acknowledgement that was written, as the connection saw it.\<close>

definition ack_sent :: "('s, 'c) RepairSession \<Rightarrow> Version \<Rightarrow> 'c \<Rightarrow> 'c \<Rightarrow> bool" where
  "ack_sent s v c c' \<longleftrightarrow> (\<exists>p w w'. EncodeRepairAck \<lparr>raType = RepairAckMessageType, raWatermark = v\<rparr> (coLimits (seCoordinator s)) = Inr p \<and>
     fpWriteFrame (sePeer s) p (seMaxFrameBytes s) (w, c) = (Inr (), (w', c')))"

lemma wp_writeAck:
  assumes "wired L s" and "session_inv L P s t" and "v \<le> jLast (nJournal (ssNode t))"
    and err: "\<And>e w c. session_inv L P s (t\<lparr>ssConn := c\<rparr>) \<Longrightarrow> E e (w, t\<lparr>ssConn := c\<rparr>)"
    and ok: "\<And>w c. session_inv L P s (t\<lparr>ssConn := c\<rparr>) \<Longrightarrow> ack_sent s v (ssConn t) c \<Longrightarrow> Q () (w, t\<lparr>ssConn := c\<rparr>)"
  shows "wp (writeAck s v) Q E (w, t)"
  unfolding writeAck_def
proof (rule wp_poll_any)
  have e: "E x (u, t)" for x u using err [of "ssConn t" x u] assms(2) by simp
  then show "E (EStd ErrContext) (u, t)" for u .
  fix u
  let ?enc = "EncodeRepairAck \<lparr>raType = RepairAckMessageType, raWatermark = v\<rparr> (coLimits (seCoordinator s))"
  have "wp (connM (fpWriteFrame (sePeer s) p (seMaxFrameBytes s))) Q E (u, t)" if p: "?enc = Inr p" for p
  proof (rule wpI)
    have i: "wp (fpWriteFrame (sePeer s) p (seMaxFrameBytes s)) (\<lambda>_ u. session_inv L P s (t\<lparr>ssConn := snd u\<rparr>)) (\<lambda>_ u. session_inv L P s (t\<lparr>ssConn := snd u\<rparr>)) (u, ssConn t)"
      using assms(3) by (intro wp_write [OF assms(1,2)] ack_upto [OF p]) simp
    show "Q x y" if r: "connM (fpWriteFrame (sePeer s) p (seMaxFrameBytes s)) (u, t) = (Inr x, y)" for x y
    proof -
      obtain a c where f: "fpWriteFrame (sePeer s) p (seMaxFrameBytes s) (u, ssConn t) = (Inr (), (a, c))" "x = ()" "y = (a, t\<lparr>ssConn := c\<rparr>)"
        using r by (auto simp: monad split: prod.splits)
      then have "ack_sent s v (ssConn t) c" using p unfolding ack_sent_def by blast
      with ok f i show ?thesis by (simp add: wp_def)
    qed
    show "E x y" if "connM (fpWriteFrame (sePeer s) p (seMaxFrameBytes s)) (u, t) = (Inl x, y)" for x y
      using that i err by (auto simp: monad wp_def split: prod.splits)
  qed
  with e show "wp (bindM (liftE ?enc) (\<lambda>payload. connM (fpWriteFrame (sePeer s) payload (seMaxFrameBytes s)))) Q E (u, t)"
    by (auto simp: wp_bind wp_basic split: sum.split)
qed

lemma writeAck_inv:
  assumes "wired L s" and "session_inv L P s t" and "v \<le> jLast (nJournal (ssNode t))"
  shows "keeps_inv L P s (writeAck s v) t"
  by (intro allI wp_writeAck [OF assms]) simp_all

lemma acknowledge_inv:
  assumes "session_inv L P s t"
    and "\<And>w b. session_inv L P s (t\<lparr>ssNode := (ssNode t)\<lparr>nWatermarks := b\<rparr>\<rparr>) \<Longrightarrow> version = zeroVersion \<or> version \<le> jLast (nJournal (ssNode t)) \<Longrightarrow>
      (version \<noteq> zeroVersion \<longrightarrow> Watermark_of b (sePeerID s) = version) \<Longrightarrow>
      wp (f ()) Q E (w, t\<lparr>ssNode := (ssNode t)\<lparr>nWatermarks := b\<rparr>\<rparr>)"
    and "\<And>e w. E e (w, t)"
  shows "wp (bindM (nodeM (Coordinator_Acknowledge (sePeerID s) version)) f) Q E (w, t)"
  unfolding wp_bind wp_session_parts
proof (simp, rule wp_Coordinator_Acknowledge)
  show "book_ok (nWatermarks (ssNode t))" using assms(1) by (simp add: session_inv_def Let_def)
  show "E e (fst (v, ssNode t), t\<lparr>ssNode := snd (v, ssNode t)\<rparr>)" for e v using assms(3) by simp
  fix v b assume b: "book_ok b" "\<forall>q. q \<noteq> sePeerID s \<longrightarrow> Watermark_of b q = Watermark_of (nWatermarks (ssNode t)) q"
    "Watermark_of b (sePeerID s) = (if version = zeroVersion then Watermark_of (nWatermarks (ssNode t)) (sePeerID s) else version)"
    "version = zeroVersion \<or> version \<le> jLast (nJournal (ssNode t))"
  have "session_inv L P s (t\<lparr>ssNode := (ssNode t)\<lparr>nWatermarks := b\<rparr>\<rparr>)"
    using assms(1) b by (intro session_inv_book) (auto simp: session_inv_def Let_def)
  with assms(2) b show "wp (f ()) Q E (fst (v, (ssNode t)\<lparr>nWatermarks := b\<rparr>), t\<lparr>ssNode := snd (v, (ssNode t)\<lparr>nWatermarks := b\<rparr>)\<rparr>)" by simp
qed

lemma wp_apply_records:
  assumes "wired L s" and "seApplier s = Some a" and "session_inv L P s t"
    and err: "\<And>e w n. session_inv L P s (t\<lparr>ssNode := n\<rparr>) \<Longrightarrow> E e (w, t\<lparr>ssNode := n\<rparr>)"
    and all: "\<And>w n. session_inv L P s (t\<lparr>ssNode := n\<rparr>) \<Longrightarrow> nWatermarks n = nWatermarks (ssNode t) \<Longrightarrow> \<forall>r\<in>set rs. reflected (ApplyRecord r None) n \<Longrightarrow>
      Q () (w, t\<lparr>ssNode := n\<rparr>)"
  shows "wp (forM (\<lambda>r. nodeM (bindM (Applier_Apply a caps r None) (\<lambda>_. returnM ()))) rs) Q E (w, t)"
proof -
  let ?I = "\<lambda>ys u. \<exists>n. snd u = t\<lparr>ssNode := n\<rparr> \<and> session_inv L P s (t\<lparr>ssNode := n\<rparr>) \<and> nWatermarks n = nWatermarks (ssNode t) \<and> set ys \<subseteq> set rs \<and>
    (\<forall>r\<in>set rs. r \<in> set ys \<or> reflected (ApplyRecord r None) n)"
  have a: "apBlobs a = Some bs" using assms(1,2) by (simp add: wired_def)
  show ?thesis
  proof (rule wp_forM [where I = ?I])
    show "?I rs (w, t)" using assms(3) by (intro exI [of _ "ssNode t"]) auto
    show "Q () u" if "?I [] u" for u using that all by (cases u) auto
    fix r ys and u :: "world \<times> ('s, 'c) session_state" assume "?I (r # ys) u"
    then obtain v n where u: "u = (v, t\<lparr>ssNode := n\<rparr>)" and n: "session_inv L P s (t\<lparr>ssNode := n\<rparr>)" "nWatermarks n = nWatermarks (ssNode t)"
      "r \<in> set rs" "set ys \<subseteq> set rs" "\<forall>q\<in>set rs. q = r \<or> q \<in> set ys \<or> reflected (ApplyRecord q None) n" by (cases u) auto
    have ni: "node_inv L n" using n(1) by (simp add: session_inv_def Let_def)
    have "wp (Applier_Apply a caps r None) (\<lambda>_ x. ?I ys (fst x, t\<lparr>ssNode := snd x\<rparr>)) (\<lambda>e x. E e (fst x, t\<lparr>ssNode := snd x\<rparr>)) (v, n)"
    proof (rule wp_apply_record [OF a ni])
      show "E e (fst (x, m), t\<lparr>ssNode := snd (x, m)\<rparr>)" if "only_blobs L n m" for e x m
        using session_inv_blobs [OF n(1)] that err by simp
      fix x y m assume m: "node_inv L m" "nWatermarks m = nWatermarks n" "advances n m" "reflected (ApplyRecord r None) m"
      have "session_inv L P s (t\<lparr>ssNode := m\<rparr>)" using session_inv_node [OF n(1) m(1)] m(2,3) by (simp add: advances_def)
      moreover have "\<forall>q\<in>set rs. q \<in> set ys \<or> reflected (ApplyRecord q None) m" using n(5) m(4) reflected_advances [OF _ m(3)] by metis
      ultimately show "?I ys (fst (y, m), t\<lparr>ssNode := snd (y, m)\<rparr>)" using m(2) n(2,4) by auto
    qed
    then show "wp (nodeM (bindM (Applier_Apply a caps r None) (\<lambda>_. returnM ()))) (\<lambda>_. ?I ys) E u"
      unfolding u by (simp add: wps)
  qed
qed

lemma watermark_le: "session_inv L P s t \<Longrightarrow> Watermark_of (nWatermarks (ssNode t)) (sePeerID s) \<le> jLast (nJournal (ssNode t))"
  by (simp add: session_inv_def Let_def)

lemma Delivery_ready:
  assumes "Delivery b e R = Inr d"
  shows "d = RepairDeliveryDuplicate \<and> rbTo b \<le> e \<or> d = RepairDeliveryReady \<and> e < rbTo b \<and> rbFrom b = e"
  using assms by (auto simp: Delivery_def Let_def resE not_le split: if_splits)

text \<open>What a new batch has done once it is acknowledged.\<close>

definition batch_done :: "('s, 'c) RepairSession \<Rightarrow> RepairBatch \<Rightarrow> ('s, 'c) session_state \<Rightarrow> ('s, 'c) session_state \<Rightarrow> bool" where
  "batch_done s batch t t' \<longleftrightarrow> rbFrom batch = Watermark_of (nWatermarks (ssNode t)) (sePeerID s) \<and>
     (\<forall>r\<in>set (rbRecords batch). reflected (ApplyRecord r None) (ssNode t')) \<and>
     Watermark_of (nWatermarks (ssNode t')) (sePeerID s) = rbTo batch \<and> ack_sent s (rbTo batch) (ssConn t) (ssConn t')"

lemma wp_handleBatch:
  assumes "wired L s" and "session_inv L P s t"
  shows "wp (handleBatch s batch)
    (\<lambda>_ u. session_inv L P s (snd u) \<and> (Watermark_of (nWatermarks (ssNode t)) (sePeerID s) < rbTo batch \<longrightarrow> batch_done s batch t (snd u)))
    (\<lambda>_ u. session_inv L P s (snd u)) (w, t)"
    (is "wp _ ?Q ?E _")
proof -
  let ?e = "Watermark_of (nWatermarks (ssNode t)) (sePeerID s)"
  have dup: "wp (writeAck s ?e) ?Q ?E (w, t)" if "rbTo batch \<le> ?e"
    by (rule wp_writeAck [OF assms watermark_le [OF assms(2)]]) (use that in auto)
  have new: "wp (bindM (forM (\<lambda>r. nodeM (bindM (Applier_Apply a (AuthCapabilities (sePeer s)) r None) (\<lambda>_. returnM ()))) (rbRecords batch)) (\<lambda>_.
      bindM (nodeM (Coordinator_Acknowledge (sePeerID s) (rbTo batch))) (\<lambda>_. writeAck s (rbTo batch)))) ?Q ?E (w, t)"
    if a: "seApplier s = Some a" and d: "?e < rbTo batch" "rbFrom batch = ?e" for a
    unfolding wp_bind [of "forM _ _"]
  proof (rule wp_apply_records [OF assms(1) a assms(2)])
    fix u n assume n: "session_inv L P s (t\<lparr>ssNode := n\<rparr>)" "\<forall>r\<in>set (rbRecords batch). reflected (ApplyRecord r None) n"
    have nz: "rbTo batch \<noteq> zeroVersion" using d(1) by (metis leD zeroVersion_le)
    show "wp (bindM (nodeM (Coordinator_Acknowledge (sePeerID s) (rbTo batch))) (\<lambda>_. writeAck s (rbTo batch))) ?Q ?E (u, t\<lparr>ssNode := n\<rparr>)"
    proof (rule acknowledge_inv [OF n(1)])
      fix v b assume b: "session_inv L P s (t\<lparr>ssNode := n, ssNode := (ssNode (t\<lparr>ssNode := n\<rparr>))\<lparr>nWatermarks := b\<rparr>\<rparr>)"
        "rbTo batch = zeroVersion \<or> rbTo batch \<le> jLast (nJournal (ssNode (t\<lparr>ssNode := n\<rparr>)))" "rbTo batch \<noteq> zeroVersion \<longrightarrow> Watermark_of b (sePeerID s) = rbTo batch"
      let ?t = "t\<lparr>ssNode := n, ssNode := (ssNode (t\<lparr>ssNode := n\<rparr>))\<lparr>nWatermarks := b\<rparr>\<rparr>"
      have le: "rbTo batch \<le> jLast (nJournal (ssNode ?t))" using b(2) nz by simp
      have r: "reflected (ApplyRecord r x) (n\<lparr>nWatermarks := b\<rparr>) = reflected (ApplyRecord r x) n" for r x by simp
      show "wp (writeAck s (rbTo batch)) ?Q ?E (v, ?t)"
        by (rule wp_writeAck [OF assms(1) b(1) le]) (use n b nz d r in \<open>simp_all add: batch_done_def del: reflected.simps\<close>)
    qed (use n in simp)
  qed simp
  show ?thesis
  proof (cases "seApplier s")
    case None
    with assms show ?thesis by (simp add: handleBatch_def wps)
  next
    case (Some a)
    have "wp (bindM (liftE (Delivery batch ?e (coLimits (seCoordinator s)))) (\<lambda>delivery.
       if delivery = RepairDeliveryDuplicate then writeAck s ?e
       else bindM (forM (\<lambda>r. nodeM (bindM (Applier_Apply a (AuthCapabilities (sePeer s)) r None) (\<lambda>_. returnM ()))) (rbRecords batch)) (\<lambda>_.
         bindM (nodeM (Coordinator_Acknowledge (sePeerID s) (rbTo batch))) (\<lambda>_. writeAck s (rbTo batch))))) ?Q ?E (w, t)"
    proof (cases "Delivery batch ?e (coLimits (seCoordinator s))")
      case (Inl x)
      with assms(2) show ?thesis by (simp add: wp_bind wp_basic)
    next
      case (Inr d)
      with Delivery_ready [OF Inr] dup new [OF Some] show ?thesis by (auto simp: wp_bind [of "liftE _"] wp_basic)
    qed
    then show ?thesis unfolding handleBatch_def Some option.case peer_watermark_def wp_bind [of "selfM _"] wp_selfM snd_conv .
  qed
qed

lemma handleSnapshot_inv:
  assumes "wired L s" and "session_inv L P s t"
  shows "keeps_inv L P s (handleSnapshot s snapshot) t"
proof
  fix w
  let ?I = "\<lambda>_ u. session_inv L P s (snd u)" and ?e = "Watermark_of (nWatermarks (ssNode t)) (sePeerID s)"
  let ?cp = "\<lparr>Watermark = rsWatermark snapshot, cpRecords = rsRecords snapshot\<rparr>"
  have n: "node_inv L (ssNode t)" using assms(2) by (simp add: session_inv_def Let_def)
  have new: "wp (bindM (nodeM (ApplySnapshot a (AuthCapabilities (sePeer s)) ?cp (seCheckpointPath s))) (\<lambda>_.
      bindM (nodeM (Coordinator_Acknowledge (sePeerID s) (rsWatermark snapshot))) (\<lambda>_. writeAck s (rsWatermark snapshot)))) ?I ?I (w, t)"
    if a: "apBlobs a = Some bs" "apLimits a = normalized_limits L" for a
    unfolding wp_bind [of "nodeM (ApplySnapshot _ _ _ _)"] wp_session_parts fst_conv snd_conv
  proof (rule wp_apply_snapshot [OF a n])
    show "session_inv L P s (t\<lparr>ssNode := snd (v, m)\<rparr>)" if "only_blobs L (ssNode t) m" for v m
      using session_inv_blobs [OF assms(2) that] by simp
    fix v m assume m: "node_inv L m" "nWatermarks m = nWatermarks (ssNode t)" "jLast (nJournal (ssNode t)) \<le> jLast (nJournal m)"
      "jLast (nJournal m) = Watermark ?cp"
    have i: "session_inv L P s (t\<lparr>ssNode := m\<rparr>)" by (rule session_inv_node [OF assms(2) m(1-3)])
    show "wp (bindM (nodeM (Coordinator_Acknowledge (sePeerID s) (rsWatermark snapshot))) (\<lambda>_. writeAck s (rsWatermark snapshot))) ?I ?I
        (fst (v, m), t\<lparr>ssNode := snd (v, m)\<rparr>)"
      unfolding fst_conv snd_conv
      by (rule acknowledge_inv [OF i]; (rule writeAck_inv [THEN spec])?) (use assms(1) i m(4) in simp_all)
  qed
  show "wp (handleSnapshot s snapshot) ?I ?I (w, t)"
  proof (cases "seApplier s")
    case None
    with assms show ?thesis by (simp add: handleSnapshot_def wps)
  next
    case (Some a)
    then have "apBlobs a = Some bs" "apLimits a = normalized_limits L" using assms(1) by (simp_all add: wired_def)
    note new = new [OF this] and dup = writeAck_inv [OF assms watermark_le [OF assms(2)], THEN spec, of w]
    show ?thesis
      unfolding handleSnapshot_def Some option.case peer_watermark_def wp_bind [of "selfM _"] wp_selfM snd_conv
      using new dup by auto
  qed
qed

lemma handleAck_inv:
  assumes "session_inv L P s t"
  shows "keeps_inv L P s (handleAck s ack) t"
proof
  fix w
  let ?I = "\<lambda>_ u. session_inv L P s (snd u)"
  have rec: "wp (Coordinator_Reconcile (sePeerID s) v) (\<lambda>x u. session_inv L P s (t'\<lparr>ssNode := snd u\<rparr>)) (\<lambda>x u. session_inv L P s (t'\<lparr>ssNode := snd u\<rparr>)) (w, ssNode t')"
    if t': "session_inv L P s t'" for t' v
  proof (rule wp_Coordinator_Reconcile)
    show "book_ok (nWatermarks (ssNode t'))" using t' by (simp add: session_inv_def Let_def)
    fix x b assume "book_ok b" "\<forall>q. q \<noteq> sePeerID s \<longrightarrow> Watermark_of b q = Watermark_of (nWatermarks (ssNode t')) q"
      "Watermark_of b (sePeerID s) = v" "v = zeroVersion \<or> v \<le> jLast (nJournal (ssNode t'))"
    then show "session_inv L P s (t'\<lparr>ssNode := snd (x, (ssNode t')\<lparr>nWatermarks := b\<rparr>)\<rparr>)"
      using session_inv_book [OF t', of b] by auto
  qed (use t' in simp)
  have ack: "wp (bindM (nodeM (Coordinator_Acknowledge (sePeerID s) (raWatermark ack))) (\<lambda>_. setM (\<lambda>t. t\<lparr>ssAckNotify := True\<rparr>))) ?I ?I (w, t)"
    by (rule acknowledge_inv [OF assms]) (use assms in \<open>simp_all add: wps\<close>)
  show "wp (handleAck s ack) ?I ?I (w, t)"
    using ack rec [of "t\<lparr>ssHelloReceived := True, ssHelloNotify := True\<rparr>"] assms
    unfolding handleAck_def acceptStartupWatermark_def LastVersion_zero_def
    by (auto simp: wps)
qed

lemma Handle_inv:
  assumes "wired L s" and "session_inv L P s t"
  shows "keeps_inv L P s (Handle s payload) t"
  unfolding Handle_def requireCapability_def
proof (intro allI, rule wp_poll_any)
  fix w
  have b: "wp (handleBatch s batch) (\<lambda>_ u. session_inv L P s (snd u)) (\<lambda>_ u. session_inv L P s (snd u)) (w, t)" for batch
    by (rule wp_mono [OF wp_handleBatch [OF assms]]) simp_all
  show "wp (bindM (guardM (\<not> HasLifecycleCapability (AuthCapabilities (sePeer s))) (ETransport ErrLifecycleCapabilityRequired)) (\<lambda>_.
     bindM (liftE (DecodeRepairFrameForPeer payload (AuthCapabilities (sePeer s)) (coLimits (seCoordinator s)))) (\<lambda>frame.
     case rfAck frame of Some ack \<Rightarrow> handleAck s ack
     | None \<Rightarrow> (case rfBatch frame of Some batch \<Rightarrow> handleBatch s batch
       | None \<Rightarrow> (case rfSnapshot frame of Some snapshot \<Rightarrow> handleSnapshot s snapshot
         | None \<Rightarrow> throwM (ERepair ErrRepairMalformed)))))) (\<lambda>_ u. session_inv L P s (snd u)) (\<lambda>_ u. session_inv L P s (snd u)) (w, t)"
    using assms(2) b handleSnapshot_inv [OF assms] handleAck_inv [OF assms(2)]
    by (auto simp: wp_bind [of "guardM _ _"] wp_bind [of "liftE _"] wp_effect wp_basic split: sum.split option.split)
qed (use assms in simp)

lemma run_body_inv:
  assumes "wired L s" and "session_inv L P s t" and before: "\<And>b t. seBeforeRepair s = Some b \<Longrightarrow> session_inv L P s t \<Longrightarrow> keeps_inv L P s b t"
  shows "keeps_inv L P s (run_body s st) t"
proof
  fix w
  let ?I = "\<lambda>_ u. session_inv L P s (snd u)"
  have poll: "wp (bindM (osM pollM) f) ?I ?I (w, t)" if "\<And>v. wp (f ()) ?I ?I (v, t)" for f :: "unit \<Rightarrow> ('s, 'c, 'x) sessionM"
    by (rule wp_poll_any) (use that assms(2) in auto)
  show "wp (run_body s st) ?I ?I (w, t)"
  proof (cases st)
    case RunStart
    with assms(2) writeAck_inv [OF assms(1,2) watermark_le [OF assms(2)]] show ?thesis
      by (auto simp: sendStartupWatermark_def peer_watermark_def LastVersion_zero_def wp_bind wp_selfM wp_basic)
  next
    case RunHello
    have "wp waitForStartupWatermark ?I ?I (w, t)"
      unfolding waitForStartupWatermark_def wp_bind [of "selfM _"] wp_selfM using assms(2) by (auto simp: wps intro: wp_any)
    with RunHello show ?thesis by (simp add: wp_bind wp_basic)
  next
    case RunBefore
    with assms(2) before [of _ t] show ?thesis by (auto simp: wps split: option.split)
  next
    case RunSend
    have p: "wp (bindM (nodeM (Coordinator_Plan (seCoordinator s) (sePeerID s) (seSnapshot s))) (\<lambda>plan.
      bindM (guardM (int (length (rpPayload plan)) > seMaxFrameBytes s) (ERepair ErrRepairFrameTooLarge)) (\<lambda>_.
      bindM (connM (fpWriteFrame (sePeer s) (rpPayload plan) (seMaxFrameBytes s))) (\<lambda>_. returnM plan)))) ?I ?I (v, t)" for v
      unfolding wp_bind [of "nodeM _"] wp_session_parts fst_conv snd_conv
      by (rule wp_Coordinator_Plan) (use assms(2) wp_write [OF assms(1,2)] in \<open>auto simp: wps\<close>)
    have "wp (SendNext s) ?I ?I (w, t)"
      unfolding SendNext_def requireCapability_def by (rule poll) (use p assms(2) in \<open>simp add: wp_bind [of "guardM _ _"] wp_effect\<close>)
    with RunSend show ?thesis by (simp add: wp_bind wp_basic)
  next
    case (RunAck plan)
    have "wp (waitForAcknowledgement s (rpTo plan)) ?I ?I (w, t)"
      unfolding waitForAcknowledgement_def peer_watermark_def wp_bind [of "selfM _"] wp_selfM using assms(2) by (auto simp: wps intro: wp_any)
    with RunAck show ?thesis by (simp add: wp_bind wp_basic)
  next
    case (RunReturned r)
    with assms(2) show ?thesis by (simp add: wp_basic)
  qed
qed

lemma run_events_inv:
  assumes "wired L s" and "session_inv L P s t" and "\<And>b t. seBeforeRepair s = Some b \<Longrightarrow> session_inv L P s t \<Longrightarrow> keeps_inv L P s b t"
  shows "wp (run_events s es st) (\<lambda>_ u. session_inv L P s (snd u)) (\<lambda>_ u. session_inv L P s (snd u)) (w, t)"
  using assms(2)
proof (induction es arbitrary: st w t)
  case (Cons e es)
  show ?case
  proof (cases e)
    case RunEvent
    have "wp (run_body s st) (\<lambda>_ u. session_inv L P s (snd u)) (\<lambda>_ u. session_inv L P s (snd u)) (w, t)"
      using run_body_inv [OF assms(1) Cons.prems assms(3)] by blast
    then show ?thesis using Cons.IH unfolding RunEvent run_events.simps run_step_def wps by (elim wp_mono) (auto split: prod.splits)
  next
    case (FrameEvent payload)
    have "wp (Handle s payload) (\<lambda>_ u. session_inv L P s (snd u)) (\<lambda>_ u. session_inv L P s (snd u)) (w, t)"
      using Handle_inv [OF assms(1) Cons.prems] by blast
    then show ?thesis using Cons.IH unfolding FrameEvent run_events.simps wps by (elim wp_mono) (auto split: prod.splits)
  qed
qed (simp add: wp_basic)

end

interpretation ms: session_parts "memory_blobs bt" memory_view "\<lambda>_. True" TCPPeer_WriteFrame written for bt :: "'t btree"
  by unfold_locales

section \<open>Theorems\<close>

text \<open>A session over a node with the in-process blob store and a TCP connection.\<close>

definition tcp_session :: "'t btree \<Rightarrow> Limits \<Rightarrow> ('t MemoryStore, bytes) RepairSession \<Rightarrow> bool" where
  "tcp_session bt L s \<longleftrightarrow> fpWriteFrame (sePeer s) = TCPPeer_WriteFrame \<and> seApplier s = Some (NewApplier (Some (memory_blobs bt)) L)"

lemma tcp_wired: "tcp_session bt L s \<Longrightarrow> ms.wired bt L s"
  by (simp add: tcp_session_def ms.wired_def NewApplier_def)

text \<open>The callback before the first repair frame may write frames of other protocols, but no acknowledgement.\<close>

definition callback_writes :: "('t MemoryStore, bytes) RepairSession \<Rightarrow> bool" where
  "callback_writes s \<longleftrightarrow> (\<forall>b. seBeforeRepair s = Some b \<longrightarrow>
     (\<forall>u. \<exists>m ps. b u = connM (forM (\<lambda>p. TCPPeer_WriteFrame p m) ps) u \<and> (\<forall>p\<in>set ps. decodeRepairType p \<noteq> Inr RepairAckMessageType)))"




definition example_session :: "(bytes list MemoryStore, bytes) RepairSession" where
  "example_session = \<lparr>sePeer = \<lparr>AuthCapabilities = [LifecycleCapabilityV1], fpWriteFrame = TCPPeer_WriteFrame\<rparr>,
     seCoordinator = \<lparr>coLimits = normalized_repair example_repair_limits\<rparr>,
     seApplier = Some (NewApplier (Some (memory_blobs list_btree)) example_limits), sePeerID = ''node'', seSnapshot = None,
     seCheckpointPath = ''c'', seMaxFrameBytes = 131072, seReconcilePeer = False,
     seBeforeRepair = Some (connM (forM (\<lambda>p. TCPPeer_WriteFrame p 0) []))\<rparr>"

definition example_state0 :: "(bytes list MemoryStore, bytes) session_state" where
  "example_state0 = \<lparr>ssNode = example_node\<lparr>nWatermarks := example_book [(''node'', MkVersion 1 1)]\<rparr>, ssConn = [],
     ssHelloReceived = False, ssHelloNotify = False, ssAckNotify = False\<rparr>"

lemma example_session_ok:
  "tcp_session list_btree example_limits example_session" "callback_writes example_session"
  "node_ok example_limits (map_of (msData (nBlobs (ssNode example_state0)))) (ssNode example_state0)"
  "book_ok (nWatermarks (ssNode example_state0))" "ssConn example_state0 = []"
  "Watermark_of (nWatermarks (ssNode example_state0)) (sePeerID example_session) = MkVersion 1 1"
  "jLast (nJournal (ssNode example_state0)) = MkVersion 1 1"
proof -
  show "tcp_session list_btree example_limits example_session" "ssConn example_state0 = []"
    "Watermark_of (nWatermarks (ssNode example_state0)) (sePeerID example_session) = MkVersion 1 1"
    "jLast (nJournal (ssNode example_state0)) = MkVersion 1 1"
    by (simp_all add: tcp_session_def example_session_def example_state0_def Watermark_of_def example_book_def example_node_def example_journal_def)
  show "callback_writes example_session"
    unfolding callback_writes_def example_session_def by (auto intro!: exI [of _ 0] exI [of _ "[]"])
  show "node_ok example_limits (map_of (msData (nBlobs (ssNode example_state0)))) (ssNode example_state0)"
    using example_node_ok by (simp add: node_ok_def example_state0_def)
  show "book_ok (nWatermarks (ssNode example_state0))"
    using example_peer by (simp add: example_state0_def book_ok_def marks_ok_def example_book_def peer_ok_def zeroVersion_def)
qed


text \<open>
  C24. A batch is acknowledged after it is applied.  When a batch that is new to the node was handled without an error, it started
  where the node stood, every record of it is in the journal and covered by the visible state, the watermark
  of the peer is the end of the batch, and the acknowledgement of exactly that version was written to the peer.
\<close>

theorem batch_acknowledged:
  fixes t :: "('t MemoryStore, bytes) session_state"
  assumes "tcp_session bt L s" and "node_ok L (map_of (msData (nBlobs (ssNode t)))) (ssNode t)" and "book_ok (nWatermarks (ssNode t))"
    and "Compare (Watermark_of (nWatermarks (ssNode t)) (sePeerID s)) (jLast (nJournal (ssNode t))) \<le> 0" and "ssConn t = []"
    and "DecodeRepairFrame payload (coLimits (seCoordinator s)) = Inr f" and "rfAck f = None" and "rfBatch f = Some batch"
    and "Compare (Watermark_of (nWatermarks (ssNode t)) (sePeerID s)) (rbTo batch) < 0"
    and "Handle s payload (w, t) = (Inr (), (v, t'))"
  shows "rbFrom batch = Watermark_of (nWatermarks (ssNode t)) (sePeerID s) \<and>
    (\<forall>r\<in>set (rbRecords batch). reflected (ApplyRecord r None) (ssNode t')) \<and>
    Watermark_of (nWatermarks (ssNode t')) (sePeerID s) = rbTo batch \<and>
    (\<exists>ack. EncodeRepairAck \<lparr>raType = RepairAckMessageType, raWatermark = rbTo batch\<rparr> (coLimits (seCoordinator s)) = Inr ack \<and>
       ssConn t' = frame_bytes ack)"
proof -
  have i: "ms.session_inv L ({}, zeroVersion) s t"
    using assms(2-5) by (auto simp: ms.session_inv_def Let_def ml.node_inv_def ml.usable_def intro!: exI [of _ "[]"])
  obtain u where "handleBatch s batch (u, t) = (Inr (), (v, t'))"
    using assms(6-8,10) by (auto simp: Handle_def requireCapability_def DecodeRepairFrameForPeer_def monad split: sum.splits prod.splits if_splits)
  with ms.wp_handleBatch [OF tcp_wired [OF assms(1)] i, of batch u] assms(9) have d: "ms.batch_done s batch t t'" by (simp add: wp_def)
  have "c = c0 @ frame_bytes p" if "TCPPeer_WriteFrame p m (x, c0) = (Inr (), (y, c))" for p m x y c c0
  proof -
    have "wp (TCPPeer_WriteFrame p m) (\<lambda>_ z. snd z = c0 @ frame_bytes p) (\<lambda>_ _. True) (x, c0)"
      unfolding TCPPeer_WriteFrame_def by (rule wp_WriteFrame_bytes) simp_all
    with that show ?thesis by (simp add: wp_def)
  qed
  with d assms(1,5) show ?thesis unfolding ms.batch_done_def ms.ack_sent_def tcp_session_def by fastforce
qed

abbreviation "example_batch \<equiv> tail_batch (MkVersion 1 1) 1 [example_record 2]"

lemma example_order [simp]: "MkVersion 1 1 < MkVersion 1 2" "\<not> MkVersion 1 2 < MkVersion 1 1" "\<not> MkVersion 1 2 \<le> MkVersion 1 1"
  by (simp_all add: less_Version_def less_eq_Version_def word_le_nat_alt)

lemma example_batch2_encodes: "encodes example_repair_limits example_batch"
proof -
  have "length (json_print (batch_json example_batch)) < 1000"
    by (simp add: ev batch_json_def tail_batch_def RepairBatchMessageType_def)
  moreover have "fst (repairRecordBytes (example_record 2)) < 1000" "snd (repairRecordBytes (example_record 2)) < 1000"
    by (simp_all add: ev repairRecordBytes_def)
  then have "batch_valid (normalized_repair example_repair_limits) example_batch"
    using example_record_valid unfolding Validate_ok
    by (auto simp: batch_valid_def tail_batch_def sums_fit_def)
  ultimately show ?thesis by (auto simp: encodes_def EncodeRepairBatch_ok Let_def tail_batch_def)
qed

lemma example_ack2:
  assumes "calm w"
  shows "\<exists>v. Acknowledge ''node'' (MkVersion 1 2) (w, example_book [(''node'', MkVersion 1 1)]) = (Inr (), (v, example_book [(''node'', MkVersion 1 2)])) \<and> calm v"
proof -
  let ?p = "json_print (watermark_json \<lparr>wsWatermarks = Some [(''node'', MkVersion 1 2)]\<rparr>)"
  have "?p \<noteq> [] \<and> length ?p < 1000" by (simp add: watermark_json_def ev)
  then obtain data where d: "seal_state (EWatermark ErrWatermarkCorrupt) (EWatermark ErrWatermarkLimit) 1048576 ?p = Inr data"
    using seal_state_ok [of ?p 1048576] by auto
  obtain v where v: "atomicWrite ''m'' data w = (Inr (), v)" "calm v"
    using atomicWrite_calm [of w "''m''" data] assms by (auto simp: file_name_ok_def base_seg_def)
  have "validatePeer (example_book [(''node'', MkVersion 1 1)]) ''node'' = Inr ()" using example_peer by (simp add: validatePeer_ok)
  then show ?thesis
    using d v assms by (simp add: Acknowledge_def monad calm_run IsZero_def Let_def example_book_def persist_watermarks_def cloneWatermarks_def zeroVersion_def)
qed

lemma example_apply2:
  "\<exists>v x n'. Applier_Apply (NewApplier (Some (memory_blobs list_btree)) example_limits) [LifecycleCapabilityV1] (example_record 2) None (example_world, ssNode example_state0) =
     (Inr x, (v, n')) \<and> calm v \<and> jLast (nJournal n') = MkVersion 1 2 \<and> nWatermarks n' = example_book [(''node'', MkVersion 1 1)]"
proof -
  obtain v where v: "Append (example_record 2) (example_world, example_journal) = (Inr (), (v, appended example_journal (example_record 2)))" "calm v"
    using example_append by blast
  have "State (example_record 2) \<noteq> StatePresent" by (simp add: example_record_def)
  moreover obtain s' where "Apply (example_record 2) (nState example_node) = (Inr \<lparr>Outcome = OutcomeApplied, aVersion = MkVersion 1 2\<rparr>, s')"
    using example_classify Apply_Classify [of "example_record 2" "nState example_node"] by (metis prod.collapse)
  moreover have "nJournal example_node = example_journal" by (simp add: example_node_def)
  ultimately show ?thesis
    using v example_classify example_journal_inv(3)
    by (auto simp: Applier_Apply_def monad calm_run HasLifecycleCapability_def NewApplier_def example_state0_def)
qed

lemma example_write_ack:
  assumes "calm w" and "ssConn t = []"
  shows "\<exists>t'. writeAck example_session (MkVersion 1 2) (w, t) = (Inr (), (w, t')) \<and> ssNode t' = ssNode t"
proof -
  let ?a = "\<lparr>raType = RepairAckMessageType, raWatermark = MkVersion 1 2\<rparr>"
  have "length (json_print (ack_json ?a)) < 1000" by (simp add: ev ack_json_def RepairAckMessageType_def)
  moreover from this have "EncodeRepairAck ?a example_repair_limits = Inr (json_print (ack_json ?a))"
    by (simp add: EncodeRepairAck_def Let_def)
  ultimately show ?thesis
    using assms by (simp add: writeAck_def monad calm_run example_session_def TCPPeer_WriteFrame_def WriteFrame_calm frameable_def frame_limit_def
        del: example_repair_normalized)
qed

theorem batch_acknowledged_witness:
  "\<exists>payload v t'. Handle example_session payload (example_world, example_state0) = (Inr (), (v, t')) \<and>
     Watermark_of (nWatermarks (ssNode t')) ''node'' = MkVersion 1 2 \<and> reflected (ApplyRecord (example_record 2) None) (ssNode t')"
proof -
  let ?s = example_session and ?R = "normalized_repair example_repair_limits"
  obtain payload where p: "EncodeRepairBatch example_batch example_repair_limits = Inr payload"
    using example_batch2_encodes by (auto simp: encodes_def)
  let ?f = "\<lparr>rfType = RepairBatchMessageType, rfBatch = Some example_batch, rfSnapshot = None, rfAck = None\<rparr>"
  have f: "DecodeRepairFrame payload ?R = Inr ?f"
    using batch_roundtrip [OF p] by (simp add: DecodeRepairFrame_def Let_def tail_batch_def del: example_repair_normalized)
  have d: "Delivery example_batch (MkVersion 1 1) ?R = Inr RepairDeliveryReady"
    using encodes_valid [OF example_batch2_encodes] validateRepairBatch_ok [of example_batch example_repair_limits "()"]
    by (simp add: Delivery_def Let_def tail_batch_def del: example_repair_normalized)
  obtain v x n' where a: "Applier_Apply (NewApplier (Some (memory_blobs list_btree)) example_limits) [LifecycleCapabilityV1] (example_record 2) None
      (example_world, ssNode example_state0) = (Inr x, (v, n'))" "calm v" "jLast (nJournal n') = MkVersion 1 2" "nWatermarks n' = example_book [(''node'', MkVersion 1 1)]"
    using example_apply2 by blast
  obtain u where k: "Acknowledge ''node'' (MkVersion 1 2) (v, example_book [(''node'', MkVersion 1 1)]) = (Inr (), (u, example_book [(''node'', MkVersion 1 2)]))" "calm u"
    using example_ack2 [OF a(2)] by blast
  have pv: "validatePeer (example_book [(''node'', MkVersion 1 1)]) ''node'' = Inr ()" using example_peer by (simp add: validatePeer_ok)
  have c: "Coordinator_Acknowledge ''node'' (MkVersion 1 2) (v, n') = (Inr (), (u, n'\<lparr>nWatermarks := example_book [(''node'', MkVersion 1 2)]\<rparr>))"
    using a k pv by (simp add: Coordinator_Acknowledge_def monad calm_run)
  obtain t' where t: "writeAck ?s (MkVersion 1 2) (u, example_state0\<lparr>ssNode := n'\<lparr>nWatermarks := example_book [(''node'', MkVersion 1 2)]\<rparr>\<rparr>) = (Inr (), (u, t'))"
    using example_write_ack [OF k(2), of "example_state0\<lparr>ssNode := n'\<lparr>nWatermarks := example_book [(''node'', MkVersion 1 2)]\<rparr>\<rparr>"] example_session_ok(5) by auto
  have b: "rbRecords example_batch = [example_record 2]" "rbTo example_batch = MkVersion 1 2" by (simp_all add: tail_batch_def)
  have s: "AuthCapabilities (sePeer ?s) = [LifecycleCapabilityV1]" "coLimits (seCoordinator ?s) = ?R" "sePeerID ?s = ''node''"
    "seApplier ?s = Some (NewApplier (Some (memory_blobs list_btree)) example_limits)" by (simp_all add: example_session_def)
  have h: "handleBatch ?s example_batch (example_world, example_state0) = (Inr (), (u, t'))"
    using a(1) c t d b s example_session_ok(6) by (simp add: handleBatch_def peer_watermark_def monad del: example_repair_normalized)
  have r: "Handle ?s payload (example_world, example_state0) = (Inr (), (u, t'))"
    using f h s example_journal_inv(3)
    by (simp add: Handle_def requireCapability_def monad calm_run HasLifecycleCapability_def DecodeRepairFrameForPeer_def del: example_repair_normalized)
  have m: "Compare (Watermark_of (nWatermarks (ssNode example_state0)) (sePeerID ?s)) (jLast (nJournal (ssNode example_state0))) \<le> 0"
    "Compare (Watermark_of (nWatermarks (ssNode example_state0)) (sePeerID ?s)) (rbTo example_batch) < 0" using b by (simp_all add: example_session_ok)
  have f': "DecodeRepairFrame payload (coLimits (seCoordinator ?s)) = Inr ?f" using f s by simp
  from batch_acknowledged [OF example_session_ok(1,3,4) m(1) example_session_ok(5) f' _ _ m(2) r] r b s show ?thesis by auto
qed

end
