(* ===== verification/Replication_Protocol.thy ===== *)
theory Replication_Protocol
  imports Go_Json Storage_Memory
begin

text \<open>
  \<^verbatim>\<open>replication/protocol.go\<close>: the JSON messages of the blob replication protocol and the application of a received
  message to a blob store.

  The type and function names that other packages also use carry the prefix \<open>repl_\<close>.
\<close>

section \<open>Definitions\<close>

definition MessageTypeBlobPut :: bytes where "MessageTypeBlobPut = ''blob.put''"
definition MessageTypeBlobHas :: bytes where "MessageTypeBlobHas = ''blob.has''"
definition MessageTypeBlobGet :: bytes where "MessageTypeBlobGet = ''blob.get''"
definition MessageTypeBlobMissing :: bytes where "MessageTypeBlobMissing = ''blob.missing''"
definition MessageTypeBlobAck :: bytes where "MessageTypeBlobAck = ''blob.ack''"
definition DefaultMaxKeyBytes :: int where "DefaultMaxKeyBytes = 512"
definition DefaultMaxKeys :: int where "DefaultMaxKeys = 4096"
definition DefaultMaxDataBytes :: int where "DefaultMaxDataBytes = 4 * 2 ^ 20"
definition DefaultMaxRepairBytes :: int where "DefaultMaxRepairBytes = 64 * 2 ^ 20"

lemmas message_types = MessageTypeBlobPut_def MessageTypeBlobHas_def MessageTypeBlobGet_def MessageTypeBlobMissing_def MessageTypeBlobAck_def

record repl_Limits =
  MaxKeyBytes :: int
  MaxKeys :: int
  MaxDataBytes :: int
  MaxRepairBytes :: int

record Message =
  mType :: bytes
  mKey :: bytes
  mKeys :: "bytes list"
  mData :: bytes

text \<open>The members with \<^verbatim>\<open>omitempty\<close> are left out when they are empty.\<close>

definition message_json :: "Message \<Rightarrow> json" where
  "message_json m = JObj ([(''type'', JStr (mType m))] @
     (if mKey m = [] then [] else [(''key'', bytes_json (mKey m))]) @
     (if mKeys m = [] then [] else [(''keys'', JArr (map bytes_json (mKeys m)))]) @
     (if mData m = [] then [] else [(''data'', bytes_json (mData m))]))"

definition message_fields :: "Message fields" where
  "message_fields =
     [(''type'', field dec_string mType mType_update), (''key'', field dec_bytes mKey mKey_update),
      (''keys'', field (dec_slice dec_bytes []) mKeys mKeys_update), (''data'', field dec_bytes mData mData_update)]"

definition zeroMessage :: Message where
  "zeroMessage = \<lparr>mType = [], mKey = [], mKeys = [], mData = []\<rparr>"

definition normalizeLimits :: "repl_Limits \<Rightarrow> repl_Limits" where
  "normalizeLimits limits =
     \<lparr>MaxKeyBytes = (if MaxKeyBytes limits \<le> 0 then DefaultMaxKeyBytes else MaxKeyBytes limits),
      MaxKeys = (if MaxKeys limits \<le> 0 then DefaultMaxKeys else MaxKeys limits),
      MaxDataBytes = (if MaxDataBytes limits \<le> 0 then DefaultMaxDataBytes else MaxDataBytes limits),
      MaxRepairBytes = (if MaxRepairBytes limits \<le> 0 then DefaultMaxRepairBytes else MaxRepairBytes limits)\<rparr>"

definition validateKey :: "bytes \<Rightarrow> repl_Limits \<Rightarrow> err + unit" where
  "validateKey key limits =
     bindE (guardE (key = []) (ERepl ErrReplKeyEmpty)) (\<lambda>_.
     guardE (int (length key) > MaxKeyBytes limits) (ERepl ErrKeyTooLarge))"

definition validateKeys :: "bytes list \<Rightarrow> repl_Limits \<Rightarrow> err + unit" where
  "validateKeys keys limits =
     bindE (guardE (keys = []) (ERepl ErrKeysEmpty)) (\<lambda>_.
     bindE (guardE (int (length keys) > MaxKeys limits) (ERepl ErrTooManyKeys)) (\<lambda>_.
     allE_ok (\<lambda>key. validateKey key limits) keys))"

definition validateBlobPut :: "Message \<Rightarrow> repl_Limits \<Rightarrow> err + unit" where
  "validateBlobPut msg limits =
     bindE (validateKey (mKey msg) limits) (\<lambda>_.
     guardE (int (length (mData msg)) > MaxDataBytes limits) (ERepl ErrDataTooLarge))"

definition cloneKeys :: "bytes list \<Rightarrow> bytes list" where
  "cloneKeys keys = map (\<lambda>key. [] @ key) keys"

definition EncodeBlobPut :: "bytes \<Rightarrow> bytes \<Rightarrow> repl_Limits \<Rightarrow> err + bytes" where
  "EncodeBlobPut key data limits =
     (let msg = zeroMessage\<lparr>mType := MessageTypeBlobPut, mKey := key, mData := data\<rparr> in
      bindE (validateBlobPut msg (normalizeLimits limits)) (\<lambda>_.
      Inr (json_print (message_json msg))))"

definition encodeKeyListMessage :: "bytes \<Rightarrow> bytes list \<Rightarrow> repl_Limits \<Rightarrow> err + bytes" where
  "encodeKeyListMessage messageType keys limits =
     (let msg = zeroMessage\<lparr>mType := messageType, mKeys := cloneKeys keys\<rparr> in
      bindE (validateKeys (mKeys msg) (normalizeLimits limits)) (\<lambda>_.
      Inr (json_print (message_json msg))))"

definition EncodeBlobHas :: "bytes list \<Rightarrow> repl_Limits \<Rightarrow> err + bytes" where
  "EncodeBlobHas keys limits = encodeKeyListMessage MessageTypeBlobHas keys limits"

definition EncodeBlobGet :: "bytes \<Rightarrow> repl_Limits \<Rightarrow> err + bytes" where
  "EncodeBlobGet key limits =
     (let msg = zeroMessage\<lparr>mType := MessageTypeBlobGet, mKey := key\<rparr> in
      bindE (validateKey (mKey msg) (normalizeLimits limits)) (\<lambda>_.
      Inr (json_print (message_json msg))))"

definition EncodeBlobMissing :: "bytes list \<Rightarrow> repl_Limits \<Rightarrow> err + bytes" where
  "EncodeBlobMissing keys limits = encodeKeyListMessage MessageTypeBlobMissing keys limits"

definition EncodeBlobAck :: "bytes \<Rightarrow> repl_Limits \<Rightarrow> err + bytes" where
  "EncodeBlobAck key limits =
     (let msg = zeroMessage\<lparr>mType := MessageTypeBlobAck, mKey := key\<rparr> in
      bindE (validateKey (mKey msg) (normalizeLimits limits)) (\<lambda>_.
      Inr (json_print (message_json msg))))"

definition repl_Decode :: "bytes \<Rightarrow> repl_Limits \<Rightarrow> err + Message" where
  "repl_Decode payload limits =
     bindE (mapE EWrap (json_unmarshal (struct_decode False message_fields) zeroMessage payload)) (\<lambda>msg.
     let normalized = normalizeLimits limits in
     bindE (if mType msg = MessageTypeBlobPut then validateBlobPut msg normalized
            else if mType msg = MessageTypeBlobGet \<or> mType msg = MessageTypeBlobAck then validateKey (mKey msg) normalized
            else if mType msg = MessageTypeBlobHas \<or> mType msg = MessageTypeBlobMissing then validateKeys (mKeys msg) normalized
            else Inl (ERepl ErrUnknownMessageType)) (\<lambda>_.
     Inr (msg\<lparr>mKeys := cloneKeys (mKeys msg)\<rparr>)))"

definition verifyContentKey :: "bytes \<Rightarrow> bytes \<Rightarrow> err + unit" where
  "verifyContentKey key data =
     (case ValidateSHA256Key key of Inl _ \<Rightarrow> Inr () | Inr _ \<Rightarrow> VerifySHA256Key key data)"

definition repl_Apply :: "'s BlobStore option \<Rightarrow> bytes \<Rightarrow> repl_Limits \<Rightarrow> (world \<times> 's, unit) M" where
  "repl_Apply store payload limits =
     bindM (osM pollM) (\<lambda>_.
     case store of
       None \<Rightarrow> throwM (ERepl ErrNilStore)
     | Some store \<Rightarrow>
         bindM (liftE (repl_Decode payload limits)) (\<lambda>msg.
         if mType msg = MessageTypeBlobPut then
           bindM (liftE (verifyContentKey (mKey msg) (mData msg))) (\<lambda>_.
           bsPut store (mKey msg) (mData msg))
         else throwM (ERepl ErrMessageNotApplicable)))"

section \<open>Messages\<close>

text \<open>A well-formed message has a known type and, for that type, contents within the limits.\<close>

definition key_ok :: "repl_Limits \<Rightarrow> bytes \<Rightarrow> bool" where
  "key_ok L k \<longleftrightarrow> k \<noteq> [] \<and> int (length k) \<le> MaxKeyBytes L"

definition keys_ok :: "repl_Limits \<Rightarrow> bytes list \<Rightarrow> bool" where
  "keys_ok L ks \<longleftrightarrow> ks \<noteq> [] \<and> int (length ks) \<le> MaxKeys L \<and> (\<forall>k\<in>set ks. key_ok L k)"

definition message_ok :: "repl_Limits \<Rightarrow> Message \<Rightarrow> bool" where
  "message_ok L m \<longleftrightarrow>
     mType m = MessageTypeBlobPut \<and> key_ok L (mKey m) \<and> int (length (mData m)) \<le> MaxDataBytes L \<or>
     mType m \<in> {MessageTypeBlobGet, MessageTypeBlobAck} \<and> key_ok L (mKey m) \<or>
     mType m \<in> {MessageTypeBlobHas, MessageTypeBlobMissing} \<and> keys_ok L (mKeys m)"

lemma cloneKeys_id [simp]: "cloneKeys ks = ks"
  by (simp add: cloneKeys_def)

lemma validate_ok:
  "validateKey k L = Inr u \<longleftrightarrow> key_ok L k" "validateKeys ks L = Inr u \<longleftrightarrow> keys_ok L ks"
  "validateBlobPut m L = Inr u \<longleftrightarrow> key_ok L (mKey m) \<and> int (length (mData m)) \<le> MaxDataBytes L"
  by (auto simp: validateKey_def validateKeys_def validateBlobPut_def key_ok_def keys_ok_def resE split: if_splits)

lemma types_distinct [simp]:
  "MessageTypeBlobGet \<noteq> MessageTypeBlobPut" "MessageTypeBlobAck \<noteq> MessageTypeBlobPut" "MessageTypeBlobHas \<noteq> MessageTypeBlobPut"
  "MessageTypeBlobMissing \<noteq> MessageTypeBlobPut" "MessageTypeBlobHas \<noteq> MessageTypeBlobGet" "MessageTypeBlobHas \<noteq> MessageTypeBlobAck"
  "MessageTypeBlobMissing \<noteq> MessageTypeBlobGet" "MessageTypeBlobMissing \<noteq> MessageTypeBlobAck"
  by (simp_all add: message_types)

lemmas types_distinct' [simp] = types_distinct [THEN not_sym]

lemma message_ok_check:
  "(if mType m = MessageTypeBlobPut then validateBlobPut m L
    else if mType m = MessageTypeBlobGet \<or> mType m = MessageTypeBlobAck then validateKey (mKey m) L
    else if mType m = MessageTypeBlobHas \<or> mType m = MessageTypeBlobMissing then validateKeys (mKeys m) L
    else Inl (ERepl ErrUnknownMessageType)) = Inr u \<longleftrightarrow> message_ok L m"
  by (auto simp: message_ok_def validate_ok)

lemma message_names [simp]: "valid_utf8 ''type''" "valid_utf8 ''key''" "valid_utf8 ''keys''" "valid_utf8 ''data''"
  by (rule valid_utf8_ascii, simp)+

lemma message_rt [json_rt]: "struct_decode False message_fields zeroMessage (message_json m) = Some m"
proof -
  have k: "dec_slice dec_bytes [] [] (JArr (map bytes_json (mKeys m))) = Some (mKeys m)" by (rule dec_slice_rt) (simp add: json_rt)
  show ?thesis
    by (cases "mKey m = []"; cases "mKeys m = []"; cases "mData m = []")
      (simp_all add: struct_decode_def message_json_def message_fields_def find_field_def field_def zeroMessage_def k json_rt)
qed

lemma message_json_wf: "valid_utf8 (mType m) \<Longrightarrow> json_wf (message_json m)"
  by (auto simp: message_json_def list_all_iff)

lemma message_json_depth: "json_depth (message_json m) \<le> max_nesting"
proof -
  have "foldr max (map json_depth (map bytes_json ks)) 0 \<le> 0" for ks unfolding map_map by (rule foldr_max_le) simp
  then show ?thesis by (simp add: message_json_def max_nesting_def)
qed

lemma Decode_print:
  assumes "message_ok (normalizeLimits L) m"
  shows "repl_Decode (json_print (message_json m)) L = Inr m"
proof -
  have "valid_utf8 (mType m)" using assms by (auto simp: message_ok_def message_types intro!: valid_utf8_ascii)
  then have "json_unmarshal (struct_decode False message_fields) zeroMessage (json_print (message_json m)) = Inr m"
    by (intro json_unmarshal_print message_json_wf message_json_depth) (simp_all add: json_rt)
  moreover have "m\<lparr>mKeys := mKeys m\<rparr> = m" by simp
  ultimately show ?thesis
    using message_ok_check [THEN iffD2, OF assms, of "()"]
    by (simp add: repl_Decode_def Let_def del: if_True if_False split del: if_split)
qed

section \<open>Theorems\<close>

text \<open>What a node asks to be sent.\<close>

datatype blob_request = PutBlob bytes bytes | HasBlobs "bytes list" | GetBlob bytes | MissingBlobs "bytes list" | AckBlob bytes

fun encode_request :: "blob_request \<Rightarrow> repl_Limits \<Rightarrow> err + bytes" where
  "encode_request (PutBlob k d) L = EncodeBlobPut k d L"
| "encode_request (HasBlobs ks) L = EncodeBlobHas ks L"
| "encode_request (GetBlob k) L = EncodeBlobGet k L"
| "encode_request (MissingBlobs ks) L = EncodeBlobMissing ks L"
| "encode_request (AckBlob k) L = EncodeBlobAck k L"

fun request_message :: "blob_request \<Rightarrow> Message" where
  "request_message (PutBlob k d) = \<lparr>mType = MessageTypeBlobPut, mKey = k, mKeys = [], mData = d\<rparr>"
| "request_message (HasBlobs ks) = \<lparr>mType = MessageTypeBlobHas, mKey = [], mKeys = ks, mData = []\<rparr>"
| "request_message (GetBlob k) = \<lparr>mType = MessageTypeBlobGet, mKey = k, mKeys = [], mData = []\<rparr>"
| "request_message (MissingBlobs ks) = \<lparr>mType = MessageTypeBlobMissing, mKey = [], mKeys = ks, mData = []\<rparr>"
| "request_message (AckBlob k) = \<lparr>mType = MessageTypeBlobAck, mKey = k, mKeys = [], mData = []\<rparr>"

lemma encode_request_ok:
  "encode_request q L = Inr p \<longleftrightarrow> message_ok (normalizeLimits L) (request_message q) \<and> p = json_print (message_json (request_message q))"
  by (cases q) (auto simp: EncodeBlobPut_def EncodeBlobHas_def EncodeBlobGet_def EncodeBlobMissing_def EncodeBlobAck_def encodeKeyListMessage_def
      Let_def zeroMessage_def resE validate_ok message_ok_def)

text \<open>
  C25. Replication messages are well typed on both sides.  A request can be encoded exactly when it is within the limits, the payload then
  decodes to the same request, and whatever bytes arrive, a decoded message has a known type and contents
  within the limits of that type.
\<close>

theorem replication_messages_typed:
  "(case encode_request q L of
      Inr payload \<Rightarrow> message_ok (normalizeLimits L) (request_message q) \<and> repl_Decode payload L = Inr (request_message q)
    | Inl _ \<Rightarrow> \<not> message_ok (normalizeLimits L) (request_message q)) \<and>
   (case repl_Decode bytes L of Inr m \<Rightarrow> message_ok (normalizeLimits L) m | Inl _ \<Rightarrow> True)"
proof -
  have "message_ok (normalizeLimits L) m" if "repl_Decode bytes L = Inr m" for m
    using that by (auto simp: repl_Decode_def Let_def resE message_ok_check)
  moreover have "\<not> message_ok (normalizeLimits L) (request_message q)" if "encode_request q L = Inl e" for e
    using that encode_request_ok [of q L] by auto
  ultimately show ?thesis
    using encode_request_ok [of q L] by (auto simp: Decode_print split: sum.split)
qed

text \<open>
  C26. A received blob is stored only under a key it belongs to.  Applying any payload to the in-process store either stores the
  decoded blob under its key, which is the blob's SHA-256 whenever it has the length of one, or returns an
  error and leaves the store as it was.
\<close>

theorem apply_stores_verified:
  assumes "repl_Apply (Some (memory_blobs bt)) payload L (w, m) = (res, (v, m'))"
  shows "case res of
      Inl _ \<Rightarrow> m' = m
    | Inr _ \<Rightarrow> \<exists>msg. repl_Decode payload L = Inr msg \<and> mType msg = MessageTypeBlobPut \<and>
        map_of (msData m') = (map_of (msData m))(mKey msg \<mapsto> mData msg) \<and>
        (length (mKey msg) = 32 \<longrightarrow> sha256 (mData msg) = mKey msg)"
proof -
  let ?Q = "\<lambda>_ s. \<exists>msg. repl_Decode payload L = Inr msg \<and> mType msg = MessageTypeBlobPut \<and>
        memory_view s = (map_of (msData m))(mKey msg \<mapsto> mData msg) \<and> (length (mKey msg) = 32 \<longrightarrow> sha256 (mData msg) = mKey msg)"
  have put: "wp (ms_Put bt k d) (\<lambda>_ s. memory_view s = (map_of (msData m))(k \<mapsto> d)) (\<lambda>_ s. snd s = m) (u, m)" for k d u
    by (rule wp_ms_Put) (simp_all add: Let_def update_conv')
  have c: "length k = 32 \<longrightarrow> sha256 d = k" if "verifyContentKey k d = Inr ()" for k d
    using that by (auto simp: verifyContentKey_def ValidateSHA256Key_def SHA256KeyBytes_def VerifySHA256Key_ok split: sum.splits if_splits)
  have "wp (repl_Apply (Some (memory_blobs bt)) payload L) ?Q (\<lambda>_ s. snd s = m) (w, m)"
    unfolding repl_Apply_def wp_bind [of "osM pollM"] wp_osM
  proof (rule wp_pollM_fs)
    fix u
    have "wp (ms_Put bt (mKey msg) (mData msg)) ?Q (\<lambda>_ s. snd s = m) (u, m)"
      if "repl_Decode payload L = Inr msg" "mType msg = MessageTypeBlobPut" "verifyContentKey (mKey msg) (mData msg) = Inr ()" for msg
      by (rule wp_mono [OF put]) (use that c in auto)
    then show "wp (case Some (memory_blobs bt) of None \<Rightarrow> throwM (ERepl ErrNilStore) | Some store \<Rightarrow>
         bindM (liftE (repl_Decode payload L)) (\<lambda>msg.
         if mType msg = MessageTypeBlobPut then bindM (liftE (verifyContentKey (mKey msg) (mData msg))) (\<lambda>_. bsPut store (mKey msg) (mData msg))
         else throwM (ERepl ErrMessageNotApplicable))) ?Q (\<lambda>_ s. snd s = m) (u, snd (w, m))"
      by (auto simp: wps memory_blobs_def split: sum.split)
  qed simp
  with assms show ?thesis by (auto simp: wp_def split: sum.splits)
qed

definition example_repl_limits :: repl_Limits where
  "example_repl_limits = \<lparr>MaxKeyBytes = 0, MaxKeys = 0, MaxDataBytes = 0, MaxRepairBytes = 0\<rparr>"

theorem apply_stores_verified_witness:
  "\<exists>payload v m'. EncodeBlobPut ''k'' ''data'' example_repl_limits = Inr payload \<and>
     repl_Apply (Some (memory_blobs list_btree)) payload example_repl_limits (empty_world, NewMemoryStore list_btree) = (Inr (), (v, m')) \<and>
     map_of (msData m') ''k'' = Some ''data''"
proof -
  have ok: "message_ok (normalizeLimits example_repl_limits) (request_message (PutBlob ''k'' ''data''))"
    by (simp add: message_ok_def key_ok_def normalizeLimits_def example_repl_limits_def DefaultMaxKeyBytes_def DefaultMaxDataBytes_def)
  then obtain payload where p: "encode_request (PutBlob ''k'' ''data'') example_repl_limits = Inr payload"
    using encode_request_ok [of "PutBlob ''k'' ''data''" example_repl_limits] by auto
  have d: "repl_Decode payload example_repl_limits = Inr (request_message (PutBlob ''k'' ''data''))"
    using p ok Decode_print unfolding encode_request_ok by simp
  obtain v m' where "ms_Put list_btree ''k'' ''data'' (empty_world, NewMemoryStore list_btree) = (Inr (), (v, m'))"
    by (simp add: ms_Put_def monad calm_run keyString_def ensureKeyIndexLocked_def NewMemoryStore_def)
  with d have r: "repl_Apply (Some (memory_blobs list_btree)) payload example_repl_limits (empty_world, NewMemoryStore list_btree) = (Inr (), (v, m'))"
    by (simp add: repl_Apply_def monad calm_run memory_blobs_def verifyContentKey_def ValidateSHA256Key_def SHA256KeyBytes_def)
  from apply_stores_verified [OF this] d r p show ?thesis by auto
qed

end
