(* ===== verification/P2p_Handshake.thy ===== *)
theory P2p_Handshake
  imports P2p_Frame Go_Json
begin

text \<open>
  \<^verbatim>\<open>p2p/handshake.go\<close>, \<^verbatim>\<open>p2p/capabilities.go\<close> and the two sides of the authentication in \<^verbatim>\<open>p2p/tcp_transport.go\<close>: the
  shared-token handshake that admits a peer and negotiates its identity and capabilities.

  A peer is the bytes it can still read, the bytes written to it, and the negotiated fields.  A read deadline that expires is
  a read error; in the model the bytes to read end there.  Setting and clearing deadlines has no other
  effect.
\<close>

section \<open>Definitions\<close>

subsection \<open>Capabilities and identities\<close>

definition HandshakeVersionV1 :: bytes where "HandshakeVersionV1 = ''streamhive/1''"
definition handshakeTypePeerAuth :: bytes where "handshakeTypePeerAuth = ''peer.auth''"
definition handshakeTypePeerAuthOK :: bytes where "handshakeTypePeerAuthOK = ''peer.auth.ok''"
definition handshakeTypePeerAuthReject :: bytes where "handshakeTypePeerAuthReject = ''peer.auth.reject''"
definition MaxPeerAuthIdentityBytes :: int where "MaxPeerAuthIdentityBytes = 128"
definition CapabilityLifecycleV1 :: bytes where "CapabilityLifecycleV1 = ''lifecycle.v1''"
definition CapabilityLifecycleRepairReconcileV1 :: bytes where "CapabilityLifecycleRepairReconcileV1 = ''lifecycle.repair-reconcile.v1''"
definition MaxPeerAuthCapabilities :: int where "MaxPeerAuthCapabilities = 16"
definition MaxPeerAuthCapabilityBytes :: int where "MaxPeerAuthCapabilityBytes = 64"
definition MaxPeerAuthCapabilitiesBytes :: int where "MaxPeerAuthCapabilitiesBytes = 512"
definition MaxPeerAuthPayloadBytes :: int where "MaxPeerAuthPayloadBytes = 4 * 2 ^ 10"

lemmas handshake_names = HandshakeVersionV1_def handshakeTypePeerAuth_def handshakeTypePeerAuthOK_def handshakeTypePeerAuthReject_def
lemmas capability_names = CapabilityLifecycleV1_def CapabilityLifecycleRepairReconcileV1_def

text \<open>The byte range both loops test.\<close>

definition visible :: "char \<Rightarrow> bool" where
  "visible c \<longleftrightarrow> \<not> (byte_of c < 33 \<or> byte_of c > 126)"

fun capabilities_loop :: "bool \<Rightarrow> bytes list \<Rightarrow> int \<Rightarrow> bytes list \<Rightarrow> bytes list \<Rightarrow> err + bytes list" where
  "capabilities_loop rejectUnknown seen totalBytes normalized [] = Inr normalized"
| "capabilities_loop rejectUnknown seen totalBytes normalized (capability # capabilities) =
     bindE (guardE (int (length capability) > MaxPeerAuthCapabilityBytes) (EP2P ErrPeerAuthCapabilityTooLarge)) (\<lambda>_.
     let totalBytes = totalBytes + int (length capability) in
     bindE (guardE (totalBytes > MaxPeerAuthCapabilitiesBytes) (EP2P ErrPeerAuthCapabilitiesTooLarge)) (\<lambda>_.
     bindE (guardE (capability = []) (EP2P ErrPeerAuthCapabilityInvalid)) (\<lambda>_.
     bindE (guardE (\<not> list_all visible capability) (EP2P ErrPeerAuthCapabilityInvalid)) (\<lambda>_.
     bindE (guardE (capability \<in> set seen) (EP2P ErrPeerAuthCapabilityDuplicate)) (\<lambda>_.
     let seen = capability # seen in
     if capability \<noteq> CapabilityLifecycleV1 \<and> capability \<noteq> CapabilityLifecycleRepairReconcileV1 then
       bindE (guardE rejectUnknown (EP2P ErrPeerAuthCapabilityUnknown)) (\<lambda>_.
       capabilities_loop rejectUnknown seen totalBytes normalized capabilities)
     else capabilities_loop rejectUnknown seen totalBytes (normalized @ [capability]) capabilities)))))"

definition normalizePeerAuthCapabilities :: "bytes list \<Rightarrow> bool \<Rightarrow> err + bytes list" where
  "normalizePeerAuthCapabilities capabilities rejectUnknown =
     bindE (guardE (int (length capabilities) > MaxPeerAuthCapabilities) (EP2P ErrPeerAuthCapabilitiesTooMany)) (\<lambda>_.
     bindE (capabilities_loop rejectUnknown [] 0 [] capabilities) (\<lambda>normalized.
     Inr (sort normalized)))"

definition validatePeerIdentity :: "bytes \<Rightarrow> err + unit" where
  "validatePeerIdentity identity =
     (if identity = [] then Inr ()
      else
        bindE (guardE (int (length identity) > MaxPeerAuthIdentityBytes) (EP2P ErrPeerAuthIdentityInvalid)) (\<lambda>_.
        guardE (\<not> list_all visible identity) (EP2P ErrPeerAuthIdentityInvalid)))"

definition validatePeerAuthAllowlist :: "bytes list \<Rightarrow> err + unit" where
  "validatePeerAuthAllowlist identities =
     allE_ok (\<lambda>identity.
       bindE (guardE (identity = []) (EP2P ErrPeerAuthIdentityInvalid)) (\<lambda>_.
       validatePeerIdentity identity)) identities"

definition peerAuthIdentityAllowed :: "bytes \<Rightarrow> bytes list \<Rightarrow> bool" where
  "peerAuthIdentityAllowed identity allowedIdentities \<longleftrightarrow> list_ex (\<lambda>allowedIdentity. identity = allowedIdentity) allowedIdentities"

definition HasCapability :: "bytes list \<Rightarrow> bytes \<Rightarrow> bool" where
  "HasCapability capabilities capability \<longleftrightarrow> list_ex (\<lambda>candidate. candidate = capability) capabilities"

datatype CapabilityStatus = CapabilityStatusReady | CapabilityStatusOptionalRawOnly | CapabilityStatusRequiredUnavailable

definition LifecycleCapabilityStatus :: "bytes list \<Rightarrow> bool \<Rightarrow> CapabilityStatus" where
  "LifecycleCapabilityStatus capabilities required =
     (if HasCapability capabilities CapabilityLifecycleV1 then CapabilityStatusReady
      else if required then CapabilityStatusRequiredUnavailable
      else CapabilityStatusOptionalRawOnly)"

subsection \<open>Messages\<close>

record peerAuthMessage =
  paType :: bytes
  paVersion :: bytes
  paToken :: bytes
  paIdentity :: bytes
  paError :: bytes
  paCapabilities :: "bytes list"

definition zeroAuth :: peerAuthMessage where
  "zeroAuth = \<lparr>paType = [], paVersion = [], paToken = [], paIdentity = [], paError = [], paCapabilities = []\<rparr>"

definition auth_json :: "peerAuthMessage \<Rightarrow> json" where
  "auth_json m = JObj ([(''type'', JStr (paType m)), (''version'', JStr (paVersion m))] @
     (if paToken m = [] then [] else [(''token'', JStr (paToken m))]) @
     (if paIdentity m = [] then [] else [(''identity'', JStr (paIdentity m))]) @
     (if paError m = [] then [] else [(''error'', JStr (paError m))]) @
     (if paCapabilities m = [] then [] else [(''capabilities'', JArr (map JStr (paCapabilities m)))]))"

definition auth_fields :: "peerAuthMessage fields" where
  "auth_fields =
     [(''type'', field dec_string paType paType_update), (''version'', field dec_string paVersion paVersion_update),
      (''token'', field dec_string paToken paToken_update), (''identity'', field dec_string paIdentity paIdentity_update),
      (''error'', field dec_string paError paError_update),
      (''capabilities'', field (dec_slice dec_string []) paCapabilities paCapabilities_update)]"

definition marshalPeerAuthMessage :: "peerAuthMessage \<Rightarrow> err + bytes" where
  "marshalPeerAuthMessage message =
     (let payload = json_print (auth_json message) in
      bindE (guardE (int (length payload) > MaxPeerAuthPayloadBytes) (EP2P ErrPeerAuthPayloadTooLarge)) (\<lambda>_.
      Inr payload))"

definition encodePeerAuth :: "bytes \<Rightarrow> bytes \<Rightarrow> bytes list \<Rightarrow> err + bytes" where
  "encodePeerAuth token identity capabilities =
     bindE (normalizePeerAuthCapabilities capabilities True) (\<lambda>normalized.
     marshalPeerAuthMessage (zeroAuth\<lparr>paType := handshakeTypePeerAuth, paVersion := HandshakeVersionV1,
       paToken := token, paIdentity := identity, paCapabilities := normalized\<rparr>))"

definition encodePeerAuthOK :: "bytes \<Rightarrow> bytes list \<Rightarrow> err + bytes" where
  "encodePeerAuthOK identity capabilities =
     bindE (normalizePeerAuthCapabilities capabilities True) (\<lambda>normalized.
     marshalPeerAuthMessage (zeroAuth\<lparr>paType := handshakeTypePeerAuthOK, paVersion := HandshakeVersionV1,
       paIdentity := identity, paCapabilities := normalized\<rparr>))"

definition encodePeerAuthReject :: "err + bytes" where
  "encodePeerAuthReject =
     marshalPeerAuthMessage (zeroAuth\<lparr>paType := handshakeTypePeerAuthReject, paVersion := HandshakeVersionV1, paError := ''unauthorized''\<rparr>)"

definition decodePeerAuthMessage :: "bytes \<Rightarrow> err + peerAuthMessage" where
  "decodePeerAuthMessage payload =
     bindE (guardE (int (length payload) > MaxPeerAuthPayloadBytes) (EP2P ErrPeerAuthPayloadTooLarge)) (\<lambda>_.
     mapE (EJoin (EP2P ErrPeerAuthFailed)) (json_unmarshal (struct_decode False auth_fields) zeroAuth payload))"

definition validatePeerAuthPayload :: "bytes \<Rightarrow> bytes \<Rightarrow> bytes list \<Rightarrow> err + (bytes \<times> bytes list)" where
  "validatePeerAuthPayload payload token allowedIdentities =
     bindE (decodePeerAuthMessage payload) (\<lambda>msg.
     bindE (guardE (paType msg \<noteq> handshakeTypePeerAuth \<or> paVersion msg \<noteq> HandshakeVersionV1) (EP2P ErrPeerAuthFailed)) (\<lambda>_.
     bindE (guardE (paToken msg \<noteq> token) (EP2P ErrPeerAuthRejected)) (\<lambda>_.
     bindE (validatePeerIdentity (paIdentity msg)) (\<lambda>_.
     bindE (guardE (allowedIdentities \<noteq> [] \<and> \<not> peerAuthIdentityAllowed (paIdentity msg) allowedIdentities)
              (EP2P ErrPeerAuthIdentityNotAllowed)) (\<lambda>_.
     bindE (normalizePeerAuthCapabilities (paCapabilities msg) False) (\<lambda>capabilities.
     Inr (paIdentity msg, capabilities)))))))"

definition validatePeerAuthAck :: "bytes \<Rightarrow> err + (bytes \<times> bytes list)" where
  "validatePeerAuthAck payload =
     bindE (decodePeerAuthMessage payload) (\<lambda>msg.
     bindE (guardE (paVersion msg \<noteq> HandshakeVersionV1) (EP2P ErrPeerAuthFailed)) (\<lambda>_.
     if paType msg = handshakeTypePeerAuthOK then
       bindE (validatePeerIdentity (paIdentity msg)) (\<lambda>_.
       bindE (normalizePeerAuthCapabilities (paCapabilities msg) False) (\<lambda>capabilities.
       Inr (paIdentity msg, capabilities)))
     else if paType msg = handshakeTypePeerAuthReject then Inl (EP2P ErrPeerAuthRejected)
     else Inl (EP2P ErrPeerAuthFailed)))"

subsection \<open>The two sides\<close>

text \<open>The fields of \<^verbatim>\<open>TCPTransport\<close> that configure the handshake.\<close>

record peer_auth_config =
  MaxFrameBytes :: int
  PeerAuthToken :: bytes
  PeerAuthIdentity :: bytes
  PeerAuthAllowedIdentities :: "bytes list"
  PeerAuthCapabilities :: "bytes list"

record auth_peer =
  tpReader :: bytes
  tpConn :: bytes
  tpAuthIdentity :: bytes
  tpAuthCapabilities :: "bytes list"
  mPeerAuthSuccess :: u64
  mPeerAuthIdentityRejections :: u64

definition readM :: "(bytes, 'a) M \<Rightarrow> (world \<times> auth_peer, 'a) M" where
  "readM = zoomM (\<lambda>s. tpReader (snd s)) (\<lambda>r s. (fst s, (snd s)\<lparr>tpReader := r\<rparr>))"

definition writeM :: "(world \<times> bytes, 'a) M \<Rightarrow> (world \<times> auth_peer, 'a) M" where
  "writeM = zoomM (\<lambda>s. (fst s, tpConn (snd s))) (\<lambda>t s. (fst t, (snd s)\<lparr>tpConn := snd t\<rparr>))"

text \<open>\<^verbatim>\<open>if err != nil { return errors.Join(e, err) }\<close>\<close>

definition joinM :: "err \<Rightarrow> ('s, 'a) M \<Rightarrow> ('s, 'a) M" where
  "joinM e m = bindM (tryM m) (\<lambda>r. liftE (mapE (EJoin e) r))"

definition maxFrame :: "peer_auth_config \<Rightarrow> int" where
  "maxFrame t = (if MaxFrameBytes t > 0 then MaxFrameBytes t else DefaultMaxFrameBytes)"

definition peerAuthEnabled :: "peer_auth_config \<Rightarrow> bool" where
  "peerAuthEnabled t \<longleftrightarrow> PeerAuthToken t \<noteq> []"

definition validatePeerAuthConfig :: "peer_auth_config \<Rightarrow> err + unit" where
  "validatePeerAuthConfig t =
     bindE (guardE ((PeerAuthIdentity t \<noteq> [] \<or> PeerAuthAllowedIdentities t \<noteq> []) \<and> \<not> peerAuthEnabled t) (EP2P ErrPeerAuthIdentityRequiresToken)) (\<lambda>_.
     bindE (guardE (PeerAuthCapabilities t \<noteq> [] \<and> \<not> peerAuthEnabled t) (EP2P ErrPeerAuthCapabilitiesRequiresToken)) (\<lambda>_.
     bindE (validatePeerIdentity (PeerAuthIdentity t)) (\<lambda>_.
     bindE (validatePeerAuthAllowlist (PeerAuthAllowedIdentities t)) (\<lambda>_.
     bindE (normalizePeerAuthCapabilities (PeerAuthCapabilities t) True) (\<lambda>_.
     Inr ())))))"

definition maxPeerAuthFrame :: "peer_auth_config \<Rightarrow> int" where
  "maxPeerAuthFrame t = (if maxFrame t > MaxPeerAuthPayloadBytes then MaxPeerAuthPayloadBytes else maxFrame t)"

definition authenticateInbound :: "peer_auth_config \<Rightarrow> (world \<times> auth_peer, unit) M" where
  "authenticateInbound t =
     (if \<not> peerAuthEnabled t then returnM ()
      else
        bindM (joinM (EP2P ErrPeerAuthFailed) (readM (ReadFrame (maxPeerAuthFrame t)))) (\<lambda>payload.
        case validatePeerAuthPayload payload (PeerAuthToken t) (PeerAuthAllowedIdentities t) of
          Inl e \<Rightarrow>
            bindM (if err_is e (EP2P ErrPeerAuthIdentityInvalid) \<or> err_is e (EP2P ErrPeerAuthIdentityNotAllowed)
                   then setM (\<lambda>p. p\<lparr>mPeerAuthIdentityRejections := mPeerAuthIdentityRejections p + 1\<rparr>) else returnM ()) (\<lambda>_.
            bindM (case encodePeerAuthReject of
                     Inr rejectPayload \<Rightarrow> ignoreM (writeM (WriteFrame rejectPayload (maxPeerAuthFrame t)))
                   | Inl _ \<Rightarrow> returnM ()) (\<lambda>_.
            throwM e))
        | Inr (identity, capabilities) \<Rightarrow>
            bindM (setM (\<lambda>p. p\<lparr>tpAuthIdentity := identity, tpAuthCapabilities := capabilities\<rparr>)) (\<lambda>_.
            bindM (liftE (encodePeerAuthOK (PeerAuthIdentity t) (PeerAuthCapabilities t))) (\<lambda>ackPayload.
            bindM (joinM (EP2P ErrPeerAuthFailed) (writeM (WriteFrame ackPayload (maxPeerAuthFrame t)))) (\<lambda>_.
            setM (\<lambda>p. p\<lparr>mPeerAuthSuccess := mPeerAuthSuccess p + 1\<rparr>))))))"

definition authenticateOutbound :: "peer_auth_config \<Rightarrow> (world \<times> auth_peer, unit) M" where
  "authenticateOutbound t =
     (if \<not> peerAuthEnabled t then returnM ()
      else
        bindM (liftE (encodePeerAuth (PeerAuthToken t) (PeerAuthIdentity t) (PeerAuthCapabilities t))) (\<lambda>payload.
        bindM (joinM (EP2P ErrPeerAuthFailed) (writeM (WriteFrame payload (maxPeerAuthFrame t)))) (\<lambda>_.
        bindM (joinM (EP2P ErrPeerAuthFailed) (readM (ReadFrame (maxPeerAuthFrame t)))) (\<lambda>ackPayload.
        bindM (liftE (validatePeerAuthAck ackPayload)) (\<lambda>(identity, capabilities).
        bindM (setM (\<lambda>p. p\<lparr>tpAuthIdentity := identity, tpAuthCapabilities := capabilities\<rparr>)) (\<lambda>_.
        setM (\<lambda>p. p\<lparr>mPeerAuthSuccess := mPeerAuthSuccess p + 1\<rparr>)))))))"

section \<open>Negotiated values\<close>

definition known_capabilities :: "bytes set" where
  "known_capabilities = {CapabilityLifecycleV1, CapabilityLifecycleRepairReconcileV1}"

lemma capabilities_loop_ok:
  "capabilities_loop reject seen n acc cs = Inr out \<Longrightarrow> distinct cs \<and> set cs \<inter> set seen = {} \<and>
     out = acc @ filter (\<lambda>c. c \<in> known_capabilities) cs \<and> (reject \<longrightarrow> set cs \<subseteq> known_capabilities) \<and>
     (\<forall>c\<in>set cs. c \<noteq> [] \<and> list_all visible c)"
proof (induction cs arbitrary: seen n acc)
  case (Cons c cs)
  then show ?case
    by (cases "c \<in> known_capabilities") (fastforce simp: Let_def resE known_capabilities_def split: if_splits)+
qed simp

lemma normalize_ok:
  assumes "normalizePeerAuthCapabilities cs reject = Inr out"
  shows "sorted out" "distinct out" "set out = set cs \<inter> known_capabilities" "reject \<longrightarrow> set cs \<subseteq> known_capabilities" "distinct cs"
  using assms by (auto simp: normalizePeerAuthCapabilities_def resE split: if_splits dest!: capabilities_loop_ok)

text \<open>A normalized list of known capabilities is accepted as it is.\<close>

lemma known_short: "c \<in> known_capabilities \<Longrightarrow> length c \<le> 32 \<and> c \<noteq> [] \<and> list_all visible c"
  by (auto simp: known_capabilities_def capability_names visible_def)

lemma capabilities_loop_known:
  assumes "distinct cs" "set cs \<inter> set seen = {}" "set cs \<subseteq> known_capabilities" "n + 32 * int (length cs) \<le> 512"
  shows "capabilities_loop reject seen n acc cs = Inr (acc @ cs)"
  using assms
proof (induction cs arbitrary: seen n acc)
  case (Cons c cs)
  have c: "length c \<le> 32" "c \<noteq> []" "list_all visible c" using Cons.prems known_short by auto
  then have "capabilities_loop reject (c # seen) (n + int (length c)) (acc @ [c]) cs = Inr ((acc @ [c]) @ cs)"
    using Cons.prems by (intro Cons.IH) auto
  with c Cons.prems show ?case
    by (auto simp: Let_def MaxPeerAuthCapabilityBytes_def MaxPeerAuthCapabilitiesBytes_def known_capabilities_def)
qed simp

lemma normalize_again:
  assumes "normalizePeerAuthCapabilities cs True = Inr out"
  shows "normalizePeerAuthCapabilities out reject = Inr out"
proof -
  note o = normalize_ok [OF assms]
  have "card (set out) \<le> card known_capabilities" using o(3) by (intro card_mono) (auto simp: known_capabilities_def)
  also have "\<dots> \<le> 2" by (simp add: known_capabilities_def card_insert_le_m1)
  finally have l: "length out \<le> 2" using o(2) by (simp add: distinct_card)
  then have "capabilities_loop reject [] 0 [] out = Inr ([] @ out)" using o by (intro capabilities_loop_known) auto
  with l o(1) show ?thesis by (simp add: normalizePeerAuthCapabilities_def MaxPeerAuthCapabilities_def sorted_sort_id)
qed

lemma visible_utf8: "list_all visible s \<Longrightarrow> valid_utf8 s"
  by (rule valid_utf8_ascii) (auto simp: visible_def list_all_iff)

lemma identity_ok: "validatePeerIdentity i = Inr u \<longleftrightarrow> i = [] \<or> int (length i) \<le> MaxPeerAuthIdentityBytes \<and> list_all visible i"
  by (auto simp: validatePeerIdentity_def resE)

section \<open>Messages on the wire\<close>

lemma auth_names [simp]: "valid_utf8 ''type''" "valid_utf8 ''version''" "valid_utf8 ''token''" "valid_utf8 ''identity''" "valid_utf8 ''error''"
  "valid_utf8 ''capabilities''" "valid_utf8 handshakeTypePeerAuth" "valid_utf8 handshakeTypePeerAuthOK" "valid_utf8 handshakeTypePeerAuthReject"
  "valid_utf8 HandshakeVersionV1" "valid_utf8 ''unauthorized''"
  unfolding handshake_names by (rule valid_utf8_ascii, simp)+

lemma auth_rt [json_rt]: "struct_decode False auth_fields zeroAuth (auth_json m) = Some m"
proof -
  have k: "dec_slice dec_string [] [] (JArr (map JStr (paCapabilities m))) = Some (paCapabilities m)" by (rule dec_slice_rt) (simp add: json_rt)
  show ?thesis
    by (cases "paToken m = []"; cases "paIdentity m = []"; cases "paError m = []"; cases "paCapabilities m = []")
      (simp_all add: struct_decode_def auth_json_def auth_fields_def find_field_def field_def zeroAuth_def k json_rt)
qed

definition auth_text :: "peerAuthMessage \<Rightarrow> bool" where
  "auth_text m \<longleftrightarrow> valid_utf8 (paType m) \<and> valid_utf8 (paVersion m) \<and> valid_utf8 (paToken m) \<and> valid_utf8 (paIdentity m) \<and>
     valid_utf8 (paError m) \<and> (\<forall>c\<in>set (paCapabilities m). valid_utf8 c)"

lemma auth_json_ok: "auth_text m \<Longrightarrow> json_wf (auth_json m)" "json_depth (auth_json m) \<le> max_nesting"
proof -
  have "foldr max (map json_depth (map JStr cs)) 0 \<le> 0" for cs unfolding map_map by (rule foldr_max_le) simp
  then show "json_depth (auth_json m) \<le> max_nesting" by (simp add: auth_json_def max_nesting_def)
qed (auto simp: auth_json_def auth_text_def list_all_iff)

lemma decode_marshal:
  assumes "marshalPeerAuthMessage m = Inr p" and "auth_text m"
  shows "decodePeerAuthMessage p = Inr m"
proof -
  have p: "p = json_print (auth_json m)" "int (length p) \<le> MaxPeerAuthPayloadBytes"
    using assms(1) by (auto simp: marshalPeerAuthMessage_def Let_def resE split: if_splits)
  have "json_unmarshal (struct_decode False auth_fields) zeroAuth p = Inr m"
    unfolding p(1) by (rule json_unmarshal_print [OF auth_json_ok(1) [OF assms(2)] auth_json_ok(2)]) (simp add: json_rt)
  with p(2) show ?thesis by (simp add: decodePeerAuthMessage_def)
qed

lemma known_utf8: "c \<in> known_capabilities \<Longrightarrow> valid_utf8 c"
  using known_short visible_utf8 by blast

text \<open>What each side sends, and what the other side makes of it.\<close>

definition auth_message :: "peer_auth_config \<Rightarrow> bytes list \<Rightarrow> peerAuthMessage" where
  "auth_message t cs = zeroAuth\<lparr>paType := handshakeTypePeerAuth, paVersion := HandshakeVersionV1,
     paToken := PeerAuthToken t, paIdentity := PeerAuthIdentity t, paCapabilities := cs\<rparr>"

definition ok_message :: "peer_auth_config \<Rightarrow> bytes list \<Rightarrow> peerAuthMessage" where
  "ok_message t cs = zeroAuth\<lparr>paType := handshakeTypePeerAuthOK, paVersion := HandshakeVersionV1,
     paIdentity := PeerAuthIdentity t, paCapabilities := cs\<rparr>"

lemma config_ok:
  assumes "validatePeerAuthConfig t = Inr ()"
  shows "validatePeerIdentity (PeerAuthIdentity t) = Inr ()" "valid_utf8 (PeerAuthIdentity t)"
    and "\<exists>cs. normalizePeerAuthCapabilities (PeerAuthCapabilities t) True = Inr cs"
proof -
  show i: "validatePeerIdentity (PeerAuthIdentity t) = Inr ()" and "\<exists>cs. normalizePeerAuthCapabilities (PeerAuthCapabilities t) True = Inr cs"
    using assms by (auto simp: validatePeerAuthConfig_def resE split: if_splits)
  show "valid_utf8 (PeerAuthIdentity t)" using i visible_utf8 by (auto simp: identity_ok)
qed

lemma encodePeerAuth_decode:
  assumes "validatePeerAuthConfig t = Inr ()" and "valid_utf8 (PeerAuthToken t)"
    and "encodePeerAuth (PeerAuthToken t) (PeerAuthIdentity t) (PeerAuthCapabilities t) = Inr p"
  obtains cs where "normalizePeerAuthCapabilities (PeerAuthCapabilities t) True = Inr cs" "decodePeerAuthMessage p = Inr (auth_message t cs)"
proof -
  obtain cs where cs: "normalizePeerAuthCapabilities (PeerAuthCapabilities t) True = Inr cs" "marshalPeerAuthMessage (auth_message t cs) = Inr p"
    using assms(3) by (auto simp: encodePeerAuth_def resE auth_message_def)
  have "auth_text (auth_message t cs)"
    using assms(2) config_ok(2) [OF assms(1)] normalize_ok(3) [OF cs(1)] by (auto simp: auth_text_def auth_message_def zeroAuth_def known_utf8)
  from that [OF cs(1) decode_marshal [OF cs(2) this]] show ?thesis .
qed

lemma encodePeerAuthOK_ack:
  assumes "validatePeerAuthConfig t = Inr ()" and "encodePeerAuthOK (PeerAuthIdentity t) (PeerAuthCapabilities t) = Inr p"
  shows "\<exists>cs. normalizePeerAuthCapabilities (PeerAuthCapabilities t) True = Inr cs \<and> validatePeerAuthAck p = Inr (PeerAuthIdentity t, cs)"
proof -
  obtain cs where cs: "normalizePeerAuthCapabilities (PeerAuthCapabilities t) True = Inr cs" "marshalPeerAuthMessage (ok_message t cs) = Inr p"
    using assms(2) by (auto simp: encodePeerAuthOK_def resE ok_message_def)
  have "auth_text (ok_message t cs)"
    using config_ok(2) [OF assms(1)] normalize_ok(3) [OF cs(1)] by (auto simp: auth_text_def ok_message_def zeroAuth_def known_utf8)
  from decode_marshal [OF cs(2) this] cs(1) show ?thesis
    using normalize_again [OF cs(1)] config_ok(1) [OF assms(1)] by (simp add: validatePeerAuthAck_def ok_message_def)
qed

lemma encodePeerAuthReject_ack:
  obtains p where "encodePeerAuthReject = Inr p" "validatePeerAuthAck p = Inl (EP2P ErrPeerAuthRejected)" "length p < 1000"
proof -
  let ?m = "zeroAuth\<lparr>paType := handshakeTypePeerAuthReject, paVersion := HandshakeVersionV1, paError := ''unauthorized''\<rparr>"
  have l: "length (json_print (auth_json ?m)) < 1000" by (simp add: auth_json_def zeroAuth_def handshake_names ev)
  then have m: "marshalPeerAuthMessage ?m = Inr (json_print (auth_json ?m))"
    by (simp add: marshalPeerAuthMessage_def Let_def MaxPeerAuthPayloadBytes_def)
  have "handshakeTypePeerAuthReject \<noteq> handshakeTypePeerAuthOK" by (simp add: handshake_names)
  with decode_marshal [OF m] have "validatePeerAuthAck (json_print (auth_json ?m)) = Inl (EP2P ErrPeerAuthRejected)"
    by (simp add: validatePeerAuthAck_def auth_text_def zeroAuth_def)
  with that m l show ?thesis by (simp add: encodePeerAuthReject_def)
qed

section \<open>Running the two sides\<close>

lemma wp_auth_parts [wps]:
  "wp (readM m) Q E = (\<lambda>s. wp m (\<lambda>x r. Q x (fst s, (snd s)\<lparr>tpReader := r\<rparr>)) (\<lambda>e r. E e (fst s, (snd s)\<lparr>tpReader := r\<rparr>)) (tpReader (snd s)))"
  "wp (writeM n) Q' E = (\<lambda>s. wp n (\<lambda>x t. Q' x (fst t, (snd s)\<lparr>tpConn := snd t\<rparr>)) (\<lambda>e t. E e (fst t, (snd s)\<lparr>tpConn := snd t\<rparr>)) (fst s, tpConn (snd s)))"
  by (simp_all add: readM_def writeM_def wps)

lemma auth_parts_eval [monad]:
  "readM m s = (case m (tpReader (snd s)) of (x, r) \<Rightarrow> (x, (fst s, (snd s)\<lparr>tpReader := r\<rparr>)))"
  "writeM n s = (case n (fst s, tpConn (snd s)) of (x, t) \<Rightarrow> (x, (fst t, (snd s)\<lparr>tpConn := snd t\<rparr>)))"
  by (simp_all add: readM_def writeM_def zoomM_def)

lemma wp_joinM [wps]: "wp (joinM e m) Q E = wp m Q (\<lambda>x. E (EJoin e x))"
  by (simp add: joinM_def wps mapE_def)

lemma frame_limit_auth: "frame_limit (maxPeerAuthFrame t) = maxPeerAuthFrame t" "maxPeerAuthFrame t \<le> 4096" "0 < maxPeerAuthFrame t"
  by (auto simp: frame_limit_def maxPeerAuthFrame_def maxFrame_def MaxPeerAuthPayloadBytes_def DefaultMaxFrameBytes_def)

lemma auth_frameable: "int (length p) \<le> maxPeerAuthFrame t \<Longrightarrow> frameable (maxPeerAuthFrame t) p"
  using frame_limit_auth(2) [of t] by (simp add: frameable_def frame_limit_auth(1))

lemma wp_read_auth:
  assumes "\<And>e r. ReadFrame m (tpReader p) = (Inl e, r) \<Longrightarrow> E (EJoin j e) (w, p\<lparr>tpReader := r\<rparr>)"
    and "\<And>x r. ReadFrame m (tpReader p) = (Inr x, r) \<Longrightarrow> Q x (w, p\<lparr>tpReader := r\<rparr>)"
  shows "wp (joinM j (readM (ReadFrame m))) Q E (w, p)"
  using assms unfolding wps by (auto simp: wp_def split: prod.split sum.split)

lemma wp_write_auth:
  assumes "\<And>e v t. prefix t (frame_bytes x) \<Longrightarrow> E e (v, p\<lparr>tpConn := tpConn p @ t\<rparr>)"
    and "\<And>v. int (length x) \<le> maxPeerAuthFrame c \<Longrightarrow> Q () (v, p\<lparr>tpConn := tpConn p @ frame_bytes x\<rparr>)"
  shows "wp (writeM (WriteFrame x (maxPeerAuthFrame c))) Q E (w, p)"
  unfolding wps by (rule wp_WriteFrame_bytes) (use assms in \<open>auto simp: frame_limit_auth\<close>)

text \<open>The bytes the inbound side has answered, and what it has recorded, for the payload it read.\<close>

definition answered :: "peer_auth_config \<Rightarrow> auth_peer \<Rightarrow> auth_peer \<Rightarrow> bool" where
  "answered t p p' \<longleftrightarrow> tpConn p' = tpConn p \<or>
     (\<exists>payload r bytes. ReadFrame (maxPeerAuthFrame t) (tpReader p) = (Inr payload, r) \<and> tpConn p' = tpConn p @ bytes \<and>
       (case validatePeerAuthPayload payload (PeerAuthToken t) (PeerAuthAllowedIdentities t) of
          Inl e \<Rightarrow> (\<exists>x. encodePeerAuthReject = Inr x \<and> prefix bytes (frame_bytes x))
        | Inr (identity, capabilities) \<Rightarrow> tpAuthIdentity p' = identity \<and> tpAuthCapabilities p' = capabilities \<and>
            (\<exists>x. encodePeerAuthOK (PeerAuthIdentity t) (PeerAuthCapabilities t) = Inr x \<and> prefix bytes (frame_bytes x))))"

definition admitted :: "peer_auth_config \<Rightarrow> auth_peer \<Rightarrow> auth_peer \<Rightarrow> bool" where
  "admitted t p p' \<longleftrightarrow> (\<exists>payload r. ReadFrame (maxPeerAuthFrame t) (tpReader p) = (Inr payload, r) \<and>
     validatePeerAuthPayload payload (PeerAuthToken t) (PeerAuthAllowedIdentities t) = Inr (tpAuthIdentity p', tpAuthCapabilities p'))"

lemma answered_none: "answered t p (p\<lparr>tpReader := r\<rparr>)"
  by (simp add: answered_def)

lemma wp_authenticateInbound:
  assumes "peerAuthEnabled t"
  shows "wp (authenticateInbound t) (\<lambda>_ s. answered t p (snd s) \<and> admitted t p (snd s)) (\<lambda>_ s. answered t p (snd s)) (w, p)"
    (is "wp _ ?Q ?E _")
proof -
  let ?m = "maxPeerAuthFrame t" and ?v = "\<lambda>x. validatePeerAuthPayload x (PeerAuthToken t) (PeerAuthAllowedIdentities t)"
  have rej: "wp (bindM (case encodePeerAuthReject of Inr x \<Rightarrow> ignoreM (writeM (WriteFrame x ?m)) | Inl _ \<Rightarrow> returnM ()) (\<lambda>_. throwM e)) ?Q ?E (u, q)"
    if r: "ReadFrame ?m (tpReader p) = (Inr x, r)" "?v x = Inl e" "tpConn q = tpConn p" for x r e u q
  proof -
    obtain y where y: "encodePeerAuthReject = Inr y" using encodePeerAuthReject_ack by blast
    have "wp (writeM (WriteFrame y ?m)) (\<lambda>_. ?E e) (\<lambda>_. ?E e) (u, q)"
      by (rule wp_write_auth) (use r y in \<open>auto simp: answered_def\<close>)
    then show ?thesis unfolding y sum.case by (simp add: wps)
  qed
  have ok: "wp (bindM (setM (\<lambda>q. q\<lparr>tpAuthIdentity := identity, tpAuthCapabilities := caps\<rparr>)) (\<lambda>_.
      bindM (liftE (encodePeerAuthOK (PeerAuthIdentity t) (PeerAuthCapabilities t))) (\<lambda>x.
      bindM (joinM (EP2P ErrPeerAuthFailed) (writeM (WriteFrame x ?m))) (\<lambda>_.
      setM (\<lambda>q. q\<lparr>mPeerAuthSuccess := mPeerAuthSuccess q + 1\<rparr>))))) ?Q ?E (u, p\<lparr>tpReader := r\<rparr>)"
    if r: "ReadFrame ?m (tpReader p) = (Inr x, r)" "?v x = Inr (identity, caps)" for x r identity caps u
  proof (cases "encodePeerAuthOK (PeerAuthIdentity t) (PeerAuthCapabilities t)")
    case (Inl e)
    then show ?thesis by (simp add: wps answered_def)
  next
    case (Inr y)
    let ?q = "p\<lparr>tpReader := r, tpAuthIdentity := identity, tpAuthCapabilities := caps\<rparr>"
    have "wp (writeM (WriteFrame y ?m)) (\<lambda>_ s. answered t p (snd s) \<and> admitted t p (snd s)) (\<lambda>_ s. answered t p (snd s)) (u, ?q)"
      by (rule wp_write_auth) (use r Inr in \<open>auto simp: answered_def admitted_def\<close>)
    moreover have "answered t p (q\<lparr>mPeerAuthSuccess := n\<rparr>) = answered t p q" "admitted t p (q\<lparr>mPeerAuthSuccess := n\<rparr>) = admitted t p q" for q n
      by (simp_all add: answered_def admitted_def cong del: sum.case_cong_weak prod.case_cong_weak)
    ultimately show ?thesis using Inr by (simp add: wp_bind wp_basic wp_setM wp_joinM)
  qed
  have d: "(\<not> peerAuthEnabled t) = False" using assms by simp
  show ?thesis
    unfolding authenticateInbound_def d if_False wp_bind [of "joinM _ (readM _)"]
  proof (rule wp_read_auth)
    fix x r assume r: "ReadFrame ?m (tpReader p) = (Inr x, r)"
    show "wp (case ?v x of
        Inl e \<Rightarrow>
          bindM (if err_is e (EP2P ErrPeerAuthIdentityInvalid) \<or> err_is e (EP2P ErrPeerAuthIdentityNotAllowed)
                 then setM (\<lambda>p. p\<lparr>mPeerAuthIdentityRejections := mPeerAuthIdentityRejections p + 1\<rparr>) else returnM ()) (\<lambda>_.
          bindM (case encodePeerAuthReject of Inl _ \<Rightarrow> returnM () | Inr x \<Rightarrow> ignoreM (writeM (WriteFrame x ?m))) (\<lambda>_. throwM e))
      | Inr (identity, capabilities) \<Rightarrow>
          bindM (setM (\<lambda>p. p\<lparr>tpAuthIdentity := identity, tpAuthCapabilities := capabilities\<rparr>)) (\<lambda>_.
          bindM (liftE (encodePeerAuthOK (PeerAuthIdentity t) (PeerAuthCapabilities t))) (\<lambda>x.
          bindM (joinM (EP2P ErrPeerAuthFailed) (writeM (WriteFrame x ?m))) (\<lambda>_.
          setM (\<lambda>p. p\<lparr>mPeerAuthSuccess := mPeerAuthSuccess p + 1\<rparr>))))) ?Q ?E (w, p\<lparr>tpReader := r\<rparr>)"
    proof (cases "?v x")
      case (Inl e)
      show ?thesis
        unfolding Inl sum.case wp_bind [of "if _ then _ else _"]
        by (cases "err_is e (EP2P ErrPeerAuthIdentityInvalid) \<or> err_is e (EP2P ErrPeerAuthIdentityNotAllowed)";
            simp only: if_True if_False wp_setM wp_basic fst_conv snd_conv; rule rej [OF r Inl]; simp)
    next
      case (Inr y)
      then show ?thesis using ok [OF r, of "fst y" "snd y"] by (simp add: split_beta)
    qed
  qed (simp add: answered_none)
qed

text \<open>The outbound side, likewise.\<close>

definition accepted :: "peer_auth_config \<Rightarrow> auth_peer \<Rightarrow> auth_peer \<Rightarrow> bool" where
  "accepted t p p' \<longleftrightarrow> (\<exists>payload ack r. encodePeerAuth (PeerAuthToken t) (PeerAuthIdentity t) (PeerAuthCapabilities t) = Inr payload \<and>
     int (length payload) \<le> maxPeerAuthFrame t \<and> tpConn p' = tpConn p @ frame_bytes payload \<and>
     ReadFrame (maxPeerAuthFrame t) (tpReader p) = (Inr ack, r) \<and> validatePeerAuthAck ack = Inr (tpAuthIdentity p', tpAuthCapabilities p'))"

lemma wp_authenticateOutbound:
  assumes "peerAuthEnabled t"
  shows "wp (authenticateOutbound t) (\<lambda>_ s. accepted t p (snd s)) (\<lambda>_ _. True) (w, p)"
proof (cases "encodePeerAuth (PeerAuthToken t) (PeerAuthIdentity t) (PeerAuthCapabilities t)")
  case (Inl e)
  with assms show ?thesis by (simp add: authenticateOutbound_def wps)
next
  case (Inr x)
  let ?m = "maxPeerAuthFrame t"
  have read: "wp (joinM (EP2P ErrPeerAuthFailed) (readM (ReadFrame ?m)))
      (\<lambda>ack. wp (bindM (liftE (validatePeerAuthAck ack)) (\<lambda>(identity, capabilities).
        bindM (setM (\<lambda>p. p\<lparr>tpAuthIdentity := identity, tpAuthCapabilities := capabilities\<rparr>)) (\<lambda>_.
        setM (\<lambda>p. p\<lparr>mPeerAuthSuccess := mPeerAuthSuccess p + 1\<rparr>)))) (\<lambda>_ s. accepted t p (snd s)) (\<lambda>_ _. True)) (\<lambda>_ _. True)
      (v, p\<lparr>tpConn := tpConn p @ frame_bytes x\<rparr>)" if l: "int (length x) \<le> ?m" for v
  proof (rule wp_read_auth)
    fix ack r assume r: "ReadFrame ?m (tpReader (p\<lparr>tpConn := tpConn p @ frame_bytes x\<rparr>)) = (Inr ack, r)"
    show "wp (bindM (liftE (validatePeerAuthAck ack)) (\<lambda>(identity, capabilities).
        bindM (setM (\<lambda>p. p\<lparr>tpAuthIdentity := identity, tpAuthCapabilities := capabilities\<rparr>)) (\<lambda>_.
        setM (\<lambda>p. p\<lparr>mPeerAuthSuccess := mPeerAuthSuccess p + 1\<rparr>)))) (\<lambda>_ s. accepted t p (snd s)) (\<lambda>_ _. True)
        (v, p\<lparr>tpConn := tpConn p @ frame_bytes x, tpReader := r\<rparr>)"
      using r Inr l by (auto simp: wps accepted_def split: sum.split)
  qed simp
  have "wp (joinM (EP2P ErrPeerAuthFailed) (writeM (WriteFrame x ?m)))
      (\<lambda>_. wp (joinM (EP2P ErrPeerAuthFailed) (readM (ReadFrame ?m)))
        (\<lambda>ack. wp (bindM (liftE (validatePeerAuthAck ack)) (\<lambda>(identity, capabilities).
          bindM (setM (\<lambda>p. p\<lparr>tpAuthIdentity := identity, tpAuthCapabilities := capabilities\<rparr>)) (\<lambda>_.
          setM (\<lambda>p. p\<lparr>mPeerAuthSuccess := mPeerAuthSuccess p + 1\<rparr>)))) (\<lambda>_ s. accepted t p (snd s)) (\<lambda>_ _. True)) (\<lambda>_ _. True)) (\<lambda>_ _. True) (w, p)"
    unfolding wp_joinM [of _ "writeM _"] by (rule wp_write_auth) (simp_all add: read)
  then show ?thesis
    using assms Inr unfolding authenticateOutbound_def wp_bind [of "joinM _ _"] by (simp add: wp_bind [of "liftE _"] wp_basic wp_bind [of "joinM _ _"])
qed

section \<open>The handshake\<close>

lemma reader_empty: "ReadFrame m [] \<noteq> (Inr x, r)"
  using ReadFrame_prefix [of m "[]" x r "[]"] by (auto simp: frame_bytes_def FrameMagic_def)

text \<open>The peers an inbound side lets in.\<close>

definition admits :: "peer_auth_config \<Rightarrow> bytes \<Rightarrow> bytes \<Rightarrow> bool" where
  "admits t token identity \<longleftrightarrow> token = PeerAuthToken t \<and>
     (PeerAuthAllowedIdentities t \<noteq> [] \<longrightarrow> identity \<in> set (PeerAuthAllowedIdentities t))"

definition negotiated :: "bytes list \<Rightarrow> bytes list \<Rightarrow> bool" where
  "negotiated offered cs \<longleftrightarrow> sorted cs \<and> distinct cs \<and> set cs = set offered \<inter> known_capabilities"

lemma payload_ok:
  assumes "validatePeerAuthPayload x token allowed = Inr (identity, cs)"
  shows "\<exists>m. decodePeerAuthMessage x = Inr m \<and> paToken m = token \<and> paIdentity m = identity \<and>
    (identity = [] \<or> int (length identity) \<le> MaxPeerAuthIdentityBytes \<and> list_all visible identity) \<and>
    (allowed \<noteq> [] \<longrightarrow> identity \<in> set allowed) \<and> negotiated (paCapabilities m) cs"
  using assms normalize_ok [of "paCapabilities _" False cs]
  by (auto simp: validatePeerAuthPayload_def resE identity_ok negotiated_def peerAuthIdentityAllowed_def list_ex_iff split: if_splits)

lemma auth_message_ok:
  assumes "validatePeerAuthConfig a = Inr ()" and "normalizePeerAuthCapabilities (PeerAuthCapabilities a) True = Inr cs"
    and "decodePeerAuthMessage x = Inr (auth_message a cs)"
  shows "validatePeerAuthPayload x (PeerAuthToken b) (PeerAuthAllowedIdentities b) =
    (if admits b (PeerAuthToken a) (PeerAuthIdentity a) then Inr (PeerAuthIdentity a, cs)
     else if PeerAuthToken a \<noteq> PeerAuthToken b then Inl (EP2P ErrPeerAuthRejected) else Inl (EP2P ErrPeerAuthIdentityNotAllowed))"
  using assms normalize_again [OF assms(2), of False] config_ok(1) [OF assms(1)]
  by (auto simp: validatePeerAuthPayload_def admits_def auth_message_def peerAuthIdentityAllowed_def list_ex_iff resE)

lemma payload_short: "encodePeerAuth t i c = Inr x \<Longrightarrow> length x \<le> 4096" "encodePeerAuthOK i c = Inr x \<Longrightarrow> length x \<le> 4096"
  "encodePeerAuthReject = Inr x \<Longrightarrow> length x \<le> 4096"
  by (auto simp: encodePeerAuth_def encodePeerAuthOK_def encodePeerAuthReject_def marshalPeerAuthMessage_def MaxPeerAuthPayloadBytes_def Let_def resE split: if_splits)

definition well_configured :: "peer_auth_config \<Rightarrow> bool" where
  "well_configured t \<longleftrightarrow> validatePeerAuthConfig t = Inr () \<and> peerAuthEnabled t \<and> valid_utf8 (PeerAuthToken t)"

text \<open>Two sides whose streams are joined: each reads what the other has written.\<close>

definition joined :: "auth_peer \<Rightarrow> auth_peer \<Rightarrow> auth_peer \<Rightarrow> auth_peer \<Rightarrow> bool" where
  "joined p p' q q' \<longleftrightarrow> tpConn p = [] \<and> tpConn q = [] \<and> tpReader p = tpConn q' \<and> tpReader q = tpConn p'"

lemma wp_run: "wp m Q E s \<Longrightarrow> m s = (Inr x, s') \<Longrightarrow> Q x s'"
  by (simp add: wp_def)

lemma wp_always: "wp m (\<lambda>_. P) (\<lambda>_. P) s \<Longrightarrow> m s = (x, s') \<Longrightarrow> P s'"
  by (cases x) (simp_all add: wp_def)

lemma outbound_run:
  assumes "well_configured a" and "authenticateOutbound a (w, p) = (Inr (), (w', p'))"
  shows "accepted a p p'"
  using wp_run [OF wp_authenticateOutbound assms(2)] assms(1) by (simp add: well_configured_def)

lemma inbound_run:
  assumes "peerAuthEnabled b" and "authenticateInbound b (v, q) = (res, (v', q'))"
  shows "answered b q q'" "res = Inr () \<Longrightarrow> admitted b q q'"
proof -
  have i: "wp (authenticateInbound b) (\<lambda>_ s. answered b q (snd s) \<and> admitted b q (snd s)) (\<lambda>_ s. answered b q (snd s)) (v, q)"
    by (rule wp_authenticateInbound [OF assms(1)])
  show "answered b q q'" using wp_always [OF wp_mono [OF i] assms(2), of "\<lambda>s. answered b q (snd s)"] by simp
  show "admitted b q q'" if "res = Inr ()" using wp_run [OF i] assms(2) that by simp
qed

lemma answer_seen:
  assumes "answered b q q'" and "joined p p' q q'" and "tpConn p' = frame_bytes x" and "length x \<le> 4096"
    and "ReadFrame m (tpReader p) = (Inr ack, r)"
  shows "case validatePeerAuthPayload x (PeerAuthToken b) (PeerAuthAllowedIdentities b) of
      Inl e \<Rightarrow> encodePeerAuthReject = Inr ack
    | Inr (identity, capabilities) \<Rightarrow> tpAuthIdentity q' = identity \<and> tpAuthCapabilities q' = capabilities \<and>
        encodePeerAuthOK (PeerAuthIdentity b) (PeerAuthCapabilities b) = Inr ack"
proof -
  have "tpConn q' \<noteq> []" using assms(2,5) reader_empty by (auto simp: joined_def)
  then obtain y r' bytes where y: "ReadFrame (maxPeerAuthFrame b) (tpReader q) = (Inr y, r')" "tpConn q' = bytes"
    "case validatePeerAuthPayload y (PeerAuthToken b) (PeerAuthAllowedIdentities b) of
          Inl e \<Rightarrow> (\<exists>x. encodePeerAuthReject = Inr x \<and> prefix bytes (frame_bytes x))
        | Inr (identity, capabilities) \<Rightarrow> tpAuthIdentity q' = identity \<and> tpAuthCapabilities q' = capabilities \<and>
            (\<exists>x. encodePeerAuthOK (PeerAuthIdentity b) (PeerAuthCapabilities b) = Inr x \<and> prefix bytes (frame_bytes x))"
    using assms(1,2) unfolding answered_def joined_def by auto
  have "y = x" using ReadFrame_prefix [OF y(1), of x] assms(2,3,4) by (simp add: joined_def)
  moreover have "ack = z" if "prefix bytes (frame_bytes z)" "length z \<le> 4096" for z
    using ReadFrame_prefix [OF assms(5), of z] that y(2) assms(2) by (simp add: joined_def)
  ultimately show ?thesis
    using y(3) payload_short by (auto split: sum.splits prod.splits)
qed

text \<open>
  C28. An accepting node completes the handshake of \<^verbatim>\<open>authenticateInbound\<close> only for a peer that has presented the node's own
  token, in one frame of at most 4096 bytes, with a printable identity of bounded length that is on the allowlist when
  there is one. This holds whatever bytes arrive and whichever writes fail. The capabilities it records for the peer
  are the known ones among those offered, sorted and without duplicates.
\<close>
theorem inbound_auth_sound:
  assumes "peerAuthEnabled t" and "authenticateInbound t (w, p) = (Inr (), (w', p'))"
  shows "\<exists>payload r m. ReadFrame (maxPeerAuthFrame t) (tpReader p) = (Inr payload, r) \<and> length payload \<le> 4096 \<and>
    decodePeerAuthMessage payload = Inr m \<and> admits t (paToken m) (tpAuthIdentity p') \<and> tpAuthIdentity p' = paIdentity m \<and>
    list_all visible (tpAuthIdentity p') \<and> int (length (tpAuthIdentity p')) \<le> MaxPeerAuthIdentityBytes \<and>
    negotiated (paCapabilities m) (tpAuthCapabilities p')"
proof -
  obtain x r where x: "ReadFrame (maxPeerAuthFrame t) (tpReader p) = (Inr x, r)"
    "validatePeerAuthPayload x (PeerAuthToken t) (PeerAuthAllowedIdentities t) = Inr (tpAuthIdentity p', tpAuthCapabilities p')"
    using inbound_run(2) [OF assms] by (auto simp: admitted_def)
  have "length x \<le> 4096" using ReadFrame_ok [OF x(1)] frame_limit_auth [of t] by simp
  with payload_ok [OF x(2)] x(1) show ?thesis
    by (fastforce simp: admits_def MaxPeerAuthIdentityBytes_def)
qed

text \<open>
  C29. When a dialling node completes the handshake with an accepting node, each over any failures of its own writes and
  each reading what the other wrote, then both hold the same token, the accepting node admits the dialling node's
  identity, each has recorded the identity configured at the other, and each has recorded exactly the capabilities
  configured at the other.
\<close>
theorem handshake_agreement:
  assumes "well_configured a" and "well_configured b" and "joined p p' q q'"
    and "authenticateOutbound a (w, p) = (Inr (), (w', p'))" and "authenticateInbound b (v, q) = (res, (v', q'))"
  shows "admits b (PeerAuthToken a) (PeerAuthIdentity a) \<and>
    tpAuthIdentity p' = PeerAuthIdentity b \<and> tpAuthIdentity q' = PeerAuthIdentity a \<and>
    set (tpAuthCapabilities p') = set (PeerAuthCapabilities b) \<and> set (tpAuthCapabilities q') = set (PeerAuthCapabilities a)"
proof -
  have c: "validatePeerAuthConfig a = Inr ()" "validatePeerAuthConfig b = Inr ()" "valid_utf8 (PeerAuthToken a)" "peerAuthEnabled b"
    using assms(1,2) by (simp_all add: well_configured_def)
  obtain x ack r where x: "encodePeerAuth (PeerAuthToken a) (PeerAuthIdentity a) (PeerAuthCapabilities a) = Inr x" "tpConn p' = frame_bytes x"
    and k: "ReadFrame (maxPeerAuthFrame a) (tpReader p) = (Inr ack, r)" "validatePeerAuthAck ack = Inr (tpAuthIdentity p', tpAuthCapabilities p')"
    using outbound_run [OF assms(1,4)] assms(3) by (auto simp: accepted_def joined_def)
  obtain cs where cs: "normalizePeerAuthCapabilities (PeerAuthCapabilities a) True = Inr cs" "decodePeerAuthMessage x = Inr (auth_message a cs)"
    using encodePeerAuth_decode [OF c(1,3) x(1)] .
  note seen = answer_seen [OF inbound_run(1) [OF c(4) assms(5)] assms(3) x(2) payload_short(1) [OF x(1)] k(1)]
  have adm: "admits b (PeerAuthToken a) (PeerAuthIdentity a)"
  proof (rule ccontr)
    assume "\<not> ?thesis"
    with seen have "encodePeerAuthReject = Inr ack" by (auto simp: auth_message_ok [OF c(1) cs] split: if_splits)
    with encodePeerAuthReject_ack k(2) show False by (metis sum.distinct(1) sum.inject(2))
  qed
  with seen have q: "tpAuthIdentity q' = PeerAuthIdentity a" "tpAuthCapabilities q' = cs" "encodePeerAuthOK (PeerAuthIdentity b) (PeerAuthCapabilities b) = Inr ack"
    by (auto simp: auth_message_ok [OF c(1) cs])
  obtain ds where ds: "normalizePeerAuthCapabilities (PeerAuthCapabilities b) True = Inr ds" "validatePeerAuthAck ack = Inr (PeerAuthIdentity b, ds)"
    using encodePeerAuthOK_ack [OF c(2) q(3)] by blast
  have "set cs = set (PeerAuthCapabilities a)" "set ds = set (PeerAuthCapabilities b)"
    using normalize_ok(3,4) [OF cs(1)] normalize_ok(3,4) [OF ds(1)] by auto
  with adm q(1,2) ds(2) k(2) show ?thesis by simp
qed

text \<open>The same runs when no write fails and both nodes accept authentication frames of the full size.\<close>

lemma outbound_calm:
  assumes "calm w" "peerAuthEnabled a" "encodePeerAuth (PeerAuthToken a) (PeerAuthIdentity a) (PeerAuthCapabilities a) = Inr x"
    and "maxPeerAuthFrame a = MaxPeerAuthPayloadBytes"
  shows "authenticateOutbound a (w, p) = (case ReadFrame (maxPeerAuthFrame a) (tpReader p) of
      (Inl e, r) \<Rightarrow> (Inl (EJoin (EP2P ErrPeerAuthFailed) e), (w, p\<lparr>tpConn := tpConn p @ frame_bytes x, tpReader := r\<rparr>))
    | (Inr ack, r) \<Rightarrow> (case validatePeerAuthAck ack of
        Inl e \<Rightarrow> (Inl e, (w, p\<lparr>tpConn := tpConn p @ frame_bytes x, tpReader := r\<rparr>))
      | Inr (i, cs) \<Rightarrow> (Inr (), (w, p\<lparr>tpConn := tpConn p @ frame_bytes x, tpReader := r, tpAuthIdentity := i, tpAuthCapabilities := cs,
          mPeerAuthSuccess := mPeerAuthSuccess p + 1\<rparr>))))"
proof -
  have "frameable (maxPeerAuthFrame a) x"
    using payload_short(1) [OF assms(3)] assms(4) by (intro auth_frameable) (simp add: MaxPeerAuthPayloadBytes_def)
  then show ?thesis
    using assms by (auto simp: authenticateOutbound_def joinM_def monad mapE_def WriteFrame_calm split: prod.split sum.split)
qed

lemma inbound_calm:
  assumes "calm v" "peerAuthEnabled b" "ReadFrame (maxPeerAuthFrame b) (tpReader q) = (Inr x, r)" "maxPeerAuthFrame b = MaxPeerAuthPayloadBytes"
  shows "validatePeerAuthPayload x (PeerAuthToken b) (PeerAuthAllowedIdentities b) = Inl e \<Longrightarrow> encodePeerAuthReject = Inr y \<Longrightarrow>
      \<exists>q'. authenticateInbound b (v, q) = (Inl e, (v, q')) \<and> tpConn q' = tpConn q @ frame_bytes y"
    and "validatePeerAuthPayload x (PeerAuthToken b) (PeerAuthAllowedIdentities b) = Inr (i, cs) \<Longrightarrow>
      encodePeerAuthOK (PeerAuthIdentity b) (PeerAuthCapabilities b) = Inr y \<Longrightarrow>
      \<exists>q'. authenticateInbound b (v, q) = (Inr (), (v, q')) \<and> tpConn q' = tpConn q @ frame_bytes y"
proof -
  have f: "frameable (maxPeerAuthFrame b) y" if "length y \<le> 4096" for y
    using that assms(4) by (intro auth_frameable) (simp add: MaxPeerAuthPayloadBytes_def)
  show "\<exists>q'. authenticateInbound b (v, q) = (Inl e, (v, q')) \<and> tpConn q' = tpConn q @ frame_bytes y"
    if "validatePeerAuthPayload x (PeerAuthToken b) (PeerAuthAllowedIdentities b) = Inl e" "encodePeerAuthReject = Inr y"
    using assms(1,2,3) that(1) f [OF payload_short(3) [OF that(2)]] unfolding authenticateInbound_def that(2) sum.case
    by (cases "err_is e (EP2P ErrPeerAuthIdentityInvalid) \<or> err_is e (EP2P ErrPeerAuthIdentityNotAllowed)")
      (simp_all only: if_True if_False, simp_all add: joinM_def monad mapE_def WriteFrame_calm ignoreM_def)
  show "\<exists>q'. authenticateInbound b (v, q) = (Inr (), (v, q')) \<and> tpConn q' = tpConn q @ frame_bytes y"
    if "validatePeerAuthPayload x (PeerAuthToken b) (PeerAuthAllowedIdentities b) = Inr (i, cs)"
      "encodePeerAuthOK (PeerAuthIdentity b) (PeerAuthCapabilities b) = Inr y"
    using assms(1,2,3) that f [OF payload_short(2) [OF that(2)]]
    by (simp add: authenticateInbound_def joinM_def monad mapE_def WriteFrame_calm)
qed

text \<open>
  C30. When no write fails, the handshake of two correctly configured nodes ends in success on both sides exactly when
  the tokens agree and the accepting node admits the dialling node's identity. Otherwise both sides end with an error, and
  the dialling node is told of the rejection.
\<close>
theorem handshake_decides:
  assumes "well_configured a" and "well_configured b" and "joined p p' q q'" and "calm w" and "calm v"
    and "maxPeerAuthFrame a = MaxPeerAuthPayloadBytes" and "maxPeerAuthFrame b = MaxPeerAuthPayloadBytes"
    and "encodePeerAuth (PeerAuthToken a) (PeerAuthIdentity a) (PeerAuthCapabilities a) = Inr x"
    and "encodePeerAuthOK (PeerAuthIdentity b) (PeerAuthCapabilities b) = Inr y"
    and "authenticateOutbound a (w, p) = (out, (w', p'))" and "authenticateInbound b (v, q) = (res, (v', q'))"
  shows "if admits b (PeerAuthToken a) (PeerAuthIdentity a) then out = Inr () \<and> res = Inr ()
    else out = Inl (EP2P ErrPeerAuthRejected) \<and> (\<exists>e. res = Inl e)"
proof -
  have c: "validatePeerAuthConfig a = Inr ()" "validatePeerAuthConfig b = Inr ()" "valid_utf8 (PeerAuthToken a)" "peerAuthEnabled a" "peerAuthEnabled b"
    using assms(1,2) by (simp_all add: well_configured_def)
  have f: "frameable (maxPeerAuthFrame t) z" if "length z \<le> 4096" "maxPeerAuthFrame t = MaxPeerAuthPayloadBytes" for t z
    using that by (intro auth_frameable) (simp add: MaxPeerAuthPayloadBytes_def)
  note outb = outbound_calm [OF assms(4) c(4) assms(8,6), of p]
  have "tpConn p' = tpConn p @ frame_bytes x" using outb assms(10) by (auto split: prod.splits sum.splits)
  then have rq: "ReadFrame (maxPeerAuthFrame b) (tpReader q) = (Inr x, [])"
    using assms(3) ReadFrame_frame [OF f [OF payload_short(1) [OF assms(8)] assms(7)], of "[]"] by (simp add: joined_def)
  obtain cs where cs: "normalizePeerAuthCapabilities (PeerAuthCapabilities a) True = Inr cs" "decodePeerAuthMessage x = Inr (auth_message a cs)"
    using encodePeerAuth_decode [OF c(1,3) assms(8)] .
  note inb = inbound_calm [OF assms(5) c(5) rq assms(7)]
  have seen: "ReadFrame (maxPeerAuthFrame a) (tpReader p) = (Inr z, [])" if "tpConn q' = tpConn q @ frame_bytes z" "length z \<le> 4096" for z
    using that assms(3) ReadFrame_frame [OF f [OF that(2) assms(6)], of "[]"] by (simp add: joined_def)
  show ?thesis
  proof (cases "admits b (PeerAuthToken a) (PeerAuthIdentity a)")
    case True
    then have "res = Inr ()" "tpConn q' = tpConn q @ frame_bytes y"
      using inb(2) [OF _ assms(9)] assms(11) by (auto simp: auth_message_ok [OF c(1) cs])
    moreover obtain ds where "validatePeerAuthAck y = Inr (PeerAuthIdentity b, ds)" using encodePeerAuthOK_ack [OF c(2) assms(9)] by blast
    ultimately show ?thesis using True outb assms(10) seen payload_short(2) [OF assms(9)] by simp
  next
    case False
    obtain z where z: "encodePeerAuthReject = Inr z" "validatePeerAuthAck z = Inl (EP2P ErrPeerAuthRejected)" by (rule encodePeerAuthReject_ack)
    from False obtain e where "validatePeerAuthPayload x (PeerAuthToken b) (PeerAuthAllowedIdentities b) = Inl e"
      by (cases "PeerAuthToken a = PeerAuthToken b") (simp_all add: auth_message_ok [OF c(1) cs])
    then have "\<exists>e. res = Inl e" "tpConn q' = tpConn q @ frame_bytes z" using inb(1) [OF _ z(1)] assms(11) by auto
    then show ?thesis using False z(2) outb assms(10) seen payload_short(3) [OF z(1)] by simp
  qed
qed

text \<open>Two nodes, and a run of the handshake between them.\<close>

definition dialler :: peer_auth_config where
  "dialler = \<lparr>MaxFrameBytes = 0, PeerAuthToken = ''secret'', PeerAuthIdentity = ''node-a'', PeerAuthAllowedIdentities = [],
     PeerAuthCapabilities = [CapabilityLifecycleV1]\<rparr>"

definition acceptor :: peer_auth_config where
  "acceptor = \<lparr>MaxFrameBytes = 0, PeerAuthToken = ''secret'', PeerAuthIdentity = ''node-b'', PeerAuthAllowedIdentities = [''node-a''],
     PeerAuthCapabilities = [CapabilityLifecycleRepairReconcileV1, CapabilityLifecycleV1]\<rparr>"

definition peer_reading :: "bytes \<Rightarrow> auth_peer" where
  "peer_reading r = \<lparr>tpReader = r, tpConn = [], tpAuthIdentity = [], tpAuthCapabilities = [], mPeerAuthSuccess = 0, mPeerAuthIdentityRejections = 0\<rparr>"

lemma nodes_configured: "well_configured dialler" "well_configured acceptor" "admits acceptor (PeerAuthToken dialler) (PeerAuthIdentity dialler)"
  "maxPeerAuthFrame dialler = MaxPeerAuthPayloadBytes" "maxPeerAuthFrame acceptor = MaxPeerAuthPayloadBytes"
  by (simp_all add: well_configured_def dialler_def acceptor_def admits_def validatePeerAuthConfig_def peerAuthEnabled_def validatePeerIdentity_def
      validatePeerAuthAllowlist_def normalizePeerAuthCapabilities_def capability_names visible_def ev resE maxPeerAuthFrame_def maxFrame_def
      MaxPeerAuthIdentityBytes_def MaxPeerAuthCapabilities_def MaxPeerAuthCapabilityBytes_def MaxPeerAuthCapabilitiesBytes_def
      MaxPeerAuthPayloadBytes_def DefaultMaxFrameBytes_def valid_utf8_ascii)

lemma nodes_encode:
  "\<exists>x. encodePeerAuth (PeerAuthToken dialler) (PeerAuthIdentity dialler) (PeerAuthCapabilities dialler) = Inr x"
  "\<exists>y. encodePeerAuthOK (PeerAuthIdentity acceptor) (PeerAuthCapabilities acceptor) = Inr y"
  by (simp_all add: encodePeerAuth_def encodePeerAuthOK_def marshalPeerAuthMessage_def normalizePeerAuthCapabilities_def dialler_def acceptor_def
      capability_names handshake_names visible_def ev resE auth_json_def zeroAuth_def Let_def MaxPeerAuthIdentityBytes_def MaxPeerAuthCapabilities_def
      MaxPeerAuthCapabilityBytes_def MaxPeerAuthCapabilitiesBytes_def MaxPeerAuthPayloadBytes_def)

lemma joined_run:
  obtains x y p' q' where "encodePeerAuth (PeerAuthToken dialler) (PeerAuthIdentity dialler) (PeerAuthCapabilities dialler) = Inr x"
    "encodePeerAuthOK (PeerAuthIdentity acceptor) (PeerAuthCapabilities acceptor) = Inr y"
    "authenticateOutbound dialler (empty_world, peer_reading (frame_bytes y)) = (Inr (), (empty_world, p'))"
    "authenticateInbound acceptor (empty_world, peer_reading (frame_bytes x)) = (Inr (), (empty_world, q'))"
    "joined (peer_reading (frame_bytes y)) p' (peer_reading (frame_bytes x)) q'"
proof -
  obtain x y where x: "encodePeerAuth (PeerAuthToken dialler) (PeerAuthIdentity dialler) (PeerAuthCapabilities dialler) = Inr x"
    and y: "encodePeerAuthOK (PeerAuthIdentity acceptor) (PeerAuthCapabilities acceptor) = Inr y" using nodes_encode by blast
  have c: "validatePeerAuthConfig dialler = Inr ()" "validatePeerAuthConfig acceptor = Inr ()" "valid_utf8 (PeerAuthToken dialler)"
    "peerAuthEnabled dialler" "peerAuthEnabled acceptor" "calm empty_world"
    using nodes_configured(1,2) by (simp_all add: well_configured_def)
  have r: "ReadFrame MaxPeerAuthPayloadBytes (tpReader (peer_reading (frame_bytes z))) = (Inr z, [])" if "length z \<le> 4096" for z
    using ReadFrame_frame [of MaxPeerAuthPayloadBytes z "[]"] that by (simp add: peer_reading_def frameable_def frame_limit_def MaxPeerAuthPayloadBytes_def)
  obtain cs where cs: "normalizePeerAuthCapabilities (PeerAuthCapabilities dialler) True = Inr cs" "decodePeerAuthMessage x = Inr (auth_message dialler cs)"
    using encodePeerAuth_decode [OF c(1,3) x] .
  obtain q' where q: "authenticateInbound acceptor (empty_world, peer_reading (frame_bytes x)) = (Inr (), (empty_world, q'))" "tpConn q' = frame_bytes y"
    using inbound_calm(2) [OF c(6,5) r [OF payload_short(1) [OF x], folded nodes_configured(5)] nodes_configured(5) _ y]
    by (auto simp: auth_message_ok [OF c(1) cs] nodes_configured(3) peer_reading_def)
  obtain ds where "validatePeerAuthAck y = Inr (PeerAuthIdentity acceptor, ds)" using encodePeerAuthOK_ack [OF c(2) y] by blast
  then obtain p' where "authenticateOutbound dialler (empty_world, peer_reading (frame_bytes y)) = (Inr (), (empty_world, p'))" "tpConn p' = frame_bytes x"
    using outbound_calm [OF c(6,4) x nodes_configured(4), of "peer_reading (frame_bytes y)"] r [OF payload_short(2) [OF y]] nodes_configured(4)
    by (simp add: peer_reading_def)
  moreover from this(2) q(2) have "joined (peer_reading (frame_bytes y)) p' (peer_reading (frame_bytes x)) q'" by (simp add: joined_def peer_reading_def)
  ultimately show ?thesis using that x y q(1) by blast
qed

theorem inbound_auth_sound_witness:
  "\<exists>x w' p' payload m. authenticateInbound acceptor (empty_world, peer_reading x) = (Inr (), (w', p')) \<and>
     decodePeerAuthMessage payload = Inr m \<and> admits acceptor (paToken m) (tpAuthIdentity p')"
  using joined_run inbound_auth_sound [of acceptor empty_world] nodes_configured(2) unfolding well_configured_def by metis

theorem handshake_agreement_witness:
  "\<exists>p p' q q'. authenticateOutbound dialler (empty_world, p) = (Inr (), (empty_world, p')) \<and>
     authenticateInbound acceptor (empty_world, q) = (Inr (), (empty_world, q')) \<and>
     tpAuthIdentity p' = ''node-b'' \<and> tpAuthIdentity q' = ''node-a''"
proof -
  obtain p p' q q' where r: "authenticateOutbound dialler (empty_world, p) = (Inr (), (empty_world, p'))"
    "authenticateInbound acceptor (empty_world, q) = (Inr (), (empty_world, q'))" "joined p p' q q'"
    by (rule joined_run)
  from handshake_agreement [OF nodes_configured(1,2) r(3,1,2)] r(1,2) show ?thesis by (auto simp: dialler_def acceptor_def)
qed

theorem handshake_decides_witness:
  "\<exists>p p' q q'. joined p p' q q' \<and> authenticateOutbound dialler (empty_world, p) = (Inr (), (empty_world, p')) \<and>
     authenticateInbound acceptor (empty_world, q) = (Inr (), (empty_world, q'))"
proof -
  obtain x y p p' q q' where e: "encodePeerAuth (PeerAuthToken dialler) (PeerAuthIdentity dialler) (PeerAuthCapabilities dialler) = Inr x"
    "encodePeerAuthOK (PeerAuthIdentity acceptor) (PeerAuthCapabilities acceptor) = Inr y"
    and r: "authenticateOutbound dialler (empty_world, p) = (Inr (), (empty_world, p'))"
    "authenticateInbound acceptor (empty_world, q) = (Inr (), (empty_world, q'))" "joined p p' q q'"
    by (rule joined_run)
  have c: "calm empty_world" by simp
  from handshake_decides [OF nodes_configured(1,2) r(3) c c nodes_configured(4,5) e r(1,2)] nodes_configured(3) r show ?thesis by auto
qed

end
