(* ===== verification/P2p_Transport.thy ===== *)
theory P2p_Transport
  imports P2p_Handshake "HOL-Library.Multiset"
begin

text \<open>
  \<^verbatim>\<open>p2p/tcp_transport.go\<close> and \<^verbatim>\<open>p2p/metrics.go\<close>: the listener, the peers, and the shutdown of the transport as a machine of
  interleaved goroutines.

  The transport object and the heap of peers and channels are one record.  A goroutine is a value of type \<open>task\<close>: the point
  it has reached in its Go function.  One step of a goroutine is one critical section of the transport's mutex together with
  the unlocked code up to the next one, so every interleaving of critical sections is an interleaving of steps.  What the
  network, the operating system and the clock do is the \<open>choice\<close> a step is given.  The application's callbacks may close
  peers at any time.
\<close>

section \<open>Definitions\<close>

subsection \<open>The transport and its heap\<close>

datatype transportLifecycleState = transportStateOpen | transportStateDraining | transportStateClosed

text \<open>The counters; a signed counter is read with \<^const>\<open>sint\<close>.\<close>

record TransportMetrics =
  InboundAccepts :: u64
  AcceptErrors :: u64
  DialAttempts :: u64
  DialSuccess :: u64
  DialErrors :: u64
  PeersRejected :: u64
  ActivePeers :: u64
  FramesHandled :: u64
  FrameHandlerErrs :: u64
  TLSHandshakeSuccess :: u64
  TLSHandshakeFailures :: u64
  PeerAuthSuccess :: u64
  PeerAuthFailures :: u64
  PeerAuthIdentityRejections :: u64
  ShutdownState :: transportLifecycleState
  ShutdownsStarted :: u64
  ShutdownPeersDrained :: u64
  ShutdownForcedCloses :: u64
  ShutdownDeadlineExpiries :: u64
  ShutdownTrackedPeers :: u64
  ShutdownTrackedGoroutines :: u64

definition NewTransportMetrics :: TransportMetrics where
  "NewTransportMetrics = \<lparr>InboundAccepts = 0, AcceptErrors = 0, DialAttempts = 0, DialSuccess = 0, DialErrors = 0, PeersRejected = 0,
     ActivePeers = 0, FramesHandled = 0, FrameHandlerErrs = 0, TLSHandshakeSuccess = 0, TLSHandshakeFailures = 0, PeerAuthSuccess = 0,
     PeerAuthFailures = 0, PeerAuthIdentityRejections = 0, ShutdownState = transportStateOpen, ShutdownsStarted = 0, ShutdownPeersDrained = 0,
     ShutdownForcedCloses = 0, ShutdownDeadlineExpiries = 0, ShutdownTrackedPeers = 0, ShutdownTrackedGoroutines = 0\<rparr>"

text \<open>A peer object; \<open>connClosed\<close> says that this side has closed its socket.\<close>

record TCPPeer =
  RemoteAddr :: bytes
  outbound :: bool
  dialTarget :: bytes
  authMethod :: bytes
  authIdentity :: bytes
  authCapabilities :: "bytes list"
  connClosed :: bool

definition PeerAuthMethodNone :: bytes where "PeerAuthMethodNone = ''none''"
definition PeerAuthMethodSharedToken :: bytes where "PeerAuthMethodSharedToken = ''shared-token''"

definition NewTCPPeer :: "bytes \<Rightarrow> bool \<Rightarrow> TCPPeer" where
  "NewTCPPeer remote out = \<lparr>RemoteAddr = remote, outbound = out, dialTarget = [], authMethod = PeerAuthMethodNone, authIdentity = [],
     authCapabilities = [], connClosed = False\<rparr>"

text \<open>The configuration fields of \<^verbatim>\<open>TCPTransport\<close> the control flow depends on.\<close>

record transport_config =
  tcAuth :: peer_auth_config
  ListenAddress :: bytes
  MaxPeers :: int
  FrameHandlerSet :: bool
  ReadIdleTimeoutSet :: bool
  TLSServer :: bool
  TLSClient :: bool

text \<open>\<^verbatim>\<open>sync.Once\<close> together with \<^verbatim>\<open>closeErr\<close>.\<close>

datatype once = OnceIdle | OnceRunning | OnceDone "err + unit"

text \<open>
  The mutable fields, and the heap: peer objects and channels are numbered in order of creation, \<open>hClosed\<close> lists the channels
  that have been closed, and \<open>hPanic\<close> is set by closing a channel a second time.
\<close>

record TCPTransport =
  tState :: transportLifecycleState
  tListener :: "nat option"
  tPeers :: "(bytes \<times> nat) list"
  tConnections :: "nat list"
  tMetrics :: TransportMetrics
  tWorkDone :: nat
  tWorkCount :: int
  tShutdown :: bool
  tOnce :: once
  hPeers :: "nat \<Rightarrow> TCPPeer"
  hNextPeer :: nat
  hClosed :: "nat list"
  hNextChan :: nat
  hPanic :: bool

definition NewTCPTransport :: TCPTransport where
  "NewTCPTransport = \<lparr>tState = transportStateOpen, tListener = None, tPeers = [], tConnections = [],
     tMetrics = NewTransportMetrics\<lparr>ShutdownState := transportStateOpen\<rparr>, tWorkDone = 0, tWorkCount = 0, tShutdown = False, tOnce = OnceIdle,
     hPeers = (\<lambda>_. NewTCPPeer [] False), hNextPeer = 0, hClosed = [0], hNextChan = 1, hPanic = False\<rparr>"

definition metric :: "(TransportMetrics \<Rightarrow> TransportMetrics) \<Rightarrow> TCPTransport \<Rightarrow> TCPTransport" where
  "metric f t = t\<lparr>tMetrics := f (tMetrics t)\<rparr>"

definition new_peer :: "TCPPeer \<Rightarrow> TCPTransport \<Rightarrow> nat \<times> TCPTransport" where
  "new_peer p t = (hNextPeer t, t\<lparr>hPeers := (hPeers t)(hNextPeer t := p), hNextPeer := hNextPeer t + 1\<rparr>)"

definition close_chan :: "nat \<Rightarrow> TCPTransport \<Rightarrow> TCPTransport" where
  "close_chan c t = (if c \<in> set (hClosed t) then t\<lparr>hPanic := True\<rparr> else t\<lparr>hClosed := c # hClosed t\<rparr>)"

definition conn_close :: "nat \<Rightarrow> TCPTransport \<Rightarrow> TCPTransport" where
  "conn_close p t = t\<lparr>hPeers := (hPeers t)(p := (hPeers t p)\<lparr>connClosed := True\<rparr>)\<rparr>"

subsection \<open>Critical sections\<close>

definition startWorkLocked :: "TCPTransport \<Rightarrow> bool \<times> TCPTransport" where
  "startWorkLocked t =
     (if tState t \<noteq> transportStateOpen then (False, t)
      else
        let t = (if tWorkCount t = 0 then t\<lparr>tWorkDone := hNextChan t, hNextChan := hNextChan t + 1\<rparr> else t);
            t = t\<lparr>tWorkCount := tWorkCount t + 1\<rparr>
        in (True, metric (\<lambda>m. m\<lparr>ShutdownTrackedGoroutines := ShutdownTrackedGoroutines m + 1\<rparr>) t))"

definition beginWork :: "TCPTransport \<Rightarrow> bool \<times> TCPTransport" where
  "beginWork t = startWorkLocked t"

definition finishWork :: "TCPTransport \<Rightarrow> TCPTransport" where
  "finishWork t =
     (if tWorkCount t = 0 then t
      else
        let t = t\<lparr>tWorkCount := tWorkCount t - 1\<rparr>;
            t = metric (\<lambda>m. m\<lparr>ShutdownTrackedGoroutines := ShutdownTrackedGoroutines m - 1\<rparr>) t
        in if tWorkCount t = 0 then close_chan (tWorkDone t) t else t)"

definition connections_add :: "nat \<Rightarrow> TCPTransport \<Rightarrow> TCPTransport" where
  "connections_add tp t = (if tp \<in> set (tConnections t) then t else t\<lparr>tConnections := tp # tConnections t\<rparr>)"

definition trackConnection :: "nat \<Rightarrow> TCPTransport \<Rightarrow> bool \<times> TCPTransport" where
  "trackConnection tp t = (if tState t \<noteq> transportStateOpen then (False, t) else (True, connections_add tp t))"

definition removeConnection :: "nat \<Rightarrow> TCPTransport \<Rightarrow> TCPTransport" where
  "removeConnection tp t = t\<lparr>tConnections := filter (\<lambda>c. c \<noteq> tp) (tConnections t)\<rparr>"

definition registeredConnectionLocked :: "TCPTransport \<Rightarrow> nat \<Rightarrow> bool" where
  "registeredConnectionLocked t tp \<longleftrightarrow> map_of (tPeers t) (RemoteAddr (hPeers t tp)) = Some tp"

definition snapshotConnections :: "TCPTransport \<Rightarrow> nat list \<times> nat list" where
  "snapshotConnections t = (filter (\<lambda>tp. \<not> registeredConnectionLocked t tp) (tConnections t), filter (registeredConnectionLocked t) (tConnections t))"

definition closeConnections :: "nat list \<Rightarrow> TCPTransport \<Rightarrow> nat \<times> TCPTransport" where
  "closeConnections peers t = (length peers, fold conn_close peers t)"

definition forced_close :: "nat list \<Rightarrow> TCPTransport \<Rightarrow> TCPTransport" where
  "forced_close peers t =
     (let (forced, t) = closeConnections peers t
      in if forced > 0 then metric (\<lambda>m. m\<lparr>ShutdownForcedCloses := ShutdownForcedCloses m + of_nat forced\<rparr>) t else t)"

definition markClosed :: "TCPTransport \<Rightarrow> TCPTransport" where
  "markClosed t = metric (\<lambda>m. m\<lparr>ShutdownState := transportStateClosed\<rparr>) (t\<lparr>tState := transportStateClosed\<rparr>)"

definition Ready :: "TCPTransport \<Rightarrow> bool" where
  "Ready t \<longleftrightarrow> tListener t \<noteq> None"

definition set_auth_method :: "transport_config \<Rightarrow> nat \<Rightarrow> TCPTransport \<Rightarrow> TCPTransport" where
  "set_auth_method c tp t =
     (if peerAuthEnabled (tcAuth c) then t\<lparr>hPeers := (hPeers t)(tp := (hPeers t tp)\<lparr>authMethod := PeerAuthMethodSharedToken\<rparr>)\<rparr> else t)"

definition handlePeer :: "transport_config \<Rightarrow> nat \<Rightarrow> TCPTransport \<Rightarrow> (err + bool) \<times> TCPTransport" where
  "handlePeer c tp t =
     (let t = set_auth_method c tp t;
          key = RemoteAddr (hPeers t tp)
      in if tState t \<noteq> transportStateOpen then (Inl (EP2P ErrTransportClosed), t)
         else if map_of (tPeers t) key \<noteq> None then (Inr False, conn_close tp t)
         else if MaxPeers c > 0 \<and> int (length (tPeers t)) \<ge> MaxPeers c
           then (Inr False, conn_close tp (metric (\<lambda>m. m\<lparr>PeersRejected := PeersRejected m + 1\<rparr>) t))
         else case startWorkLocked t of
             (False, t) \<Rightarrow> (Inl (EP2P ErrTransportClosed), t)
           | (True, t) \<Rightarrow>
               (Inr True, metric (\<lambda>m. m\<lparr>ActivePeers := ActivePeers m + 1, ShutdownTrackedPeers := ShutdownTrackedPeers m + 1\<rparr>)
                 (t\<lparr>tPeers := (key, tp) # tPeers t\<rparr>)))"

definition unregisterPeer :: "nat \<Rightarrow> TCPTransport \<Rightarrow> TCPTransport" where
  "unregisterPeer tp t =
     (let key = RemoteAddr (hPeers t tp)
      in if map_of (tPeers t) key \<noteq> None
         then metric (\<lambda>m. m\<lparr>ActivePeers := ActivePeers m - 1, ShutdownTrackedPeers := ShutdownTrackedPeers m - 1\<rparr>)
           (t\<lparr>tPeers := filter (\<lambda>e. fst e \<noteq> key) (tPeers t)\<rparr>)
         else t)"

definition beginShutdown :: "TCPTransport \<Rightarrow> (nat option \<times> nat \<times> nat list \<times> nat list) \<times> TCPTransport" where
  "beginShutdown t =
     (let t = metric (\<lambda>m. m\<lparr>ShutdownState := transportStateDraining, ShutdownsStarted := ShutdownsStarted m + 1\<rparr>)
            (t\<lparr>tState := transportStateDraining, tShutdown := True\<rparr>);
          listener = tListener t;
          t = t\<lparr>tListener := None\<rparr>;
          (pending, active) = snapshotConnections t
      in ((listener, length (tPeers t), pending, active), t))"

definition completeShutdown :: "nat \<Rightarrow> TCPTransport \<Rightarrow> TCPTransport" where
  "completeShutdown peerCount t =
     markClosed (if peerCount > 0 then metric (\<lambda>m. m\<lparr>ShutdownPeersDrained := ShutdownPeersDrained m + of_nat peerCount\<rparr>) t else t)"

definition Peers :: "TCPTransport \<Rightarrow> nat list" where
  "Peers t = map snd (tPeers t)"

text \<open>The addresses of the local end and the connection times are not modelled.\<close>

record PeerSnapshot =
  psRemoteAddr :: bytes
  psOutbound :: bool
  psAuthMethod :: bytes
  psAuthIdentity :: bytes
  psCapabilities :: "bytes list"

definition PeerSnapshots :: "TCPTransport \<Rightarrow> PeerSnapshot list" where
  "PeerSnapshots t = map (\<lambda>(key, tp). let p = hPeers t tp in \<lparr>psRemoteAddr = RemoteAddr p, psOutbound = outbound p, psAuthMethod = authMethod p,
     psAuthIdentity = authIdentity p, psCapabilities = authCapabilities p\<rparr>) (tPeers t)"

definition state_code :: "transportLifecycleState \<Rightarrow> int" where
  "state_code s = (case s of transportStateOpen \<Rightarrow> 0 | transportStateDraining \<Rightarrow> 1 | transportStateClosed \<Rightarrow> 2)"

definition metrics_Snapshot :: "TransportMetrics \<Rightarrow> (bytes \<times> int) list" where
  "metrics_Snapshot m =
     [(''inbound_accepts'', sint (InboundAccepts m)), (''accept_errors'', sint (AcceptErrors m)), (''dial_attempts'', sint (DialAttempts m)),
      (''dial_success'', sint (DialSuccess m)), (''dial_errors'', sint (DialErrors m)), (''peers_rejected'', sint (PeersRejected m)),
      (''active_peers'', sint (ActivePeers m)), (''frames_handled'', sint (FramesHandled m)), (''frame_handler_errors'', sint (FrameHandlerErrs m)),
      (''tls_handshake_success'', sint (TLSHandshakeSuccess m)), (''tls_handshake_failures'', sint (TLSHandshakeFailures m)),
      (''peer_auth_success'', sint (PeerAuthSuccess m)), (''peer_auth_failures'', sint (PeerAuthFailures m)),
      (''peer_auth_identity_rejections'', sint (PeerAuthIdentityRejections m)), (''shutdown_state'', state_code (ShutdownState m)),
      (''shutdown_started'', sint (ShutdownsStarted m)), (''shutdown_peers_drained'', sint (ShutdownPeersDrained m)),
      (''shutdown_forced_closes'', sint (ShutdownForcedCloses m)), (''shutdown_deadline_expiries'', sint (ShutdownDeadlineExpiries m)),
      (''shutdown_tracked_peers'', sint (ShutdownTrackedPeers m)), (''shutdown_tracked_goroutines'', sint (ShutdownTrackedGoroutines m))]"

subsection \<open>Goroutines\<close>

datatype listen_pc = ListenStart | ListenBind | ListenInstall nat | ListenReturn "err + unit"

datatype accept_pc = AcceptLoad | AcceptWait nat | AcceptAdmit nat | AcceptFinish

datatype handle_pc = HandleTLS | HandleAuth | HandleRegister | HandleServe | HandleRemove | HandleFinish

datatype serve_pc = ServeLoop | ServeUnregister | ServeRemove | ServeFinish

datatype dial_pc = DialStart bytes | DialConnect bytes | DialTrack nat | DialTLS nat | DialAuth nat | DialRegister nat | DialServe nat
  | DialRemove nat "err + unit" | DialFinish "err + unit" | DialReturn "err + unit"

datatype drain_pc = DrainStart bool | DrainStop "nat option" nat "nat list" | DrainWait nat nat "err + unit" | DrainForce nat "err + unit"
  | DrainJoin nat nat "err + unit" | DrainReturn "err + unit"

datatype close_pc = CloseStart | CloseStop "nat option" nat "nat list" | CloseReturn "err + unit"

datatype task = Listening listen_pc | Accepting accept_pc | Handling nat handle_pc | Serving nat serve_pc | Dialling dial_pc
  | Draining drain_pc | Closing close_pc

text \<open>
  What happens at a step: the call succeeds, it fails, a connection with a remote address arrives, the peer sends some bytes
  while writes to it have the outcomes of a world, a frame is read and the handler returns, or a context has
  ended.
\<close>

datatype choice = Proceeds | Fails err | Connects bytes | Exchanges world bytes | Frame "err + unit" | Expires

definition listen_step :: "transport_config \<Rightarrow> choice \<Rightarrow> listen_pc \<Rightarrow> TCPTransport \<Rightarrow> (TCPTransport \<times> task list) option" where
  "listen_step c ch pc t =
     (let return = (\<lambda>r t. Some (t, [Listening (ListenReturn r)]))
      in case pc of
        ListenStart \<Rightarrow>
          (case validatePeerAuthConfig (tcAuth c) of
             Inl e \<Rightarrow> return (Inl e) t
           | Inr _ \<Rightarrow>
               if ListenAddress c = [] then return (Inl (EP2P ErrAddrRequired)) t
               else if ch = Expires then return (Inl (EStd ErrContext)) t
               else if tState t \<noteq> transportStateOpen then return (Inl (EP2P ErrTransportClosed)) t
               else if tListener t \<noteq> None then return (Inl (EP2P ErrAlreadyListening)) t
               else Some (t, [Listening ListenBind]))
      | ListenBind \<Rightarrow>
          (case ch of
             Fails e \<Rightarrow> return (Inl e) t
           | Expires \<Rightarrow> return (Inl (EStd ErrContext)) t
           | _ \<Rightarrow> Some (t\<lparr>hNextChan := hNextChan t + 1\<rparr>, [Listening (ListenInstall (hNextChan t))]))
      | ListenInstall ln \<Rightarrow>
          if tState t \<noteq> transportStateOpen then return (Inl (EP2P ErrTransportClosed)) t
          else if tListener t \<noteq> None then return (Inl (EP2P ErrAlreadyListening)) t
          else (case startWorkLocked (t\<lparr>tListener := Some ln\<rparr>) of
              (False, t) \<Rightarrow> return (Inl (EP2P ErrTransportClosed)) (t\<lparr>tListener := None\<rparr>)
            | (True, t) \<Rightarrow> Some (t, [Listening (ListenReturn (Inr ())), Accepting AcceptLoad]))
      | ListenReturn r \<Rightarrow> None)"

definition accept_step :: "choice \<Rightarrow> accept_pc \<Rightarrow> TCPTransport \<Rightarrow> (TCPTransport \<times> task list) option" where
  "accept_step ch pc t =
     (case pc of
        AcceptLoad \<Rightarrow>
          (case tListener t of
             None \<Rightarrow> Some (t, [Accepting AcceptFinish])
           | Some ln \<Rightarrow> Some (t, [Accepting (AcceptWait ln)]))
      | AcceptWait ln \<Rightarrow>
          (case ch of
             Fails e \<Rightarrow> Some (metric (\<lambda>m. m\<lparr>AcceptErrors := AcceptErrors m + 1\<rparr>) t, [Accepting AcceptFinish])
           | Connects remote \<Rightarrow> (case new_peer (NewTCPPeer remote False) t of (tp, t) \<Rightarrow> Some (t, [Accepting (AcceptAdmit tp)]))
           | _ \<Rightarrow> None)
      | AcceptAdmit tp \<Rightarrow>
          (if tState t = transportStateOpen then
             case startWorkLocked t of
               (True, t) \<Rightarrow> Some (connections_add tp t, [Accepting AcceptLoad, Handling tp HandleTLS])
             | (False, t) \<Rightarrow> Some (conn_close tp t, [Accepting AcceptLoad])
           else Some (conn_close tp t, [Accepting AcceptLoad]))
      | AcceptFinish \<Rightarrow> Some (finishWork t, []))"

text \<open>One side of the handshake on a peer object, with the counters it moves.\<close>

definition run_auth :: "(peer_auth_config \<Rightarrow> (world \<times> auth_peer, unit) M) \<Rightarrow> transport_config \<Rightarrow> world \<Rightarrow> bytes \<Rightarrow> nat \<Rightarrow> TCPTransport
    \<Rightarrow> (err + unit) \<times> TCPTransport" where
  "run_auth auth c w r tp t =
     (let p = hPeers t tp; m = tMetrics t
      in case auth (tcAuth c) (w, \<lparr>tpReader = r, tpConn = [], tpAuthIdentity = authIdentity p, tpAuthCapabilities = authCapabilities p,
             mPeerAuthSuccess = PeerAuthSuccess m, mPeerAuthIdentityRejections = PeerAuthIdentityRejections m\<rparr>) of
          (res, (_, a)) \<Rightarrow>
            (res, metric (\<lambda>m. m\<lparr>PeerAuthSuccess := mPeerAuthSuccess a, PeerAuthIdentityRejections := mPeerAuthIdentityRejections a\<rparr>)
              (t\<lparr>hPeers := (hPeers t)(tp := p\<lparr>authIdentity := tpAuthIdentity a, authCapabilities := tpAuthCapabilities a\<rparr>)\<rparr>)))"

definition handle_step :: "transport_config \<Rightarrow> choice \<Rightarrow> nat \<Rightarrow> handle_pc \<Rightarrow> TCPTransport \<Rightarrow> (TCPTransport \<times> task list) option" where
  "handle_step c ch tp pc t =
     (case pc of
        HandleTLS \<Rightarrow>
          if TLSServer c then
            (case ch of
               Fails e \<Rightarrow> Some (conn_close tp (metric (\<lambda>m. m\<lparr>TLSHandshakeFailures := TLSHandshakeFailures m + 1\<rparr>) t), [Handling tp HandleRemove])
             | _ \<Rightarrow> Some (metric (\<lambda>m. m\<lparr>TLSHandshakeSuccess := TLSHandshakeSuccess m + 1\<rparr>) t, [Handling tp HandleAuth]))
          else Some (t, [Handling tp HandleAuth])
      | HandleAuth \<Rightarrow>
          (case ch of
             Exchanges w r \<Rightarrow>
               (case run_auth authenticateInbound c w r tp t of
                  (Inl e, t) \<Rightarrow> Some (conn_close tp (metric (\<lambda>m. m\<lparr>PeerAuthFailures := PeerAuthFailures m + 1\<rparr>) t), [Handling tp HandleRemove])
                | (Inr _, t) \<Rightarrow> Some (t, [Handling tp HandleRegister]))
           | _ \<Rightarrow> None)
      | HandleRegister \<Rightarrow>
          (case handlePeer c tp t of
             (Inr True, t) \<Rightarrow> Some (t, [Handling tp HandleServe])
           | (_, t) \<Rightarrow> Some (conn_close tp t, [Handling tp HandleRemove]))
      | HandleServe \<Rightarrow>
          Some (if outbound (hPeers t tp) then t else metric (\<lambda>m. m\<lparr>InboundAccepts := InboundAccepts m + 1\<rparr>) t,
            [Serving tp ServeLoop, Handling tp HandleFinish])
      | HandleRemove \<Rightarrow> Some (removeConnection tp t, [Handling tp HandleFinish])
      | HandleFinish \<Rightarrow> Some (finishWork t, []))"

definition serve_step :: "transport_config \<Rightarrow> choice \<Rightarrow> nat \<Rightarrow> serve_pc \<Rightarrow> TCPTransport \<Rightarrow> (TCPTransport \<times> task list) option" where
  "serve_step c ch tp pc t =
     (case pc of
        ServeLoop \<Rightarrow>
          if FrameHandlerSet c then
            (case ch of
               Expires \<Rightarrow> if tShutdown t then Some (t, [Serving tp ServeUnregister]) else None
             | Fails e \<Rightarrow> Some (t, [Serving tp ServeUnregister])
             | Frame (Inr _) \<Rightarrow> Some (metric (\<lambda>m. m\<lparr>FramesHandled := FramesHandled m + 1\<rparr>) t, [Serving tp ServeLoop])
             | Frame (Inl e) \<Rightarrow>
                 Some (metric (\<lambda>m. m\<lparr>FramesHandled := FramesHandled m + 1, FrameHandlerErrs := FrameHandlerErrs m + 1\<rparr>) t, [Serving tp ServeUnregister])
             | _ \<Rightarrow> None)
          else if \<not> ReadIdleTimeoutSet c then
            (case ch of
               Fails e \<Rightarrow> Some (t, [Serving tp ServeUnregister])
             | Proceeds \<Rightarrow> Some (t, [Serving tp ServeUnregister])
             | _ \<Rightarrow> None)
          else
            (case ch of
               Expires \<Rightarrow> if tShutdown t then Some (t, [Serving tp ServeUnregister]) else None
             | Fails e \<Rightarrow> Some (t, [Serving tp ServeUnregister])
             | Proceeds \<Rightarrow> Some (t, [Serving tp ServeLoop])
             | _ \<Rightarrow> None)
      | ServeUnregister \<Rightarrow> Some (unregisterPeer tp t, [Serving tp ServeRemove])
      | ServeRemove \<Rightarrow> Some (removeConnection tp t, [Serving tp ServeFinish])
      | ServeFinish \<Rightarrow> Some (finishWork t, []))"

definition dial_error :: "TCPTransport \<Rightarrow> TCPTransport" where
  "dial_error t = metric (\<lambda>m. m\<lparr>DialErrors := DialErrors m + 1\<rparr>) t"

definition dial_step :: "transport_config \<Rightarrow> choice \<Rightarrow> dial_pc \<Rightarrow> TCPTransport \<Rightarrow> (TCPTransport \<times> task list) option" where
  "dial_step c ch pc t =
     (case pc of
        DialStart addr \<Rightarrow>
          (case validatePeerAuthConfig (tcAuth c) of
             Inl e \<Rightarrow> Some (t, [Dialling (DialReturn (Inl e))])
           | Inr _ \<Rightarrow>
               (case beginWork t of
                  (False, t) \<Rightarrow> Some (t, [Dialling (DialReturn (Inl (EP2P ErrTransportClosed)))])
                | (True, t) \<Rightarrow> Some (metric (\<lambda>m. m\<lparr>DialAttempts := DialAttempts m + 1\<rparr>) t, [Dialling (DialConnect addr)])))
      | DialConnect addr \<Rightarrow>
          (case ch of
             Fails e \<Rightarrow>
               Some (dial_error t, [Dialling (DialFinish (Inl (if tState t \<noteq> transportStateOpen then EP2P ErrTransportClosed else e)))])
           | Connects remote \<Rightarrow>
               (case new_peer ((NewTCPPeer remote True)\<lparr>dialTarget := addr\<rparr>) t of (tp, t) \<Rightarrow> Some (t, [Dialling (DialTrack tp)]))
           | _ \<Rightarrow> None)
      | DialTrack tp \<Rightarrow>
          (case trackConnection tp t of
             (False, t) \<Rightarrow> Some (dial_error (conn_close tp t), [Dialling (DialFinish (Inl (EP2P ErrTransportClosed)))])
           | (True, t) \<Rightarrow> Some (t, [Dialling (DialTLS tp)]))
      | DialTLS tp \<Rightarrow>
          if TLSClient c then
            (case ch of
               Fails e \<Rightarrow>
                 Some (dial_error (metric (\<lambda>m. m\<lparr>TLSHandshakeFailures := TLSHandshakeFailures m + 1\<rparr>) (conn_close tp t)), [Dialling (DialRemove tp (Inl e))])
             | _ \<Rightarrow> Some (metric (\<lambda>m. m\<lparr>TLSHandshakeSuccess := TLSHandshakeSuccess m + 1\<rparr>) t, [Dialling (DialAuth tp)]))
          else Some (t, [Dialling (DialAuth tp)])
      | DialAuth tp \<Rightarrow>
          (case ch of
             Exchanges w r \<Rightarrow>
               (case run_auth authenticateOutbound c w r tp t of
                  (Inl e, t) \<Rightarrow>
                    Some (dial_error (metric (\<lambda>m. m\<lparr>PeerAuthFailures := PeerAuthFailures m + 1\<rparr>) (conn_close tp t)), [Dialling (DialRemove tp (Inl e))])
                | (Inr _, t) \<Rightarrow> Some (metric (\<lambda>m. m\<lparr>DialSuccess := DialSuccess m + 1\<rparr>) t, [Dialling (DialRegister tp)]))
           | _ \<Rightarrow> None)
      | DialRegister tp \<Rightarrow>
          (case handlePeer c tp t of
             (Inl e, t) \<Rightarrow> Some (dial_error (conn_close tp t), [Dialling (DialRemove tp (Inl e))])
           | (Inr False, t) \<Rightarrow> Some (t, [Dialling (DialRemove tp (Inr ()))])
           | (Inr True, t) \<Rightarrow> Some (t, [Dialling (DialServe tp)]))
      | DialServe tp \<Rightarrow>
          Some (if outbound (hPeers t tp) then t else metric (\<lambda>m. m\<lparr>InboundAccepts := InboundAccepts m + 1\<rparr>) t,
            [Serving tp ServeLoop, Dialling (DialFinish (Inr ()))])
      | DialRemove tp r \<Rightarrow> Some (removeConnection tp t, [Dialling (DialFinish r)])
      | DialFinish r \<Rightarrow> Some (finishWork t, [Dialling (DialReturn r)])
      | DialReturn r \<Rightarrow> None)"

definition listener_close :: "choice \<Rightarrow> nat option \<Rightarrow> err + unit" where
  "listener_close ch listener = (case (listener, ch) of (Some _, Fails e) \<Rightarrow> Inl e | _ \<Rightarrow> Inr ())"

text \<open>\<^verbatim>\<open>errors.Join(listenerErr, err)\<close>, where the first may be nil.\<close>

definition join_opt :: "err + unit \<Rightarrow> err \<Rightarrow> err" where
  "join_opt r e = (case r of Inl a \<Rightarrow> EJoin a e | Inr _ \<Rightarrow> e)"

definition drain_step :: "choice \<Rightarrow> drain_pc \<Rightarrow> TCPTransport \<Rightarrow> (TCPTransport \<times> task list) option" where
  "drain_step ch pc t =
     (case pc of
        DrainStart deadline \<Rightarrow>
          if \<not> deadline then Some (t, [Draining (DrainReturn (Inl (EP2P ErrDrainDeadlineRequired)))])
          else (case tOnce t of
              OnceIdle \<Rightarrow>
                (case beginShutdown (t\<lparr>tOnce := OnceRunning\<rparr>) of
                   ((listener, n, pending, active), t) \<Rightarrow> Some (t, [Draining (DrainStop listener n pending)]))
            | OnceRunning \<Rightarrow> None
            | OnceDone r \<Rightarrow> Some (t, [Draining (DrainReturn r)]))
      | DrainStop listener n pending \<Rightarrow> Some (forced_close pending t, [Draining (DrainWait (tWorkDone t) n (listener_close ch listener))])
      | DrainWait done n lerr \<Rightarrow>
          (case ch of
             Proceeds \<Rightarrow> if done \<in> set (hClosed t) then Some ((completeShutdown n t)\<lparr>tOnce := OnceDone lerr\<rparr>, [Draining (DrainReturn lerr)]) else None
           | Expires \<Rightarrow> Some (metric (\<lambda>m. m\<lparr>ShutdownDeadlineExpiries := ShutdownDeadlineExpiries m + 1\<rparr>) t, [Draining (DrainForce n lerr)])
           | _ \<Rightarrow> None)
      | DrainForce n lerr \<Rightarrow>
          (case snapshotConnections t of
             (pending, active) \<Rightarrow> Some (forced_close (pending @ active) t, [Draining (DrainJoin (tWorkDone t) n lerr)]))
      | DrainJoin done n lerr \<Rightarrow>
          (if ch = Expires \<or> ch = Proceeds \<and> done \<in> set (hClosed t) then
             let r = Inl (join_opt lerr (EStd ErrContext))
             in Some ((completeShutdown n t)\<lparr>tOnce := OnceDone r\<rparr>, [Draining (DrainReturn r)])
           else None)
      | DrainReturn r \<Rightarrow> None)"

definition close_step :: "choice \<Rightarrow> close_pc \<Rightarrow> TCPTransport \<Rightarrow> (TCPTransport \<times> task list) option" where
  "close_step ch pc t =
     (case pc of
        CloseStart \<Rightarrow>
          (case tOnce t of
              OnceIdle \<Rightarrow>
                (case beginShutdown (t\<lparr>tOnce := OnceRunning\<rparr>) of
                   ((listener, n, pending, active), t) \<Rightarrow> Some (t, [Closing (CloseStop listener n (pending @ active))]))
            | OnceRunning \<Rightarrow> None
            | OnceDone r \<Rightarrow> Some (t, [Closing (CloseReturn r)]))
      | CloseStop listener n conns \<Rightarrow>
          (let r = listener_close ch listener
           in Some ((completeShutdown n (forced_close conns t))\<lparr>tOnce := OnceDone r\<rparr>, [Closing (CloseReturn r)]))
      | CloseReturn r \<Rightarrow> None)"

fun task_step :: "transport_config \<Rightarrow> choice \<Rightarrow> task \<Rightarrow> TCPTransport \<Rightarrow> (TCPTransport \<times> task list) option" where
  "task_step c ch (Listening pc) t = listen_step c ch pc t"
| "task_step c ch (Accepting pc) t = accept_step ch pc t"
| "task_step c ch (Handling tp pc) t = handle_step c ch tp pc t"
| "task_step c ch (Serving tp pc) t = serve_step c ch tp pc t"
| "task_step c ch (Dialling pc) t = dial_step c ch pc t"
| "task_step c ch (Draining pc) t = drain_step ch pc t"
| "task_step c ch (Closing pc) t = close_step ch pc t"

subsection \<open>The machine\<close>

text \<open>Calls into the transport, steps of its goroutines, and a callback of the application that closes a peer.\<close>

inductive transport_step :: "transport_config \<Rightarrow> TCPTransport \<times> task list \<Rightarrow> TCPTransport \<times> task list \<Rightarrow> bool" for c where
  step_call: "k \<in> {Listening ListenStart, Dialling (DialStart addr), Draining (DrainStart deadline), Closing CloseStart} \<Longrightarrow>
     transport_step c (t, ts) (t, k # ts)"
| step_task: "k \<in> set ts \<Longrightarrow> task_step c ch k t = Some (t', new) \<Longrightarrow> transport_step c (t, ts) (t', new @ remove1 k ts)"
| step_app: "tp < hNextPeer t \<Longrightarrow> transport_step c (t, ts) (conn_close tp t, ts)"

definition reachable :: "transport_config \<Rightarrow> TCPTransport \<Rightarrow> task list \<Rightarrow> bool" where
  "reachable c t ts \<longleftrightarrow> (transport_step c)\<^sup>*\<^sup>* (NewTCPTransport, []) (t, ts)"

section \<open>Projections\<close>

lemma metric_sel [simp]: "tMetrics (metric f t) = f (tMetrics t)" "tState (metric f t) = tState t" "tListener (metric f t) = tListener t"
  "tPeers (metric f t) = tPeers t" "tConnections (metric f t) = tConnections t" "tWorkDone (metric f t) = tWorkDone t" "tWorkCount (metric f t) = tWorkCount t"
  "tShutdown (metric f t) = tShutdown t" "tOnce (metric f t) = tOnce t" "hPeers (metric f t) = hPeers t" "hNextPeer (metric f t) = hNextPeer t"
  "hClosed (metric f t) = hClosed t" "hNextChan (metric f t) = hNextChan t" "hPanic (metric f t) = hPanic t"
  by (simp_all add: metric_def)

lemma conn_close_sel [simp]: "tMetrics (conn_close p t) = tMetrics t" "tState (conn_close p t) = tState t" "tListener (conn_close p t) = tListener t"
  "tPeers (conn_close p t) = tPeers t" "tConnections (conn_close p t) = tConnections t" "tWorkDone (conn_close p t) = tWorkDone t" "tWorkCount (conn_close p t) = tWorkCount t"
  "tShutdown (conn_close p t) = tShutdown t" "tOnce (conn_close p t) = tOnce t" "hNextPeer (conn_close p t) = hNextPeer t"
  "hClosed (conn_close p t) = hClosed t" "hNextChan (conn_close p t) = hNextChan t" "hPanic (conn_close p t) = hPanic t"
  "RemoteAddr (hPeers (conn_close p t) q) = RemoteAddr (hPeers t q)" "outbound (hPeers (conn_close p t) q) = outbound (hPeers t q)"
  "authIdentity (hPeers (conn_close p t) q) = authIdentity (hPeers t q)" "authCapabilities (hPeers (conn_close p t) q) = authCapabilities (hPeers t q)"
  "authMethod (hPeers (conn_close p t) q) = authMethod (hPeers t q)" "connClosed (hPeers (conn_close p t) q) = (q = p \<or> connClosed (hPeers t q))"
  by (simp_all add: conn_close_def)

lemma start_sel [simp]: "tState (snd (startWorkLocked t)) = tState t" "tListener (snd (startWorkLocked t)) = tListener t"
  "tPeers (snd (startWorkLocked t)) = tPeers t" "tConnections (snd (startWorkLocked t)) = tConnections t"
  "tShutdown (snd (startWorkLocked t)) = tShutdown t" "tOnce (snd (startWorkLocked t)) = tOnce t" "hPeers (snd (startWorkLocked t)) = hPeers t"
  "hNextPeer (snd (startWorkLocked t)) = hNextPeer t" "hClosed (snd (startWorkLocked t)) = hClosed t"
  "ActivePeers (tMetrics (snd (startWorkLocked t))) = ActivePeers (tMetrics t)" "ShutdownTrackedPeers (tMetrics (snd (startWorkLocked t))) = ShutdownTrackedPeers (tMetrics t)"
  "fst (startWorkLocked t) \<longleftrightarrow> tState t = transportStateOpen"
  by (simp_all add: startWorkLocked_def Let_def)

lemma finish_sel [simp]: "tState (finishWork t) = tState t" "tListener (finishWork t) = tListener t" "tPeers (finishWork t) = tPeers t"
  "tConnections (finishWork t) = tConnections t" "tWorkDone (finishWork t) = tWorkDone t" "tShutdown (finishWork t) = tShutdown t" "tOnce (finishWork t) = tOnce t"
  "hPeers (finishWork t) = hPeers t" "hNextPeer (finishWork t) = hNextPeer t" "hNextChan (finishWork t) = hNextChan t"
  "ActivePeers (tMetrics (finishWork t)) = ActivePeers (tMetrics t)" "ShutdownTrackedPeers (tMetrics (finishWork t)) = ShutdownTrackedPeers (tMetrics t)"
  by (simp_all add: finishWork_def Let_def close_chan_def)

lemma connections_sel [simp]: "tMetrics (connections_add p t) = tMetrics t" "tState (connections_add p t) = tState t" "tListener (connections_add p t) = tListener t"
  "tPeers (connections_add p t) = tPeers t" "tWorkDone (connections_add p t) = tWorkDone t" "tWorkCount (connections_add p t) = tWorkCount t"
  "tShutdown (connections_add p t) = tShutdown t" "tOnce (connections_add p t) = tOnce t" "hPeers (connections_add p t) = hPeers t"
  "hNextPeer (connections_add p t) = hNextPeer t" "hClosed (connections_add p t) = hClosed t" "hNextChan (connections_add p t) = hNextChan t"
  "hPanic (connections_add p t) = hPanic t"
  by (simp_all add: connections_add_def)

lemma closes_sel: "tMetrics (fold conn_close ps t) = tMetrics t" "tState (fold conn_close ps t) = tState t" "tListener (fold conn_close ps t) = tListener t"
  "tPeers (fold conn_close ps t) = tPeers t" "tConnections (fold conn_close ps t) = tConnections t" "tWorkDone (fold conn_close ps t) = tWorkDone t"
  "tWorkCount (fold conn_close ps t) = tWorkCount t" "tShutdown (fold conn_close ps t) = tShutdown t" "tOnce (fold conn_close ps t) = tOnce t"
  "hNextPeer (fold conn_close ps t) = hNextPeer t" "hClosed (fold conn_close ps t) = hClosed t" "hNextChan (fold conn_close ps t) = hNextChan t"
  "hPanic (fold conn_close ps t) = hPanic t" "RemoteAddr (hPeers (fold conn_close ps t) q) = RemoteAddr (hPeers t q)"
  "outbound (hPeers (fold conn_close ps t) q) = outbound (hPeers t q)" "authIdentity (hPeers (fold conn_close ps t) q) = authIdentity (hPeers t q)"
  "authCapabilities (hPeers (fold conn_close ps t) q) = authCapabilities (hPeers t q)" "authMethod (hPeers (fold conn_close ps t) q) = authMethod (hPeers t q)"
  "connClosed (hPeers (fold conn_close ps t) q) = (q \<in> set ps \<or> connClosed (hPeers t q))"
  by (induction ps arbitrary: t) auto

lemma forced_close_sel [simp]: "tState (forced_close ps t) = tState t" "tListener (forced_close ps t) = tListener t" "tPeers (forced_close ps t) = tPeers t"
  "tConnections (forced_close ps t) = tConnections t" "tWorkDone (forced_close ps t) = tWorkDone t" "tWorkCount (forced_close ps t) = tWorkCount t"
  "tShutdown (forced_close ps t) = tShutdown t" "tOnce (forced_close ps t) = tOnce t" "hNextPeer (forced_close ps t) = hNextPeer t"
  "hClosed (forced_close ps t) = hClosed t" "hNextChan (forced_close ps t) = hNextChan t" "hPanic (forced_close ps t) = hPanic t"
  "RemoteAddr (hPeers (forced_close ps t) q) = RemoteAddr (hPeers t q)" "outbound (hPeers (forced_close ps t) q) = outbound (hPeers t q)"
  "authIdentity (hPeers (forced_close ps t) q) = authIdentity (hPeers t q)" "authCapabilities (hPeers (forced_close ps t) q) = authCapabilities (hPeers t q)"
  "authMethod (hPeers (forced_close ps t) q) = authMethod (hPeers t q)" "connClosed (hPeers (forced_close ps t) q) = (q \<in> set ps \<or> connClosed (hPeers t q))"
  "ActivePeers (tMetrics (forced_close ps t)) = ActivePeers (tMetrics t)" "ShutdownTrackedPeers (tMetrics (forced_close ps t)) = ShutdownTrackedPeers (tMetrics t)"
  "ShutdownTrackedGoroutines (tMetrics (forced_close ps t)) = ShutdownTrackedGoroutines (tMetrics t)"
  by (simp_all add: forced_close_def closeConnections_def Let_def closes_sel)

lemma auth_sel [simp]: "tState (snd (run_auth a c w r p t)) = tState t" "tListener (snd (run_auth a c w r p t)) = tListener t"
  "tPeers (snd (run_auth a c w r p t)) = tPeers t" "tConnections (snd (run_auth a c w r p t)) = tConnections t"
  "tWorkDone (snd (run_auth a c w r p t)) = tWorkDone t" "tWorkCount (snd (run_auth a c w r p t)) = tWorkCount t"
  "tShutdown (snd (run_auth a c w r p t)) = tShutdown t" "tOnce (snd (run_auth a c w r p t)) = tOnce t" "hNextPeer (snd (run_auth a c w r p t)) = hNextPeer t"
  "hClosed (snd (run_auth a c w r p t)) = hClosed t" "hNextChan (snd (run_auth a c w r p t)) = hNextChan t" "hPanic (snd (run_auth a c w r p t)) = hPanic t"
  "RemoteAddr (hPeers (snd (run_auth a c w r p t)) q) = RemoteAddr (hPeers t q)" "outbound (hPeers (snd (run_auth a c w r p t)) q) = outbound (hPeers t q)"
  "connClosed (hPeers (snd (run_auth a c w r p t)) q) = connClosed (hPeers t q)"
  "ActivePeers (tMetrics (snd (run_auth a c w r p t))) = ActivePeers (tMetrics t)"
  "ShutdownTrackedPeers (tMetrics (snd (run_auth a c w r p t))) = ShutdownTrackedPeers (tMetrics t)"
  "ShutdownTrackedGoroutines (tMetrics (snd (run_auth a c w r p t))) = ShutdownTrackedGoroutines (tMetrics t)"
  by (simp_all add: run_auth_def Let_def split: prod.split)

section \<open>The invariants\<close>

subsection \<open>Tracked work\<close>

text \<open>The work tokens a goroutine holds: its own, and the one already taken for the goroutine it is about to start.\<close>

fun tokens :: "task \<Rightarrow> int" where
  "tokens (Listening _) = 0"
| "tokens (Accepting _) = 1"
| "tokens (Handling _ pc) = (if pc = HandleServe then 2 else 1)"
| "tokens (Serving _ _) = 1"
| "tokens (Dialling pc) = (case pc of DialStart _ \<Rightarrow> 0 | DialReturn _ \<Rightarrow> 0 | DialServe _ \<Rightarrow> 2 | _ \<Rightarrow> 1)"
| "tokens (Draining _) = 0"
| "tokens (Closing _) = 0"

definition work_inv :: "TCPTransport \<Rightarrow> int \<Rightarrow> bool" where
  "work_inv t n \<longleftrightarrow> tWorkCount t = n \<and> ShutdownTrackedGoroutines (tMetrics t) = of_int n \<and> (tWorkDone t \<in> set (hClosed t) \<longleftrightarrow> n = 0) \<and>
     (\<forall>c\<in>set (hClosed t). c < hNextChan t) \<and> tWorkDone t < hNextChan t \<and> \<not> hPanic t"

lemma work_same: "work_inv t n \<Longrightarrow> tWorkCount t' = tWorkCount t \<Longrightarrow> ShutdownTrackedGoroutines (tMetrics t') = ShutdownTrackedGoroutines (tMetrics t) \<Longrightarrow>
    tWorkDone t' = tWorkDone t \<Longrightarrow> hClosed t' = hClosed t \<Longrightarrow> hNextChan t \<le> hNextChan t' \<Longrightarrow> hPanic t' = hPanic t \<Longrightarrow> work_inv t' n"
  by (auto simp: work_inv_def)

lemma start_work: "work_inv t n \<Longrightarrow> 0 \<le> n \<Longrightarrow> startWorkLocked t = (b, t') \<Longrightarrow> work_inv t' (if b then n + 1 else n)"
  by (auto simp: startWorkLocked_def work_inv_def Let_def less_SucI split: if_splits)

lemma finish_work: "work_inv t (n + 1) \<Longrightarrow> 0 \<le> n \<Longrightarrow> work_inv (finishWork t) n"
  by (auto simp: finishWork_def work_inv_def Let_def close_chan_def)

lemma auth_method_sel [simp]: "tMetrics (set_auth_method c p t) = tMetrics t" "tState (set_auth_method c p t) = tState t" "tListener (set_auth_method c p t) = tListener t"
  "tPeers (set_auth_method c p t) = tPeers t" "tConnections (set_auth_method c p t) = tConnections t" "tWorkDone (set_auth_method c p t) = tWorkDone t"
  "tWorkCount (set_auth_method c p t) = tWorkCount t" "tShutdown (set_auth_method c p t) = tShutdown t" "tOnce (set_auth_method c p t) = tOnce t"
  "hNextPeer (set_auth_method c p t) = hNextPeer t" "hClosed (set_auth_method c p t) = hClosed t" "hNextChan (set_auth_method c p t) = hNextChan t"
  "hPanic (set_auth_method c p t) = hPanic t" "RemoteAddr (hPeers (set_auth_method c p t) q) = RemoteAddr (hPeers t q)"
  "outbound (hPeers (set_auth_method c p t) q) = outbound (hPeers t q)" "authIdentity (hPeers (set_auth_method c p t) q) = authIdentity (hPeers t q)"
  "authCapabilities (hPeers (set_auth_method c p t) q) = authCapabilities (hPeers t q)" "connClosed (hPeers (set_auth_method c p t) q) = connClosed (hPeers t q)"
  "authMethod (hPeers (set_auth_method c p t) q) = (if q = p \<and> peerAuthEnabled (tcAuth c) then PeerAuthMethodSharedToken else authMethod (hPeers t q))"
  by (simp_all add: set_auth_method_def)

lemma handlePeer_cases:
  assumes "handlePeer c p t = (r, t')"
  obtains (refused) f where "r \<noteq> Inr True" "t' = set_auth_method c p t \<or> t' = conn_close p (metric f (set_auth_method c p t))"
      "\<And>m. ActivePeers (f m) = ActivePeers m" "\<And>m. ShutdownTrackedPeers (f m) = ShutdownTrackedPeers m"
      "\<And>m. ShutdownTrackedGoroutines (f m) = ShutdownTrackedGoroutines m" "r = Inr False \<Longrightarrow> t' = conn_close p (metric f (set_auth_method c p t))"
  | (registered) "r = Inr True" "tState t = transportStateOpen" "map_of (tPeers t) (RemoteAddr (hPeers t p)) = None"
      "MaxPeers c > 0 \<longrightarrow> int (length (tPeers t)) < MaxPeers c"
      "t' = metric (\<lambda>m. m\<lparr>ActivePeers := ActivePeers m + 1, ShutdownTrackedPeers := ShutdownTrackedPeers m + 1\<rparr>)
        ((snd (startWorkLocked (set_auth_method c p t)))\<lparr>tPeers := (RemoteAddr (hPeers t p), p) # tPeers t\<rparr>)"
proof -
  let ?u = "set_auth_method c p t" and ?rej = "\<lambda>m. m\<lparr>PeersRejected := PeersRejected m + 1\<rparr>"
  have m: "metric id x = x" for x by (simp add: metric_def)
  consider "tState t \<noteq> transportStateOpen" | "tState t = transportStateOpen" "map_of (tPeers t) (RemoteAddr (hPeers t p)) \<noteq> None"
    | "tState t = transportStateOpen" "map_of (tPeers t) (RemoteAddr (hPeers t p)) = None" "MaxPeers c > 0" "int (length (tPeers t)) \<ge> MaxPeers c"
    | "tState t = transportStateOpen" "map_of (tPeers t) (RemoteAddr (hPeers t p)) = None" "MaxPeers c > 0 \<longrightarrow> int (length (tPeers t)) < MaxPeers c"
    by linarith
  then show ?thesis
  proof cases
    case 1
    with assms show ?thesis by (intro refused [of id]) (auto simp: handlePeer_def Let_def)
  next
    case 2
    with assms show ?thesis by (intro refused [of id]) (auto simp: handlePeer_def Let_def m)
  next
    case 3
    with assms show ?thesis by (intro refused [of ?rej]) (auto simp: handlePeer_def Let_def)
  next
    case 4
    obtain b u where u: "startWorkLocked ?u = (b, u)" by fastforce
    then have "b" "tPeers u = tPeers t" using 4 start_sel(12) [of ?u] start_sel(3) [of ?u] by simp_all
    with 4 u assms show ?thesis by (intro registered) (auto simp: handlePeer_def Let_def)
  qed
qed

lemma start_work': "work_inv t n \<Longrightarrow> 0 \<le> n \<Longrightarrow> tState t = transportStateOpen \<Longrightarrow> work_inv (snd (startWorkLocked t)) (n + 1)"
  using start_work [of t n True] start_sel(12) [of t] by (cases "startWorkLocked t") simp

lemma handlePeer_work:
  assumes "work_inv t n" "0 \<le> n" "handlePeer c p t = (r, t')"
  shows "work_inv t' (if r = Inr True then n + 1 else n)"
  using assms(3)
proof (cases rule: handlePeer_cases)
  case (refused f)
  then show ?thesis using assms(1) by (auto elim!: work_same)
next
  case registered
  have "work_inv (set_auth_method c p t) n" by (rule work_same [OF assms(1)]) simp_all
  from start_work' [OF this assms(2)] have "work_inv (snd (startWorkLocked (set_auth_method c p t))) (n + 1)" using registered(2) by simp
  then show ?thesis using registered by (auto elim!: work_same)
qed

lemma unregister_sel [simp]: "tState (unregisterPeer p t) = tState t" "tListener (unregisterPeer p t) = tListener t" "tConnections (unregisterPeer p t) = tConnections t"
  "tWorkDone (unregisterPeer p t) = tWorkDone t" "tWorkCount (unregisterPeer p t) = tWorkCount t" "tShutdown (unregisterPeer p t) = tShutdown t"
  "tOnce (unregisterPeer p t) = tOnce t" "hPeers (unregisterPeer p t) = hPeers t" "hNextPeer (unregisterPeer p t) = hNextPeer t"
  "hClosed (unregisterPeer p t) = hClosed t" "hNextChan (unregisterPeer p t) = hNextChan t" "hPanic (unregisterPeer p t) = hPanic t"
  "ShutdownTrackedGoroutines (tMetrics (unregisterPeer p t)) = ShutdownTrackedGoroutines (tMetrics t)"
  by (simp_all add: unregisterPeer_def Let_def)

lemmas step_defs = listen_step_def accept_step_def handle_step_def serve_step_def dial_step_def drain_step_def close_step_def

lemmas step_splits = if_splits prod.splits sum.splits bool.splits option.splits choice.splits listen_pc.splits accept_pc.splits handle_pc.splits
  serve_pc.splits dial_pc.splits drain_pc.splits close_pc.splits once.splits

lemma work_eq [simp]:
  "(\<And>m. ShutdownTrackedGoroutines (f m) = ShutdownTrackedGoroutines m) \<Longrightarrow> work_inv (metric f t) n = work_inv t n"
  "work_inv (conn_close p t) n = work_inv t n" "work_inv (connections_add p t) n = work_inv t n" "work_inv (removeConnection p t) n = work_inv t n"
  "work_inv (unregisterPeer p t) n = work_inv t n" "work_inv (forced_close ps t) n = work_inv t n" "work_inv (completeShutdown k t) n = work_inv t n"
  "work_inv (dial_error t) n = work_inv t n" "work_inv (t\<lparr>tListener := l\<rparr>) n = work_inv t n" "work_inv (t\<lparr>tOnce := x\<rparr>) n = work_inv t n"
  "work_inv (snd (new_peer q t)) n = work_inv t n" "work_inv (snd (run_auth a c w r p t)) n = work_inv t n" "work_inv (snd (beginShutdown t)) n = work_inv t n"
  by (simp_all add: work_inv_def removeConnection_def completeShutdown_def markClosed_def dial_error_def new_peer_def beginShutdown_def Let_def split: prod.split)

lemma work_chan: "work_inv t n \<Longrightarrow> work_inv (t\<lparr>hNextChan := hNextChan t + 1\<rparr>) n"
  by (auto simp: work_inv_def less_SucI)

lemma start_cases:
  obtains (started) u where "startWorkLocked t = (True, u)" "tState t = transportStateOpen"
  | (refused) "startWorkLocked t = (False, t)" "tState t \<noteq> transportStateOpen"
proof (cases "tState t = transportStateOpen")
  case True
  then show ?thesis using started [of "snd (startWorkLocked t)"] start_sel(12) [of t] by (metis prod.collapse)
next
  case False
  then show ?thesis by (intro refused) (simp_all add: startWorkLocked_def)
qed

lemma work_listen:
  assumes "listen_step c ch pc t = Some (t', new)" "work_inv t n" "0 \<le> n"
  shows "work_inv t' (sum_list (map tokens new) + n)"
proof (cases pc)
  case ListenStart
  with assms show ?thesis by (simp add: listen_step_def Let_def split: sum.splits if_splits) auto
next
  case ListenBind
  with assms show ?thesis by (cases ch) (auto simp: listen_step_def Let_def dest: work_chan)
next
  case (ListenInstall ln)
  with assms show ?thesis
    using start_work [of "t\<lparr>tListener := Some ln\<rparr>" n True] by (cases rule: start_cases [of "t\<lparr>tListener := Some ln\<rparr>"])
      (auto simp: listen_step_def Let_def add.commute split: if_splits)
next
  case (ListenReturn r)
  with assms show ?thesis by (simp add: listen_step_def)
qed

lemma work_accept:
  assumes "accept_step ch pc t = Some (t', new)" "work_inv t (n + 1)" "0 \<le> n"
  shows "work_inv t' (sum_list (map tokens new) + n)"
proof (cases pc)
  case AcceptLoad
  with assms show ?thesis by (auto simp: accept_step_def add.commute split: option.splits)
next
  case (AcceptWait ln)
  with assms show ?thesis by (cases ch) (auto simp: accept_step_def add.commute split_beta)
next
  case (AcceptAdmit tp)
  with assms show ?thesis
    using start_work [OF assms(2), of True] by (cases rule: start_cases [of t]) (auto simp: accept_step_def add_ac)
next
  case AcceptFinish
  with assms show ?thesis by (auto simp: accept_step_def finish_work)
qed

lemma work_handle:
  assumes "handle_step c ch tp pc t = Some (t', new)" "work_inv t (n + tokens (Handling tp pc))" "0 \<le> n"
  shows "work_inv t' (sum_list (map tokens new) + n)"
proof (cases pc)
  case HandleTLS
  with assms show ?thesis by (cases ch) (auto simp: handle_step_def add.commute split: if_splits)
next
  case HandleAuth
  with assms show ?thesis by (cases ch) (auto simp: handle_step_def add.commute split_beta split: sum.splits)
next
  case HandleRegister
  with assms have w: "work_inv t (n + 1)" by simp
  obtain r u where r: "handlePeer c tp t = (r, u)" by fastforce
  have "work_inv u (if r = Inr True then n + 1 + 1 else n + 1)" by (rule handlePeer_work [OF w _ r]) (use assms(3) in simp)
  with HandleRegister r assms show ?thesis by (auto simp: handle_step_def add_ac split: sum.splits bool.splits if_splits)
next
  case HandleServe
  with assms show ?thesis by (auto simp: handle_step_def add.commute split: if_splits)
next
  case HandleRemove
  with assms show ?thesis by (auto simp: handle_step_def add.commute)
next
  case HandleFinish
  with assms show ?thesis by (auto simp: handle_step_def finish_work)
qed

lemma work_serve:
  assumes "serve_step c ch tp pc t = Some (t', new)" "work_inv t (n + 1)" "0 \<le> n"
  shows "work_inv t' (sum_list (map tokens new) + n)"
proof (cases pc)
  case ServeLoop
  with assms show ?thesis by (cases ch) (auto simp: serve_step_def add.commute split: if_splits sum.splits)
qed (use assms in \<open>auto simp: serve_step_def finish_work add.commute\<close>)

lemma work_dial:
  assumes "dial_step c ch pc t = Some (t', new)" "work_inv t (n + tokens (Dialling pc))" "0 \<le> n"
  shows "work_inv t' (sum_list (map tokens new) + n)"
proof (cases pc)
  case (DialStart a)
  with assms show ?thesis
    using start_work [of t n True] by (cases rule: start_cases [of t]) (auto simp: dial_step_def beginWork_def add.commute split: sum.splits)
next
  case (DialConnect a)
  with assms show ?thesis by (cases ch) (auto simp: dial_step_def add.commute split_beta split: if_splits)
next
  case (DialTrack p)
  with assms show ?thesis by (auto simp: dial_step_def trackConnection_def add.commute split: if_splits)
next
  case (DialTLS p)
  with assms show ?thesis by (cases ch) (auto simp: dial_step_def add.commute split: if_splits)
next
  case (DialAuth p)
  with assms show ?thesis by (cases ch) (auto simp: dial_step_def add.commute split_beta split: sum.splits)
next
  case (DialRegister p)
  with assms have w: "work_inv t (n + 1)" by simp
  obtain r u where r: "handlePeer c p t = (r, u)" by fastforce
  have "work_inv u (if r = Inr True then n + 1 + 1 else n + 1)" by (rule handlePeer_work [OF w _ r]) (use assms(3) in simp)
  with DialRegister r assms show ?thesis by (auto simp: dial_step_def add_ac split: sum.splits bool.splits if_splits)
qed (use assms in \<open>auto simp: dial_step_def finish_work add.commute split: if_splits\<close>)

lemma work_shutdown:
  "drain_step ch pc t = Some (t', new) \<Longrightarrow> work_inv t n \<Longrightarrow> work_inv t' (sum_list (map tokens new) + n)"
  "close_step ch pc' t = Some (t', new) \<Longrightarrow> work_inv t n \<Longrightarrow> work_inv t' (sum_list (map tokens new) + n)"
  by (cases pc; cases ch; auto simp: drain_step_def split_beta Let_def split: if_splits once.splits)
    (cases pc'; auto simp: close_step_def split_beta Let_def split: once.splits)

lemma task_work:
  assumes "task_step c ch k t = Some (t', new)" "work_inv t (n + tokens k)" "0 \<le> n"
  shows "work_inv t' (sum_list (map tokens new) + n)"
  using assms by (cases k) (auto intro: work_listen work_accept work_handle work_serve work_dial work_shutdown)

subsection \<open>Tracked connections\<close>

text \<open>The connection a goroutine answers for in the map of connections, and the one it has not tracked yet.\<close>

fun tracked :: "task \<Rightarrow> nat list" where
  "tracked (Handling p pc) = (if pc = HandleFinish then [] else [p])"
| "tracked (Serving p pc) = (if pc = ServeFinish then [] else [p])"
| "tracked (Dialling pc) = (case pc of DialTLS p \<Rightarrow> [p] | DialAuth p \<Rightarrow> [p] | DialRegister p \<Rightarrow> [p] | DialServe p \<Rightarrow> [p] | DialRemove p _ \<Rightarrow> [p] | _ \<Rightarrow> [])"
| "tracked _ = []"

fun untracked :: "task \<Rightarrow> nat list" where
  "untracked (Accepting (AcceptAdmit p)) = [p]"
| "untracked (Dialling (DialTrack p)) = [p]"
| "untracked _ = []"

definition conn_inv :: "TCPTransport \<Rightarrow> nat list \<Rightarrow> nat list \<Rightarrow> bool" where
  "conn_inv t cs fr \<longleftrightarrow> mset (tConnections t) = mset cs \<and> distinct (cs @ fr) \<and> (\<forall>p\<in>set (cs @ fr). p < hNextPeer t)"

lemma conn_perm: "mset cs = mset cs' \<Longrightarrow> mset fr = mset fr' \<Longrightarrow> conn_inv t cs fr = conn_inv t cs' fr'"
  unfolding conn_inv_def by (metis mset_append mset_eq_imp_distinct_iff mset_eq_setD)

lemma conn_eq [simp]:
  "conn_inv (metric f t) cs fr = conn_inv t cs fr" "conn_inv (conn_close p t) cs fr = conn_inv t cs fr" "conn_inv (finishWork t) cs fr = conn_inv t cs fr"
  "conn_inv (snd (startWorkLocked t)) cs fr = conn_inv t cs fr" "conn_inv (unregisterPeer p t) cs fr = conn_inv t cs fr"
  "conn_inv (forced_close ps t) cs fr = conn_inv t cs fr" "conn_inv (completeShutdown k t) cs fr = conn_inv t cs fr" "conn_inv (dial_error t) cs fr = conn_inv t cs fr"
  "conn_inv (t\<lparr>tListener := l\<rparr>) cs fr = conn_inv t cs fr" "conn_inv (t\<lparr>tOnce := x\<rparr>) cs fr = conn_inv t cs fr" "conn_inv (t\<lparr>hNextChan := n\<rparr>) cs fr = conn_inv t cs fr"
  "conn_inv (snd (run_auth a c w r p t)) cs fr = conn_inv t cs fr" "conn_inv (snd (beginShutdown t)) cs fr = conn_inv t cs fr"
  by (simp_all add: conn_inv_def completeShutdown_def markClosed_def dial_error_def beginShutdown_def Let_def split_beta)

lemma conn_start: "startWorkLocked t = (b, u) \<Longrightarrow> conn_inv t cs fr \<Longrightarrow> conn_inv u cs fr"
  by (metis conn_eq(4) snd_conv)

lemma conn_handlePeer: "handlePeer c p t = (r, u) \<Longrightarrow> conn_inv t cs fr \<Longrightarrow> conn_inv u cs fr"
  by (elim handlePeer_cases) (auto simp: conn_inv_def)

lemma conn_new: "conn_inv t cs fr \<Longrightarrow> conn_inv (snd (new_peer q t)) cs (fst (new_peer q t) # fr)"
  by (auto simp: conn_inv_def new_peer_def less_SucI)

lemma conn_drop: "conn_inv t cs (p # fr) \<Longrightarrow> conn_inv t cs fr"
  by (auto simp: conn_inv_def)

lemma conn_add: "conn_inv t cs (p # fr) \<Longrightarrow> conn_inv (connections_add p t) (p # cs) fr"
  unfolding conn_inv_def connections_add_def by (auto dest: mset_eq_setD)

lemma conn_remove:
  assumes "conn_inv t (p # cs) fr"
  shows "conn_inv (removeConnection p t) cs fr"
proof -
  have "mset (filter (\<lambda>c. c \<noteq> p) (tConnections t)) = mset (filter (\<lambda>c. c \<noteq> p) (p # cs))"
    using assms unfolding conn_inv_def by (metis mset_filter)
  also have "filter (\<lambda>c. c \<noteq> p) (p # cs) = cs" using assms by (auto simp: conn_inv_def filter_id_conv)
  finally show ?thesis using assms by (auto simp: conn_inv_def removeConnection_def)
qed

lemma conn_listen: "listen_step c ch pc t = Some (t', new) \<Longrightarrow> conn_inv t cs fr \<Longrightarrow> conn_inv t' (concat (map tracked new) @ cs) (concat (map untracked new) @ fr)"
proof (cases pc)
  case (ListenInstall ln)
  then show "listen_step c ch pc t = Some (t', new) \<Longrightarrow> conn_inv t cs fr \<Longrightarrow> ?thesis"
    by (cases rule: start_cases [of "t\<lparr>tListener := Some ln\<rparr>"]) (auto simp: listen_step_def Let_def intro: conn_start [of "t\<lparr>tListener := Some ln\<rparr>"] split: if_splits)
qed (auto simp: listen_step_def Let_def split: sum.splits if_splits choice.splits)

lemma conn_accept:
  assumes "accept_step ch pc t = Some (t', new)" "conn_inv t cs (untracked (Accepting pc) @ fr)"
  shows "conn_inv t' (concat (map tracked new) @ cs) (concat (map untracked new) @ fr)"
proof (cases pc)
  case (AcceptWait ln)
  with assms show ?thesis by (cases ch) (auto simp: accept_step_def split_beta conn_new)
next
  case (AcceptAdmit p)
  with assms show ?thesis
    by (cases rule: start_cases [of t]) (auto simp: accept_step_def intro!: conn_add intro: conn_start conn_drop)
qed (use assms in \<open>auto simp: accept_step_def split: option.splits\<close>)

lemma conn_handle:
  assumes "handle_step c ch p pc t = Some (t', new)" "conn_inv t (tracked (Handling p pc) @ cs) fr"
  shows "conn_inv t' (concat (map tracked new) @ cs) (concat (map untracked new) @ fr)"
proof (cases pc)
  case HandleAuth
  with assms show ?thesis by (cases ch) (auto simp: handle_step_def split_beta split: sum.splits)
next
  case HandleRegister
  obtain r u where r: "handlePeer c p t = (r, u)" by fastforce
  with HandleRegister assms show ?thesis by (auto simp: handle_step_def intro: conn_handlePeer split: sum.splits bool.splits)
next
  case HandleTLS
  with assms show ?thesis by (cases ch) (auto simp: handle_step_def split: if_splits)
qed (use assms in \<open>auto simp: handle_step_def conn_remove\<close>)

lemma conn_serve:
  assumes "serve_step c ch p pc t = Some (t', new)" "conn_inv t (tracked (Serving p pc) @ cs) fr"
  shows "conn_inv t' (concat (map tracked new) @ cs) (concat (map untracked new) @ fr)"
proof (cases pc)
  case ServeLoop
  with assms show ?thesis by (cases ch) (auto simp: serve_step_def split: if_splits sum.splits)
qed (use assms in \<open>auto simp: serve_step_def conn_remove\<close>)

lemma conn_dial:
  assumes "dial_step c ch pc t = Some (t', new)" "conn_inv t (tracked (Dialling pc) @ cs) (untracked (Dialling pc) @ fr)"
  shows "conn_inv t' (concat (map tracked new) @ cs) (concat (map untracked new) @ fr)"
proof (cases pc)
  case (DialStart a)
  with assms show ?thesis
    by (cases rule: start_cases [of t]) (auto simp: dial_step_def beginWork_def intro: conn_start split: sum.splits)
next
  case (DialConnect a)
  with assms show ?thesis by (cases ch) (auto simp: dial_step_def split_beta conn_new split: if_splits)
next
  case (DialTrack p)
  with assms show ?thesis by (auto simp: dial_step_def trackConnection_def conn_add dest: conn_drop split: if_splits)
next
  case (DialTLS p)
  with assms show ?thesis by (cases ch) (auto simp: dial_step_def split: if_splits)
next
  case (DialAuth p)
  with assms show ?thesis by (cases ch) (auto simp: dial_step_def split_beta split: sum.splits)
next
  case (DialRegister p)
  obtain r u where r: "handlePeer c p t = (r, u)" by fastforce
  with DialRegister assms show ?thesis by (auto simp: dial_step_def intro: conn_handlePeer split: sum.splits bool.splits)
qed (use assms in \<open>auto simp: dial_step_def conn_remove\<close>)

lemma conn_shutdown:
  "drain_step ch pc t = Some (t', new) \<Longrightarrow> conn_inv t cs fr \<Longrightarrow> conn_inv t' (concat (map tracked new) @ cs) (concat (map untracked new) @ fr)"
  "close_step ch pc' t = Some (t', new) \<Longrightarrow> conn_inv t cs fr \<Longrightarrow> conn_inv t' (concat (map tracked new) @ cs) (concat (map untracked new) @ fr)"
  by (cases pc; cases ch; auto simp: drain_step_def split_beta Let_def split: if_splits once.splits)
    (cases pc'; auto simp: close_step_def split_beta Let_def split: once.splits)

lemma task_conn:
  assumes "task_step c ch k t = Some (t', new)" "conn_inv t (tracked k @ cs) (untracked k @ fr)"
  shows "conn_inv t' (concat (map tracked new) @ cs) (concat (map untracked new) @ fr)"
  using assms by (cases k) (auto intro: conn_listen conn_accept conn_handle conn_serve conn_dial conn_shutdown simp del: tracked.simps(1-3))

subsection \<open>Registered peers\<close>

text \<open>The peer a goroutine answers for in the map of peers.\<close>

fun registered :: "task \<Rightarrow> nat list" where
  "registered (Handling p pc) = (if pc = HandleServe then [p] else [])"
| "registered (Serving p pc) = (if pc = ServeLoop \<or> pc = ServeUnregister then [p] else [])"
| "registered (Dialling pc) = (case pc of DialServe p \<Rightarrow> [p] | _ \<Rightarrow> [])"
| "registered _ = []"

definition peer_inv :: "transport_config \<Rightarrow> TCPTransport \<Rightarrow> nat list \<Rightarrow> bool" where
  "peer_inv c t rs \<longleftrightarrow> distinct (map fst (tPeers t)) \<and> (\<forall>e\<in>set (tPeers t). fst e = RemoteAddr (hPeers t (snd e)) \<and> snd e < hNextPeer t) \<and>
     mset (map snd (tPeers t)) = mset rs \<and> ActivePeers (tMetrics t) = of_nat (length (tPeers t)) \<and>
     ShutdownTrackedPeers (tMetrics t) = of_nat (length (tPeers t)) \<and> (MaxPeers c > 0 \<longrightarrow> int (length (tPeers t)) \<le> MaxPeers c)"

lemma peer_perm: "mset rs = mset rs' \<Longrightarrow> peer_inv c t rs = peer_inv c t rs'"
  by (simp add: peer_inv_def)

lemma peer_eq [simp]:
  "(\<And>m. ActivePeers (f m) = ActivePeers m \<and> ShutdownTrackedPeers (f m) = ShutdownTrackedPeers m) \<Longrightarrow> peer_inv c (metric f t) rs = peer_inv c t rs"
  "peer_inv c (conn_close p t) rs = peer_inv c t rs" "peer_inv c (finishWork t) rs = peer_inv c t rs" "peer_inv c (connections_add p t) rs = peer_inv c t rs"
  "peer_inv c (removeConnection p t) rs = peer_inv c t rs" "peer_inv c (snd (startWorkLocked t)) rs = peer_inv c t rs"
  "peer_inv c (forced_close ps t) rs = peer_inv c t rs" "peer_inv c (completeShutdown k t) rs = peer_inv c t rs" "peer_inv c (dial_error t) rs = peer_inv c t rs"
  "peer_inv c (t\<lparr>tListener := l\<rparr>) rs = peer_inv c t rs" "peer_inv c (t\<lparr>tOnce := x\<rparr>) rs = peer_inv c t rs" "peer_inv c (t\<lparr>hNextChan := n\<rparr>) rs = peer_inv c t rs"
  "peer_inv c (snd (run_auth a d w r p t)) rs = peer_inv c t rs" "peer_inv c (snd (beginShutdown t)) rs = peer_inv c t rs"
  by (simp_all add: peer_inv_def completeShutdown_def markClosed_def dial_error_def beginShutdown_def removeConnection_def Let_def split_beta)

lemma peer_start: "startWorkLocked t = (b, u) \<Longrightarrow> peer_inv c t rs \<Longrightarrow> peer_inv c u rs"
  by (metis peer_eq(6) snd_conv)

lemma peer_new: "peer_inv c t rs \<Longrightarrow> peer_inv c (snd (new_peer q t)) rs"
  by (fastforce simp: peer_inv_def new_peer_def)

lemma peer_handlePeer:
  assumes "handlePeer c p t = (r, u)" "peer_inv c t rs" "p < hNextPeer t"
  shows "peer_inv c u (if r = Inr True then p # rs else rs)"
  using assms(1)
proof (cases rule: handlePeer_cases)
  case (refused f)
  from refused(2) show ?thesis by (elim disjE) (use refused(1,3,4) assms(2) in \<open>simp_all add: peer_inv_def\<close>)
next
  case registered
  have "0 < MaxPeers c \<longrightarrow> 1 + int (length (tPeers t)) \<le> MaxPeers c" using registered(4) by linarith
  then show ?thesis using registered assms(2,3) by (simp add: peer_inv_def map_of_eq_None_iff)
qed

lemma peer_unregister:
  assumes "peer_inv c t (p # rs)"
  shows "peer_inv c (unregisterPeer p t) rs"
proof -
  let ?k = "RemoteAddr (hPeers t p)" and ?ps = "tPeers t"
  have "p \<in> snd ` set ?ps" using assms unfolding peer_inv_def by (metis list.set_intros(1) list.set_map mset_eq_setD)
  then have e: "(?k, p) \<in> set ?ps" and d: "distinct (map fst ?ps)" using assms by (auto simp: peer_inv_def)
  obtain xs ys where xy: "?ps = xs @ (?k, p) # ys" using split_list [OF e] by blast
  have n: "?k \<notin> fst ` set xs" "?k \<notin> fst ` set ys" using d unfolding xy by simp_all
  have g: "filter (\<lambda>e. fst e \<noteq> ?k) zs = zs" if "?k \<notin> fst ` set zs" for zs :: "(bytes \<times> nat) list"
    using that by (induction zs) auto
  have f: "filter (\<lambda>e. fst e \<noteq> ?k) ?ps = xs @ ys" unfolding xy by (simp add: g n)
  have "map_of ?ps ?k \<noteq> None" using d e by simp
  then have u: "unregisterPeer p t = metric (\<lambda>m. m\<lparr>ActivePeers := ActivePeers m - 1, ShutdownTrackedPeers := ShutdownTrackedPeers m - 1\<rparr>) (t\<lparr>tPeers := xs @ ys\<rparr>)"
    by (simp add: unregisterPeer_def Let_def f)
  have d': "distinct (map fst (xs @ ys))" using d unfolding xy by simp
  have "0 < MaxPeers c \<longrightarrow> int (length (xs @ ys)) \<le> MaxPeers c" using assms unfolding peer_inv_def xy by auto
  moreover have "\<forall>e\<in>set (xs @ ys). fst e = RemoteAddr (hPeers t (snd e)) \<and> snd e < hNextPeer t" using assms unfolding peer_inv_def xy by simp
  ultimately show ?thesis using assms d' unfolding u peer_inv_def by (simp only: xy) simp
qed

lemma peer_listen: "listen_step c ch pc t = Some (t', new) \<Longrightarrow> peer_inv d t rs \<Longrightarrow> peer_inv d t' (concat (map registered new) @ rs)"
proof (cases pc)
  case (ListenInstall ln)
  then show "listen_step c ch pc t = Some (t', new) \<Longrightarrow> peer_inv d t rs \<Longrightarrow> ?thesis"
    by (cases rule: start_cases [of "t\<lparr>tListener := Some ln\<rparr>"])
      (auto simp: listen_step_def Let_def intro: peer_start [of "t\<lparr>tListener := Some ln\<rparr>"] split: if_splits)
qed (auto simp: listen_step_def Let_def split: sum.splits if_splits choice.splits)

lemma peer_accept:
  assumes "accept_step ch pc t = Some (t', new)" "peer_inv c t rs"
  shows "peer_inv c t' (concat (map registered new) @ rs)"
proof (cases pc)
  case (AcceptWait ln)
  with assms show ?thesis by (cases ch) (auto simp: accept_step_def split_beta peer_new)
next
  case (AcceptAdmit p)
  with assms show ?thesis by (cases rule: start_cases [of t]) (auto simp: accept_step_def intro: peer_start)
qed (use assms in \<open>auto simp: accept_step_def split: option.splits\<close>)

lemma peer_handle:
  assumes "handle_step c ch p pc t = Some (t', new)" "peer_inv c t (registered (Handling p pc) @ rs)" "\<forall>q\<in>set (tracked (Handling p pc)). q < hNextPeer t"
  shows "peer_inv c t' (concat (map registered new) @ rs)"
proof (cases pc)
  case HandleAuth
  with assms show ?thesis by (cases ch) (auto simp: handle_step_def split_beta split: sum.splits)
next
  case HandleRegister
  obtain r u where r: "handlePeer c p t = (r, u)" by fastforce
  have "peer_inv c u (if r = Inr True then p # rs else rs)" by (rule peer_handlePeer [OF r]) (use HandleRegister assms in simp_all)
  with HandleRegister assms r show ?thesis by (auto simp: handle_step_def split: sum.splits bool.splits if_splits)
next
  case HandleTLS
  with assms show ?thesis by (cases ch) (auto simp: handle_step_def split: if_splits)
qed (use assms in \<open>auto simp: handle_step_def split: if_splits\<close>)

lemma peer_serve:
  assumes "serve_step c ch p pc t = Some (t', new)" "peer_inv d t (registered (Serving p pc) @ rs)"
  shows "peer_inv d t' (concat (map registered new) @ rs)"
proof (cases pc)
  case ServeLoop
  with assms show ?thesis by (cases ch) (auto simp: serve_step_def split: if_splits sum.splits)
qed (use assms in \<open>auto simp: serve_step_def peer_unregister\<close>)

lemma peer_dial:
  assumes "dial_step c ch pc t = Some (t', new)" "peer_inv c t (registered (Dialling pc) @ rs)" "\<forall>q\<in>set (tracked (Dialling pc)). q < hNextPeer t"
  shows "peer_inv c t' (concat (map registered new) @ rs)"
proof (cases pc)
  case (DialStart a)
  with assms show ?thesis
    by (cases rule: start_cases [of t]) (auto simp: dial_step_def beginWork_def intro: peer_start split: sum.splits)
next
  case (DialConnect a)
  with assms show ?thesis by (cases ch) (auto simp: dial_step_def split_beta peer_new split: if_splits)
next
  case (DialTrack p)
  with assms show ?thesis by (auto simp: dial_step_def trackConnection_def split: if_splits)
next
  case (DialTLS p)
  with assms show ?thesis by (cases ch) (auto simp: dial_step_def split: if_splits)
next
  case (DialAuth p)
  with assms show ?thesis by (cases ch) (auto simp: dial_step_def split_beta split: sum.splits)
next
  case (DialRegister p)
  obtain r u where r: "handlePeer c p t = (r, u)" by fastforce
  have "peer_inv c u (if r = Inr True then p # rs else rs)" by (rule peer_handlePeer [OF r]) (use DialRegister assms in simp_all)
  with DialRegister assms r show ?thesis by (auto simp: dial_step_def split: sum.splits bool.splits if_splits)
qed (use assms in \<open>auto simp: dial_step_def split: if_splits\<close>)

lemma peer_shutdown:
  "drain_step ch pc t = Some (t', new) \<Longrightarrow> peer_inv c t rs \<Longrightarrow> peer_inv c t' (concat (map registered new) @ rs)"
  "close_step ch pc' t = Some (t', new) \<Longrightarrow> peer_inv c t rs \<Longrightarrow> peer_inv c t' (concat (map registered new) @ rs)"
  by (cases pc; cases ch; auto simp: drain_step_def split_beta Let_def split: if_splits once.splits)
    (cases pc'; auto simp: close_step_def split_beta Let_def split: once.splits)

lemma task_peer:
  assumes "task_step c ch k t = Some (t', new)" "peer_inv c t (registered k @ rs)" "\<forall>q\<in>set (tracked k). q < hNextPeer t"
  shows "peer_inv c t' (concat (map registered new) @ rs)"
  using assms by (cases k) (auto intro: peer_listen peer_accept peer_handle peer_serve peer_dial peer_shutdown simp del: registered.simps(1-3) tracked.simps(1-3))

subsection \<open>Shutdown\<close>

text \<open>What every step keeps of the heap, and what it keeps once shutdown has begun.\<close>

definition evolves :: "TCPTransport \<Rightarrow> TCPTransport \<Rightarrow> bool" where
  "evolves t t' \<longleftrightarrow> hNextPeer t \<le> hNextPeer t' \<and>
     (\<forall>p < hNextPeer t. RemoteAddr (hPeers t' p) = RemoteAddr (hPeers t p) \<and> outbound (hPeers t' p) = outbound (hPeers t p) \<and>
        (connClosed (hPeers t p) \<longrightarrow> connClosed (hPeers t' p))) \<and>
     (tState t \<noteq> transportStateOpen \<longrightarrow> tState t' \<noteq> transportStateOpen \<and> tListener t' = tListener t \<and> tWorkDone t' = tWorkDone t \<and>
        tWorkCount t' \<le> tWorkCount t \<and> set (tConnections t') \<subseteq> set (tConnections t) \<and> set (tPeers t') \<subseteq> set (tPeers t))"

lemma evolves_refl [simp]: "evolves t t"
  by (simp add: evolves_def)

lemma evolves_trans [trans]:
  assumes "evolves t u" "evolves u v"
  shows "evolves t v"
proof -
  have "p < hNextPeer u" if "p < hNextPeer t" for p using that assms(1) by (auto simp: evolves_def)
  with assms show ?thesis unfolding evolves_def by auto
qed

lemma evolves_op:
  "evolves t u \<Longrightarrow> evolves t (metric f u)" "evolves t u \<Longrightarrow> evolves t (conn_close p u)" "evolves t u \<Longrightarrow> evolves t (finishWork u)"
  "evolves t u \<Longrightarrow> evolves t (removeConnection p u)" "evolves t u \<Longrightarrow> evolves t (forced_close ps u)"
  "evolves t u \<Longrightarrow> evolves t (completeShutdown k u)" "evolves t u \<Longrightarrow> evolves t (dial_error u)" "evolves t u \<Longrightarrow> evolves t (u\<lparr>tOnce := x\<rparr>)"
  "evolves t u \<Longrightarrow> evolves t (u\<lparr>hNextChan := n\<rparr>)" "evolves t u \<Longrightarrow> evolves t (snd (new_peer q u))" "evolves t u \<Longrightarrow> evolves t (snd (run_auth a d w r p u))"
  "evolves t u \<Longrightarrow> evolves t (unregisterPeer p u)" "evolves t u \<Longrightarrow> evolves t (snd (startWorkLocked u))"
proof -
  have f: "tWorkCount (finishWork u) \<le> tWorkCount u" for u by (simp add: finishWork_def Let_def close_chan_def)
  have r: "set (tPeers (unregisterPeer p u)) \<subseteq> set (tPeers u)" for u by (auto simp: unregisterPeer_def Let_def)
  have e: "evolves u (metric f u)" "evolves u (conn_close p u)" "evolves u (finishWork u)" "evolves u (removeConnection p u)" "evolves u (forced_close ps u)"
    "evolves u (completeShutdown k u)" "evolves u (dial_error u)" "evolves u (u\<lparr>tOnce := x\<rparr>)" "evolves u (u\<lparr>hNextChan := n\<rparr>)" "evolves u (snd (new_peer q u))"
    "evolves u (snd (run_auth a d w r p u))" "evolves u (unregisterPeer p u)" "evolves u (snd (startWorkLocked u))" for u
    by (auto simp: evolves_def f r removeConnection_def completeShutdown_def markClosed_def dial_error_def new_peer_def startWorkLocked_def Let_def)
  show "evolves t u \<Longrightarrow> evolves t (metric f u)" "evolves t u \<Longrightarrow> evolves t (conn_close p u)" "evolves t u \<Longrightarrow> evolves t (finishWork u)"
    "evolves t u \<Longrightarrow> evolves t (removeConnection p u)" "evolves t u \<Longrightarrow> evolves t (forced_close ps u)" "evolves t u \<Longrightarrow> evolves t (completeShutdown k u)"
    "evolves t u \<Longrightarrow> evolves t (dial_error u)" "evolves t u \<Longrightarrow> evolves t (u\<lparr>tOnce := x\<rparr>)" "evolves t u \<Longrightarrow> evolves t (u\<lparr>hNextChan := n\<rparr>)"
    "evolves t u \<Longrightarrow> evolves t (snd (new_peer q u))" "evolves t u \<Longrightarrow> evolves t (snd (run_auth a d w r p u))" "evolves t u \<Longrightarrow> evolves t (unregisterPeer p u)"
    "evolves t u \<Longrightarrow> evolves t (snd (startWorkLocked u))"
    by (erule evolves_trans, rule e)+
qed

lemma evolves_handlePeer: "handlePeer c p t = (r, u) \<Longrightarrow> evolves t u"
proof -
  have "evolves t (set_auth_method c p t)" by (auto simp: evolves_def)
  moreover have "tState t = transportStateOpen \<Longrightarrow> evolves t (x\<lparr>tPeers := l\<rparr>)" if "evolves t x" for x l using that by (simp add: evolves_def)
  moreover assume "handlePeer c p t = (r, u)"
  ultimately show ?thesis by (elim handlePeer_cases) (auto intro!: evolves_op)
qed

lemma evolves_start: "startWorkLocked t = (b, u) \<Longrightarrow> evolves t u"
  using evolves_op(13) [of t t] by simp

lemma evolves_listen:
  assumes "listen_step c ch pc t = Some (t', new)"
  shows "evolves t t'"
proof (cases pc)
  case (ListenInstall ln)
  have "tState t = transportStateOpen \<Longrightarrow> evolves t u" if "startWorkLocked (t\<lparr>tListener := Some ln\<rparr>) = (b, u)" for b u
    using evolves_start [OF that] by (simp add: evolves_def)
  with ListenInstall assms show ?thesis
    by (cases rule: start_cases [of "t\<lparr>tListener := Some ln\<rparr>"]) (auto simp: listen_step_def Let_def split: if_splits)
qed (use assms in \<open>auto simp: listen_step_def Let_def split: sum.splits if_splits choice.splits intro!: evolves_op\<close>)

lemma evolves_accept:
  assumes "accept_step ch pc t = Some (t', new)"
  shows "evolves t t'"
proof (cases pc)
  case (AcceptAdmit p)
  have "evolves t (connections_add p u)" if "startWorkLocked t = (True, u)" "tState t = transportStateOpen" for u
    using evolves_start [OF that(1)] that(2) by (simp add: evolves_def)
  with AcceptAdmit assms show ?thesis by (cases rule: start_cases [of t]) (auto simp: accept_step_def intro!: evolves_op)
qed (use assms in \<open>auto simp: accept_step_def split_beta split: option.splits choice.splits intro!: evolves_op\<close>)

lemma evolves_handle:
  assumes "handle_step c ch p pc t = Some (t', new)"
  shows "evolves t t'"
proof (cases pc)
  case HandleRegister
  with assms evolves_handlePeer [of c p t] show ?thesis
    by (cases "handlePeer c p t") (auto simp: handle_step_def split: sum.splits bool.splits intro!: evolves_op)
next
  case HandleAuth
  with assms show ?thesis by (cases ch) (auto simp: handle_step_def split_beta split: sum.splits intro!: evolves_op)
next
  case HandleTLS
  with assms show ?thesis by (cases ch) (auto simp: handle_step_def split: if_splits intro!: evolves_op)
qed (use assms in \<open>auto simp: handle_step_def split: if_splits intro!: evolves_op\<close>)

lemma evolves_serve: "serve_step c ch p pc t = Some (t', new) \<Longrightarrow> evolves t t'"
  by (cases pc; cases ch) (auto simp: serve_step_def split: if_splits sum.splits intro!: evolves_op)

lemma evolves_dial:
  assumes "dial_step c ch pc t = Some (t', new)"
  shows "evolves t t'"
proof (cases pc)
  case (DialStart a)
  with assms evolves_start [of t] show ?thesis by (cases rule: start_cases [of t]) (auto simp: dial_step_def beginWork_def split: sum.splits intro!: evolves_op)
next
  case (DialTrack p)
  have "evolves t (connections_add p t)" if "tState t = transportStateOpen" using that by (simp add: evolves_def)
  with DialTrack assms show ?thesis by (auto simp: dial_step_def trackConnection_def split: if_splits intro!: evolves_op)
next
  case (DialRegister p)
  with assms evolves_handlePeer [of c p t] show ?thesis
    by (cases "handlePeer c p t") (auto simp: dial_step_def split: sum.splits bool.splits intro!: evolves_op)
next
  case (DialAuth p)
  with assms show ?thesis by (cases ch) (auto simp: dial_step_def split_beta split: sum.splits intro!: evolves_op)
next
  case (DialConnect a)
  with assms show ?thesis by (cases ch) (auto simp: dial_step_def split_beta split: if_splits intro!: evolves_op)
next
  case (DialTLS p)
  with assms show ?thesis by (cases ch) (auto simp: dial_step_def split: if_splits intro!: evolves_op)
qed (use assms in \<open>auto simp: dial_step_def split: if_splits intro!: evolves_op\<close>)

text \<open>Only \<^verbatim>\<open>beginShutdown\<close> leaves the open state, and the once guard admits it only there.\<close>

definition state_inv :: "TCPTransport \<Rightarrow> bool" where
  "state_inv t \<longleftrightarrow> (tOnce t = OnceIdle \<longleftrightarrow> tState t = transportStateOpen) \<and> (tState t \<noteq> transportStateOpen \<longrightarrow> tListener t = None \<and> tShutdown t) \<and>
     ShutdownState (tMetrics t) = tState t"

lemma evolves_begin: "tState t = transportStateOpen \<Longrightarrow> evolves t (snd (beginShutdown (t\<lparr>tOnce := x\<rparr>)))"
  by (simp add: evolves_def beginShutdown_def Let_def split_beta)

lemma evolves_drain: "drain_step ch pc t = Some (t', new) \<Longrightarrow> state_inv t \<Longrightarrow> evolves t t'"
  by (cases pc; cases ch) (auto simp: drain_step_def split_beta Let_def state_inv_def split: if_splits once.splits intro!: evolves_op evolves_begin)

lemma evolves_close: "close_step ch pc t = Some (t', new) \<Longrightarrow> state_inv t \<Longrightarrow> evolves t t'"
  by (cases pc) (auto simp: close_step_def split_beta Let_def state_inv_def split: once.splits intro!: evolves_op evolves_begin)

lemma task_evolves:
  assumes "task_step c ch k t = Some (t', new)" "state_inv t"
  shows "evolves t t'"
  using assms by (cases k) (auto intro: evolves_listen evolves_accept evolves_handle evolves_serve evolves_dial evolves_drain evolves_close)

lemma metrics_state: "ShutdownState (tMetrics (snd (startWorkLocked t))) = ShutdownState (tMetrics t)" "ShutdownState (tMetrics (finishWork t)) = ShutdownState (tMetrics t)"
  "ShutdownState (tMetrics (forced_close ps t)) = ShutdownState (tMetrics t)" "ShutdownState (tMetrics (unregisterPeer p t)) = ShutdownState (tMetrics t)"
  "ShutdownState (tMetrics (snd (run_auth a c w r p t))) = ShutdownState (tMetrics t)"
  by (simp_all add: startWorkLocked_def finishWork_def forced_close_def closeConnections_def closes_sel unregisterPeer_def run_auth_def close_chan_def Let_def split: prod.split)

lemma state_eq [simp]:
  "(\<And>m. ShutdownState (f m) = ShutdownState m) \<Longrightarrow> state_inv (metric f t) = state_inv t" "state_inv (conn_close p t) = state_inv t" "state_inv (finishWork t) = state_inv t"
  "state_inv (connections_add p t) = state_inv t" "state_inv (removeConnection p t) = state_inv t" "state_inv (snd (startWorkLocked t)) = state_inv t"
  "state_inv (forced_close ps t) = state_inv t" "state_inv (dial_error t) = state_inv t" "state_inv (t\<lparr>hNextChan := n\<rparr>) = state_inv t"
  "state_inv (unregisterPeer p t) = state_inv t" "state_inv (snd (run_auth a c w r p t)) = state_inv t" "state_inv (snd (new_peer q t)) = state_inv t"
  by (simp_all add: state_inv_def metrics_state dial_error_def removeConnection_def new_peer_def)

lemma state_start: "startWorkLocked t = (b, u) \<Longrightarrow> state_inv t \<Longrightarrow> state_inv u"
  by (metis state_eq(6) snd_conv)

lemma state_listener: "tState t = transportStateOpen \<Longrightarrow> state_inv (t\<lparr>tListener := l\<rparr>) = state_inv t"
  by (simp add: state_inv_def)

lemma state_handlePeer: "handlePeer c p t = (r, u) \<Longrightarrow> state_inv t \<Longrightarrow> state_inv u"
proof -
  assume h: "handlePeer c p t = (r, u)" and s: "state_inv t"
  have a: "state_inv (set_auth_method c p t)" and l: "state_inv (x\<lparr>tPeers := l\<rparr>) = state_inv x" for x l using s by (simp_all add: state_inv_def)
  from h have m: "ShutdownState (tMetrics u) = ShutdownState (tMetrics t)"
    by (auto simp: handlePeer_def Let_def startWorkLocked_def split: if_splits)
  from h show ?thesis
  proof (cases rule: handlePeer_cases)
    case (refused f)
    then show ?thesis using a m by (auto simp: state_inv_def)
  next
    case registered
    then show ?thesis using a by (simp add: l)
  qed
qed

lemma state_shutdown:
  "state_inv t \<Longrightarrow> state_inv (snd (beginShutdown (t\<lparr>tOnce := OnceRunning\<rparr>)))"
  "state_inv t \<Longrightarrow> tState t \<noteq> transportStateOpen \<Longrightarrow> state_inv ((completeShutdown n t)\<lparr>tOnce := OnceDone r\<rparr>)"
  by (simp_all add: state_inv_def beginShutdown_def completeShutdown_def markClosed_def Let_def split_beta)

text \<open>What a goroutine that shuts the transport down relies on.\<close>

fun waits :: "TCPTransport \<Rightarrow> task \<Rightarrow> bool" where
  "waits t (Draining pc) \<longleftrightarrow> (case pc of
      DrainStop _ _ _ \<Rightarrow> tState t \<noteq> transportStateOpen
    | DrainWait done _ _ \<Rightarrow> tState t \<noteq> transportStateOpen \<and> done = tWorkDone t
    | DrainForce _ _ \<Rightarrow> tState t \<noteq> transportStateOpen
    | DrainJoin done _ _ \<Rightarrow> tState t \<noteq> transportStateOpen \<and> done = tWorkDone t \<and> (\<forall>p\<in>set (tConnections t). connClosed (hPeers t p))
    | _ \<Rightarrow> True)"
| "waits t (Closing pc) \<longleftrightarrow> (case pc of CloseStop _ _ conns \<Rightarrow> tState t \<noteq> transportStateOpen \<and> set (tConnections t) \<subseteq> set conns | _ \<Rightarrow> True)"
| "waits t _ \<longleftrightarrow> True"

lemma waits_evolve:
  assumes "waits t k" "evolves t t'" "\<forall>p\<in>set (tConnections t). p < hNextPeer t"
  shows "waits t' k"
proof -
  have "tState t \<noteq> transportStateOpen \<Longrightarrow> tState t' \<noteq> transportStateOpen \<and> tWorkDone t' = tWorkDone t \<and> set (tConnections t') \<subseteq> set (tConnections t)"
    using assms(2) by (simp add: evolves_def)
  moreover have "connClosed (hPeers t p) \<Longrightarrow> connClosed (hPeers t' p)" if "p \<in> set (tConnections t)" for p
    using assms(2,3) that by (simp add: evolves_def)
  ultimately show ?thesis using assms(1) by (cases k) (auto split: drain_pc.splits close_pc.splits)
qed

lemma snapshot_set: "snapshotConnections t = (a, b) \<Longrightarrow> set (a @ b) = set (tConnections t)"
  by (auto simp: snapshotConnections_def)

lemma task_state:
  assumes "task_step c ch k t = Some (t', new)" "state_inv t" "waits t k"
  shows "state_inv t'"
proof (cases k)
  case (Listening pc)
  show ?thesis
  proof (cases pc)
    case (ListenInstall ln)
    with Listening assms show ?thesis
      by (cases rule: start_cases [of "t\<lparr>tListener := Some ln\<rparr>"])
        (auto simp: listen_step_def Let_def state_listener intro: state_start [of "t\<lparr>tListener := Some ln\<rparr>"] split: if_splits)
  qed (use Listening assms in \<open>auto simp: listen_step_def Let_def split: sum.splits if_splits choice.splits\<close>)
next
  case (Accepting pc)
  show ?thesis
  proof (cases pc)
    case (AcceptAdmit p)
    with Accepting assms show ?thesis by (cases rule: start_cases [of t]) (auto simp: accept_step_def intro: state_start)
  qed (use Accepting assms in \<open>cases ch; auto simp: accept_step_def split_beta split: option.splits\<close>)+
next
  case (Handling p pc)
  show ?thesis
  proof (cases pc)
    case HandleRegister
    with Handling assms state_handlePeer [of c p t] show ?thesis
      by (cases "handlePeer c p t") (auto simp: handle_step_def split: sum.splits bool.splits)
  qed (use Handling assms in \<open>cases ch; auto simp: handle_step_def split_beta split: if_splits sum.splits\<close>)+
next
  case (Serving p pc)
  with assms show ?thesis by (cases pc; cases ch) (auto simp: serve_step_def split: if_splits sum.splits)
next
  case (Dialling pc)
  show ?thesis
  proof (cases pc)
    case (DialStart a)
    with Dialling assms show ?thesis
      by (cases rule: start_cases [of t]) (auto simp: dial_step_def beginWork_def intro: state_start split: sum.splits)
  next
    case (DialRegister p)
    with Dialling assms state_handlePeer [of c p t] show ?thesis
      by (cases "handlePeer c p t") (auto simp: dial_step_def split: sum.splits bool.splits)
  qed (use Dialling assms in \<open>cases ch; auto simp: dial_step_def trackConnection_def split_beta split: sum.splits if_splits\<close>)+
next
  case (Draining pc)
  with assms show ?thesis
    by (cases pc; cases ch) (auto simp: drain_step_def split_beta Let_def state_shutdown split: if_splits once.splits)
next
  case (Closing pc)
  with assms show ?thesis by (cases pc) (auto simp: close_step_def split_beta Let_def state_shutdown split: once.splits)
qed

lemma new_waits:
  assumes "task_step c ch k t = Some (t', new)" "state_inv t" "waits t k" "k' \<in> set new"
  shows "waits t' k'"
proof (cases k)
  case (Draining pc)
  show ?thesis
  proof (cases pc)
    case (DrainForce n l)
    obtain a b where "snapshotConnections t = (a, b)" by fastforce
    with Draining DrainForce assms snapshot_set show ?thesis by (auto simp: drain_step_def)
  qed (use Draining assms in \<open>cases ch; auto simp: drain_step_def beginShutdown_def split_beta Let_def split: if_splits once.splits\<close>)+
next
  case (Closing pc)
  with assms show ?thesis
    by (cases pc) (auto simp: close_step_def beginShutdown_def split_beta Let_def snapshotConnections_def split: once.splits)
next
  case (Listening pc)
  then show ?thesis using assms by (auto simp: listen_step_def Let_def split: listen_pc.splits sum.splits if_splits choice.splits prod.splits bool.splits)
next
  case (Accepting pc)
  then show ?thesis using assms by (auto simp: accept_step_def split: accept_pc.splits if_splits choice.splits prod.splits bool.splits option.splits)
next
  case (Handling p pc)
  then show ?thesis using assms by (auto simp: handle_step_def split: handle_pc.splits if_splits choice.splits prod.splits bool.splits sum.splits)
next
  case (Serving p pc)
  then show ?thesis using assms by (auto simp: serve_step_def split: serve_pc.splits if_splits choice.splits sum.splits)
next
  case (Dialling pc)
  then show ?thesis using assms by (auto simp: dial_step_def split: dial_pc.splits if_splits choice.splits prod.splits bool.splits sum.splits)
qed

subsection \<open>The machine\<close>

definition machine_inv :: "transport_config \<Rightarrow> TCPTransport \<Rightarrow> task list \<Rightarrow> bool" where
  "machine_inv c t ts \<longleftrightarrow> work_inv t (sum_list (map tokens ts)) \<and> conn_inv t (concat (map tracked ts)) (concat (map untracked ts)) \<and>
     peer_inv c t (concat (map registered ts)) \<and> state_inv t \<and> (\<forall>k\<in>set ts. waits t k)"

lemma tokens_nonneg: "0 \<le> tokens k" "0 \<le> sum_list (map tokens ts)"
proof -
  show t: "0 \<le> tokens k" for k by (cases k rule: tokens.cases) (auto split: dial_pc.splits)
  show "0 \<le> sum_list (map tokens ts)" by (rule sum_list_nonneg) (use t in auto)
qed

lemma mset_concat_remove1: "k \<in> set ts \<Longrightarrow> mset (concat (map f ts)) = mset (f k @ concat (map f (remove1 k ts)))"
  by (induction ts) auto

lemma machine_task:
  assumes "machine_inv c t ts" "k \<in> set ts" "task_step c ch k t = Some (t', new)"
  shows "machine_inv c t' (new @ remove1 k ts)"
proof -
  let ?r = "remove1 k ts"
  have k: "waits t k" and s: "state_inv t" and w: "\<forall>k\<in>set ts. waits t k" using assms(1,2) by (auto simp: machine_inv_def)
  have c: "conn_inv t (tracked k @ concat (map tracked ?r)) (untracked k @ concat (map untracked ?r))"
    using assms(1) conn_perm [OF mset_concat_remove1 [OF assms(2)] mset_concat_remove1 [OF assms(2)]] by (simp add: machine_inv_def)
  then have n: "\<forall>p\<in>set (tracked k). p < hNextPeer t" by (auto simp: conn_inv_def)
  have p: "peer_inv c t (registered k @ concat (map registered ?r))"
    using assms(1) peer_perm [OF mset_concat_remove1 [OF assms(2)]] by (simp add: machine_inv_def)
  have "sum_list (map tokens ts) = sum_list (map tokens ?r) + tokens k" using sum_list_map_remove1 [OF assms(2), of tokens] by simp
  then have "work_inv t (sum_list (map tokens ?r) + tokens k)" using assms(1) by (simp add: machine_inv_def)
  note wk = task_work [OF assms(3) this tokens_nonneg(2)]
  have "\<forall>p\<in>set (tConnections t). p < hNextPeer t" using c unfolding conn_inv_def by (metis Un_iff mset_eq_setD set_append)
  then have "\<forall>k'\<in>set ts. waits t' k'" using w waits_evolve [OF _ task_evolves [OF assms(3) s]] by blast
  then have "\<forall>k'\<in>set (new @ ?r). waits t' k'" using new_waits [OF assms(3) s k] set_remove1_subset by fastforce
  then show ?thesis
    unfolding machine_inv_def using wk task_conn [OF assms(3) c] task_peer [OF assms(3) p n] task_state [OF assms(3) s k] by simp
qed

lemma machine_step:
  assumes "transport_step c x y" "machine_inv c (fst x) (snd x)"
  shows "machine_inv c (fst y) (snd y)"
  using assms
proof (cases rule: transport_step.cases)
  case (step_call k addr deadline t ts)
  then show ?thesis using assms(2) by (auto simp: machine_inv_def)
next
  case (step_task k ts ch t t' new)
  then show ?thesis using machine_task assms(2) by simp
next
  case (step_app tp t ts)
  have "waits (conn_close tp t) k" if "waits t k" for k using that by (cases k) (auto split: drain_pc.splits close_pc.splits)
  then show ?thesis using step_app assms(2) by (simp add: machine_inv_def)
qed

lemma machine_start: "machine_inv c NewTCPTransport []"
  by (auto simp: machine_inv_def work_inv_def conn_inv_def peer_inv_def state_inv_def NewTCPTransport_def NewTransportMetrics_def)

lemma machine_runs: "(transport_step c)\<^sup>*\<^sup>* x y \<Longrightarrow> machine_inv c (fst x) (snd x) \<Longrightarrow> machine_inv c (fst y) (snd y)"
  by (induction rule: rtranclp_induct) (auto dest: machine_step)

lemma reachable_inv: "reachable c t ts \<Longrightarrow> machine_inv c t ts"
  unfolding reachable_def using machine_runs [of c _ "(t, ts)"] machine_start by fastforce

subsection \<open>Closed and drained transports\<close>

definition closed_inv :: "TCPTransport \<Rightarrow> task list \<Rightarrow> bool" where
  "closed_inv t ts \<longleftrightarrow> (tState t = transportStateClosed \<longrightarrow> (\<forall>p\<in>set (tConnections t). connClosed (hPeers t p))) \<and>
     (tOnce t = OnceDone (Inr ()) \<longrightarrow> (\<forall>pc. Closing pc \<notin> set ts) \<longrightarrow> tWorkCount t = 0)"

text \<open>With no work left nothing is tracked or registered.\<close>

lemma no_work:
  assumes "machine_inv c t ts" "tWorkCount t = 0"
  shows "\<forall>k\<in>set ts. tokens k = 0" "tConnections t = []" "tPeers t = []"
proof -
  have s: "sum_list (map tokens ts) = 0" using assms by (simp add: machine_inv_def work_inv_def)
  then show z: "\<forall>k\<in>set ts. tokens k = 0" using sum_list_nonneg_eq_0_iff [of "map tokens ts"] tokens_nonneg(1) by auto
  have t: "tracked k = [] \<and> registered k = []" if "tokens k = 0" for k
    using that by (cases k rule: tokens.cases) (auto split: dial_pc.splits if_splits)
  then have e: "concat (map tracked ts) = []" "concat (map registered ts) = []" using z by auto
  have "mset (tConnections t) = mset (concat (map tracked ts))" "mset (map snd (tPeers t)) = mset (concat (map registered ts))"
    using assms(1) unfolding machine_inv_def conn_inv_def peer_inv_def by blast+
  then show "tConnections t = []" "tPeers t = []" unfolding e by simp_all
qed

lemma start_once: "startWorkLocked t = (b, u) \<Longrightarrow> tOnce u = tOnce t \<and> tState u = tState t \<and> tListener u = tListener t"
  by (metis start_sel(1,2,6) snd_conv)

lemma handlePeer_once: "handlePeer c p t = (r, u) \<Longrightarrow> tOnce u = tOnce t \<and> tState u = tState t \<and> tListener u = tListener t"
  by (elim handlePeer_cases) auto

lemma small_once [simp]: "tOnce (dial_error t) = tOnce t" "tState (dial_error t) = tState t" "tOnce (removeConnection p t) = tOnce t" "tState (removeConnection p t) = tState t"
  "tOnce (snd (new_peer q t)) = tOnce t" "tState (snd (new_peer q t)) = tState t" "tListener (dial_error t) = tListener t"
  "tListener (removeConnection p t) = tListener t" "tListener (snd (new_peer q t)) = tListener t"
  by (simp_all add: dial_error_def removeConnection_def new_peer_def)

lemma once_kept:
  assumes "task_step c ch k t = Some (t', new)" "\<And>pc. k \<noteq> Draining pc" "\<And>pc. k \<noteq> Closing pc"
  shows "tOnce t' = tOnce t \<and> tState t' = tState t \<and> (tListener t' = tListener t \<or> tListener t = None \<and> (\<exists>pc. k = Listening pc))"
proof (cases k)
  case (Listening pc)
  then show ?thesis
    using assms(1) by (cases pc) (auto simp: listen_step_def Let_def split: sum.splits if_splits choice.splits prod.splits bool.splits dest: start_once)
next
  case (Accepting pc)
  then show ?thesis using assms(1) by (cases pc) (auto simp: accept_step_def new_peer_def split: if_splits choice.splits prod.splits bool.splits option.splits dest: start_once)
next
  case (Handling p pc)
  show ?thesis
  proof (cases pc)
    case HandleRegister
    with Handling assms(1) handlePeer_once [of c p t] show ?thesis
      by (cases "handlePeer c p t") (auto simp: handle_step_def split: sum.splits bool.splits)
  qed (use Handling assms(1) in \<open>cases ch; auto simp: handle_step_def split_beta split: if_splits sum.splits\<close>)+
next
  case (Serving p pc)
  then show ?thesis using assms(1) by (cases pc) (auto simp: serve_step_def split: if_splits choice.splits sum.splits)
next
  case (Dialling pc)
  show ?thesis
  proof (cases pc)
    case (DialStart a)
    with Dialling assms(1) show ?thesis by (cases rule: start_cases [of t]) (auto simp: dial_step_def beginWork_def split: sum.splits dest: start_once)
  next
    case (DialRegister p)
    with Dialling assms(1) handlePeer_once [of c p t] show ?thesis by (cases "handlePeer c p t") (auto simp: dial_step_def split: sum.splits bool.splits)
  qed (use Dialling assms(1) in \<open>cases ch; auto simp: dial_step_def trackConnection_def split_beta split: sum.splits if_splits\<close>)+
qed (use assms in auto)

lemma complete_sel [simp]: "tConnections (completeShutdown n t) = tConnections t" "hPeers (completeShutdown n t) = hPeers t" "tWorkCount (completeShutdown n t) = tWorkCount t"
  "tState (completeShutdown n t) = transportStateClosed"
  by (simp_all add: completeShutdown_def markClosed_def)

lemma begin_sel [simp]: "tState (snd (beginShutdown t)) = transportStateDraining" "tOnce (snd (beginShutdown t)) = tOnce t"
  by (simp_all add: beginShutdown_def Let_def split_beta)

lemma closed_draining:
  assumes "drain_step ch pc t = Some (t', new)" "machine_inv c t ts" "Draining pc \<in> set ts"
    and "tState t' = transportStateClosed" "tState t \<noteq> transportStateClosed \<or> tOnce t' \<noteq> tOnce t"
  shows "(\<forall>p\<in>set (tConnections t'). connClosed (hPeers t' p)) \<and> (tOnce t' = OnceDone (Inr ()) \<longrightarrow> tWorkCount t' = 0)"
proof (cases pc)
  case (DrainWait wd n lerr)
  have w: "waits t (Draining pc)" and i: "work_inv t (sum_list (map tokens ts))" using assms(2,3) by (auto simp: machine_inv_def)
  show ?thesis
  proof (cases "ch = Proceeds")
    case True
    with DrainWait assms(1) have t': "wd \<in> set (hClosed t)" "t' = (completeShutdown n t)\<lparr>tOnce := OnceDone lerr\<rparr>" by (auto simp: drain_step_def split: if_splits)
    with w i DrainWait have "tWorkCount t = 0" by (auto simp: work_inv_def)
    with no_work [OF assms(2)] t' show ?thesis by simp
  qed (use DrainWait assms(1,4,5) in \<open>cases ch; auto simp: drain_step_def\<close>)
next
  case (DrainJoin wd n lerr)
  have "waits t (Draining pc)" using assms(2,3) by (auto simp: machine_inv_def)
  with DrainJoin assms(1) show ?thesis by (auto simp: drain_step_def Let_def split: if_splits)
qed (use assms(1,4,5) in \<open>auto simp: drain_step_def split_beta split: if_splits once.splits\<close>)

lemma closed_closing:
  assumes "close_step ch pc t = Some (t', new)" "machine_inv c t ts" "Closing pc \<in> set ts" "tState t' = transportStateClosed"
    and "tState t = transportStateClosed \<longrightarrow> (\<forall>p\<in>set (tConnections t). connClosed (hPeers t p))"
  shows "\<forall>p\<in>set (tConnections t'). connClosed (hPeers t' p)"
proof (cases pc)
  case (CloseStop l n conns)
  have "waits t (Closing pc)" using assms(2,3) by (auto simp: machine_inv_def)
  with CloseStop assms(1) show ?thesis by (auto simp: close_step_def Let_def)
qed (use assms(1,4,5) in \<open>auto simp: close_step_def split_beta split: once.splits\<close>)

lemma closing_stays: "close_step ch pc t = Some (t', new) \<Longrightarrow> \<exists>pc'. Closing pc' \<in> set new"
  by (cases pc) (auto simp: close_step_def Let_def split_beta split: once.splits)

lemma drain_state: "drain_step ch pc t = Some (t', new) \<Longrightarrow> tOnce t' = OnceDone r \<Longrightarrow> tOnce t \<noteq> OnceDone r \<Longrightarrow> tState t' = transportStateClosed"
  by (cases pc; cases ch) (auto simp: drain_step_def split_beta Let_def split: if_splits once.splits)

lemma closed_task:
  assumes i: "machine_inv c t ts" and c: "closed_inv t ts" and k: "k \<in> set ts" and s: "task_step c ch k t = Some (t', new)"
  shows "closed_inv t' (new @ remove1 k ts)"
proof -
  have st: "state_inv t" and cn: "\<forall>p\<in>set (tConnections t). p < hNextPeer t"
    using i unfolding machine_inv_def conn_inv_def by (blast, metis Un_iff mset_eq_setD set_append)
  have w: "work_inv t' (sum_list (map tokens (new @ remove1 k ts)))" using machine_task [OF i k s] by (simp add: machine_inv_def)
  note e = task_evolves [OF s st]
  have old: "\<forall>p\<in>set (tConnections t'). connClosed (hPeers t' p)" if "tState t = transportStateClosed"
    using that c e cn by (auto simp: closed_inv_def evolves_def)
  have zero: "tWorkCount t' = 0" if "tOnce t = OnceDone (Inr ())" "\<forall>pc. Closing pc \<notin> set ts"
  proof -
    have "tWorkCount t = 0" "tState t \<noteq> transportStateOpen" using that c st by (auto simp: closed_inv_def state_inv_def)
    then have "tWorkCount t' \<le> 0" using e by (simp add: evolves_def)
    then show ?thesis using w tokens_nonneg(2) [of "new @ remove1 k ts"] by (simp add: work_inv_def)
  qed
  have keep: "\<forall>pc. Closing pc \<notin> set ts" if "\<forall>pc. Closing pc \<notin> set (new @ remove1 k ts)" "\<And>pc. k \<noteq> Closing pc"
    using that by (metis Un_iff in_set_remove1 set_append)
  consider pc where "k = Draining pc" | pc where "k = Closing pc" | "\<And>pc. k \<noteq> Draining pc" "\<And>pc. k \<noteq> Closing pc" by blast
  then show ?thesis
  proof cases
    case 1
    then have d: "drain_step ch pc t = Some (t', new)" using s by simp
    show ?thesis
    proof (cases "tState t \<noteq> transportStateClosed \<or> tOnce t' \<noteq> tOnce t")
      case True
      have "k \<noteq> Closing pc" for pc using 1 by simp
      with True show ?thesis
        using closed_draining [OF d i k [unfolded 1] _ True] drain_state [OF d, of "Inr ()"] zero keep unfolding closed_inv_def by blast
    next
      case False
      with old zero keep 1 show ?thesis unfolding closed_inv_def by (metis task.distinct(41))
    qed
  next
    case 2
    then have d: "close_step ch pc t = Some (t', new)" using s by simp
    obtain pc' where "Closing pc' \<in> set new" using closing_stays [OF d] by blast
    with closed_closing [OF d i k [unfolded 2]] c show ?thesis unfolding closed_inv_def by auto
  next
    case 3
    from once_kept [OF s 3] old zero keep [OF _ 3(2)] show ?thesis unfolding closed_inv_def by metis
  qed
qed

lemma reachable_closed: "reachable c t ts \<Longrightarrow> closed_inv t ts"
proof -
  have "machine_inv c (fst y) (snd y) \<and> closed_inv (fst y) (snd y)" if "(transport_step c)\<^sup>*\<^sup>* (NewTCPTransport, []) y" for y
    using that
  proof (induction rule: rtranclp_induct)
    case base
    have "closed_inv NewTCPTransport []" by (simp add: closed_inv_def NewTCPTransport_def)
    then show ?case by (simp add: machine_start)
  next
    case (step x y)
    from step.hyps(2) have "closed_inv (fst y) (snd y)"
    proof (cases rule: transport_step.cases)
      case (step_task k ts ch t t' new)
      then show ?thesis using closed_task [of c t ts k ch t' new] step.IH by simp
    qed (use step.IH in \<open>auto simp: closed_inv_def\<close>)
    with step machine_step show ?case by blast
  qed
  then show "reachable c t ts \<Longrightarrow> ?thesis" unfolding reachable_def by fastforce
qed

lemma shut_evolves:
  assumes "(transport_step c)\<^sup>*\<^sup>* x y" "machine_inv c (fst x) (snd x)"
  shows "evolves (fst x) (fst y)"
  using assms(1)
proof (induction rule: rtranclp_induct)
  case (step y z)
  have s: "state_inv (fst y)" using machine_runs [OF step.hyps(1) assms(2)] by (simp add: machine_inv_def)
  from step.hyps(2) have "evolves (fst y) (fst z)"
    by (cases rule: transport_step.cases) (use s in \<open>auto intro: evolves_op task_evolves\<close>)
  with step.IH show ?case by (rule evolves_trans)
qed simp


subsection \<open>Admission\<close>



definition same_auth :: "TCPPeer \<Rightarrow> TCPPeer \<Rightarrow> bool" where
  "same_auth q q' \<longleftrightarrow> authIdentity q' = authIdentity q \<and> authCapabilities q' = authCapabilities q \<and> outbound q' = outbound q"

lemma same_auth_simps [simp]: "same_auth q q" "same_auth (hPeers t p) (hPeers (conn_close r t) p)" "same_auth (hPeers t p) (hPeers (forced_close rs t) p)"
  "same_auth (hPeers t p) (hPeers (dial_error t) p)" "same_auth (hPeers t p) (hPeers (removeConnection r t) p)" "same_auth (hPeers t p) (hPeers (snd (beginShutdown t')) p) = same_auth (hPeers t p) (hPeers t' p)"
  by (simp_all add: same_auth_def dial_error_def removeConnection_def beginShutdown_def Let_def split_beta)











section \<open>Runs\<close>

datatype event = Call task | Step task choice

fun run_events :: "transport_config \<Rightarrow> event list \<Rightarrow> TCPTransport \<times> task list \<Rightarrow> (TCPTransport \<times> task list) option" where
  "run_events c [] s = Some s"
| "run_events c (Call k # es) (t, ts) =
     (case k of
        Listening ListenStart \<Rightarrow> run_events c es (t, k # ts)
      | Dialling (DialStart _) \<Rightarrow> run_events c es (t, k # ts)
      | Draining (DrainStart _) \<Rightarrow> run_events c es (t, k # ts)
      | Closing CloseStart \<Rightarrow> run_events c es (t, k # ts)
      | _ \<Rightarrow> None)"
| "run_events c (Step k ch # es) (t, ts) =
     (if k \<in> set ts then case task_step c ch k t of Some (t', new) \<Rightarrow> run_events c es (t', new @ remove1 k ts) | None \<Rightarrow> None else None)"

lemma run_steps: "run_events c es s = Some s' \<Longrightarrow> (transport_step c)\<^sup>*\<^sup>* s s'"
proof (induction c es s rule: run_events.induct)
  case (2 c k es t ts)
  then have "transport_step c (t, ts) (t, k # ts) \<and> (transport_step c)\<^sup>*\<^sup>* (t, k # ts) s'"
    by (auto intro: step_call split: task.splits listen_pc.splits dial_pc.splits drain_pc.splits close_pc.splits)
  then show ?case by (meson converse_rtranclp_into_rtranclp)
next
  case (3 c k ch es t ts)
  then obtain t' new where "k \<in> set ts" "task_step c ch k t = Some (t', new)" "(transport_step c)\<^sup>*\<^sup>* (t', new @ remove1 k ts) s'"
    by (auto split: if_splits option.splits)
  then show ?case by (meson converse_rtranclp_into_rtranclp step_task)
qed simp

lemma run_reachable: "run_events c es (NewTCPTransport, []) = Some (t, ts) \<Longrightarrow> reachable c t ts"
  unfolding reachable_def by (rule run_steps)

text \<open>A transport without authentication, a peer that connects and whose first frame the handler refuses, and the drain after that.\<close>

definition plain_config :: transport_config where
  "plain_config = \<lparr>tcAuth = \<lparr>MaxFrameBytes = 0, PeerAuthToken = [], PeerAuthIdentity = [], PeerAuthAllowedIdentities = [], PeerAuthCapabilities = []\<rparr>,
     ListenAddress = ''127.0.0.1:0'', MaxPeers = 4, FrameHandlerSet = True, ReadIdleTimeoutSet = False, TLSServer = False, TLSClient = False\<rparr>"

definition listen_run :: "event list" where
  "listen_run = [Call (Listening ListenStart), Step (Listening ListenStart) Proceeds, Step (Listening ListenBind) Proceeds,
     Step (Listening (ListenInstall 1)) Proceeds, Step (Accepting AcceptLoad) Proceeds]"

definition peer_run :: "event list" where
  "peer_run = [Step (Accepting (AcceptWait 1)) (Connects ''10.0.0.7:4000''), Step (Accepting (AcceptAdmit 0)) Proceeds, Step (Handling 0 HandleTLS) Proceeds,
     Step (Handling 0 HandleAuth) (Exchanges empty_world []), Step (Handling 0 HandleRegister) Proceeds, Step (Handling 0 HandleServe) Proceeds,
     Step (Handling 0 HandleFinish) Proceeds]"

definition refuse_run :: "event list" where
  "refuse_run = [Step (Serving 0 ServeLoop) (Frame (Inl (ERepl ErrUnknownMessageType))), Step (Serving 0 ServeUnregister) Proceeds, Step (Serving 0 ServeRemove) Proceeds,
     Step (Serving 0 ServeFinish) Proceeds]"

definition drain_run :: "event list" where
  "drain_run = [Call (Draining (DrainStart True)), Step (Draining (DrainStart True)) Proceeds, Step (Draining (DrainStop (Some 1) 0 [])) Proceeds,
     Step (Accepting AcceptLoad) Proceeds, Step (Accepting AcceptFinish) Proceeds, Step (Draining (DrainWait 2 0 (Inr ()))) Proceeds]"

lemma plain_config_ok: "validatePeerAuthConfig (tcAuth plain_config) = Inr ()" "peerAuthEnabled (tcAuth plain_config) = False"
  "ListenAddress plain_config \<noteq> []" "MaxPeers plain_config = 4" "FrameHandlerSet plain_config" "\<not> TLSServer plain_config"
  by (simp_all add: plain_config_def validatePeerAuthConfig_def peerAuthEnabled_def validatePeerIdentity_def validatePeerAuthAllowlist_def
      normalizePeerAuthCapabilities_def MaxPeerAuthCapabilities_def resE)

lemmas run_defs = listen_step_def accept_step_def handle_step_def serve_step_def drain_step_def close_step_def startWorkLocked_def finishWork_def handlePeer_def
  unregisterPeer_def new_peer_def connections_add_def conn_close_def removeConnection_def run_auth_def beginShutdown_def
  completeShutdown_def markClosed_def forced_close_def closeConnections_def snapshotConnections_def registeredConnectionLocked_def listener_close_def
  set_auth_method_def close_chan_def metric_def Let_def

lemma listen_state: "\<exists>t. run_events plain_config listen_run (NewTCPTransport, []) = Some (t, [Accepting (AcceptWait 1), Listening (ListenReturn (Inr ()))])"
  by (simp add: listen_run_def run_defs plain_config_ok NewTCPTransport_def)

lemma served_state:
  "\<exists>t ts. run_events plain_config (listen_run @ peer_run @ refuse_run @ drain_run) (NewTCPTransport, []) = Some (t, ts) \<and>
     tOnce t = OnceDone (Inr ()) \<and> tState t = transportStateClosed \<and> InboundAccepts (tMetrics t) = 1 \<and> hNextPeer t = 1 \<and> \<not> connClosed (hPeers t 0) \<and>
     (\<forall>pc. Closing pc \<notin> set ts)"
  by (simp add: listen_run_def peer_run_def refuse_run_def drain_run_def run_defs plain_config_ok NewTCPTransport_def NewTransportMetrics_def
      NewTCPPeer_def authenticateInbound_def monad)


lemma registered_state:
  "\<exists>t ts. run_events plain_config (listen_run @ peer_run) (NewTCPTransport, []) = Some (t, ts) \<and> tPeers t = [(''10.0.0.7:4000'', 0)] \<and> tWorkCount t = 2"
  by (simp add: listen_run_def peer_run_def run_defs plain_config_ok NewTCPTransport_def NewTransportMetrics_def NewTCPPeer_def authenticateInbound_def monad)


section \<open>The properties\<close>

text \<open>
  C31. In every reachable state of the transport, under every interleaving of its goroutines, the work counter is the number
  of work tokens the goroutines hold, the channel \<^verbatim>\<open>workDone\<close> is closed exactly when there are none, and no channel was closed twice.
  The peer map holds each remote address once, its size is the \<^verbatim>\<open>ActivePeers\<close> gauge and within \<^verbatim>\<open>MaxPeers\<close>, and every registered peer
  is a tracked connection.
\<close>
theorem transport_accounting:
  assumes "reachable c t ts"
  shows "tWorkCount t = sum_list (map tokens ts) \<and> ShutdownTrackedGoroutines (tMetrics t) = of_int (tWorkCount t) \<and>
    (tWorkDone t \<in> set (hClosed t) \<longleftrightarrow> tWorkCount t = 0) \<and> \<not> hPanic t \<and>
    distinct (map fst (tPeers t)) \<and> ActivePeers (tMetrics t) = of_nat (length (tPeers t)) \<and>
    (MaxPeers c > 0 \<longrightarrow> int (length (tPeers t)) \<le> MaxPeers c) \<and> snd ` set (tPeers t) \<subseteq> set (tConnections t)"
proof -
  note i = reachable_inv [OF assms]
  have "set (registered k) \<subseteq> set (tracked k)" for k by (cases k) (auto split: dial_pc.splits)
  then have "set (concat (map registered ts)) \<subseteq> set (concat (map tracked ts))" by auto
  moreover have "snd ` set (tPeers t) = set (concat (map registered ts))" "set (tConnections t) = set (concat (map tracked ts))"
    using i unfolding machine_inv_def peer_inv_def conn_inv_def by (metis list.set_map mset_eq_setD)+
  moreover have "work_inv t (sum_list (map tokens ts))" "peer_inv c t (concat (map registered ts))" using i by (simp_all add: machine_inv_def)
  ultimately show ?thesis by (simp add: work_inv_def peer_inv_def)
qed

theorem transport_accounting_witness:
  "\<exists>t ts. reachable plain_config t ts \<and> tPeers t = [(''10.0.0.7:4000'', 0)] \<and> ActivePeers (tMetrics t) = 1 \<and> sum_list (map tokens ts) = 2"
proof -
  obtain t ts where r: "run_events plain_config (listen_run @ peer_run) (NewTCPTransport, []) = Some (t, ts)" "tPeers t = [(''10.0.0.7:4000'', 0)]" "tWorkCount t = 2"
    using registered_state by blast
  from transport_accounting [OF run_reachable [OF r(1)]] run_reachable [OF r(1)] r(2,3) show ?thesis by auto
qed

text \<open>What the metrics endpoint reports of the peers and of the shutdown state.\<close>

lemma metrics_report:
  assumes "reachable c t ts" "length (tPeers t) < 2 ^ 63"
  shows "map_of (metrics_Snapshot (tMetrics t)) ''active_peers'' = Some (int (length (Peers t)))"
    "map_of (metrics_Snapshot (tMetrics t)) ''shutdown_state'' = Some (state_code (tState t))"
    "length (PeerSnapshots t) = length (Peers t)" "map psRemoteAddr (PeerSnapshots t) = map fst (tPeers t)"
proof -
  note i = reachable_inv [OF assms(1)]
  have a: "ActivePeers (tMetrics t) = of_nat (length (tPeers t))" and s: "ShutdownState (tMetrics t) = tState t"
    and k: "\<forall>e\<in>set (tPeers t). fst e = RemoteAddr (hPeers t (snd e))"
    using i by (simp_all add: machine_inv_def peer_inv_def state_inv_def)
  have "sint (of_nat (length (tPeers t)) :: u64) = int (length (tPeers t))"
    using assms(2) by (simp add: signed_of_nat signed_take_bit_int_eq_self)
  then show "map_of (metrics_Snapshot (tMetrics t)) ''active_peers'' = Some (int (length (Peers t)))"
    by (simp add: metrics_Snapshot_def Peers_def a)
  show "map_of (metrics_Snapshot (tMetrics t)) ''shutdown_state'' = Some (state_code (tState t))" by (simp add: metrics_Snapshot_def s)
  show "length (PeerSnapshots t) = length (Peers t)" by (simp add: PeerSnapshots_def Peers_def)
  show "map psRemoteAddr (PeerSnapshots t) = map fst (tPeers t)" using k by (auto simp: PeerSnapshots_def Let_def)
qed

text \<open>
  C32. When \<^verbatim>\<open>Drain\<close> has completed without error, and \<^verbatim>\<open>Close\<close> was never called, every goroutine of the transport has ended: no
  goroutine holds a work token, no peer is registered and no connection is tracked.
\<close>
theorem drain_joins:
  assumes "reachable c t ts" and "tOnce t = OnceDone (Inr ())" and "\<forall>pc. Closing pc \<notin> set ts"
  shows "tWorkCount t = 0 \<and> (\<forall>k\<in>set ts. tokens k = 0) \<and> tPeers t = [] \<and> tConnections t = []"
proof -
  have "tWorkCount t = 0" using reachable_closed [OF assms(1)] assms(2,3) by (simp add: closed_inv_def)
  with no_work [OF reachable_inv [OF assms(1)]] show ?thesis by blast
qed

theorem drain_joins_witness:
  "\<exists>t ts. reachable plain_config t ts \<and> tOnce t = OnceDone (Inr ()) \<and> tWorkCount t = 0 \<and> tPeers t = []"
proof -
  obtain t ts where r: "run_events plain_config (listen_run @ peer_run @ refuse_run @ drain_run) (NewTCPTransport, []) = Some (t, ts)"
    "tOnce t = OnceDone (Inr ())" "\<forall>pc. Closing pc \<notin> set ts"
    using served_state by blast
  from drain_joins [OF run_reachable [OF r(1)] r(2,3)] run_reachable [OF r(1)] r(2) show ?thesis by blast
qed

text \<open>
  C33. Once shutdown has begun nothing is admitted any more: in every later state the transport is not open and not ready, no peer
  or connection has been added, and the amount of tracked work has not grown. When the transport is closed, every
  connection that is still tracked has been closed.
\<close>
theorem shutdown_ends_admission:
  assumes "reachable c t ts" and "tState t \<noteq> transportStateOpen" and "(transport_step c)\<^sup>*\<^sup>* (t, ts) (t', ts')"
  shows "tState t' \<noteq> transportStateOpen \<and> \<not> Ready t' \<and> set (tPeers t') \<subseteq> set (tPeers t) \<and> set (tConnections t') \<subseteq> set (tConnections t) \<and>
    tWorkCount t' \<le> tWorkCount t \<and> (tState t' = transportStateClosed \<longrightarrow> (\<forall>p\<in>set (tConnections t'). connClosed (hPeers t' p)))"
proof -
  have "reachable c t' ts'" using assms(1,3) unfolding reachable_def by simp
  then have "closed_inv t' ts'" "state_inv t'" using reachable_closed reachable_inv by (auto simp: machine_inv_def)
  moreover have "evolves t t'" using shut_evolves [OF assms(3)] reachable_inv [OF assms(1)] by simp
  ultimately show ?thesis using assms(2) by (simp add: closed_inv_def state_inv_def Ready_def evolves_def)
qed

theorem shutdown_ends_admission_witness:
  "\<exists>t ts. reachable plain_config t ts \<and> tState t = transportStateClosed \<and> \<not> Ready t"
proof -
  obtain t ts where r: "run_events plain_config (listen_run @ peer_run @ refuse_run @ drain_run) (NewTCPTransport, []) = Some (t, ts)" "tState t = transportStateClosed"
    using served_state by blast
  have "tState t \<noteq> transportStateOpen" using r(2) by simp
  from shutdown_ends_admission [OF run_reachable [OF r(1)] this rtranclp.rtrancl_refl] run_reachable [OF r(1)] r(2) show ?thesis by blast
qed










end
