(* ===== verification/Cli_Runtime.thy ===== *)
theory Cli_Runtime
  imports Lifecycle_Session Lifecycle_Authority
begin

text \<open>
  \<^verbatim>\<open>lifecycle_cli.go\<close>: the lifecycle runtime of a node, which opens the durable components from one directory,
  serves local mutations and compaction, and runs one repair session per authenticated peer.

  \<^item> The journal, the logical state, the blob store and the watermark book are the node of \<open>Lifecycle_Apply\<close>.
  \<^item> A session reaches the runtime through its callback, which reads the runtime's snapshot and counts errors;
    so these two travel with the connection of the session.
  \<^item> A session that was started is never forgotten: \<open>rtLive\<close> keeps them in the order of their start, and a
    \<^verbatim>\<open>*RepairSession\<close> is its position.  A cancelled session runs on, with a context that is done.
  \<^item> Every goroutine takes steps of its own; the events of \<open>runtime_events\<close> interleave them.  An event carries the
    context of its call: the polls that are left before it is cancelled.
  \<^item> Logging is not modelled.
\<close>

section \<open>Configuration\<close>

record lifecycleCLIConfig =
  ccEnabled :: bool
  ccDir :: bytes
  ccMembershipConfigured :: bool
  ccMembershipMembers :: "bytes list"
  ccRepairLimits :: RepairLimits
  ccRecordLimits :: Limits
  ccJournalLimits :: JournalOptions

definition validate_config :: "lifecycleCLIConfig \<Rightarrow> 's BlobStore option \<Rightarrow> bytes \<Rightarrow> bytes \<Rightarrow> err + unit" where
  "validate_config c blobStore peerAuthToken peerID =
     (if \<not> ccEnabled c then
        bindE (guardE (ccDir c \<noteq> []) (EMsg ''lifecycle: -lifecycle-dir requires -lifecycle'')) (\<lambda>_.
        bindE (guardE (ccMembershipConfigured c) (EMsg ''lifecycle: -lifecycle-members requires -lifecycle'')) (\<lambda>_.
        Inr ()))
      else
        bindE (guardE (blobStore = None) (EMsg ''lifecycle: -lifecycle requires -replicate'')) (\<lambda>_.
        bindE (guardE (ccDir c = []) (EMsg ''lifecycle: -lifecycle-dir is required with -lifecycle'')) (\<lambda>_.
        bindE (guardE (peerAuthToken = []) (EMsg ''lifecycle: -lifecycle requires -peer-auth-token'')) (\<lambda>_.
        bindE (guardE (peerID = []) (EMsg ''lifecycle: -lifecycle requires -peer-id'')) (\<lambda>_.
        bindE (guardE (rlMaxRecords (ccRepairLimits c) < 0 \<or> rlMaxLogicalKeyBytes (ccRepairLimits c) < 0 \<or>
                       rlMaxMetadataBytes (ccRepairLimits c) < 0 \<or> rlMaxFrameBytes (ccRepairLimits c) < 0)
                 (EMsg ''lifecycle: repair limits must be zero or greater'')) (\<lambda>_.
        Inr ()))))))"

section \<open>The runtime\<close>

record lifecycleRuntimeMetrics =
  SessionsStarted :: u64
  SessionsCompleted :: u64
  SessionErrors :: u64
  SessionsActive :: int
  FramesReceived :: u64
  FrameErrors :: u64
  MutationsStarted :: u64
  MutationsApplied :: u64
  MutationErrors :: u64

definition zeroMetrics :: lifecycleRuntimeMetrics where
  "zeroMetrics = \<lparr>SessionsStarted = 0, SessionsCompleted = 0, SessionErrors = 0, SessionsActive = 0, FramesReceived = 0,
     FrameErrors = 0, MutationsStarted = 0, MutationsApplied = 0, MutationErrors = 0\<rparr>"

text \<open>What the callback of a session shares with the runtime.\<close>

record runtime_shared =
  shSnapshot :: "Checkpoint option"
  shMetrics :: lifecycleRuntimeMetrics

type_synonym cli_conn = "bytes \<times> runtime_shared"

text \<open>A started session: its fields, the connection, and the goroutine that runs it.\<close>

record 's live_session =
  lvKey :: bytes
  lvSession :: "('s, cli_conn) RepairSession"
  lvConn :: bytes
  lvHelloReceived :: bool
  lvHelloNotify :: bool
  lvAckNotify :: bool
  lvCancelled :: bool
  lvRun :: run_state
  lvDone :: bool

record lifecycleSessionEntry =
  enSession :: nat
  enActive :: bool

record 's lifecycleRuntime =
  rtCheckpointPath :: bytes
  rtRepairLimits :: RepairLimits
  rtNode :: "'s node"
  rtAuthority :: Authority
  rtMembership :: MembershipBook
  rtCoordinator :: RepairCoordinator
  rtApplier :: "'s Applier"
  rtShared :: runtime_shared
  rtSessions :: "(bytes \<times> lifecycleSessionEntry) list"
  rtLive :: "'s live_session list"

type_synonym ('s, 'a) runtimeM = "(world \<times> 's lifecycleRuntime, 'a) M"

definition rtNodeM :: "(world \<times> 's node, 'a) M \<Rightarrow> ('s, 'a) runtimeM" where
  "rtNodeM = zoomM (\<lambda>s. (fst s, rtNode (snd s))) (\<lambda>t s. (fst t, (snd s)\<lparr>rtNode := snd t\<rparr>))"

definition authorityM :: "(world \<times> Authority, 'a) M \<Rightarrow> ('s, 'a) runtimeM" where
  "authorityM = zoomM (\<lambda>s. (fst s, rtAuthority (snd s))) (\<lambda>t s. (fst t, (snd s)\<lparr>rtAuthority := snd t\<rparr>))"

definition session_view :: "nat \<Rightarrow> 's lifecycleRuntime \<Rightarrow> ('s, cli_conn) session_state" where
  "session_view i r = (let l = rtLive r ! i in
     \<lparr>ssNode = rtNode r, ssConn = (lvConn l, rtShared r), ssHelloReceived = lvHelloReceived l, ssHelloNotify = lvHelloNotify l,
      ssAckNotify = lvAckNotify l\<rparr>)"

definition session_store :: "nat \<Rightarrow> ('s, cli_conn) session_state \<Rightarrow> 's lifecycleRuntime \<Rightarrow> 's lifecycleRuntime" where
  "session_store i t r =
     r\<lparr>rtNode := ssNode t, rtShared := snd (ssConn t),
       rtLive := (rtLive r)[i := (rtLive r ! i)\<lparr>lvConn := fst (ssConn t), lvHelloReceived := ssHelloReceived t,
         lvHelloNotify := ssHelloNotify t, lvAckNotify := ssAckNotify t\<rparr>]\<rparr>"

definition sessionAt :: "nat \<Rightarrow> ('s, cli_conn, 'a) sessionM \<Rightarrow> ('s, 'a) runtimeM" where
  "sessionAt i = zoomM (\<lambda>s. (fst s, session_view i (snd s))) (\<lambda>t s. (fst t, session_store i (snd t) (snd s)))"

definition metricM :: "(lifecycleRuntimeMetrics \<Rightarrow> lifecycleRuntimeMetrics) \<Rightarrow> ('s, unit) runtimeM" where
  "metricM f = setM (\<lambda>r. r\<lparr>rtShared := (rtShared r)\<lparr>shMetrics := f (shMetrics (rtShared r))\<rparr>\<rparr>)"

text \<open>Running a call with a context of its own.\<close>

definition ctxM :: "nat option \<Rightarrow> (world \<times> 'r, 'a) M \<Rightarrow> (world \<times> 'r, 'a) M" where
  "ctxM polls m s = (case m ((fst s)\<lparr>wpolls := polls\<rparr>, snd s) of (res, t) \<Rightarrow> (res, ((fst t)\<lparr>wpolls := wpolls (fst s)\<rparr>, snd t)))"

text \<open>\<^verbatim>\<open>fmt.Errorf("lifecycle: ...: %w", err)\<close>\<close>

definition wrapM :: "('s, 'a) M \<Rightarrow> ('s, 'a) M" where
  "wrapM m = bindM (tryM m) (\<lambda>r. liftE (mapE EWrap r))"

section \<open>Opening\<close>

definition verifyLifecycleRecords :: "'s BlobStore \<Rightarrow> Record list \<Rightarrow> (world \<times> 's, unit) M" where
  "verifyLifecycleRecords blobs records =
     forM (\<lambda>record.
       bindM (osM pollM) (\<lambda>_.
       if State record \<noteq> StatePresent then returnM ()
       else
         bindM (tryM (bsGet blobs (BlobKey record))) (\<lambda>r.
         case r of
           Inl e \<Rightarrow> if err_is e (EStorage ErrNotFound) then throwM (EJoin (ETransport ErrLifecycleBlobMissing) e) else throwM e
         | Inr data \<Rightarrow> liftE (VerifySHA256Key (BlobKey record) data)))) records"

text \<open>\<^verbatim>\<open>filepath.Join\<close>; the file system cleans the path when it resolves it.\<close>

definition Join :: "bytes \<Rightarrow> bytes \<Rightarrow> bytes" where
  "Join dir name = dir @ ''/'' @ name"

text \<open>The callback of \<^verbatim>\<open>Replay\<close>, on the blob store and the logical state.\<close>

definition replay_record :: "'s BlobStore \<Rightarrow> Record \<Rightarrow> (world \<times> Journal \<times> 's \<times> Store, unit) M" where
  "replay_record blobs record =
     bindM (zoomM (\<lambda>(w, j, b, t). (w, b)) (\<lambda>(w, b) (_, j, _, t). (w, j, b, t)) (verifyLifecycleRecords blobs [record])) (\<lambda>_.
     bindM (zoomM (\<lambda>(w, j, b, t). t) (\<lambda>t (w, j, b, _). (w, j, b, t)) (Apply record)) (\<lambda>_.
     returnM ()))"

text \<open>The journal and the state of a runtime that is being opened are local variables.\<close>

definition replay_into :: "'s BlobStore \<Rightarrow> Journal \<Rightarrow> Store \<Rightarrow> (world \<times> 's, Store) M" where
  "replay_into blobs journal state s =
     (case Replay (replay_record blobs) (fst s, journal, snd s, state) of
        (r, (w, _, b, state')) \<Rightarrow> (case r of Inl e \<Rightarrow> Inl e | Inr _ \<Rightarrow> Inr state', (w, b)))"

definition close_local :: "Journal \<Rightarrow> (world \<times> 's, unit) M" where
  "close_local journal s = (case CloseJournal (fst s, journal) of (r, (w, _)) \<Rightarrow> (r, (w, snd s)))"

definition configure_local :: "bytes list \<Rightarrow> MembershipBook \<Rightarrow> (world \<times> 's, MembershipBook) M" where
  "configure_local members book s =
     (case Replace members (fst s, book) of (r, (w, book')) \<Rightarrow> (case r of Inl e \<Rightarrow> Inl e | Inr _ \<Rightarrow> Inr book', (w, snd s)))"

text \<open>The state that \<^verbatim>\<open>openLifecycleRuntime\<close> starts the replay from, and the checkpoint it came from.\<close>

definition restore_checkpoint :: "'s BlobStore \<Rightarrow> bytes \<Rightarrow> Limits \<Rightarrow> Journal \<Rightarrow> (world \<times> 's, Checkpoint option \<times> Store) M" where
  "restore_checkpoint blobs checkpointPath recordLimits journal =
     bindM (tryM (osM (LoadCheckpoint checkpointPath recordLimits))) (\<lambda>r.
     case r of
       Inl e \<Rightarrow>
         if \<not> err_is e (EStd ErrNotExist) then throwM (EWrap e)
         else if \<not> IsZero (jFloor journal) then throwM (EMsg ''lifecycle: journal floor requires a checkpoint'')
         else returnM (None, NewStore recordLimits)
     | Inr checkpoint \<Rightarrow>
         bindM (guardM (Watermark checkpoint \<noteq> jFloor journal) (EMsg ''lifecycle: checkpoint watermark does not match journal floor'')) (\<lambda>_.
         bindM (wrapM (verifyLifecycleRecords blobs (cpRecords checkpoint))) (\<lambda>_.
         bindM (liftE (mapE EWrap (case ReplaceSnapshot (cpRecords checkpoint) (NewStore recordLimits) of
                   (Inl e, _) \<Rightarrow> Inl e | (Inr _, state) \<Rightarrow> Inr state))) (\<lambda>state.
         returnM (Some checkpoint, state)))))"

text \<open>The second half of \<^verbatim>\<open>openLifecycleRuntime\<close>: from the opened components to the runtime.\<close>

definition assemble_runtime ::
  "lifecycleCLIConfig \<Rightarrow> 's BlobStore \<Rightarrow> Journal \<Rightarrow> Authority \<Rightarrow> WatermarkBook \<Rightarrow> MembershipBook \<Rightarrow> (world \<times> 's, 's lifecycleRuntime) M" where
  "assemble_runtime config blobs journal authority watermarks membership =
     (let recordLimits = ccRecordLimits config; checkpointPath = Join (ccDir config) ''checkpoint'' in
      bindM (restore_checkpoint blobs checkpointPath recordLimits journal) (\<lambda>(checkpoint, state).
      bindM (wrapM (replay_into blobs journal state)) (\<lambda>state.
      bindM (liftE (mapE EWrap (NewRepairCoordinator (Some journal) (Some watermarks) (ccRepairLimits config)))) (\<lambda>coordinator.
      bindM (selfM (\<lambda>b. b)) (\<lambda>b.
      returnM \<lparr>rtCheckpointPath = checkpointPath, rtRepairLimits = ccRepairLimits config,
        rtNode = \<lparr>nBlobs = b, nState = state, nJournal = journal, nWatermarks = watermarks\<rparr>,
        rtAuthority = authority, rtMembership = membership, rtCoordinator = coordinator,
        rtApplier = NewApplier (Some blobs) recordLimits, rtShared = \<lparr>shSnapshot = checkpoint, shMetrics = zeroMetrics\<rparr>,
        rtSessions = [], rtLive = []\<rparr>)))))"

definition openLifecycleRuntime ::
  "err + bytes \<Rightarrow> lifecycleCLIConfig \<Rightarrow> 's BlobStore option \<Rightarrow> bytes \<Rightarrow> bytes \<Rightarrow> (world \<times> 's, 's lifecycleRuntime option) M" where
  "openLifecycleRuntime raw config blobs peerAuthToken peerID =
     (if \<not> ccEnabled config then returnM None
      else
        bindM (liftE (validate_config config blobs peerAuthToken peerID)) (\<lambda>_.
        bindM (osM (wrapM (sysM (returnM ())))) (\<lambda>_.
        let recordLimits = ccRecordLimits config in
        bindM (osM (wrapM (OpenJournal (Join (ccDir config) ''journal'')
                 \<lparr>oLimits = recordLimits, MaxJournalBytes = MaxJournalBytes (ccJournalLimits config),
                  MaxJournalEntries = MaxJournalEntries (ccJournalLimits config)\<rparr>))) (\<lambda>(journal, _).
        onErrorM (close_local journal)
         (bindM (osM (wrapM (OpenAuthority raw (Join (ccDir config) ''authority'') peerID
                   \<lparr>aoLimits = recordLimits, aoMaxBytes = 0, aoObserved = jLast journal\<rparr>))) (\<lambda>authority.
          bindM (osM (wrapM (OpenWatermarkBook (Join (ccDir config) ''watermarks'')
                   \<lparr>woMaxPeers = 0, woMaxPeerIDBytes = 0, woMaxBytes = 0\<rparr>))) (\<lambda>watermarks.
          bindM (osM (wrapM (OpenMembershipBook (Join (ccDir config) ''membership'')
                   \<lparr>moMaxPeers = 0, moMaxPeerIDBytes = 0, moMaxBytes = 0\<rparr>))) (\<lambda>membership.
          bindM (if ccMembershipConfigured config then wrapM (configure_local (ccMembershipMembers config) membership)
                 else returnM membership) (\<lambda>membership.
          bindM (assemble_runtime config (the blobs) journal authority watermarks membership) (\<lambda>runtime.
          returnM (Some runtime)))))))))))"

section \<open>Mutations\<close>

definition nextVersion :: "('s, Version) runtimeM" where
  "nextVersion = bindM (selfM (\<lambda>r. jLast (nJournal (rtNode r)))) (\<lambda>observed. authorityM (Next observed))"

text \<open>A nil slice is \<open>None\<close>; its bytes are those of an empty one.\<close>

definition slice_bytes :: "bytes option \<Rightarrow> bytes" where
  "slice_bytes data = (case data of None \<Rightarrow> [] | Some d \<Rightarrow> d)"

definition put :: "bytes \<Rightarrow> bytes \<Rightarrow> bytes option \<Rightarrow> bytes option \<Rightarrow> ('s, Record \<times> ApplyResult) runtimeM" where
  "put namespace logicalKey data blobKey =
     bindM (metricM (\<lambda>m. m\<lparr>MutationsStarted := MutationsStarted m + 1\<rparr>)) (\<lambda>_.
     onErrorM (metricM (\<lambda>m. m\<lparr>MutationErrors := MutationErrors m + 1\<rparr>))
      (bindM (selfM (\<lambda>r. nState (rtNode r))) (\<lambda>state.
       bindM (liftE (ValidateKey state namespace logicalKey)) (\<lambda>_.
       bindM (liftE (case blobKey of
                       None \<Rightarrow> Inr (SHA256Key (slice_bytes data))
                     | Some blobKey \<Rightarrow> bindE (VerifySHA256Key blobKey (slice_bytes data)) (\<lambda>_. Inr blobKey))) (\<lambda>blobKey.
       bindM nextVersion (\<lambda>version.
       bindM (selfM (\<lambda>r. r)) (\<lambda>r.
       let record = \<lparr>Namespace = namespace, LogicalKey = logicalKey, State = StatePresent, BlobKey = blobKey, rVersion = version,
                     AuthorityID = AuthorityID_of (rtAuthority r)\<rparr> in
       bindM (rtNodeM (Applier_Apply (rtApplier r) [LifecycleCapabilityV1] record data)) (\<lambda>result.
       bindM (metricM (\<lambda>m. m\<lparr>MutationsApplied := MutationsApplied m + 1\<rparr>)) (\<lambda>_.
       returnM (record, result))))))))))"

definition delete :: "bytes \<Rightarrow> bytes \<Rightarrow> ('s, Record \<times> ApplyResult) runtimeM" where
  "delete namespace logicalKey =
     bindM (metricM (\<lambda>m. m\<lparr>MutationsStarted := MutationsStarted m + 1\<rparr>)) (\<lambda>_.
     onErrorM (metricM (\<lambda>m. m\<lparr>MutationErrors := MutationErrors m + 1\<rparr>))
      (bindM (selfM (\<lambda>r. nState (rtNode r))) (\<lambda>state.
       bindM (liftE (ValidateKey state namespace logicalKey)) (\<lambda>_.
       bindM nextVersion (\<lambda>version.
       bindM (selfM (\<lambda>r. r)) (\<lambda>r.
       let record = \<lparr>Namespace = namespace, LogicalKey = logicalKey, State = StateDeleted, BlobKey = [], rVersion = version,
                     AuthorityID = AuthorityID_of (rtAuthority r)\<rparr> in
       bindM (rtNodeM (Applier_Apply (rtApplier r) [LifecycleCapabilityV1] record None)) (\<lambda>result.
       bindM (metricM (\<lambda>m. m\<lparr>MutationsApplied := MutationsApplied m + 1\<rparr>)) (\<lambda>_.
       returnM (record, result)))))))))"

text \<open>One round of the loop of \<^verbatim>\<open>waitForVersion\<close>; the result tells whether the wait is over.\<close>

definition waitForVersion :: "Version \<Rightarrow> int \<Rightarrow> ('s, bool) runtimeM" where
  "waitForVersion version peerCount =
     (if peerCount \<le> 0 then returnM True
      else
        bindM (selfM (\<lambda>r. Snapshot_watermarks (nWatermarks (rtNode r)))) (\<lambda>watermarks.
        if int (length (filter (\<lambda>(_, watermark). Compare watermark version \<ge> 0) watermarks)) \<ge> peerCount then returnM True
        else bindM (osM pollM) (\<lambda>_. returnM False)))"

section \<open>Compaction and status\<close>

definition Snapshot_runtime :: "'s lifecycleRuntime \<Rightarrow> Checkpoint option" where
  "Snapshot_runtime r = shSnapshot (rtShared r)"

definition compact :: "('s, unit) runtimeM" where
  "compact =
     bindM (selfM (\<lambda>r. r)) (\<lambda>r.
     let target = jLast (nJournal (rtNode r)) in
     bindM (guardM (Compare target (jFloor (nJournal (rtNode r))) \<le> 0) (EJournal ErrCompactionNoProgress)) (\<lambda>_.
     bindM (osM (WatermarksAt (rtMembership r) (nWatermarks (rtNode r)) target)) (\<lambda>peerWatermarks.
     let checkpoint = \<lparr>Watermark = target, cpRecords = Snapshot (nState (rtNode r))\<rparr> in
     bindM (rtNodeM (journalM (Compact
              \<lparr>CheckpointPath = rtCheckpointPath r, reqWatermark = target, reqRecords = cpRecords checkpoint,
               reqBase = Snapshot_runtime r, PeerWatermarks = peerWatermarks\<rparr>))) (\<lambda>_.
     setM (\<lambda>r. r\<lparr>rtShared := (rtShared r)\<lparr>shSnapshot := Some checkpoint\<rparr>\<rparr>)))))"

definition compactionProgress :: "('s, MembershipProgress) runtimeM" where
  "compactionProgress =
     bindM (selfM (\<lambda>r. r)) (\<lambda>r.
     let target = jLast (nJournal (rtNode r)) in
     bindM (tryM (ctxM None (osM (Progress (rtMembership r) (nWatermarks (rtNode r)) target)))) (\<lambda>current.
     returnM (case current of
         Inl _ \<Rightarrow> \<lparr>Configured = False, Members = 0, Acknowledged = 0, Minimum = zeroVersion, Target = target\<rparr>
       | Inr current \<Rightarrow> current)))"

definition compactionStatus :: "'s lifecycleRuntime \<Rightarrow> MembershipProgress \<Rightarrow> bool \<times> bytes" where
  "compactionStatus r progress =
     (if \<not> Configured progress then (True, ''membership-missing'')
      else if Compare (Target progress) (jFloor (nJournal (rtNode r))) \<le> 0 then (True, ''no-progress'')
      else if Members progress \<noteq> Acknowledged progress then (True, ''member-behind'')
      else (False, []))"

record lifecycleStatus =
  stEnabled :: bool
  stReady :: bool
  stReadiness :: bytes
  stStatusAuthorityID :: bytes
  stAuthorityVersion :: Version
  stJournalFloor :: Version
  stJournalTail :: Version
  stJournalEntries :: int
  stJournalBytes :: int
  stLogicalRecords :: int
  stStatusTombstones :: int
  stMembershipConfigured :: bool
  stMembershipMembers :: int
  stMembershipAcknowledged :: int
  stMembershipMinimum :: Version
  stCompactionTarget :: Version
  stCompactionBlocked :: bool
  stCompactionBlockedReason :: bytes
  stRepairSessionsActive :: int
  stRepairSessionsStarted :: u64
  stRepairSessionsCompleted :: u64
  stRepairSessionErrors :: u64
  stRepairFramesReceived :: u64
  stRepairFrameErrors :: u64

text \<open>No field of an opened runtime is nil.\<close>

definition Ready :: "'s lifecycleRuntime \<Rightarrow> bool" where
  "Ready = (\<lambda>_. True)"

definition Status :: "('s, lifecycleStatus) runtimeM" where
  "Status =
     bindM (selfM (\<lambda>r. r)) (\<lambda>r.
     let m = shMetrics (rtShared r); journal = JournalStats_of (nJournal (rtNode r)); state = Stats (nState (rtNode r)) in
     bindM compactionProgress (\<lambda>progress.
     let (blocked, reason) = compactionStatus r progress in
     returnM \<lparr>stEnabled = True, stReady = Ready r, stReadiness = (if Ready r then ''ready'' else ''lifecycle-state-unavailable''),
       stStatusAuthorityID = AuthorityID_of (rtAuthority r), stAuthorityVersion = Current (rtAuthority r),
       stJournalFloor = jsFloor journal, stJournalTail = jsLast journal, stJournalEntries = int (jsEntries journal), stJournalBytes = jsBytes journal,
       stLogicalRecords = int (stRecords state), stStatusTombstones = int (stTombstones state),
       stMembershipConfigured = Configured progress, stMembershipMembers = Members progress, stMembershipAcknowledged = Acknowledged progress,
       stMembershipMinimum = Minimum progress, stCompactionTarget = Target progress,
       stCompactionBlocked = blocked, stCompactionBlockedReason = reason,
       stRepairSessionsActive = SessionsActive m, stRepairSessionsStarted = SessionsStarted m, stRepairSessionsCompleted = SessionsCompleted m,
       stRepairSessionErrors = SessionErrors m, stRepairFramesReceived = FramesReceived m, stRepairFrameErrors = FrameErrors m\<rparr>))"

definition boolMetric :: "bool \<Rightarrow> int" where
  "boolMetric v = (if v then 1 else 0)"

text \<open>The conversion \<^verbatim>\<open>int64(x)\<close> of an unsigned counter reads it as a signed one.\<close>

definition Metrics :: "('s, (bytes \<times> int) list) runtimeM" where
  "Metrics =
     bindM Status (\<lambda>status.
     bindM (selfM (\<lambda>r. shMetrics (rtShared r))) (\<lambda>m.
     returnM
       [(''lifecycle_enabled'', 1),
        (''lifecycle_ready'', boolMetric (stReady status)),
        (''lifecycle_authority_epoch'', sint (Epoch (stAuthorityVersion status))),
        (''lifecycle_authority_sequence'', sint (Sequence (stAuthorityVersion status))),
        (''lifecycle_journal_floor_epoch'', sint (Epoch (stJournalFloor status))),
        (''lifecycle_journal_floor_sequence'', sint (Sequence (stJournalFloor status))),
        (''lifecycle_journal_tail_epoch'', sint (Epoch (stJournalTail status))),
        (''lifecycle_journal_tail_sequence'', sint (Sequence (stJournalTail status))),
        (''lifecycle_journal_entries'', stJournalEntries status),
        (''lifecycle_journal_bytes'', stJournalBytes status),
        (''lifecycle_logical_records'', stLogicalRecords status),
        (''lifecycle_tombstones'', stStatusTombstones status),
        (''lifecycle_membership_configured'', boolMetric (stMembershipConfigured status)),
        (''lifecycle_membership_members'', stMembershipMembers status),
        (''lifecycle_membership_acknowledged'', stMembershipAcknowledged status),
        (''lifecycle_membership_min_epoch'', sint (Epoch (stMembershipMinimum status))),
        (''lifecycle_membership_min_sequence'', sint (Sequence (stMembershipMinimum status))),
        (''lifecycle_compaction_target_epoch'', sint (Epoch (stCompactionTarget status))),
        (''lifecycle_compaction_target_sequence'', sint (Sequence (stCompactionTarget status))),
        (''lifecycle_compaction_blocked'', boolMetric (stCompactionBlocked status)),
        (''lifecycle_repair_sessions_started'', sint (SessionsStarted m)),
        (''lifecycle_repair_sessions_completed'', sint (SessionsCompleted m)),
        (''lifecycle_repair_sessions_active'', SessionsActive m),
        (''lifecycle_repair_session_errors'', sint (SessionErrors m)),
        (''lifecycle_repair_frames_received'', sint (FramesReceived m)),
        (''lifecycle_repair_frame_errors'', sint (FrameErrors m)),
        (''lifecycle_mutations_started'', sint (MutationsStarted m)),
        (''lifecycle_mutations_applied'', sint (MutationsApplied m)),
        (''lifecycle_mutation_errors'', sint (MutationErrors m))]))"

section \<open>Sessions\<close>

text \<open>The methods of a \<^verbatim>\<open>p2p.Peer\<close> the runtime asks for; \<open>None\<close> and \<open>False\<close> stand for an optional interface that is not there.\<close>

record Peer =
  peLocalAddr :: "bytes option"
  peRemoteAddr :: bytes
  peIsOutbound :: bool
  peAuthIdentity :: "bytes option"
  peAuthCapabilities :: "bytes list option"
  peWritesFrames :: bool

definition authCapabilitiesForPeer :: "Peer \<Rightarrow> bytes list" where
  "authCapabilitiesForPeer peer = (case peAuthCapabilities peer of None \<Rightarrow> [] | Some capabilities \<Rightarrow> capabilities)"

definition authIdentityForPeer :: "Peer \<Rightarrow> bytes" where
  "authIdentityForPeer peer = (case peAuthIdentity peer of None \<Rightarrow> [] | Some identity \<Rightarrow> identity)"

definition repairPeerKey :: "Peer \<Rightarrow> bytes" where
  "repairPeerKey peer =
     (let local = (case peLocalAddr peer of None \<Rightarrow> [] | Some address \<Rightarrow> address);
          direction = (if peIsOutbound peer then ''outbound'' else ''inbound'') in
      local @ [CHR 0x00] @ peRemoteAddr peer @ [CHR 0x00] @ direction)"

text \<open>The selection loop of \<^verbatim>\<open>recordsForRawSync\<close>: the keys that were seen and the selected records.\<close>

definition appendRecord :: "Version \<Rightarrow> bytes list \<times> Record list \<Rightarrow> Record \<Rightarrow> bytes list \<times> Record list" where
  "appendRecord watermark acc record =
     (if State record \<noteq> StatePresent \<or> Compare (rVersion record) watermark \<le> 0 then acc
      else if BlobKey record \<in> set (fst acc) then acc
      else (BlobKey record # fst acc, snd acc @ [record]))"

definition recordsForRawSync :: "bytes \<Rightarrow> ('s, cli_conn, Record list) sessionM" where
  "recordsForRawSync peerID =
     bindM (nodeM (journalM Records)) (\<lambda>records.
     bindM (selfM (\<lambda>t. t)) (\<lambda>t.
     let watermark = Watermark_of (nWatermarks (ssNode t)) peerID;
         acc = foldl (appendRecord watermark) ([], []) records;
         acc = (if Compare watermark (jFloor (nJournal (ssNode t))) < 0 then
                  (case shSnapshot (snd (ssConn t)) of
                     None \<Rightarrow> acc
                   | Some checkpoint \<Rightarrow> foldl (appendRecord watermark) acc (cpRecords checkpoint))
                else acc) in
     returnM (snd acc)))"

definition sessionErrorM :: "('s, cli_conn, unit) sessionM" where
  "sessionErrorM = setM (\<lambda>t. t\<lparr>ssConn := apsnd (\<lambda>sh. sh\<lparr>shMetrics := (shMetrics sh)\<lparr>SessionErrors := SessionErrors (shMetrics sh) + 1\<rparr>\<rparr>) (ssConn t)\<rparr>)"

type_synonym 's lifecycleRawRecordSync = "Peer \<Rightarrow> Record list \<Rightarrow> ('s, cli_conn, unit) sessionM"

definition beforeRepair :: "'s lifecycleRawRecordSync \<Rightarrow> Peer \<Rightarrow> bytes \<Rightarrow> ('s, cli_conn, unit) sessionM" where
  "beforeRepair rawSync peer remoteID =
     bindM (tryM (bindM (recordsForRawSync remoteID) (rawSync peer))) (\<lambda>res.
     case res of
       Inl syncErr \<Rightarrow>
         bindM (if \<not> err_is syncErr (EStd ErrContext) then sessionErrorM else returnM ()) (\<lambda>_. throwM syncErr)
     | Inr _ \<Rightarrow> returnM ())"

text \<open>The frame writer of the peer's connection.\<close>

definition shared_write :: "bytes \<Rightarrow> int \<Rightarrow> (world \<times> cli_conn, unit) M" where
  "shared_write payload limit = zoomM (\<lambda>s. (fst s, fst (snd s))) (\<lambda>t s. (fst t, (snd t, snd (snd s)))) (TCPPeer_WriteFrame payload limit)"

text \<open>\<^verbatim>\<open>cancel()\<close> of an entry\<close>

definition cancel_session :: "nat \<Rightarrow> 's lifecycleRuntime \<Rightarrow> 's lifecycleRuntime" where
  "cancel_session i r = r\<lparr>rtLive := (rtLive r)[i := (rtLive r ! i)\<lparr>lvCancelled := True\<rparr>]\<rparr>"

definition active_metric :: "int \<Rightarrow> 's lifecycleRuntime \<Rightarrow> 's lifecycleRuntime" where
  "active_metric d r = r\<lparr>rtShared := (rtShared r)\<lparr>shMetrics := (shMetrics (rtShared r))\<lparr>SessionsActive := SessionsActive (shMetrics (rtShared r)) + d\<rparr>\<rparr>\<rparr>"

definition drop_previous :: "bytes \<Rightarrow> 's lifecycleRuntime \<Rightarrow> 's lifecycleRuntime" where
  "drop_previous key r =
     (case map_of (rtSessions r) key of
        None \<Rightarrow> r
      | Some previous \<Rightarrow>
          let r = cancel_session (enSession previous) r in
          if enActive previous then active_metric (- 1) r else r)"

text \<open>The part of \<^verbatim>\<open>AttachPeer\<close> under the lock, with the goroutine it starts.\<close>

definition register_session :: "bytes \<Rightarrow> ('s, cli_conn) RepairSession \<Rightarrow> 's lifecycleRuntime \<Rightarrow> 's lifecycleRuntime" where
  "register_session key session r =
     (let r = drop_previous key r;
          r = r\<lparr>rtSessions := AList.update key \<lparr>enSession = length (rtLive r), enActive = True\<rparr> (rtSessions r),
                rtShared := (rtShared r)\<lparr>shMetrics := (shMetrics (rtShared r))\<lparr>SessionsStarted := SessionsStarted (shMetrics (rtShared r)) + 1\<rparr>\<rparr>\<rparr>;
          r = active_metric 1 r in
      r\<lparr>rtLive := rtLive r @ [\<lparr>lvKey = key, lvSession = session, lvConn = [], lvHelloReceived = False, lvHelloNotify = False,
          lvAckNotify = False, lvCancelled = False, lvRun = RunStart, lvDone = False\<rparr>]\<rparr>)"

definition AttachPeer :: "Peer \<Rightarrow> int \<Rightarrow> 's lifecycleRawRecordSync option \<Rightarrow> ('s, unit) runtimeM" where
  "AttachPeer peer maxFrameBytes rawSync =
     (if \<not> HasLifecycleCapability (authCapabilitiesForPeer peer) then returnM ()
      else if \<not> peWritesFrames peer then metricM (\<lambda>m. m\<lparr>SessionErrors := SessionErrors m + 1\<rparr>)
      else
        let remoteID = authIdentityForPeer peer in
        if remoteID = [] then metricM (\<lambda>m. m\<lparr>SessionErrors := SessionErrors m + 1\<rparr>)
        else
          bindM (selfM (\<lambda>r. r)) (\<lambda>r.
          case NewRepairSession
                 \<lparr>soPeer = Some \<lparr>AuthCapabilities = authCapabilitiesForPeer peer, fpWriteFrame = shared_write\<rparr>,
                  soCoordinator = Some (rtCoordinator r), soApplier = Some (rtApplier r), soPeerID = remoteID,
                  soSnapshot = Snapshot_runtime r, soCheckpointPath = rtCheckpointPath r, soMaxFrameBytes = maxFrameBytes,
                  soReconcilePeer = HasRepairReconciliationCapability (authCapabilitiesForPeer peer),
                  soBeforeRepair = map_option (\<lambda>sync. beforeRepair sync peer remoteID) rawSync\<rparr> (nWatermarks (rtNode r)) of
            Inl _ \<Rightarrow> metricM (\<lambda>m. m\<lparr>SessionErrors := SessionErrors m + 1\<rparr>)
          | Inr session \<Rightarrow> setM (register_session (repairPeerKey peer) session)))"

definition finishSession :: "bytes \<Rightarrow> nat \<Rightarrow> 's lifecycleRuntime \<Rightarrow> 's lifecycleRuntime" where
  "finishSession key session r =
     (case map_of (rtSessions r) key of
        None \<Rightarrow> r
      | Some entry \<Rightarrow>
          if enSession entry \<noteq> session \<or> \<not> enActive entry then r
          else active_metric (- 1) (r\<lparr>rtSessions := AList.update key (entry\<lparr>enActive := False\<rparr>) (rtSessions r)\<rparr>))"

text \<open>A step of the goroutine of \<^verbatim>\<open>AttachPeer\<close>: a step of \<^verbatim>\<open>session.Run\<close>, or what follows its return.\<close>

definition session_goroutine :: "nat \<Rightarrow> ('s, unit) runtimeM" where
  "session_goroutine i =
     bindM (selfM (\<lambda>r. rtLive r ! i)) (\<lambda>live.
     if lvDone live then returnM ()
     else case lvRun live of
       RunReturned res \<Rightarrow>
         bindM (case res of
                  Inl e \<Rightarrow> if \<not> err_is e (EStd ErrContext) then metricM (\<lambda>m. m\<lparr>SessionErrors := SessionErrors m + 1\<rparr>) else returnM ()
                | Inr _ \<Rightarrow> metricM (\<lambda>m. m\<lparr>SessionsCompleted := SessionsCompleted m + 1\<rparr>)) (\<lambda>_.
         bindM (setM (finishSession (lvKey live) i)) (\<lambda>_.
         setM (\<lambda>r. r\<lparr>rtLive := (rtLive r)[i := (rtLive r ! i)\<lparr>lvDone := True\<rparr>]\<rparr>)))
     | _ \<Rightarrow>
         bindM (if lvCancelled live then ctxM (Some 0) (sessionAt i (run_step (lvSession live) (lvRun live)))
                else sessionAt i (run_step (lvSession live) (lvRun live))) (\<lambda>st.
         setM (\<lambda>r. r\<lparr>rtLive := (rtLive r)[i := (rtLive r ! i)\<lparr>lvRun := st\<rparr>]\<rparr>)))"

definition ForgetPeer :: "Peer \<Rightarrow> ('s, unit) runtimeM" where
  "ForgetPeer peer =
     (let key = repairPeerKey peer in
      setM (\<lambda>r. let r' = drop_previous key r in r'\<lparr>rtSessions := AList.delete key (rtSessions r')\<rparr>))"

definition HandleFrame :: "Peer \<Rightarrow> bytes \<Rightarrow> ('s, unit) runtimeM" where
  "HandleFrame peer payload =
     (let key = repairPeerKey peer in
      bindM (selfM (\<lambda>r. r)) (\<lambda>r.
      case map_of (rtSessions r) key of
        None \<Rightarrow> throwM (EMsg ''lifecycle: repair session unavailable'')
      | Some entry \<Rightarrow>
          bindM (metricM (\<lambda>m. m\<lparr>FramesReceived := FramesReceived m + 1\<rparr>)) (\<lambda>_.
          onErrorM (metricM (\<lambda>m. m\<lparr>FrameErrors := FrameErrors m + 1\<rparr>))
            (sessionAt (enSession entry) (Handle (lvSession (rtLive r ! enSession entry)) payload)))))"

text \<open>\<^verbatim>\<open>Close\<close> cancels the sessions, waits for their goroutines and closes the journal; the wait is one poll.\<close>

definition Close_sessions :: "('s, unit) runtimeM" where
  "Close_sessions =
     setM (\<lambda>r. (fold (\<lambda>(_, entry). cancel_session (enSession entry)) (rtSessions r) r)
       \<lparr>rtSessions := [], rtShared := (rtShared r)\<lparr>shMetrics := (shMetrics (rtShared r))\<lparr>SessionsActive := 0\<rparr>\<rparr>\<rparr>)"

definition Close_wait :: "('s, bool) runtimeM" where
  "Close_wait =
     bindM (selfM rtLive) (\<lambda>live.
     if list_all lvDone live then bindM (rtNodeM (journalM CloseJournal)) (\<lambda>_. returnM True)
     else returnM False)"

text \<open>The anonymous struct with the one member \<^verbatim>\<open>type\<close> is the target.\<close>

definition isLifecycleRepairPayload :: "bytes \<Rightarrow> bool" where
  "isLifecycleRepairPayload payload =
     (case json_unmarshal (struct_decode False type_fields) [] payload of
        Inl _ \<Rightarrow> False
      | Inr typ \<Rightarrow> typ \<in> {RepairBatchMessageType, RepairSnapshotMessageType, RepairAckMessageType})"

section \<open>Schedules\<close>

text \<open>What may happen to a runtime, in any order.\<close>

datatype 's runtime_event =
    PutEvent bytes bytes "bytes option" "bytes option"
  | DeleteEvent bytes bytes
  | CompactEvent
  | AttachEvent Peer int "'s lifecycleRawRecordSync option"
  | ForgetEvent Peer
  | FrameFrom Peer bytes
  | SessionEvent nat
  | CloseEvent

fun run_event :: "'s runtime_event \<Rightarrow> ('s, unit) runtimeM" where
  "run_event (PutEvent namespace key data blobKey) = bindM (put namespace key data blobKey) (\<lambda>_. returnM ())"
| "run_event (DeleteEvent namespace key) = bindM (delete namespace key) (\<lambda>_. returnM ())"
| "run_event CompactEvent = compact"
| "run_event (AttachEvent peer limit rawSync) = AttachPeer peer limit rawSync"
| "run_event (ForgetEvent peer) = ForgetPeer peer"
| "run_event (FrameFrom peer payload) = HandleFrame peer payload"
| "run_event (SessionEvent i) = bindM (selfM (\<lambda>r. length (rtLive r))) (\<lambda>n. if i < n then session_goroutine i else returnM ())"
| "run_event CloseEvent = Close_sessions"

definition runtime_events :: "(nat option \<times> 's runtime_event) list \<Rightarrow> ('s, unit) runtimeM" where
  "runtime_events = forM (\<lambda>(ctx, e). ignoreM (ctxM ctx (run_event e)))"

section \<open>Running a component inside the runtime\<close>

lemma wp_runtime_parts [wps]:
  "wp (rtNodeM m) Q E = (\<lambda>s. wp m (\<lambda>x t. Q x (fst t, (snd s)\<lparr>rtNode := snd t\<rparr>)) (\<lambda>e t. E e (fst t, (snd s)\<lparr>rtNode := snd t\<rparr>)) (fst s, rtNode (snd s)))"
  "wp (authorityM a) Q' E = (\<lambda>s. wp a (\<lambda>x t. Q' x (fst t, (snd s)\<lparr>rtAuthority := snd t\<rparr>)) (\<lambda>e t. E e (fst t, (snd s)\<lparr>rtAuthority := snd t\<rparr>)) (fst s, rtAuthority (snd s)))"
  "wp (sessionAt i n) Q'' E = (\<lambda>s. wp n (\<lambda>x t. Q'' x (fst t, session_store i (snd t) (snd s))) (\<lambda>e t. E e (fst t, session_store i (snd t) (snd s)))
     (fst s, session_view i (snd s)))"
  by (simp_all add: rtNodeM_def authorityM_def sessionAt_def wps)

lemma wp_ctxM [wps]:
  "wp (ctxM c m) Q E = (\<lambda>s. wp m (\<lambda>x t. Q x ((fst t)\<lparr>wpolls := wpolls (fst s)\<rparr>, snd t)) (\<lambda>e t. E e ((fst t)\<lparr>wpolls := wpolls (fst s)\<rparr>, snd t))
     ((fst s)\<lparr>wpolls := c\<rparr>, snd s))"
  by (auto simp: fun_eq_iff wp_def ctxM_def split: prod.splits sum.splits)

lemma wp_metricM [wps]:
  "wp (metricM f) Q E = (\<lambda>s. Q () (fst s, (snd s)\<lparr>rtShared := (rtShared (snd s))\<lparr>shMetrics := f (shMetrics (rtShared (snd s)))\<rparr>\<rparr>))"
  by (simp add: metricM_def wps)

text \<open>The connection of a session, with a condition on what it shares with the runtime.\<close>

definition shared_wrote :: "(runtime_shared \<Rightarrow> bool) \<Rightarrow> cli_conn \<Rightarrow> bytes list \<Rightarrow> bool" where
  "shared_wrote A c ps \<longleftrightarrow> written (fst c) ps \<and> A (snd c)"

interpretation rs: session_parts "memory_blobs bt" memory_view "\<lambda>_. True" shared_write "shared_wrote A" for bt :: "'t btree" and A :: "runtime_shared \<Rightarrow> bool"
proof
  fix s :: "world \<times> cli_conn" and ps p m assume "shared_wrote A (snd s) ps"
  then have "written (snd (fst s, fst (snd s))) ps" and a: "A (snd (snd s))" by (simp_all add: shared_wrote_def)
  then have "wp (TCPPeer_WriteFrame p m) (\<lambda>_ t. written (snd t) (ps @ [p])) (\<lambda>_ t. written (snd t) (ps @ [p])) (fst s, fst (snd s))"
    by (intro tcp.wrote_snoc)
  with a show "wp (shared_write p m) (\<lambda>_ t. shared_wrote A (snd t) (ps @ [p])) (\<lambda>_ t. shared_wrote A (snd t) (ps @ [p])) s"
    by (simp add: shared_write_def shared_wrote_def wps)
qed

section \<open>The invariant of the runtime\<close>

text \<open>What is relied on of the raw synchronisation: it writes frames of its own protocol on the connection of its session.\<close>

definition raw_sync_ok :: "'s lifecycleRawRecordSync \<Rightarrow> bool" where
  "raw_sync_ok sync \<longleftrightarrow> (\<forall>peer rs w t. \<exists>ts ps. list_all2 prefix ts (map frame_bytes ps) \<and>
     (\<forall>p\<in>set ps. decodeRepairType p \<noteq> Inr RepairAckMessageType) \<and>
     snd (snd (sync peer rs (w, t))) = t\<lparr>ssConn := (fst (ssConn t) @ concat ts, snd (ssConn t))\<rparr>)"

definition session_ok :: "'t btree \<Rightarrow> Limits \<Rightarrow> Version \<Rightarrow> 't MemoryStore live_session \<Rightarrow> bool" where
  "session_ok bt L v l \<longleftrightarrow> fpWriteFrame (sePeer (lvSession l)) = shared_write \<and>
     seApplier (lvSession l) = Some (NewApplier (Some (memory_blobs bt)) L) \<and>
     (\<forall>b. seBeforeRepair (lvSession l) = Some b \<longrightarrow> (\<exists>sync peer remoteID. raw_sync_ok sync \<and> b = beforeRepair sync peer remoteID)) \<and>
     (\<exists>ps. written (lvConn l) ps \<and> (\<forall>p\<in>set ps. acks_upto (coLimits (seCoordinator (lvSession l))) v p))"

text \<open>The gauge of active sessions counts the active entries of the table.\<close>

definition table_ok :: "'s lifecycleRuntime \<Rightarrow> bool" where
  "table_ok r \<longleftrightarrow> distinct (map fst (rtSessions r)) \<and> (\<forall>e\<in>set (rtSessions r). enSession (snd e) < length (rtLive r)) \<and>
     SessionsActive (shMetrics (rtShared r)) = int (length (filter (\<lambda>e. enActive (snd e)) (rtSessions r)))"

text \<open>
  The node is recoverable, no watermark passes the end of the journal, no session has acknowledged more than the
  journal covers, and the table of sessions is consistent; \<open>v\<close> is a version that the journal keeps covering.
\<close>

definition runtime_inv :: "'t btree \<Rightarrow> Limits \<Rightarrow> Version \<Rightarrow> 't MemoryStore lifecycleRuntime \<Rightarrow> bool" where
  "runtime_inv bt L v r \<longleftrightarrow> (let n = rtNode r in
     node_ok L (map_of (msData (nBlobs n))) n \<and> book_ok (nWatermarks n) \<and> (\<forall>q. Watermark_of (nWatermarks n) q \<le> jLast (nJournal n)) \<and>
     v \<le> jLast (nJournal n) \<and> rtApplier r = NewApplier (Some (memory_blobs bt)) L \<and>
     (\<forall>l\<in>set (rtLive r). session_ok bt L (jLast (nJournal n)) l) \<and> table_ok r)"

lemma node_inv_memory: "ml.node_inv L n \<longleftrightarrow> node_ok L (map_of (msData (nBlobs n))) n"
  by (simp add: ml.node_inv_def ml.usable_def)

lemma session_ok_mono: "session_ok bt L v l \<Longrightarrow> v \<le> v' \<Longrightarrow> session_ok bt L v' l"
  unfolding session_ok_def by (blast intro: acks_upto_mono)

lemma session_ok_fields [simp]:
  "session_ok bt L v (l\<lparr>lvCancelled := x\<rparr>) = session_ok bt L v l" "session_ok bt L v (l\<lparr>lvRun := st\<rparr>) = session_ok bt L v l"
  "session_ok bt L v (l\<lparr>lvDone := x\<rparr>) = session_ok bt L v l"
  by (simp_all add: session_ok_def)

lemma runtime_inv_node:
  assumes "runtime_inv bt L v r" and "ml.node_inv L n" and "nWatermarks n = nWatermarks (rtNode r)" and "jLast (nJournal (rtNode r)) \<le> jLast (nJournal n)"
  shows "runtime_inv bt L v (r\<lparr>rtNode := n\<rparr>)"
  using assms unfolding runtime_inv_def Let_def node_inv_memory
  by (auto simp: table_ok_def intro: order_trans session_ok_mono)

lemma runtime_inv_fields [simp]:
  "runtime_inv bt L v (r\<lparr>rtAuthority := a\<rparr>) = runtime_inv bt L v r"
  "runtime_inv bt L v (r\<lparr>rtShared := (rtShared r)\<lparr>shSnapshot := c\<rparr>\<rparr>) = runtime_inv bt L v r"
  by (simp_all add: runtime_inv_def table_ok_def Let_def)

lemma runtime_inv_metric [simp]:
  "SessionsActive m = SessionsActive (shMetrics (rtShared r)) \<Longrightarrow>
    runtime_inv bt L v (r\<lparr>rtShared := (rtShared r)\<lparr>shMetrics := m\<rparr>\<rparr>) = runtime_inv bt L v r"
  by (simp add: runtime_inv_def table_ok_def Let_def)

lemma runtime_inv_live:
  assumes "runtime_inv bt L v r" and "\<And>l. session_ok bt L (jLast (nJournal (rtNode r))) l \<Longrightarrow> session_ok bt L (jLast (nJournal (rtNode r))) (f l)"
  shows "runtime_inv bt L v (r\<lparr>rtLive := (rtLive r)[i := f (rtLive r ! i)]\<rparr>)"
proof (cases "i < length (rtLive r)")
  case True
  then have "session_ok bt L (jLast (nJournal (rtNode r))) (f (rtLive r ! i))"
    using assms by (auto simp: runtime_inv_def Let_def)
  then show ?thesis
    using assms(1) by (auto simp: runtime_inv_def Let_def table_ok_def dest!: set_update_subset_insert [THEN subsetD])
next
  case False
  then have "(rtLive r)[i := f (rtLive r ! i)] = rtLive r" by (simp add: list_update_beyond)
  with assms(1) show ?thesis by simp
qed

section \<open>Every event keeps the invariant\<close>

abbreviation keeps_runtime :: "'t btree \<Rightarrow> Limits \<Rightarrow> Version \<Rightarrow> ('t MemoryStore, 'a) runtimeM \<Rightarrow> 't MemoryStore lifecycleRuntime \<Rightarrow> bool" where
  "keeps_runtime bt L v m r \<equiv> (\<forall>w. wp m (\<lambda>_ u. runtime_inv bt L v (snd u)) (\<lambda>_ u. runtime_inv bt L v (snd u)) (w, r))"

subsection \<open>Mutations\<close>

lemma apply_inv:
  assumes "runtime_inv bt L v r"
  shows "keeps_runtime bt L v (rtNodeM (Applier_Apply (rtApplier r) caps record data)) r"
proof
  fix w
  have a: "apBlobs (rtApplier r) = Some (memory_blobs bt)" and n: "ml.node_inv L (rtNode r)"
    using assms by (simp_all add: runtime_inv_def Let_def NewApplier_def node_inv_memory)
  show "wp (rtNodeM (Applier_Apply (rtApplier r) caps record data)) (\<lambda>_ u. runtime_inv bt L v (snd u)) (\<lambda>_ u. runtime_inv bt L v (snd u)) (w, r)"
    unfolding wp_runtime_parts fst_conv snd_conv
    by (rule ml.wp_apply_record [OF a n]) (auto simp: ml.only_blobs_def advances_def intro!: runtime_inv_node [OF assms])
qed

lemma nextVersion_inv:
  assumes "\<And>w a t. wp (f t) Q E (w, r\<lparr>rtAuthority := a\<rparr>)" and "\<And>e w a. E e (w, r\<lparr>rtAuthority := a\<rparr>)"
  shows "wp (bindM nextVersion f) Q E (w, r)"
  unfolding nextVersion_def wp_bind wp_selfM wp_runtime_parts by (rule wp_any) (use assms in auto)

lemma mutation_inv:
  assumes "runtime_inv bt L v r"
  shows "keeps_runtime bt L v (bindM nextVersion (\<lambda>version. bindM (selfM (\<lambda>r. r)) (\<lambda>r.
    bindM (rtNodeM (Applier_Apply (rtApplier r) [LifecycleCapabilityV1] (record version r) data)) (\<lambda>result.
    bindM (metricM (\<lambda>m. m\<lparr>MutationsApplied := MutationsApplied m + 1\<rparr>)) (\<lambda>_. returnM (record version r, result)))))) r"
proof (intro allI nextVersion_inv)
  fix w a t
  have "runtime_inv bt L v (r\<lparr>rtAuthority := a\<rparr>)" using assms by simp
  from apply_inv [OF this, THEN spec, of "[LifecycleCapabilityV1]" "record t (r\<lparr>rtAuthority := a\<rparr>)" data w]
  show "wp (bindM (selfM (\<lambda>r. r)) (\<lambda>r.
    bindM (rtNodeM (Applier_Apply (rtApplier r) [LifecycleCapabilityV1] (record t r) data)) (\<lambda>result.
    bindM (metricM (\<lambda>m. m\<lparr>MutationsApplied := MutationsApplied m + 1\<rparr>)) (\<lambda>_. returnM (record t r, result)))))
    (\<lambda>_ u. runtime_inv bt L v (snd u)) (\<lambda>_ u. runtime_inv bt L v (snd u)) (w, r\<lparr>rtAuthority := a\<rparr>)"
    unfolding wp_bind wp_selfM wp_metricM snd_conv by (rule wp_mono) (auto simp: wp_basic)
qed (use assms in simp)

lemma put_inv:
  assumes "runtime_inv bt L v r"
  shows "keeps_runtime bt L v (put namespace key data blobKey) r"
proof
  fix w
  let ?r = "r\<lparr>rtShared := (rtShared r)\<lparr>shMetrics := (shMetrics (rtShared r))\<lparr>MutationsStarted := MutationsStarted (shMetrics (rtShared r)) + 1\<rparr>\<rparr>\<rparr>"
  let ?I = "\<lambda>_ u. runtime_inv bt L v (snd u)"
  have i: "runtime_inv bt L v ?r" using assms by simp
  note m = mutation_inv [OF i, THEN spec, of _ data w]
  have e: "(\<lambda>e. wp (metricM (\<lambda>m. m\<lparr>MutationErrors := MutationErrors m + 1\<rparr>)) (\<lambda>_. ?I e) (\<lambda>_. ?I e)) = ?I"
    by (simp add: wps fun_eq_iff)
  show "wp (put namespace key data blobKey) ?I ?I (w, r)"
    unfolding put_def wp_bind [of "metricM _"] wp_metricM wp_onErrorM e Let_def
    using m i by (simp add: wp_bind [of "selfM _"] wp_bind [of "liftE _"] wp_selfM wp_basic split: sum.split option.split)
qed

lemma delete_inv:
  assumes "runtime_inv bt L v r"
  shows "keeps_runtime bt L v (delete namespace key) r"
proof
  fix w
  let ?r = "r\<lparr>rtShared := (rtShared r)\<lparr>shMetrics := (shMetrics (rtShared r))\<lparr>MutationsStarted := MutationsStarted (shMetrics (rtShared r)) + 1\<rparr>\<rparr>\<rparr>"
  let ?I = "\<lambda>_ u. runtime_inv bt L v (snd u)"
  have i: "runtime_inv bt L v ?r" using assms by simp
  note m = mutation_inv [OF i, THEN spec, of _ None w]
  have e: "(\<lambda>e. wp (metricM (\<lambda>m. m\<lparr>MutationErrors := MutationErrors m + 1\<rparr>)) (\<lambda>_. ?I e) (\<lambda>_. ?I e)) = ?I"
    by (simp add: wps fun_eq_iff)
  show "wp (delete namespace key) ?I ?I (w, r)"
    unfolding delete_def wp_bind [of "metricM _"] wp_metricM wp_onErrorM e Let_def
    using m i by (simp add: wp_bind [of "selfM _"] wp_bind [of "liftE _"] wp_selfM wp_basic split: sum.split)
qed

subsection \<open>Compaction\<close>

lemma Compact_object:
  assumes "journal_fields j" and err: "\<And>e v. E e (v, j)"
    and ok: "\<And>base cp cb k v. \<not> jClosed j \<Longrightarrow> compaction_checks j req base cp cb \<Longrightarrow>
      Q () (v, moved j (reqWatermark req) (kept (reqWatermark req) (jRecords j)) k)"
  shows "wp (Compact req) Q E (w, j)"
proof (cases "jClosed j \<or> jFile j = None")
  case True
  then show ?thesis
    unfolding Compact_def
    by (auto simp: wp_bind wp_effect wp_osM wp_ensureOpen err intro!: wp_any split: option.split)
next
  case False
  then obtain i where i: "\<not> jClosed j" "jFile j = Some i" by auto
  show ?thesis by (rule wp_Compact [OF assms(1) i]) (use err ok [OF i(1)] in auto)
qed

lemma kept_all:
  assumes "journal_fields j"
  shows "kept (jLast j) (jRecords j) = []"
  using assms increasing_bounds [of "jFloor j" "jRecords j"]
  by (auto simp: covered_kept(2) journal_fields_def dropWhile_eq_Nil_conv)

text \<open>The node after the whole journal went into the checkpoint: the state is its own base.\<close>

lemma compacted_node:
  assumes "ml.node_inv L n"
  shows "ml.node_inv L (n\<lparr>nJournal := moved (nJournal n) (jLast (nJournal n)) [] k\<rparr>)"
proof -
  obtain base where f: "journal_fields (nJournal n)" "based L base (nJournal n) (nState n)" "blobs_present (map_of (msData (nBlobs n))) (nState n)"
    using assms by (auto simp: node_inv_memory node_ok_def)
  have "journal_fields (moved (nJournal n) (jLast (nJournal n)) [] k)"
    using moved_fields [OF f(1), of "jLast (nJournal n)" "length (jRecords (nJournal n))" k] by simp
  moreover have "based L (nState n) (moved (nJournal n) (jLast (nJournal n)) [] k) (nState n)"
    using based_wf [OF f(2)] based_versions [OF f(2,1)] by (auto simp: based_def moved_def)
  ultimately show ?thesis using f(3) by (auto simp: node_inv_memory node_ok_def)
qed

definition compacted :: "'s lifecycleRuntime \<Rightarrow> nat \<Rightarrow> 's lifecycleRuntime" where
  "compacted r k = r\<lparr>rtNode := (rtNode r)\<lparr>nJournal := moved (nJournal (rtNode r)) (jLast (nJournal (rtNode r))) [] k\<rparr>,
     rtShared := (rtShared r)\<lparr>shSnapshot := Some \<lparr>Watermark = jLast (nJournal (rtNode r)), cpRecords = Snapshot (nState (rtNode r))\<rparr>\<rparr>\<rparr>"

lemma wp_compact:
  fixes r :: "'t MemoryStore lifecycleRuntime"
  assumes "runtime_inv bt L v r" and err: "\<And>e w. E e (w, r)"
    and ok: "\<And>w k. jFloor (nJournal (rtNode r)) < jLast (nJournal (rtNode r)) \<Longrightarrow> mbConfigured (rtMembership r) \<Longrightarrow>
      \<forall>m\<in>set (mbMembers (rtMembership r)). jLast (nJournal (rtNode r)) \<le> Watermark_of (nWatermarks (rtNode r)) m \<Longrightarrow> Q () (w, compacted r k)"
  shows "wp compact Q E (w, r)"
proof -
  let ?n = "rtNode r" let ?t = "jLast (nJournal ?n)"
  have f: "journal_fields (nJournal ?n)" using assms(1) by (simp add: runtime_inv_def Let_def node_ok_def)
  let ?req = "\<lambda>ps. \<lparr>CheckpointPath = rtCheckpointPath r, reqWatermark = ?t, reqRecords = Snapshot (nState ?n),
    reqBase = Snapshot_runtime r, PeerWatermarks = ps\<rparr>"
  have c: "wp (rtNodeM (journalM (Compact (?req ps)))) (\<lambda>_. wp (setM (\<lambda>r. r\<lparr>rtShared := (rtShared r)\<lparr>shSnapshot := Some \<lparr>Watermark = ?t, cpRecords = Snapshot (nState ?n)\<rparr>\<rparr>\<rparr>)) Q E) E (u, r)"
    if "mbConfigured (rtMembership r)" "\<forall>m\<in>set (mbMembers (rtMembership r)). ?t \<le> Watermark_of (nWatermarks ?n) m" "jFloor (nJournal ?n) < ?t" for u ps
    unfolding wp_runtime_parts wp_parts fst_conv snd_conv
    by (rule Compact_object [OF f]) (use err ok that kept_all [OF f] in \<open>simp_all add: wps compacted_def\<close>)
  have "wp (WatermarksAt (rtMembership r) (nWatermarks ?n) ?t)
     (\<lambda>ps u. wp (rtNodeM (journalM (Compact (?req ps)))) (\<lambda>_. wp (setM (\<lambda>r. r\<lparr>rtShared := (rtShared r)\<lparr>shSnapshot := Some \<lparr>Watermark = ?t, cpRecords = Snapshot (nState ?n)\<rparr>\<rparr>\<rparr>)) Q E) E (u, r))
     (\<lambda>e u. E e (u, r)) w" if "jFloor (nJournal ?n) < ?t"
    by (rule wp_WatermarksAt) (use err c that in auto)
  then show ?thesis
    using err unfolding compact_def Let_def by (simp add: wp_bind wp_selfM wp_effect wp_osM)
qed

lemma compact_inv:
  assumes "runtime_inv bt L v r"
  shows "keeps_runtime bt L v compact r"
proof (intro allI wp_compact [OF assms])
  fix w k
  have n: "ml.node_inv L (rtNode r)" using assms by (simp add: runtime_inv_def Let_def node_inv_memory)
  have "runtime_inv bt L v (r\<lparr>rtNode := (rtNode r)\<lparr>nJournal := moved (nJournal (rtNode r)) (jLast (nJournal (rtNode r))) [] k\<rparr>\<rparr>)"
    using assms compacted_node [OF n] by (intro runtime_inv_node) simp_all
  then show "runtime_inv bt L v (snd (w, compacted r k))" by (simp add: compacted_def runtime_inv_def table_ok_def Let_def)
qed (use assms in simp)

subsection \<open>Sessions\<close>

text \<open>What the steps of a session leave as they are in the shared part.\<close>

definition shared_same :: "runtime_shared \<Rightarrow> runtime_shared \<Rightarrow> bool" where
  "shared_same sh sh' \<longleftrightarrow> SessionsActive (shMetrics sh') = SessionsActive (shMetrics sh) \<and> shSnapshot sh' = shSnapshot sh"

abbreviation watched :: "'s lifecycleRuntime \<Rightarrow> bytes set \<times> Version" where
  "watched r \<equiv> (UNIV, jLast (nJournal (rtNode r)))"

lemma session_wired: "session_ok bt L v l \<Longrightarrow> rs.wired bt L (lvSession l)"
  by (simp add: session_ok_def rs.wired_def NewApplier_def)

lemma live_ok: "runtime_inv bt L v r \<Longrightarrow> i < length (rtLive r) \<Longrightarrow> session_ok bt L (jLast (nJournal (rtNode r))) (rtLive r ! i)"
  by (simp add: runtime_inv_def Let_def)

lemma view_inv:
  assumes "runtime_inv bt L v r" and "i < length (rtLive r)"
  shows "rs.session_inv (shared_same (rtShared r)) L (watched r) (lvSession (rtLive r ! i)) (session_view i r)"
proof -
  obtain ps where "written (lvConn (rtLive r ! i)) ps"
    "\<forall>p\<in>set ps. acks_upto (coLimits (seCoordinator (lvSession (rtLive r ! i)))) (jLast (nJournal (rtNode r))) p"
    using live_ok [OF assms] by (auto simp: session_ok_def)
  with assms(1) show ?thesis
    unfolding rs.session_inv_def by (auto simp: session_view_def Let_def runtime_inv_def node_inv_memory shared_wrote_def shared_same_def)
qed

lemma store_inv:
  assumes "runtime_inv bt L v r" and i: "i < length (rtLive r)"
    and t: "rs.session_inv (shared_same (rtShared r)) L (watched r) (lvSession (rtLive r ! i)) t"
  shows "runtime_inv bt L v (session_store i t r)"
proof -
  let ?j = "jLast (nJournal (ssNode t))"
  let ?l = "(rtLive r ! i)\<lparr>lvConn := fst (ssConn t), lvHelloReceived := ssHelloReceived t, lvHelloNotify := ssHelloNotify t, lvAckNotify := ssAckNotify t\<rparr>"
  have n: "ml.node_inv L (ssNode t)" "book_ok (nWatermarks (ssNode t))" "\<And>q. Watermark_of (nWatermarks (ssNode t)) q \<le> ?j"
    "jLast (nJournal (rtNode r)) \<le> ?j" "shared_same (rtShared r) (snd (ssConn t))"
    and "\<exists>ps. written (fst (ssConn t)) ps \<and> (\<forall>p\<in>set ps. acks_upto (coLimits (seCoordinator (lvSession (rtLive r ! i)))) ?j p)"
    using t by (auto simp: rs.session_inv_def Let_def shared_wrote_def)
  then have "session_ok bt L ?j ?l" using live_ok [OF assms(1) i] by (simp add: session_ok_def)
  moreover have "session_ok bt L ?j l" if "l \<in> set (rtLive r)" for l
    using assms(1) that n(4) by (auto simp: runtime_inv_def Let_def intro: session_ok_mono)
  ultimately have "\<forall>l\<in>set ((rtLive r)[i := ?l]). session_ok bt L ?j l"
    using set_update_subset_insert [of "rtLive r" i ?l] by blast
  with assms(1) n show ?thesis
    by (auto simp: session_store_def runtime_inv_def Let_def node_inv_memory table_ok_def shared_same_def intro: order_trans)
qed

lemma session_step_inv:
  assumes "runtime_inv bt L v r" and "i < length (rtLive r)"
    and "\<And>w. wp m (\<lambda>_ u. rs.session_inv (shared_same (rtShared r)) L (watched r) (lvSession (rtLive r ! i)) (snd u))
      (\<lambda>_ u. rs.session_inv (shared_same (rtShared r)) L (watched r) (lvSession (rtLive r ! i)) (snd u)) (w, session_view i r)"
  shows "wp (sessionAt i m) (\<lambda>_ u. runtime_inv bt L v (snd u) \<and> length (rtLive (snd u)) = length (rtLive r))
    (\<lambda>_ u. runtime_inv bt L v (snd u) \<and> length (rtLive (snd u)) = length (rtLive r)) (w, r)"
  unfolding wp_runtime_parts fst_conv snd_conv
  by (rule wp_mono [OF assms(3)]) (use store_inv [OF assms(1,2)] in \<open>auto simp: session_store_def\<close>)

text \<open>The callback before the first repair frame.\<close>

lemma Records_object: "(\<And>v. \<not> jClosed j \<Longrightarrow> Q (jRecords j) (v, j)) \<Longrightarrow> (\<And>e v. E e (v, j)) \<Longrightarrow> wp Records Q E (w, j)"
proof -
  assume q: "\<And>v. \<not> jClosed j \<Longrightarrow> Q (jRecords j) (v, j)" and e: "\<And>e v. E e (v, j)"
  have l: "wp (forM (\<lambda>record. osM pollM) rs) (\<lambda>_. Q') E (u, j)" if "\<And>v. Q' (v, j)" for rs :: "Record list" and u and Q' :: "world \<times> Journal \<Rightarrow> bool"
    by (rule wp_forM [where I = "\<lambda>_ s. snd s = j"]) (use that e in \<open>auto simp: wp_osM intro!: wp_any\<close>)
  show ?thesis
    unfolding Records_def
    by (rule wp_poll_any) (use l [of "Q (jRecords j)"] q e in \<open>auto simp: wps wp_ensureOpen split: option.split\<close>)
qed

lemma recordsForRawSync_object:
  assumes "\<And>rs v. Q rs (v, t)" and "\<And>e v. E e (v, t)"
  shows "wp (recordsForRawSync peerID) Q E (w, t)"
  unfolding recordsForRawSync_def wp_bind wp_session_parts wp_parts fst_conv snd_conv
  by (rule Records_object) (use assms in \<open>auto simp: wps Let_def\<close>)

lemma raw_sync_inv:
  assumes "raw_sync_ok sync" and i: "rs.session_inv A L P s t"
  shows "rs.session_inv A L P s (snd (snd (sync peer records (w, t))))"
proof -
  obtain ts ps where p: "list_all2 prefix ts (map frame_bytes ps)" "\<forall>p\<in>set ps. decodeRepairType p \<noteq> Inr RepairAckMessageType"
    "snd (snd (sync peer records (w, t))) = t\<lparr>ssConn := (fst (ssConn t) @ concat ts, snd (ssConn t))\<rparr>"
    using assms(1) unfolding raw_sync_ok_def by metis
  obtain qs where q: "shared_wrote A (ssConn t) qs" "\<forall>p\<in>set qs. acks_upto (coLimits (seCoordinator s)) (jLast (nJournal (ssNode t))) p"
    using i by (auto simp: rs.session_inv_def Let_def)
  have "written (fst (ssConn t) @ concat ts) (qs @ ps)"
    using q(1) p(1) unfolding shared_wrote_def written_def
    by (metis concat_append list_all2_appendI map_append)
  moreover have "acks_upto R u p" if "p \<in> set ps" for p R u
    using p(2) that by (auto simp: acks_upto_def DecodeRepairFrame_def Let_def resE split: if_splits)
  ultimately have "shared_wrote A (fst (ssConn t) @ concat ts, snd (ssConn t)) (qs @ ps) \<and>
      (\<forall>p\<in>set (qs @ ps). acks_upto (coLimits (seCoordinator s)) (jLast (nJournal (ssNode t))) p)"
    using q by (auto simp: shared_wrote_def)
  with i show ?thesis unfolding p(3) rs.session_inv_def Let_def by auto
qed

lemma session_error_inv: "rs.session_inv (shared_same sh) L P s t \<Longrightarrow>
  rs.session_inv (shared_same sh) L P s (t\<lparr>ssConn := apsnd (\<lambda>sh. sh\<lparr>shMetrics := (shMetrics sh)\<lparr>SessionErrors := SessionErrors (shMetrics sh) + 1\<rparr>\<rparr>) (ssConn t)\<rparr>)"
  by (auto simp: rs.session_inv_def Let_def shared_wrote_def shared_same_def)

lemma beforeRepair_inv:
  assumes "raw_sync_ok sync" and "rs.session_inv (shared_same sh) L P s t"
  shows "rs.keeps_inv (shared_same sh) L P s (beforeRepair sync peer remoteID) t"
proof
  fix w
  let ?I = "\<lambda>_ u. rs.session_inv (shared_same sh) L P s (snd u)"
  have "wp (sync peer records) ?I ?I (u, t)" for records u
    using raw_sync_inv [OF assms, of peer records u] by (auto simp: wp_def split: prod.splits sum.splits)
  then have "wp (bindM (recordsForRawSync remoteID) (sync peer)) ?I ?I (w, t)"
    unfolding wp_bind by (intro recordsForRawSync_object) (use assms(2) in auto)
  then show "wp (beforeRepair sync peer remoteID) ?I ?I (w, t)"
    unfolding beforeRepair_def wp_bind [of "tryM _"] wp_try
    by (rule wp_mono) (auto simp: wps sessionErrorM_def intro: session_error_inv)
qed

subsection \<open>The table of sessions\<close>

abbreviation active_count :: "(bytes \<times> lifecycleSessionEntry) list \<Rightarrow> nat" where
  "active_count es \<equiv> length (filter (\<lambda>e. enActive (snd e)) es)"

lemma active_delete:
  assumes "distinct (map fst es)"
  shows "active_count (AList.delete k es) + (case map_of es k of None \<Rightarrow> 0 | Some e \<Rightarrow> if enActive e then 1 else 0) = active_count es"
  using assms
proof (induction es)
  case (Cons x es)
  have "AList.delete k es = es" if "k \<notin> fst ` set es" using that by (simp add: AList.delete_id)
  with Cons show ?case by (auto simp: map_of_eq_None_iff [THEN iffD2] split: if_splits)
qed simp

lemma active_update:
  assumes "distinct (map fst es)"
  shows "active_count (AList.update k e es) = active_count (AList.delete k es) + (if enActive e then 1 else 0)"
  using assms
proof (induction es)
  case (Cons x es)
  have "AList.delete k es = es" if "k \<notin> fst ` set es" using that by (simp add: AList.delete_id)
  with Cons show ?case by (cases x) auto
qed simp

lemma set_alist_update: "e \<in> set (AList.update k x es) \<Longrightarrow> e = (k, x) \<or> e \<in> set es"
  by (induction es) (auto split: if_splits)

lemma set_alist_delete: "e \<in> set (AList.delete k es) \<Longrightarrow> e \<in> set es"
  by (simp add: AList.delete_eq)

lemma drop_previous_simps [simp]:
  "rtSessions (drop_previous key r) = rtSessions r" "length (rtLive (drop_previous key r)) = length (rtLive r)"
  "rtNode (drop_previous key r) = rtNode r" "rtApplier (drop_previous key r) = rtApplier r"
  by (simp_all add: drop_previous_def cancel_session_def active_metric_def Let_def split: option.split)

lemma drop_previous_gauge:
  "SessionsActive (shMetrics (rtShared (drop_previous key r))) = SessionsActive (shMetrics (rtShared r)) -
     (case map_of (rtSessions r) key of None \<Rightarrow> 0 | Some e \<Rightarrow> if enActive e then 1 else 0)"
  by (simp add: drop_previous_def cancel_session_def active_metric_def Let_def split: option.split)

lemma drop_previous_live:
  assumes "\<forall>l\<in>set (rtLive r). session_ok bt L x l"
  shows "\<forall>l\<in>set (rtLive (drop_previous key r)). session_ok bt L x l"
proof -
  have "\<forall>l\<in>set ((rtLive r)[i := (rtLive r ! i)\<lparr>lvCancelled := True\<rparr>]). session_ok bt L x l" for i
  proof (cases "i < length (rtLive r)")
    case True
    with assms have "session_ok bt L x ((rtLive r ! i)\<lparr>lvCancelled := True\<rparr>)" by simp
    with assms set_update_subset_insert [of "rtLive r" i "(rtLive r ! i)\<lparr>lvCancelled := True\<rparr>"] show ?thesis by blast
  qed (use assms in \<open>simp add: list_update_beyond\<close>)
  with assms show ?thesis by (simp add: drop_previous_def cancel_session_def active_metric_def Let_def split: option.split)
qed

lemma register_inv:
  assumes i: "runtime_inv bt L v r" and "session_ok bt L (jLast (nJournal (rtNode r)))
    \<lparr>lvKey = key, lvSession = session, lvConn = [], lvHelloReceived = False, lvHelloNotify = False,
     lvAckNotify = False, lvCancelled = False, lvRun = RunStart, lvDone = False\<rparr>"
  shows "runtime_inv bt L v (register_session key session r)"
proof -
  have d: "distinct (map fst (rtSessions r))" using i by (simp add: runtime_inv_def Let_def table_ok_def)
  have "\<forall>l\<in>set (rtLive (drop_previous key r)). session_ok bt L (jLast (nJournal (rtNode r))) l"
    using i by (intro drop_previous_live) (simp add: runtime_inv_def Let_def)
  moreover have "table_ok (register_session key session r)"
    using i active_delete [OF d, of key] active_update [OF d, of key "\<lparr>enSession = length (rtLive r), enActive = True\<rparr>"]
    by (cases "map_of (rtSessions r) key") (auto simp: runtime_inv_def Let_def table_ok_def register_session_def active_metric_def
        drop_previous_gauge distinct_update dest!: set_alist_update split: if_splits)
  ultimately show ?thesis
    using i assms(2) by (auto simp: register_session_def runtime_inv_def Let_def active_metric_def)
qed

lemma forget_inv:
  assumes "runtime_inv bt L v r"
  shows "runtime_inv bt L v ((drop_previous key r)\<lparr>rtSessions := AList.delete key (rtSessions (drop_previous key r))\<rparr>)"
proof -
  have d: "distinct (map fst (rtSessions r))" using assms by (simp add: runtime_inv_def Let_def table_ok_def)
  have "\<forall>l\<in>set (rtLive (drop_previous key r)). session_ok bt L (jLast (nJournal (rtNode r))) l"
    using assms by (intro drop_previous_live) (simp add: runtime_inv_def Let_def)
  with assms active_delete [OF d, of key] show ?thesis
    by (cases "map_of (rtSessions r) key") (auto simp: runtime_inv_def Let_def table_ok_def drop_previous_gauge distinct_delete dest!: set_alist_delete split: if_splits)
qed

lemma finish_inv:
  assumes "runtime_inv bt L v r"
  shows "runtime_inv bt L v (finishSession key i r)"
proof (cases "map_of (rtSessions r) key")
  case (Some e)
  have d: "distinct (map fst (rtSessions r))" using assms by (simp add: runtime_inv_def Let_def table_ok_def)
  have "(key, e) \<in> set (rtSessions r)" using Some by (rule map_of_SomeD)
  with Some assms active_delete [OF d, of key] active_update [OF d, of key "e\<lparr>enActive := False\<rparr>"] show ?thesis
    by (auto simp: finishSession_def runtime_inv_def Let_def table_ok_def active_metric_def distinct_update dest!: set_alist_update)
qed (use assms in \<open>simp add: finishSession_def\<close>)

lemma cancel_inv: "runtime_inv bt L v r \<Longrightarrow> runtime_inv bt L v (cancel_session i r)"
  unfolding cancel_session_def by (rule runtime_inv_live [where f = "\<lambda>l. l\<lparr>lvCancelled := True\<rparr>"]) simp_all

subsection \<open>Events\<close>

definition event_ok :: "'s runtime_event \<Rightarrow> bool" where
  "event_ok e \<longleftrightarrow> (\<forall>peer limit sync. e = AttachEvent peer limit (Some sync) \<longrightarrow> raw_sync_ok sync)"

lemma new_session:
  assumes "NewRepairSession options book = Inr s" and "soPeer options = Some p"
  shows "sePeer s = p" "seApplier s = soApplier options" "seBeforeRepair s = soBeforeRepair options"
  using assms by (auto simp: NewRepairSession_def resE Let_def split: option.splits)

lemma AttachPeer_inv:
  assumes i: "runtime_inv bt L v r" and "\<And>sync. rawSync = Some sync \<Longrightarrow> raw_sync_ok sync"
  shows "keeps_runtime bt L v (AttachPeer peer limit rawSync) r"
proof
  fix w
  have "runtime_inv bt L v (register_session (repairPeerKey peer) session r)"
    if "NewRepairSession
                 \<lparr>soPeer = Some \<lparr>AuthCapabilities = authCapabilitiesForPeer peer, fpWriteFrame = shared_write\<rparr>,
                  soCoordinator = Some (rtCoordinator r), soApplier = Some (rtApplier r), soPeerID = authIdentityForPeer peer,
                  soSnapshot = Snapshot_runtime r, soCheckpointPath = rtCheckpointPath r, soMaxFrameBytes = limit,
                  soReconcilePeer = HasRepairReconciliationCapability (authCapabilitiesForPeer peer),
                  soBeforeRepair = map_option (\<lambda>sync. beforeRepair sync peer (authIdentityForPeer peer)) rawSync\<rparr> (nWatermarks (rtNode r)) = Inr session" for session
  proof (rule register_inv [OF i])
    have a: "rtApplier r = NewApplier (Some (memory_blobs bt)) L" using i by (simp add: runtime_inv_def Let_def)
    show "session_ok bt L (jLast (nJournal (rtNode r)))
      \<lparr>lvKey = repairPeerKey peer, lvSession = session, lvConn = [], lvHelloReceived = False, lvHelloNotify = False,
       lvAckNotify = False, lvCancelled = False, lvRun = RunStart, lvDone = False\<rparr>"
      using new_session [OF that] assms(2) a by (simp add: session_ok_def) (metis list.set(1) ball_empty option.sel written_Nil)
  qed
  with i show "wp (AttachPeer peer limit rawSync) (\<lambda>_ u. runtime_inv bt L v (snd u)) (\<lambda>_ u. runtime_inv bt L v (snd u)) (w, r)"
    unfolding AttachPeer_def Let_def by (auto simp: wps split: sum.split)
qed

lemma HandleFrame_inv:
  assumes i: "runtime_inv bt L v r"
  shows "keeps_runtime bt L v (HandleFrame peer payload) r"
proof
  fix w
  let ?I = "\<lambda>_ u. runtime_inv bt L v (snd u)"
  let ?r = "r\<lparr>rtShared := (rtShared r)\<lparr>shMetrics := (shMetrics (rtShared r))\<lparr>FramesReceived := FramesReceived (shMetrics (rtShared r)) + 1\<rparr>\<rparr>\<rparr>"
  have r: "runtime_inv bt L v ?r" using i by simp
  have "wp (sessionAt k (Handle (lvSession (rtLive ?r ! k)) payload)) ?I ?I (w, ?r)" if k: "k < length (rtLive ?r)" for k
    by (rule wp_mono [OF session_step_inv [OF r k rs.Handle_inv [OF session_wired [OF live_ok [OF r k]] view_inv [OF r k], THEN spec]]]) simp_all
  moreover have "enSession e < length (rtLive r)" if "map_of (rtSessions r) key = Some e" for key e
    using i map_of_SomeD [OF that] by (fastforce simp: runtime_inv_def Let_def table_ok_def)
  moreover have "(\<lambda>e. wp (metricM (\<lambda>m. m\<lparr>FrameErrors := FrameErrors m + 1\<rparr>)) (\<lambda>_. ?I e) (\<lambda>_. ?I e)) = ?I"
    by (simp add: wps fun_eq_iff)
  ultimately show "wp (HandleFrame peer payload) ?I ?I (w, r)"
    using i unfolding HandleFrame_def Let_def
    by (auto simp: wp_bind [of "selfM _"] wp_selfM wp_bind [of "metricM _"] wp_metricM wp_onErrorM wp_basic split: option.split)
qed

lemma goroutine_step_inv:
  assumes i: "runtime_inv bt L v r" and k: "k < length (rtLive r)"
  shows "wp (sessionAt k (run_step (lvSession (rtLive r ! k)) st))
    (\<lambda>_ u. runtime_inv bt L v (snd u)) (\<lambda>_ u. runtime_inv bt L v (snd u)) (w, r)"
proof -
  let ?s = "lvSession (rtLive r ! k)" and ?A = "shared_same (rtShared r)"
  have b: "rs.keeps_inv ?A L (watched r) ?s b t" if x: "seBeforeRepair ?s = Some b" "rs.session_inv ?A L (watched r) ?s t" for b t
  proof -
    obtain sync peer remoteID where "raw_sync_ok sync" "b = beforeRepair sync peer remoteID"
      using live_ok [OF i k] x(1) unfolding session_ok_def by blast
    with beforeRepair_inv [OF _ x(2)] show ?thesis by blast
  qed
  have "wp (run_step ?s st) (\<lambda>_ u. rs.session_inv ?A L (watched r) ?s (snd u)) (\<lambda>_ u. rs.session_inv ?A L (watched r) ?s (snd u)) (w, session_view k r)" for w
    using rs.run_body_inv [OF session_wired [OF live_ok [OF i k]] view_inv [OF i k] b, THEN spec, of st w]
    unfolding run_step_def wp_bind wp_try by (rule wp_mono) (auto simp: wp_basic)
  from session_step_inv [OF i k this] show ?thesis by (rule wp_mono) simp_all
qed

lemma goroutine_inv:
  assumes i: "runtime_inv bt L v r" and k: "k < length (rtLive r)"
  shows "keeps_runtime bt L v (session_goroutine k) r"
proof
  fix w
  let ?I = "\<lambda>_ u. runtime_inv bt L v (snd u)" and ?l = "rtLive r ! k"
  have set: "runtime_inv bt L v (u\<lparr>rtLive := (rtLive u)[k := f (rtLive u ! k)]\<rparr>)"
    if "runtime_inv bt L v u" "f = (\<lambda>l. l\<lparr>lvRun := st\<rparr>) \<or> f = (\<lambda>l. l\<lparr>lvDone := True\<rparr>)" for u f st
    by (rule runtime_inv_live [OF that(1)]) (use that(2) in auto)
  have ret: "wp (bindM (setM (finishSession (lvKey ?l) k)) (\<lambda>_. setM (\<lambda>r. r\<lparr>rtLive := (rtLive r)[k := (rtLive r ! k)\<lparr>lvDone := True\<rparr>]\<rparr>))) ?I ?I (w, u)"
    if "runtime_inv bt L v u" for u
    using set [OF finish_inv [OF that], of "\<lambda>l. l\<lparr>lvDone := True\<rparr>"] by (simp add: wps)
  have run: "wp (bindM (if lvCancelled ?l then ctxM (Some 0) (sessionAt k (run_step (lvSession ?l) (lvRun ?l)))
                else sessionAt k (run_step (lvSession ?l) (lvRun ?l))) (\<lambda>st.
         setM (\<lambda>r. r\<lparr>rtLive := (rtLive r)[k := (rtLive r ! k)\<lparr>lvRun := st\<rparr>]\<rparr>))) ?I ?I (w, r)"
  proof -
    have "wp (sessionAt k (run_step (lvSession ?l) (lvRun ?l))) (\<lambda>st. wp (setM (\<lambda>r. r\<lparr>rtLive := (rtLive r)[k := (rtLive r ! k)\<lparr>lvRun := st\<rparr>]\<rparr>)) ?I ?I) ?I (w', r)" for w'
      by (rule wp_mono [OF goroutine_step_inv [OF i k]]) (use set in \<open>auto simp: wp_setM\<close>)
    then show ?thesis by (simp add: wp_bind wp_ctxM wp_setM)
  qed
  show "wp (session_goroutine k) ?I ?I (w, r)"
  proof (cases "lvDone ?l")
    case True
    with i show ?thesis by (simp add: session_goroutine_def wps)
  next
    case False
    with i ret run show ?thesis
      unfolding session_goroutine_def wp_bind [of "selfM _"] wp_selfM snd_conv
      by (cases "lvRun ?l") (auto simp: wp_bind [of "case_sum _ _ _"] wp_bind [of "metricM _"] wp_bind [of "returnM _"] wp_metricM wp_basic split: sum.split)
  qed
qed

lemma Close_inv:
  assumes "runtime_inv bt L v r"
  shows "keeps_runtime bt L v Close_sessions r"
proof -
  have "runtime_inv bt L v (fold (\<lambda>(_, e). cancel_session (enSession e)) es r)" for es :: "(bytes \<times> lifecycleSessionEntry) list"
    using assms by (induction es arbitrary: r) (auto intro: cancel_inv)
  then show ?thesis by (auto simp: Close_sessions_def wps runtime_inv_def Let_def table_ok_def)
qed

lemma event_inv:
  assumes "runtime_inv bt L v r" and "event_ok e"
  shows "keeps_runtime bt L v (run_event e) r"
proof (cases e)
  case (AttachEvent peer limit rawSync)
  with assms AttachPeer_inv [OF assms(1), of rawSync] show ?thesis by (auto simp: event_ok_def)
next
  case (SessionEvent k)
  with assms goroutine_inv [OF assms(1)] show ?thesis by (simp add: wp_bind wp_selfM wp_basic)
qed (use assms put_inv [OF assms(1)] delete_inv [OF assms(1)] compact_inv [OF assms(1)] forget_inv [OF assms(1)] HandleFrame_inv [OF assms(1)] Close_inv [OF assms(1)]
  in \<open>auto simp: wp_bind wp_basic wp_setM ForgetPeer_def Let_def\<close>)

lemma events_inv:
  assumes "runtime_inv bt L v r" and "\<forall>e\<in>set es. event_ok (snd e)"
  shows "keeps_runtime bt L v (runtime_events es) r"
proof
  fix w
  let ?J = "\<lambda>ys u. set ys \<subseteq> set es \<and> runtime_inv bt L v (snd u)"
  show "wp (runtime_events es) (\<lambda>_ u. runtime_inv bt L v (snd u)) (\<lambda>_ u. runtime_inv bt L v (snd u)) (w, r)"
    unfolding runtime_events_def
  proof (rule wp_forM [where I = ?J])
    fix x ys and u :: "world \<times> 'a MemoryStore lifecycleRuntime" assume u: "?J (x # ys) u"
    then have "event_ok (snd x)" using assms(2) by auto
    from event_inv [OF _ this, of bt L v "snd u"] u
    show "wp (case x of (ctx, e) \<Rightarrow> ignoreM (ctxM ctx (run_event e))) (\<lambda>_. ?J ys) (\<lambda>_ u. runtime_inv bt L v (snd u)) u"
      by (auto simp: wps split_beta elim!: wp_mono)
  qed (use assms(1) in auto)
qed

end
