(* ===== verification/Cli_Recovery.thy ===== *)
theory Cli_Recovery
  imports Cli_Runtime
begin

text \<open>
  What the lifecycle runtime of \<open>Cli_Runtime\<close> guarantees to its users: what a start restores, that a mutation becomes visible and is
  journalled, what a compaction keeps, what is offered to a peer before repair, and that every schedule
  of events keeps the invariant; with a sample node that is opened from a disk.
\<close>

section \<open>Opening restores checkpoint and journal\<close>

lemma wp_wrapM [wps]: "wp (wrapM m) Q E = wp m Q (\<lambda>e. E (EWrap e))"
  by (simp add: wrapM_def wps)

lemma clone_marks: "distinct (map fst (cloneWatermarks m))" "set (cloneWatermarks m) \<subseteq> set m" "length (cloneWatermarks m) \<le> length m"
proof -
  have "distinct (map fst (foldl (\<lambda>c (p, v). AList.update p v c) a m)) \<and> set (foldl (\<lambda>c (p, v). AList.update p v c) a m) \<subseteq> set a \<union> set m \<and>
      length (foldl (\<lambda>c (p, v). AList.update p v c) a m) \<le> length a + length m" if "distinct (map fst a)" for a
    using that
  proof (induction m arbitrary: a)
    case (Cons x m)
    obtain k v where x: "x = (k, v)" by fastforce
    have "length (AList.update k v a) \<le> Suc (length a)" by (induction a) auto
    then show ?case using Cons.IH [of "AList.update k v a"] Cons.prems set_alist_update [of _ k v a] unfolding x by (auto simp: distinct_update)
  qed simp
  from this [of "[]"] show "distinct (map fst (cloneWatermarks m))" "set (cloneWatermarks m) \<subseteq> set m" "length (cloneWatermarks m) \<le> length m"
    by (simp_all add: cloneWatermarks_def)
qed

lemma validated_book:
  assumes "validateState b s = Inr u"
  shows "book_ok (b\<lparr>wbWatermarks := cloneWatermarks (the (wsWatermarks s))\<rparr>)"
proof -
  obtain m where m: "wsWatermarks s = Some m" "int (length m) \<le> wbMaxPeers b" "\<forall>(p, v)\<in>set m. peer_ok b p \<and> v \<noteq> zeroVersion"
    using assms by (fastforce simp: validateState_def resE validatePeer_ok IsZero_def split: option.splits if_splits)
  with clone_marks [of m] show ?thesis by (auto simp: book_ok_def marks_ok_def peer_ok_def)
qed

lemma OpenWatermarkBook_ok: "wp (OpenWatermarkBook path options) (\<lambda>b _. book_ok b) (\<lambda>_ _. True) w"
proof -
  define book where "book = (let options = normalized_watermark options in
    \<lparr>wbPath = path, wbMaxPeers = woMaxPeers options, wbMaxPeerID = woMaxPeerIDBytes options, wbMaxBytes = woMaxBytes options, wbWatermarks = []\<rparr>)"
  have b: "book_ok book"
    by (simp add: book_ok_def marks_ok_def book_def Let_def normalized_watermark_def or_default_def DefaultMaxRepairPeers_def)
  have v: "book_ok (book\<lparr>wbWatermarks := cloneWatermarks (the (wsWatermarks s))\<rparr>)" if "validateState book s = Inr u" for s u
    using that by (rule validated_book)
  have o: "OpenWatermarkBook path options = bindM (guardM (path = []) (EWatermark ErrNilWatermarkPath)) (\<lambda>_. bindM (tryM (os_read_file path)) (\<lambda>r. case r of
       Inl e \<Rightarrow> if err_is e (EStd ErrNotExist) then returnM book else throwM e
     | Inr data \<Rightarrow>
         bindM (liftE (open_envelope (EWatermark ErrWatermarkCorrupt) (EWatermark ErrWatermarkChecksum) (EWatermark ErrWatermarkLimit) (wbMaxBytes book) data)) (\<lambda>payload.
         bindM (liftE (decodeWatermarkState payload)) (\<lambda>state.
         bindM (liftE (validateState book state)) (\<lambda>_.
         returnM (book\<lparr>wbWatermarks := cloneWatermarks (the (wsWatermarks state))\<rparr>))))))"
    by (simp only: OpenWatermarkBook_def book_def Let_def)
  have "wp (os_read_file path) (\<lambda>x u. case open_envelope (EWatermark ErrWatermarkCorrupt) (EWatermark ErrWatermarkChecksum) (EWatermark ErrWatermarkLimit) (wbMaxBytes book) x of
      Inl _ \<Rightarrow> True | Inr p \<Rightarrow> (case decodeWatermarkState p of Inl _ \<Rightarrow> True | Inr s \<Rightarrow> (case validateState book s of Inl _ \<Rightarrow> True
        | Inr _ \<Rightarrow> book_ok (book\<lparr>wbWatermarks := cloneWatermarks (the (wsWatermarks s))\<rparr>)))) (\<lambda>e u. err_is e (EStd ErrNotExist) \<longrightarrow> book_ok book) w"
    by (rule wp_any) (use b v in \<open>auto split: sum.split\<close>)
  then show ?thesis unfolding o by (simp add: wps) (intro impI, erule wp_mono, auto simp: wps split: sum.splits)
qed

lemma LoadCheckpoint_sound: "wp (LoadCheckpoint path L) (\<lambda>c _. \<exists>c0. normalizeCheckpoint c0 L = Inr (c, normalized_limits L)) (\<lambda>_ _. True) w"
proof -
  have l: "L' = normalized_limits L" if "normalizeCheckpoint c0 L = Inr (c, L')" for c0 c L'
    using that by (simp add: normalizeCheckpoint_ok)
  show ?thesis
    unfolding LoadCheckpoint_def
    by (auto simp: wps Let_def split_beta split: sum.split intro!: wp_any dest: l)
qed

text \<open>A verified record has its blob.\<close>

abbreviation has_blob :: "(bytes \<rightharpoonup> bytes) \<Rightarrow> Record \<Rightarrow> bool" where
  "has_blob D r \<equiv> (State r = StatePresent \<longrightarrow> (\<exists>d. D (BlobKey r) = Some d \<and> sha256 d = BlobKey r))"

lemma wp_verify:
  fixes b :: "'t MemoryStore"
  assumes "\<And>v b'. map_of (msData b') = map_of (msData b) \<Longrightarrow> \<forall>r\<in>set rs. has_blob (map_of (msData b)) r \<Longrightarrow> Q () (v, b')"
  shows "wp (verifyLifecycleRecords (memory_blobs bt) rs) Q (\<lambda>_ _. True) (w, b)"
proof -
  let ?D = "map_of (msData b)"
  let ?I = "\<lambda>ys t. map_of (msData (snd t)) = ?D \<and> set ys \<subseteq> set rs \<and> (\<forall>r\<in>set rs. r \<in> set ys \<or> has_blob ?D r)"
  show ?thesis
    unfolding verifyLifecycleRecords_def
  proof (rule wp_forM [where I = ?I])
    fix r ys and t :: "world \<times> 't MemoryStore" assume t: "?I (r # ys) t"
    have g: "wp (bsGet (memory_blobs bt) (BlobKey r)) (\<lambda>d u. memory_view u = memory_view s \<and> memory_view s (BlobKey r) = Some d) (\<lambda>_ _. True) s" for s
      by (rule wp_mono [OF mb.get [where s = s]]) auto
    have b: "wp (bsGet (memory_blobs bt) (BlobKey r)) (\<lambda>d u. case VerifySHA256Key (BlobKey r) d of Inl _ \<Rightarrow> True | Inr _ \<Rightarrow> ?I ys u) (\<lambda>_ _. True) (v, snd t)" for v
      by (rule wp_mono [OF g]) (use t in \<open>auto simp: VerifySHA256Key_ok split: sum.split\<close>)
    show "wp (bindM (osM pollM) (\<lambda>_. if State r \<noteq> StatePresent then returnM ()
       else bindM (tryM (bsGet (memory_blobs bt) (BlobKey r))) (\<lambda>x.
         case x of
           Inl e \<Rightarrow> if err_is e (EStorage ErrNotFound) then throwM (EJoin (ETransport ErrLifecycleBlobMissing) e) else throwM e
         | Inr data \<Rightarrow> liftE (VerifySHA256Key (BlobKey r) data)))) (\<lambda>_. ?I ys) (\<lambda>_ _. True) t"
      unfolding wp_bind [of "osM _"] wp_osM
      apply (rule wp_any)
      subgoal using t by (cases "State r = StatePresent") (auto simp: wps intro!: wp_mono [OF b] split: sum.splits; blast)+
      subgoal by simp
      done
  qed (use assms in \<open>auto split: prod.splits\<close>)
qed

lemma wp_replay:
  fixes b :: "'t MemoryStore"
  assumes ok: "\<And>v b'. map_of (msData b') = map_of (msData b) \<Longrightarrow> \<forall>r\<in>set (jRecords j). has_blob (map_of (msData b)) r \<Longrightarrow>
    Q (apply_all (jRecords j) st) (v, b')"
  shows "wp (replay_into (memory_blobs bt) j st) Q (\<lambda>_ _. True) (w, b)"
proof -
  let ?D = "map_of (msData b)"
  let ?I = "\<lambda>ys (w, j', b', st'). j' = j \<and> map_of (msData b') = ?D \<and> (\<exists>xs. jRecords j = xs @ ys \<and> st' = apply_all xs st \<and> (\<forall>r\<in>set xs. has_blob ?D r))"
  have step: "wp (bindM (osM pollM) (\<lambda>_. replay_record (memory_blobs bt) r)) (\<lambda>_. ?I ys) (\<lambda>_ _. True) t" if x: "?I (r # ys) t" for r ys t
  proof -
    obtain u b' xs where t: "t = (u, j, b', apply_all xs st)"
      and xs: "map_of (msData b') = ?D" "jRecords j = xs @ r # ys" "\<forall>r\<in>set xs. has_blob ?D r" using x by (cases t) auto
    have v: "wp (verifyLifecycleRecords (memory_blobs bt) [r]) (\<lambda>_ x. ?I ys (fst x, j, snd x, snd (Apply r (apply_all xs st)))) (\<lambda>_ _. True) (v, b')" for v
      by (rule wp_verify) (use xs in \<open>auto intro!: exI [of _ "xs @ [r]"]\<close>)
    show ?thesis
      unfolding wp_bind [of "osM _"] wp_osM replay_record_def t
      apply (rule wp_any)
      subgoal by (simp add: wps, rule wp_mono [OF v]) (auto simp: wp_def split: prod.splits sum.splits)
      subgoal by simp
      done
  qed
  have "wp (Replay (replay_record (memory_blobs bt))) (\<lambda>_. ?I []) (\<lambda>_ _. True) (w, j, b, st)"
    unfolding Replay_def wp_bind [of "zoomM _ _ Records"] wp_zoom prod.case
  proof (rule Records_object)
    fix v :: world
    have "?I (jRecords j) (v, j, b, st)" by simp
    then have "wp (forM (\<lambda>record. bindM (osM pollM) (\<lambda>_. replay_record (memory_blobs bt) record)) (jRecords j)) (\<lambda>_. ?I []) (\<lambda>_ _. True) (v, j, b, st)"
      by (rule wp_forM [where I = ?I]) (use step in auto)
    then show "wp (forM (\<lambda>record. bindM (osM pollM) (\<lambda>_. replay_record (memory_blobs bt) record)) (jRecords j)) (\<lambda>_. ?I []) (\<lambda>_ _. True)
      ((case (v, j) of (w, j) \<Rightarrow> \<lambda>(_, _, s). (w, j, s)) (w, j, b, st))" by simp
  qed simp
  then show ?thesis
    using ok by (auto simp: wp_def replay_into_def split: prod.splits sum.splits)
qed

text \<open>The base a runtime starts from: the records of its checkpoint.\<close>

definition base_state :: "Limits \<Rightarrow> Checkpoint option \<Rightarrow> Store" where
  "base_state L c = (case c of None \<Rightarrow> NewStore L | Some c \<Rightarrow> restore L c)"

lemma normalized_restore:
  assumes "normalizeCheckpoint c0 L = Inr (c, L')"
  shows "ReplaceSnapshot (cpRecords c) (NewStore L) = (Inr (), restore L c)"
    and "lookup (restore L c) k = Some r \<Longrightarrow> r \<in> set (cpRecords c) \<and> rVersion r \<le> Watermark c"
proof -
  have c: "\<forall>r\<in>set (cpRecords c). valid_record L r \<and> rVersion r \<le> Watermark c" "distinct (map record_key (cpRecords c))"
    using assms by (auto simp: normalizeCheckpoint_ok normalizeCheckpointRecords_ok)
  have "ReplaceSnapshot (cpRecords c) (NewStore L) = (Inr (), (NewStore L)\<lparr>sRecords := map (\<lambda>r. (record_key r, r)) (cpRecords c)\<rparr>)"
    using c by (intro ReplaceSnapshot_ok) (auto simp: NewStore_def)
  then show "ReplaceSnapshot (cpRecords c) (NewStore L) = (Inr (), restore L c)" by (simp add: restore_def)
  assume "lookup (restore L c) k = Some r"
  moreover have "\<forall>r\<in>set (cpRecords c). valid_record L r" using c(1) by blast
  ultimately have "r \<in> set (cpRecords c)" using restore_lookup [OF _ c(2)] by (auto dest!: map_of_SomeD)
  with c(1) show "r \<in> set (cpRecords c) \<and> rVersion r \<le> Watermark c" by blast
qed

definition restored :: "Limits \<Rightarrow> (bytes \<rightharpoonup> bytes) \<Rightarrow> Journal \<Rightarrow> Checkpoint option \<Rightarrow> Store \<Rightarrow> bool" where
  "restored L D j c st \<longleftrightarrow> st = base_state L c \<and> (case c of None \<Rightarrow> jFloor j = zeroVersion | Some c \<Rightarrow> Watermark c = jFloor j) \<and>
     (\<forall>k r. lookup st k = Some r \<longrightarrow> has_blob D r \<and> rVersion r \<le> jFloor j)"

lemma wp_restore:
  fixes b :: "'t MemoryStore"
  assumes ok: "\<And>c st v b'. map_of (msData b') = map_of (msData b) \<Longrightarrow> restored L (map_of (msData b)) j c st \<Longrightarrow> Q (c, st) (v, b')"
  shows "wp (restore_checkpoint (memory_blobs bt) path L j) Q (\<lambda>_ _. True) (w, b)"
proof -
  let ?K = "\<lambda>checkpoint. bindM (guardM (Watermark checkpoint \<noteq> jFloor j) (EMsg ''lifecycle: checkpoint watermark does not match journal floor'')) (\<lambda>_.
         bindM (wrapM (verifyLifecycleRecords (memory_blobs bt) (cpRecords checkpoint))) (\<lambda>_.
         bindM (liftE (mapE EWrap (case ReplaceSnapshot (cpRecords checkpoint) (NewStore L) of
                   (Inl e, _) \<Rightarrow> Inl e | (Inr _, state) \<Rightarrow> Inr state))) (\<lambda>state.
         returnM (Some checkpoint, state))))"
  have found: "wp (?K c) Q (\<lambda>_ _. True) (v, b)" if n: "normalizeCheckpoint c0 L = Inr (c, normalized_limits L)" for c0 c v
  proof (cases "Watermark c = jFloor j")
    case True
    note r = normalized_restore [OF n]
    have "wp (verifyLifecycleRecords (memory_blobs bt) (cpRecords c)) (\<lambda>_ t. Q (Some c, restore L c) t) (\<lambda>_ _. True) (v, b)"
      by (rule wp_verify) (use True r(2) in \<open>fastforce simp: restored_def base_state_def intro!: ok\<close>)
    then show ?thesis using True by (simp add: wp_bind wp_effect wp_wrapM r(1) wp_basic)
  qed (simp add: wps)
  have absent: "wp (if \<not> err_is e (EStd ErrNotExist) then throwM (EWrap e)
         else if \<not> IsZero (jFloor j) then throwM (EMsg ''lifecycle: journal floor requires a checkpoint'')
         else returnM (None, NewStore L)) Q (\<lambda>_ _. True) (v, b)" for e v
    by (auto simp: wps IsZero_def restored_def base_state_def NewStore_def intro!: ok)
  show ?thesis
    unfolding restore_checkpoint_def wp_bind [of "tryM _"] wp_try wp_osM fst_conv snd_conv
    by (rule wp_mono [OF LoadCheckpoint_sound]) (use found absent in auto)
qed

text \<open>The allocator never starts behind what it is told about.\<close>

lemma OpenAuthority_observed: "wp (OpenAuthority raw path authorityID options) (\<lambda>a _. aoObserved options \<le> auCurrent a) (\<lambda>_ _. True) w"
proof -
  have i: "v = observed \<or> Epoch observed = 0 \<and> Epoch v \<noteq> 0" if "initialAuthorityVersion raw observed = Inr v" for v observed
    using that by (auto simp: initialAuthorityVersion_def resE Let_def split: if_splits)
  have z: "observed \<le> v" if "Epoch observed = 0" "Epoch v \<noteq> 0" for observed v
    using that by (auto simp: less_eq_Version_def less_Version_def word_neq_0_conv)
  have p: "wp (bindM (persist_authority a) (\<lambda>_. returnM a)) (\<lambda>a _. aoObserved options \<le> auCurrent a) (\<lambda>_ _. True) u" if "aoObserved options \<le> auCurrent a" for a u
    unfolding wp_bind by (rule wp_any) (use that in \<open>auto simp: wp_basic\<close>)
  have o: "aoObserved (normalized_authority options) = aoObserved options" by (simp add: normalized_authority_def)
  show ?thesis
    unfolding OpenAuthority_def Let_def wp_bind [of "guardM _ _"] wp_effect
    apply (simp add: wp_bind [of "liftE _"] wp_basic o split: sum.split)
    apply (intro impI allI)
    unfolding wp_bind [of pollM]
    apply (rule wp_any)
     apply (unfold wp_bind [of "tryM _"] wp_try)
     apply (rule wp_any)
    subgoal by (auto simp: wp_bind [of "liftE _"] wp_bind [of "guardM _ _"] wp_effect wp_basic o not_less intro!: p split: sum.split)
    subgoal by (auto simp: wp_bind [of "liftE _"] wp_basic o intro!: p split: sum.split dest!: i intro: z)
    subgoal by simp
    done
qed

lemma wp_True [simp]: "wp m (\<lambda>_ _. True) (\<lambda>_ _. True) = (\<lambda>_. True)"
  by (rule ext, simp, rule wp_any) simp_all

lemma restored_replayed:
  assumes "restored L D j c st" and "\<forall>r\<in>set (jRecords j). has_blob D r"
  shows "based L (base_state L c) j (apply_all (jRecords j) st)" and "blobs_present D (apply_all (jRecords j) st)"
proof -
  have "store_wf L (base_state L c)" by (simp add: base_state_def restore_wf NewStore_wf split: option.split)
  with assms(1) show "based L (base_state L c) j (apply_all (jRecords j) st)" by (auto simp: restored_def based_def)
  have "blobs_present D (apply_all rs st)" if "\<forall>r\<in>set rs. has_blob D r" for rs
    using that
  proof (induction rs rule: rev_induct)
    case Nil
    with assms(1) show ?case by (auto simp: restored_def blobs_present_def)
  next
    case (snoc r rs)
    then show ?case by (auto intro!: blobs_present_Apply)
  qed
  then show "blobs_present D (apply_all (jRecords j) st)" using assms(2) by blast
qed

definition opened :: "'t btree \<Rightarrow> lifecycleCLIConfig \<Rightarrow> 't MemoryStore \<Rightarrow> 't MemoryStore lifecycleRuntime \<Rightarrow> bool" where
  "opened bt config b r \<longleftrightarrow> (let L = ccRecordLimits config; j = nJournal (rtNode r); c = shSnapshot (rtShared r) in
     restored L (map_of (msData b)) j c (base_state L c) \<and> nState (rtNode r) = apply_all (jRecords j) (base_state L c) \<and>
     (\<forall>r\<in>set (jRecords j). has_blob (map_of (msData b)) r) \<and> map_of (msData (nBlobs (rtNode r))) = map_of (msData b) \<and>
     jLast j \<le> auCurrent (rtAuthority r) \<and> book_ok (nWatermarks (rtNode r)) \<and> rtApplier r = NewApplier (Some (memory_blobs bt)) L \<and>
     rtSessions r = [] \<and> rtLive r = [] \<and> shMetrics (rtShared r) = zeroMetrics)"

lemma wp_assemble:
  fixes b :: "'t MemoryStore"
  assumes "jLast j \<le> auCurrent a" and "book_ok wb"
  shows "wp (assemble_runtime config (memory_blobs bt) j a wb m) (\<lambda>r _. opened bt config b r) (\<lambda>_ _. True) (w, b)"
  unfolding assemble_runtime_def Let_def wp_bind [of "restore_checkpoint _ _ _ _"]
proof (rule wp_restore)
  let ?L = "ccRecordLimits config"
  fix c st u and b' :: "'t MemoryStore" assume b': "map_of (msData b') = map_of (msData b)" and r: "restored ?L (map_of (msData b)) j c st"
  have st: "st = base_state ?L c" using r by (simp add: restored_def)
  have "wp (replay_into (memory_blobs bt) j st) (\<lambda>st' t. map_of (msData (snd t)) = map_of (msData b) \<and>
      (\<forall>r\<in>set (jRecords j). has_blob (map_of (msData b)) r) \<and> st' = apply_all (jRecords j) st) (\<lambda>_ _. True) (u, b')"
    by (rule wp_replay) (use b' in auto)
  then show "wp (case (c, st) of (checkpoint, state) \<Rightarrow> bindM (wrapM (replay_into (memory_blobs bt) j state)) (\<lambda>state.
        bindM (liftE (mapE EWrap (NewRepairCoordinator (Some j) (Some wb) (ccRepairLimits config)))) (\<lambda>coordinator.
        bindM (selfM (\<lambda>b. b)) (\<lambda>b.
        returnM \<lparr>rtCheckpointPath = Join (ccDir config) ''checkpoint'', rtRepairLimits = ccRepairLimits config,
          rtNode = \<lparr>nBlobs = b, nState = state, nJournal = j, nWatermarks = wb\<rparr>,
          rtAuthority = a, rtMembership = m, rtCoordinator = coordinator,
          rtApplier = NewApplier (Some (memory_blobs bt)) ?L, rtShared = \<lparr>shSnapshot = checkpoint, shMetrics = zeroMetrics\<rparr>,
          rtSessions = [], rtLive = []\<rparr>)))) (\<lambda>r _. opened bt config b r) (\<lambda>_ _. True) (u, b')"
    using assms r unfolding prod.case wp_bind [of "wrapM _"] wp_wrapM
    by (elim wp_mono) (auto simp: wps opened_def Let_def st NewRepairCoordinator_def split: sum.split)
qed

lemma wp_open:
  fixes b :: "'t MemoryStore"
  shows "wp (openLifecycleRuntime raw config (Some (memory_blobs bt)) token peerID)
    (\<lambda>x _. \<forall>r. x = Some r \<longrightarrow> opened bt config b r) (\<lambda>_ _. True) (w, b)"
    (is "wp _ ?Q _ _")
proof (cases "ccEnabled config")
  case False
  then show ?thesis by (simp add: openLifecycleRuntime_def wps)
next
  case True
  let ?M = "\<lambda>m. if ccMembershipConfigured config then wrapM (configure_local (ccMembershipMembers config) m) else returnM m"
  let ?A = "\<lambda>j a wb m. bindM (assemble_runtime config (memory_blobs bt) j a wb m) (\<lambda>r. returnM (Some r))"
  have fin: "wp (?A j a wb m) ?Q (\<lambda>_ _. True) (v, b)" if "jLast j \<le> auCurrent a" "book_ok wb" for j a wb m v
    unfolding wp_bind by (rule wp_mono [OF wp_assemble [OF that]]) (auto simp: wp_basic)
  have mem: "wp (?M m) (\<lambda>m. wp (?A j a wb m) ?Q (\<lambda>_ _. True)) (\<lambda>_ _. True) (v, b)" if "jLast j \<le> auCurrent a" "book_ok wb" for j a wb m v
    using fin [OF that] by (auto simp: wps) (auto simp: wp_def configure_local_def split: prod.splits sum.splits)
  have rest: "wp (OpenAuthority raw p peerID \<lparr>aoLimits = ccRecordLimits config, aoMaxBytes = 0, aoObserved = jLast j\<rparr>)
      (\<lambda>a u. wp (OpenWatermarkBook p1 o1) (\<lambda>wb u. wp (OpenMembershipBook p2 o2) (\<lambda>m u.
        wp (?M m) (\<lambda>m. wp (?A j a wb m) ?Q (\<lambda>_ _. True)) (\<lambda>_ _. True) (u, b)) (\<lambda>_ _. True) u) (\<lambda>_ _. True) u) (\<lambda>_ _. True) u" for p p1 o1 p2 o2 j u
    by (rule wp_mono [OF OpenAuthority_observed], rule wp_mono [OF OpenWatermarkBook_ok]) (use mem in \<open>auto intro: wp_any\<close>)
  have "wp (openLifecycleRuntime raw config (Some (memory_blobs bt)) token peerID) ?Q (\<lambda>_ _. True) (w, b)"
    if "validate_config config (Some (memory_blobs bt)) token peerID = Inr ()"
    apply (simp only: openLifecycleRuntime_def Let_def that True not_True_eq_False if_False wp_bind [of "liftE _"] wp_bind [of "osM _"]
        wp_bind [of "onErrorM _ _"] wp_bind [of "if _ then _ else _"] wp_basic sum.case wp_osM wp_wrapM wp_onErrorM split_beta fst_conv snd_conv option.sel wp_True)
    apply (rule wp_any)
     apply (rule wp_any)
      apply (rule rest)
     apply simp_all
    done
  then show ?thesis
    by (cases "validate_config config (Some (memory_blobs bt)) token peerID") (use True in \<open>auto simp: openLifecycleRuntime_def wp_bind [of "liftE _"] wp_basic\<close>)
qed

lemma opened_invariant:
  assumes "opened bt config b r" and "journal_fields (nJournal (rtNode r))"
    and "\<forall>q. Watermark_of (nWatermarks (rtNode r)) q \<le> jLast (nJournal (rtNode r))"
  shows "runtime_inv bt (ccRecordLimits config) zeroVersion r"
proof -
  note o = assms(1) [unfolded opened_def Let_def]
  have "restored (ccRecordLimits config) (map_of (msData b)) (nJournal (rtNode r)) (shSnapshot (rtShared r)) (base_state (ccRecordLimits config) (shSnapshot (rtShared r)))"
    "\<forall>x\<in>set (jRecords (nJournal (rtNode r))). has_blob (map_of (msData b)) x" using o by blast+
  from restored_replayed [OF this] show ?thesis
    using assms(2,3) o unfolding runtime_inv_def node_ok_def table_ok_def Let_def by (auto simp: zeroMetrics_def)
qed


section \<open>Mutations become visible\<close>

lemma nextVersion_newer:
  assumes "\<And>w a t. jLast (nJournal (rtNode r)) < t \<Longrightarrow> wp (f t) Q E (w, r\<lparr>rtAuthority := a\<rparr>)" and "\<And>e w a. E e (w, r\<lparr>rtAuthority := a\<rparr>)"
  shows "wp (bindM nextVersion f) Q E (w, r)"
proof -
  let ?o = "jLast (nJournal (rtNode r))"
  have inc: "wp (bindM (selfM auCurrent) (\<lambda>current. bindM (liftE (incrementAuthorityVersion current)) (\<lambda>next.
     bindM (setM (\<lambda>a. a\<lparr>auCurrent := next\<rparr>)) (\<lambda>_. bindM (selfM (\<lambda>a. a)) (\<lambda>a. bindM (osM (persist_authority a)) (\<lambda>_. returnM next))))))
     (\<lambda>t _. ?o < t) (\<lambda>_ _. True) s" if "?o \<le> auCurrent (snd s)" for s
    using that increment_greater(1) [of "auCurrent (snd s)"] by (auto simp: wps intro!: wp_any split: sum.split intro: le_less_trans)
  have "wp (Next ?o) (\<lambda>t _. ?o < t) (\<lambda>_ _. True) s" for s
    unfolding Next_def wp_bind [of "osM pollM"] wp_osM
    apply (rule wp_any)
    subgoal for x t using inc [of "(t, snd s)"] inc [of "(t, (snd s)\<lparr>auCurrent := ?o\<rparr>)"] by (auto simp: wp_bind [of "selfM _"] wp_bind [of "if _ then _ else _"] wp_bind [of "guardM _ _"] wp_selfM wp_effect wp_setM wp_basic not_less)
    subgoal by simp
    done
  then have "wp (Next ?o) (\<lambda>t u. wp (f t) Q E (fst u, r\<lparr>rtAuthority := snd u\<rparr>)) (\<lambda>e u. E e (fst u, r\<lparr>rtAuthority := snd u\<rparr>)) (w, rtAuthority r)"
    by (rule wp_mono) (use assms in auto)
  then show ?thesis by (simp add: nextVersion_def wp_bind wp_selfM wp_runtime_parts)
qed

lemma Apply_others: "k \<noteq> record_key r \<Longrightarrow> lookup (snd (Apply r s)) k = lookup s k"
  by (auto simp: Apply_eval update_conv' split: sum.splits)

definition applied :: "'t MemoryStore node \<Rightarrow> Record \<Rightarrow> 't MemoryStore node \<Rightarrow> bool" where
  "applied n rec n' \<longleftrightarrow> nJournal n' = appended (nJournal n) rec \<and> nWatermarks n' = nWatermarks n \<and>
     (\<forall>k. lookup (nState n') k = (if k = record_key rec then Some rec else lookup (nState n) k)) \<and> has_blob (map_of (msData (nBlobs n'))) rec"

lemma wp_apply_newer:
  fixes n :: "'t MemoryStore node"
  assumes "apBlobs a = Some (memory_blobs bt)" and n: "ml.node_inv L n" and newer: "jLast (nJournal n) < rVersion rec"
  shows "wp (Applier_Apply a caps rec data) (\<lambda>res u. Outcome res = OutcomeApplied \<and> applied n rec (snd u)) (\<lambda>_ _. True) (w, n)"
proof -
  obtain base where f: "journal_fields (nJournal n)" "based L base (nJournal n) (nState n)" and u: "ml.usable (nBlobs n)"
    using n by (auto simp: ml.node_inv_def node_ok_def)
  show ?thesis
  proof (rule ml.wp_Applier_Apply [OF assms(1) u f(1)])
    fix x v assume c: "Classify rec (nState n) = Inr x" "Outcome x \<noteq> OutcomeApplied"
    obtain p where p: "lookup (nState n) (record_key rec) = Some p" "rVersion rec \<le> rVersion p" using Classify_reflected [OF c] by blast
    with based_versions [OF f(2,1) p(1)] newer show "Outcome x = OutcomeApplied \<and> applied n rec (snd (v, n))" by simp
  next
    fix x v and b :: "'t MemoryStore" assume "Classify rec (nState n) = Inr x" "Outcome x = OutcomeApplied"
      "State rec = StatePresent \<longrightarrow> (\<exists>d. ml.contents b (BlobKey rec) = Some d \<and> sha256 d = BlobKey rec)"
    then show "Outcome x = OutcomeApplied \<and> applied n rec (snd (v, n\<lparr>nBlobs := b, nJournal := appended (nJournal n) rec, nState := snd (Apply rec (nState n))\<rparr>))"
      using Apply_reflected Apply_others by (auto simp: applied_def)
  qed simp
qed

lemma wp_mutation:
  assumes i: "runtime_inv bt L v r" and "\<And>t r. rVersion (record t r) = t"
    and q: "\<And>t u res r' a. jLast (nJournal (rtNode r)) < t \<Longrightarrow> Outcome res = OutcomeApplied \<Longrightarrow> applied (rtNode r) (record t (r\<lparr>rtAuthority := a\<rparr>)) (rtNode r') \<Longrightarrow>
      Q (record t (r\<lparr>rtAuthority := a\<rparr>), res) (u, r')"
  shows "wp (bindM nextVersion (\<lambda>version. bindM (selfM (\<lambda>r. r)) (\<lambda>r.
    bindM (rtNodeM (Applier_Apply (rtApplier r) [LifecycleCapabilityV1] (record version r) data)) (\<lambda>result.
    bindM (metricM (\<lambda>m. m\<lparr>MutationsApplied := MutationsApplied m + 1\<rparr>)) (\<lambda>_. returnM (record version r, result)))))) Q (\<lambda>_ _. True) (w, r)"
proof (rule nextVersion_newer)
  fix w a t assume t: "jLast (nJournal (rtNode r)) < t"
  let ?r = "r\<lparr>rtAuthority := a\<rparr>"
  have "apBlobs (rtApplier r) = Some (memory_blobs bt)" "ml.node_inv L (rtNode r)"
    using i by (simp_all add: runtime_inv_def Let_def NewApplier_def node_inv_memory)
  from wp_apply_newer [OF this, of "record t ?r" "[LifecycleCapabilityV1]" data w] t assms(2)
  have "wp (Applier_Apply (rtApplier r) [LifecycleCapabilityV1] (record t ?r) data) (\<lambda>res u. Outcome res = OutcomeApplied \<and> applied (rtNode r) (record t ?r) (snd u)) (\<lambda>_ _. True) (w, rtNode r)"
    by simp
  then show "wp (bindM (selfM (\<lambda>r. r)) (\<lambda>r.
    bindM (rtNodeM (Applier_Apply (rtApplier r) [LifecycleCapabilityV1] (record t r) data)) (\<lambda>result.
    bindM (metricM (\<lambda>m. m\<lparr>MutationsApplied := MutationsApplied m + 1\<rparr>)) (\<lambda>_. returnM (record t r, result))))) Q (\<lambda>_ _. True) (w, ?r)"
    by (simp add: wps) (erule wp_mono, auto intro!: q [OF t])
qed simp

lemma wp_put:
  fixes r :: "'t MemoryStore lifecycleRuntime"
  assumes i: "runtime_inv bt L v r"
  shows "wp (put namespace key data blobKey) (\<lambda>(rec, res) u. Outcome res = OutcomeApplied \<and> jLast (nJournal (rtNode r)) < rVersion rec \<and>
      Namespace rec = namespace \<and> LogicalKey rec = key \<and> State rec = StatePresent \<and> BlobKey rec = sha256 (slice_bytes data) \<and>
      applied (rtNode r) rec (rtNode (snd u)) \<and> ValidateKey (nState (rtNode r)) namespace key = Inr ()) (\<lambda>_ _. True) (w, r)"
    (is "wp _ ?Q _ _")
proof -
  let ?r = "r\<lparr>rtShared := (rtShared r)\<lparr>shMetrics := (shMetrics (rtShared r))\<lparr>MutationsStarted := MutationsStarted (shMetrics (rtShared r)) + 1\<rparr>\<rparr>\<rparr>"
  have i': "runtime_inv bt L v ?r" using i by simp
  let ?rec = "\<lambda>k version r. \<lparr>Namespace = namespace, LogicalKey = key, State = StatePresent, BlobKey = k, rVersion = version, AuthorityID = AuthorityID_of (rtAuthority r)\<rparr>"
  have m: "wp (bindM nextVersion (\<lambda>version. bindM (selfM (\<lambda>r. r)) (\<lambda>r.
    bindM (rtNodeM (Applier_Apply (rtApplier r) [LifecycleCapabilityV1] (?rec k version r) data)) (\<lambda>result.
    bindM (metricM (\<lambda>m. m\<lparr>MutationsApplied := MutationsApplied m + 1\<rparr>)) (\<lambda>_. returnM (?rec k version r, result)))))) ?Q (\<lambda>_ _. True) (w, ?r)"
    if "k = sha256 (slice_bytes data)" "ValidateKey (nState (rtNode r)) namespace key = Inr ()" for k
    by (rule wp_mutation [OF i']) (use that in auto)
  show ?thesis
    unfolding put_def wp_bind [of "metricM _"] wp_metricM wp_onErrorM Let_def wp_True
    using m by (auto simp: wp_bind [of "selfM _"] wp_bind [of "liftE _"] wp_selfM wp_basic SHA256Key_def VerifySHA256Key_ok bindE_def split: sum.splits option.split)
qed

lemma wp_delete:
  fixes r :: "'t MemoryStore lifecycleRuntime"
  assumes i: "runtime_inv bt L v r"
  shows "wp (delete namespace key) (\<lambda>(rec, res) u. Outcome res = OutcomeApplied \<and> jLast (nJournal (rtNode r)) < rVersion rec \<and>
      Namespace rec = namespace \<and> LogicalKey rec = key \<and> State rec = StateDeleted \<and>
      applied (rtNode r) rec (rtNode (snd u)) \<and> ValidateKey (nState (rtNode r)) namespace key = Inr ()) (\<lambda>_ _. True) (w, r)"
    (is "wp _ ?Q _ _")
proof -
  let ?r = "r\<lparr>rtShared := (rtShared r)\<lparr>shMetrics := (shMetrics (rtShared r))\<lparr>MutationsStarted := MutationsStarted (shMetrics (rtShared r)) + 1\<rparr>\<rparr>\<rparr>"
  have i': "runtime_inv bt L v ?r" using i by simp
  let ?rec = "\<lambda>version r. \<lparr>Namespace = namespace, LogicalKey = key, State = StateDeleted, BlobKey = [], rVersion = version, AuthorityID = AuthorityID_of (rtAuthority r)\<rparr>"
  have m: "wp (bindM nextVersion (\<lambda>version. bindM (selfM (\<lambda>r. r)) (\<lambda>r.
    bindM (rtNodeM (Applier_Apply (rtApplier r) [LifecycleCapabilityV1] (?rec version r) None)) (\<lambda>result.
    bindM (metricM (\<lambda>m. m\<lparr>MutationsApplied := MutationsApplied m + 1\<rparr>)) (\<lambda>_. returnM (?rec version r, result)))))) ?Q (\<lambda>_ _. True) (w, ?r)"
    if "ValidateKey (nState (rtNode r)) namespace key = Inr ()"
    by (rule wp_mutation [OF i']) (use that in auto)
  show ?thesis
    unfolding delete_def wp_bind [of "metricM _"] wp_metricM wp_onErrorM Let_def wp_True
    using m by (auto simp: wp_bind [of "selfM _"] wp_bind [of "liftE _"] wp_selfM wp_basic split: sum.splits)
qed

section \<open>Raw synchronisation\<close>

text \<open>The wanted records of a list, and a selection that has one of them per blob.\<close>

definition wanted :: "Version \<Rightarrow> Record list \<Rightarrow> Record set" where
  "wanted v rs = {r\<in>set rs. State r = StatePresent \<and> v < rVersion r}"

definition selects :: "Record set \<Rightarrow> bytes list \<times> Record list \<Rightarrow> bool" where
  "selects W acc \<longleftrightarrow> set (fst acc) = BlobKey ` set (snd acc) \<and> distinct (map BlobKey (snd acc)) \<and>
     set (snd acc) \<subseteq> W \<and> BlobKey ` W \<subseteq> BlobKey ` set (snd acc)"

lemma selects_loop: "selects W acc \<Longrightarrow> selects (W \<union> wanted v rs) (foldl (appendRecord v) acc rs)"
proof (induction rs arbitrary: acc W)
  case (Cons r rs)
  have "selects (W \<union> wanted v [r]) (appendRecord v acc r)"
    using Cons.prems by (auto simp: selects_def appendRecord_def wanted_def not_le)
  from Cons.IH [OF this] have "selects (W \<union> wanted v [r] \<union> wanted v rs) (foldl (appendRecord v) acc (r # rs))" by simp
  moreover have "W \<union> wanted v [r] \<union> wanted v rs = W \<union> wanted v (r # rs)" by (auto simp: wanted_def)
  ultimately show ?case by simp
qed (simp add: wanted_def)

text \<open>
  C9. What a peer is missing is offered before repair.  The records chosen for raw synchronisation name, once each, exactly the blobs of the present
  records that are newer than the peer's watermark, in the journal and, when the peer is behind the
  journal's floor, in the snapshot.  Choosing them changes nothing.
\<close>

theorem raw_sync_exact:
  assumes "recordsForRawSync peerID (w, t) = (Inr rs, (v, t'))"
  shows "t' = t \<and> distinct (map BlobKey rs) \<and>
    (let n = ssNode t; mark = Watermark_of (nWatermarks n) peerID;
         sources = jRecords (nJournal n) @ (if Compare mark (jFloor (nJournal n)) < 0
           then (case shSnapshot (snd (ssConn t)) of None \<Rightarrow> [] | Some c \<Rightarrow> cpRecords c) else []);
         missing = {r\<in>set sources. State r = StatePresent \<and> Compare (rVersion r) mark > 0} in
     set rs \<subseteq> missing \<and> BlobKey ` set rs = BlobKey ` missing)"
proof -
  let ?j = "nJournal (ssNode t)" and ?m = "Watermark_of (nWatermarks (ssNode t)) peerID"
  let ?s = "if Compare ?m (jFloor ?j) < 0 then (case shSnapshot (snd (ssConn t)) of None \<Rightarrow> [] | Some c \<Rightarrow> cpRecords c) else []"
  have "selects {} ([], [])" by (simp add: selects_def)
  from selects_loop [OF selects_loop [OF this]]
  have sel: "selects (wanted ?m (jRecords ?j) \<union> wanted ?m ?s) (foldl (appendRecord ?m) (foldl (appendRecord ?m) ([], []) (jRecords ?j)) ?s)" unfolding Un_empty_left .
  have e: "(if b then (case c of None \<Rightarrow> acc | Some c \<Rightarrow> foldl f acc (cpRecords c)) else acc) =
      foldl f acc (if b then (case c of None \<Rightarrow> [] | Some c \<Rightarrow> cpRecords c) else [])" for b c acc and f :: "'x \<Rightarrow> Record \<Rightarrow> 'x"
    by (simp split: option.split)
  have r: "recordsForRawSync peerID = bindM (nodeM (journalM Records)) (\<lambda>records. bindM (selfM (\<lambda>t. t)) (\<lambda>t.
     let mark = Watermark_of (nWatermarks (ssNode t)) peerID in
     returnM (snd (foldl (appendRecord mark) (foldl (appendRecord mark) ([], []) records)
       (if Compare mark (jFloor (nJournal (ssNode t))) < 0 then (case shSnapshot (snd (ssConn t)) of None \<Rightarrow> [] | Some c \<Rightarrow> cpRecords c) else [])))))"
    by (simp add: recordsForRawSync_def Let_def e)
  have "wp (recordsForRawSync peerID) (\<lambda>rs u. snd u = t \<and> rs = snd (foldl (appendRecord ?m) (foldl (appendRecord ?m) ([], []) (jRecords ?j)) ?s)) (\<lambda>_ _. True) (w, t)"
    unfolding r wp_bind wp_session_parts wp_parts fst_conv snd_conv
    by (rule Records_object) (simp_all add: wps Let_def)
  then have rs: "t' = t" "rs = snd (foldl (appendRecord ?m) (foldl (appendRecord ?m) ([], []) (jRecords ?j)) ?s)"
    using assms by (simp_all add: wp_def)
  have m: "{r\<in>set (a @ b). State r = StatePresent \<and> Compare (rVersion r) ?m > 0} = wanted ?m a \<union> wanted ?m b" for a b
    unfolding wanted_def Compare_simps set_append by blast
  show ?thesis unfolding Let_def m using rs(1) sel unfolding selects_def rs(2) by blast
qed

section \<open>A sample node\<close>

text \<open>A directory \<^verbatim>\<open>d\<close> with the journal of one record, and the node that is opened from it.\<close>

definition example_disk :: world where
  "example_disk = example_world\<lparr>wdir := [(Path (Clean ''d/journal''), 0)], wdir_synced := [(Path (Clean ''d/journal''), 0)]\<rparr>"

definition example_config :: lifecycleCLIConfig where
  "example_config = \<lparr>ccEnabled = True, ccDir = ''d'', ccMembershipConfigured = True, ccMembershipMembers = [],
     ccRepairLimits = example_repair_limits, ccRecordLimits = example_limits,
     ccJournalLimits = \<lparr>oLimits = example_limits, MaxJournalBytes = 0, MaxJournalEntries = 0\<rparr>\<rparr>"

definition example_runtime :: "bytes list MemoryStore lifecycleRuntime" where
  "example_runtime = \<lparr>rtCheckpointPath = ''d/checkpoint'', rtRepairLimits = example_repair_limits,
     rtNode = \<lparr>nBlobs = NewMemoryStore list_btree, nState = apply_all [example_record 1] (NewStore example_limits),
       nJournal = example_journal\<lparr>jPath := ''d/journal''\<rparr>, nWatermarks = (example_book [])\<lparr>wbPath := ''d/watermarks''\<rparr>\<rparr>,
     rtAuthority = (example_authority (MkVersion 1 1))\<lparr>auPath := ''d/authority''\<rparr>,
     rtMembership = (example_members True [])\<lparr>mbPath := ''d/membership''\<rparr>,
     rtCoordinator = \<lparr>coLimits = normalized_repair example_repair_limits\<rparr>,
     rtApplier = NewApplier (Some (memory_blobs list_btree)) example_limits, rtShared = \<lparr>shSnapshot = None, shMetrics = zeroMetrics\<rparr>,
     rtSessions = [], rtLive = []\<rparr>"

lemma example_paths [simp]:
  "file_name_ok ''d/journal''" "file_name_ok ''d/authority''" "file_name_ok ''d/watermarks''" "file_name_ok ''d/membership''" "file_name_ok ''d/checkpoint''"
  "Clean ''d/authority'' \<noteq> Clean ''d/journal''" "Clean ''d/watermarks'' \<noteq> Clean ''d/journal''" "Clean ''d/membership'' \<noteq> Clean ''d/journal''"
  "Clean ''d/checkpoint'' \<noteq> Clean ''d/journal''" "Clean ''d/watermarks'' \<noteq> Clean ''d/authority''" "Clean ''d/membership'' \<noteq> Clean ''d/authority''"
  "Clean ''d/checkpoint'' \<noteq> Clean ''d/authority''" "Clean ''d/checkpoint'' \<noteq> Clean ''d/membership''" "Clean ''d/watermarks'' \<noteq> Clean ''d/membership''"
  "Clean ''d/authority'' \<noteq> Clean ''d/membership''" "Clean ''d/authority'' \<noteq> Clean ''d/checkpoint''" "Clean ''d/membership'' \<noteq> Clean ''d/checkpoint''"
  "Clean ''d/watermarks'' \<noteq> Clean ''d/checkpoint''"
  by (simp_all add: file_name_ok_def base_seg_def Clean_def rooted_def clean_step_def)

lemma example_join [simp]: "Join ''d'' name = CHR ''d'' # CHR ''/'' # name"
  by (simp add: Join_def)

lemma example_disk_calm [simp]: "calm example_disk"
  using example_journal_inv(3) by (simp add: example_disk_def calm_def)

definition journal_file :: "world \<Rightarrow> bool" where
  "journal_file w \<longleftrightarrow> calm w \<and> map_of (wdir w) (Path (Clean ''d/journal'')) = Some 0 \<and> 0 < length (winodes w) \<and>
     winodes w ! 0 = \<lparr>icontent = journal_bytes zeroVersion [example_record 1], isynced = journal_bytes zeroVersion [example_record 1]\<rparr>"

lemma example_disk_journal: "journal_file example_disk"
  by (simp add: journal_file_def) (simp add: example_disk_def example_world_def)

lemma example_open_journal:
  assumes "journal_file w"
  shows "\<exists>rec v. OpenJournal ''d/journal'' example_options w = (Inr (nJournal (rtNode example_runtime), rec), v) \<and> calm v \<and> wdir v = wdir w \<and> winodes v = winodes w"
proof -
  let ?j = "nJournal (rtNode example_runtime)" and ?b = "journal_bytes zeroVersion [example_record 1]"
  have f: "journal_fields example_journal" using example_journal_inv(1) by (simp add: journal_inv_def)
  have jb: "jFloor example_journal = zeroVersion" "jRecords example_journal = [example_record 1]" "jMaxBytes example_journal = 67108864"
    "jSize example_journal = int (length ?b)" by (simp_all add: example_journal_def)
  have parse: "parseJournal (?b @ []) (normalized_limits example_limits) = Inr (zeroVersion, [example_record 1], length ?b, ([] :: bytes) \<noteq> [])"
    using parse_journal_bytes(1) [of "normalized_limits example_limits" "[example_record 1]" zeroVersion] by simp
  have len: "int (length (?b @ [])) \<le> 67108864" using f jb by (simp add: journal_fields_def)
  have d: "calm w" "map_of (wdir w) (Path (Clean ''d/journal'')) = Some 0" "file_content 0 w = ?b @ []" "isynced (winodes w ! 0) = file_content 0 w"
    "0 < length (winodes w)" using assms by (simp_all add: journal_file_def file_content_def)
  from OpenJournal_existing [OF example_options_ok d(1) _ example_paths(1) d(2-5), simplified, OF parse [simplified]] len
  obtain j rec v where o: "OpenJournal ''d/journal'' example_options w = (Inr (j, rec), v)" "jFloor j = zeroVersion" "jRecords j = [example_record 1]"
    "jPath j = ''d/journal''" "jFile j = Some 0" "\<not> jClosed j" "jLimits j = normalized_limits example_limits" "jMaxBytes j = 67108864"
    "jMaxEntries j = 65536" "jLast j = MkVersion 1 1" "jSize j = int (length ?b)" "calm v" "wdir v = wdir w"
    "length (winodes v) = length (winodes w)" "winodes v ! 0 = \<lparr>icontent = ?b, isynced = ?b\<rparr>" "\<forall>k. 0 < k \<longrightarrow> winodes v ! k = winodes w ! k" by auto
  have "j = ?j" using o by (cases j) (simp add: example_runtime_def example_journal_def)
  moreover have "winodes v ! k = winodes w ! k" for k using assms o(15,16) by (cases "k = 0") (auto simp: journal_file_def)
  then have "winodes v = winodes w" using o(14) by (intro nth_equalityI) auto
  ultimately show ?thesis using o(1,12,13) by blast
qed

lemma installed_others:
  assumes "installed b w p d i v" and "Clean q \<noteq> Clean p"
  shows "path_content q w = None \<Longrightarrow> path_content q v = None"
  using assms by (simp add: installed_def path_content_def)

lemma example_open_authority:
  assumes "calm w" and "path_content ''d/authority'' w = None"
  shows "\<exists>data i v. OpenAuthority raw ''d/authority'' ''node'' \<lparr>aoLimits = example_limits, aoMaxBytes = 0, aoObserved = MkVersion 1 1\<rparr> w =
    (Inr (rtAuthority example_runtime), v) \<and> calm v \<and> installed True w ''d/authority'' data i v \<and> authority_encode (''node'', 1048576) (MkVersion 1 1) = Inr data"
proof -
  let ?a = "rtAuthority example_runtime"
  have o: "normalized_authority \<lparr>aoLimits = example_limits, aoMaxBytes = 0, aoObserved = MkVersion 1 1\<rparr> =
     \<lparr>aoLimits = normalized_limits example_limits, aoMaxBytes = 1048576, aoObserved = MkVersion 1 1\<rparr>"
    by (simp add: normalized_authority_def or_default_def DefaultMaxAuthorityStateBytes_def)
  obtain data where d: "authority_encode (''node'', 1048576) (MkVersion 1 1) = Inr data" using example_authority_encode [of "MkVersion 1 1"] by auto
  obtain i v where v: "atomicWrite ''d/authority'' data w = (Inr (), v)" "calm v" "installed True w ''d/authority'' data i v"
    using atomicWrite_calm [OF assms(1) example_paths(2)] by blast
  have a: "\<lparr>auPath = ''d/authority'', auID = ''node'', auLimits = normalized_limits example_limits, auMaxBytes = 1048576,
      auCurrent = MkVersion 1 1\<rparr> = ?a" by (simp add: example_runtime_def example_authority_def)
  have "persist_authority ?a w = (Inr (), v)" using v(1) d by (simp add: persist_authority_alt monad a [symmetric])
  with o v a d assms show ?thesis
    by (auto simp: OpenAuthority_read Let_def monad calm_run os_read_file_calm initialAuthorityVersion_def)
qed

abbreviation example_book_of :: "bool \<Rightarrow> MembershipBook" where
  "example_book_of c \<equiv> (example_members c [])\<lparr>mbPath := ''d/membership''\<rparr>"

lemma example_membership:
  assumes "calm w" and "path_content ''d/membership'' w = None"
  shows "OpenMembershipBook ''d/membership'' example_membership_options w = (Inr (example_book_of False), w)"
  using assms by (simp add: OpenMembershipBook_def monad os_read_file_calm Let_def example_members_def example_membership_options_def
      normalized_membership_def or_default_def DefaultMaxMembershipPeers_def DefaultMaxMembershipPeerIDBytes_def DefaultMaxMembershipBytes_def
      DefaultMaxRepairPeers_def DefaultMaxRepairPeerIDBytes_def DefaultMaxRepairWatermarkBytes_def)

lemma example_configure:
  assumes "calm w"
  shows "\<exists>data i v. configure_local [] (example_book_of c) (w, b) = (Inr (rtMembership example_runtime), (v, b)) \<and> calm v \<and>
      installed True w ''d/membership'' data i v \<and> membership_encode (example_book_of False) [] = Inr data"
proof -
  let ?p = "json_print (membership_json \<lparr>msMembers = []\<rparr>)"
  have "?p \<noteq> [] \<and> length ?p < 1000" by (simp add: membership_json_def ev)
  then obtain data where d: "seal_state (EMembership ErrMembershipCorrupt) (EMembership ErrMembershipLimit) 1048576 ?p = Inr data"
    using seal_state_ok [of ?p 1048576] by auto
  obtain i v where v: "atomicWrite ''d/membership'' data w = (Inr (), v)" "calm v" "installed True w ''d/membership'' data i v"
    using atomicWrite_calm [OF assms(1) example_paths(4)] by blast
  have "normalizeMembers (example_book_of c) [] = Inr []" by (simp add: normalizeMembers_def example_members_def)
  with d v assms(1) show ?thesis
    by (auto simp: configure_local_def Replace_def monad calm_run Let_def example_members_def example_runtime_def membership_encode_def)
qed

lemma example_watermarks:
  assumes "calm w" and "path_content ''d/watermarks'' w = None"
  shows "OpenWatermarkBook ''d/watermarks'' \<lparr>woMaxPeers = 0, woMaxPeerIDBytes = 0, woMaxBytes = 0\<rparr> w = (Inr (nWatermarks (rtNode example_runtime)), w)"
  using assms by (simp add: OpenWatermarkBook_def monad os_read_file_calm Let_def example_book_def example_runtime_def
    normalized_watermark_def or_default_def DefaultMaxRepairPeers_def DefaultMaxRepairPeerIDBytes_def DefaultMaxRepairWatermarkBytes_def)

lemma example_restore:
  assumes "calm w" and "path_content ''d/checkpoint'' w = None" and "jFloor j = zeroVersion"
  shows "restore_checkpoint blobs ''d/checkpoint'' L j (w, b) = (Inr (None, NewStore L), (w, b))"
  using assms by (simp add: restore_checkpoint_def LoadCheckpoint_def os_open_def monad calm_run Let_def path_content_def IsZero_def split: option.splits)

lemma example_replay:
  assumes "calm w"
  shows "replay_into blobs (nJournal (rtNode example_runtime)) (NewStore example_limits) (w, b) = (Inr (nState (rtNode example_runtime)), (w, b))"
proof -
  have "Apply (example_record 1) (NewStore example_limits) = (Inr \<lparr>Outcome = OutcomeApplied, aVersion = MkVersion 1 1\<rparr>, nState (rtNode example_runtime))"
    by (simp add: Apply_eval NewStore_def classifyRecord_def example_runtime_def)
  moreover have "\<not> jClosed (nJournal (rtNode example_runtime))" "jFile (nJournal (rtNode example_runtime)) = Some 0"
    "jRecords (nJournal (rtNode example_runtime)) = [example_record 1]" by (simp_all add: example_runtime_def example_journal_def)
  moreover have "State (example_record 1) \<noteq> StatePresent" by (simp add: example_record_def StatePresent_def StateDeleted_def)
  ultimately show ?thesis
    using assms
    by (simp add: replay_into_def Replay_def Records_def ensureOpenLocked_def replay_record_def verifyLifecycleRecords_def monad calm_run Let_def zoomM_def)
qed

definition example_blobs :: "bytes list MemoryStore" where
  "example_blobs = NewMemoryStore list_btree"

lemma example_config_valid: "validate_config example_config (Some (memory_blobs list_btree)) ''t'' ''node'' = Inr ()"
  by (simp add: validate_config_def example_config_def guardE_def example_repair_limits_def)

text \<open>Opening the sample node once its files have been read.\<close>

lemma example_open_parts:
  assumes "OpenJournal ''d/journal'' example_options w = (Inr (nJournal (rtNode example_runtime), rec), u)"
    and "OpenAuthority raw ''d/authority'' ''node'' \<lparr>aoLimits = example_limits, aoMaxBytes = 0, aoObserved = MkVersion 1 1\<rparr> u = (Inr (rtAuthority example_runtime), ua)"
    and "calm ua" and "path_content ''d/watermarks'' ua = None"
    and "OpenMembershipBook ''d/membership'' example_membership_options ua = (Inr (example_book_of c), ua)"
    and "configure_local [] (example_book_of c) (ua, b) = (Inr (rtMembership example_runtime), (ub, b))" and "calm w"
    and "restore_checkpoint (memory_blobs list_btree) ''d/checkpoint'' example_limits (nJournal (rtNode example_runtime)) (ub, b) = (res, (ub, b))" and "calm ub"
  shows "res = Inl e \<Longrightarrow> fst (openLifecycleRuntime raw example_config (Some (memory_blobs list_btree)) ''t'' ''node'' (w, b)) = Inl e"
    and "res = Inr (None, NewStore example_limits) \<Longrightarrow> b = example_blobs \<Longrightarrow>
      openLifecycleRuntime raw example_config (Some (memory_blobs list_btree)) ''t'' ''node'' (w, b) = (Inr (Some example_runtime), (ub, b))"
proof -
  have f: "ccEnabled example_config" "ccDir example_config = ''d''" "ccRecordLimits example_config = example_limits"
    "ccJournalLimits example_config = example_options" "ccMembershipConfigured example_config" "ccMembershipMembers example_config = []"
    "ccRepairLimits example_config = example_repair_limits" "jLast (nJournal (rtNode example_runtime)) = MkVersion 1 1"
    "jFloor (nJournal (rtNode example_runtime)) = zeroVersion" "oLimits example_options = example_limits"
    "MaxJournalBytes example_options = 0" "MaxJournalEntries example_options = 0"
    by (simp_all add: example_config_def example_options_def example_runtime_def example_journal_def)
  have o: "\<lparr>oLimits = example_limits, MaxJournalBytes = 0, MaxJournalEntries = 0\<rparr> = example_options"
    "\<lparr>moMaxPeers = 0, moMaxPeerIDBytes = 0, moMaxBytes = 0\<rparr> = example_membership_options"
    by (simp_all add: example_options_def example_membership_options_def)
  note ex = assms example_watermarks [OF assms(3,4)]
  let ?A = "assemble_runtime example_config (memory_blobs list_btree) (nJournal (rtNode example_runtime)) (rtAuthority example_runtime)
     (nWatermarks (rtNode example_runtime)) (rtMembership example_runtime) (ub, b)"
  have run: "openLifecycleRuntime raw example_config (Some (memory_blobs list_btree)) ''t'' ''node'' (w, b) =
     (case ?A of (Inl e, s) \<Rightarrow> (Inl e, snd (close_local (nJournal (rtNode example_runtime)) s)) | (Inr r, s) \<Rightarrow> (Inr (Some r), s))"
    using ex by (simp add: openLifecycleRuntime_def Let_def monad wrapM_def f o example_config_valid calm_run onErrorM_def ignoreM_def split: prod.split sum.split)
  have "?A = (Inl e, (ub, b))" if "res = Inl e" for e
    using ex that by (simp add: assemble_runtime_def Let_def monad f)
  with run show "fst (openLifecycleRuntime raw example_config (Some (memory_blobs list_btree)) ''t'' ''node'' (w, b)) = Inl e" if "res = Inl e"
    using that by simp
  assume "res = Inr (None, NewStore example_limits)" "b = example_blobs"
  then have "?A = (Inr example_runtime, (ub, b))"
    using ex by (simp add: assemble_runtime_def Let_def monad wrapM_def f NewRepairCoordinator_def example_replay [OF assms(9)]) (simp add: example_runtime_def example_blobs_def)
  with run show "openLifecycleRuntime raw example_config (Some (memory_blobs list_btree)) ''t'' ''node'' (w, b) = (Inr (Some example_runtime), (ub, b))" by simp
qed

text \<open>The files of the sample node, with or without a checkpoint.\<close>

definition entries_ok :: "world \<Rightarrow> bool" where
  "entries_ok w \<longleftrightarrow> (\<forall>c k. map_of (wdir w) (Path c) = Some k \<longrightarrow> k < length (winodes w))"

lemma installed_same:
  assumes "installed b w p d i v" and "entries_ok w"
  shows "entries_ok v" and "Clean q \<noteq> Clean p \<Longrightarrow> path_content q v = path_content q w"
    and "journal_file w \<Longrightarrow> Clean p \<noteq> Clean ''d/journal'' \<Longrightarrow> calm v \<Longrightarrow> journal_file v"
proof -
  have l: "length (winodes w) \<le> length (winodes v)" and n: "\<And>k. k < length (winodes w) \<Longrightarrow> winodes v ! k = winodes w ! k" and i: "i < length (winodes v)"
    using assms(1) by (auto simp: installed_def prefix_nth_eq dest: prefix_length_le)
  have m: "map_of (wdir v) (Path c) = (if c = Clean p then Some i else map_of (wdir w) (Path c))" for c using assms(1) by (simp add: installed_def)
  show "entries_ok v" using assms(2) l i unfolding entries_ok_def m by (auto intro: less_le_trans)
  show "path_content q v = path_content q w" if "Clean q \<noteq> Clean p"
    using that assms(2) n unfolding path_content_def m by (auto simp: entries_ok_def file_content_def intro!: option.map_cong)
  show "journal_file v" if "journal_file w" "Clean p \<noteq> Clean ''d/journal''" "calm v"
    using that l n [of 0] unfolding journal_file_def m by auto
qed

definition node_files :: "bytes option \<Rightarrow> world \<Rightarrow> bool" where
  "node_files c w \<longleftrightarrow> journal_file w \<and> entries_ok w \<and>
     (\<exists>data. path_content ''d/authority'' w = Some data \<and> authority_encode (''node'', 1048576) (MkVersion 1 1) = Inr data) \<and> path_content ''d/watermarks'' w = None \<and>
     (\<exists>data. path_content ''d/membership'' w = Some data \<and> membership_encode (example_book_of False) [] = Inr data) \<and> path_content ''d/checkpoint'' w = c"

lemma example_opened:
  "\<exists>v. openLifecycleRuntime raw example_config (Some (memory_blobs list_btree)) ''t'' ''node'' (example_disk, example_blobs) =
     (Inr (Some example_runtime), (v, example_blobs)) \<and> node_files None v"
proof -
  obtain rec u where u: "OpenJournal ''d/journal'' example_options example_disk = (Inr (nJournal (rtNode example_runtime), rec), u)" "calm u"
    "wdir u = wdir example_disk" "winodes u = winodes example_disk" using example_open_journal [OF example_disk_journal] by blast
  have none: "path_content p u = None" if "Clean p \<noteq> Clean ''d/journal''" for p
    using that u(3) by (simp add: path_content_def example_disk_def)
  have fu: "journal_file u" "entries_ok u"
    using example_disk_journal u(2-4) by (simp_all add: journal_file_def entries_ok_def) (simp add: example_disk_def example_world_def)
  obtain da ia ua where a: "OpenAuthority raw ''d/authority'' ''node'' \<lparr>aoLimits = example_limits, aoMaxBytes = 0, aoObserved = MkVersion 1 1\<rparr> u =
    (Inr (rtAuthority example_runtime), ua)" "calm ua" "installed True u ''d/authority'' da ia ua" "authority_encode (''node'', 1048576) (MkVersion 1 1) = Inr da"
    using example_open_authority [OF u(2) none, of raw] by auto
  note sa = installed_same [OF a(3) fu(2)]
  obtain db ib ub where b: "configure_local [] (example_book_of False) (ua, example_blobs) = (Inr (rtMembership example_runtime), (ub, example_blobs))"
    "calm ub" "installed True ua ''d/membership'' db ib ub" "membership_encode (example_book_of False) [] = Inr db"
    using example_configure [OF a(2), of False example_blobs] by blast
  note sb = installed_same [OF b(3) sa(1)]
  have w: "path_content ''d/watermarks'' ua = None" "path_content ''d/membership'' ua = None" "path_content ''d/checkpoint'' ub = None" "path_content ''d/watermarks'' ub = None"
    using none sa(2) sb(2) by auto
  have fl: "jFloor (nJournal (rtNode example_runtime)) = zeroVersion" by (simp add: example_runtime_def example_journal_def)
  have "openLifecycleRuntime raw example_config (Some (memory_blobs list_btree)) ''t'' ''node'' (example_disk, example_blobs) = (Inr (Some example_runtime), (ub, example_blobs))"
    by (rule example_open_parts(2) [OF u(1) a(1,2) w(1) example_membership [OF a(2) w(2)] b(1) example_disk_calm example_restore [OF b(2) w(3) fl] b(2) refl refl])
  moreover have "path_content ''d/authority'' ub = Some da" using installed_entry(2) [OF a(3)] sb(2) by simp
  then have "node_files None ub"
    using fu(1) sa(3) [OF _ _ a(2)] sb(3) [OF _ _ b(2)] sb(1) a(4) b(4) w installed_entry(2) [OF b(3)] by (simp add: node_files_def)
  ultimately show ?thesis by blast
qed

text \<open>The record that the node makes of a first \<^verbatim>\<open>put\<close>.\<close>

lemma escape_ascii: "\<forall>c\<in>set s. byte_of c < 128 \<Longrightarrow> length (json_escape s) \<le> 6 * length s"
proof (induction s)
  case (Cons c cs)
  have "length (esc_ascii c) \<le> 6" by (simp add: esc_ascii_def esc_u_def)
  moreover have "json_escape (c # cs) = esc_ascii c @ json_escape cs"
    using Cons.prems by (simp add: json_escape_def utf8_chunks.simps(2) utf8_width.simps(2) esc_chunk_def)
  ultimately show ?case using Cons by simp
qed (simp add: json_escape_def)

lemma bytes_json_length: "length (json_print (bytes_json b)) \<le> 8 * length b + 50"
proof -
  have "length (json_escape (b64_encode b)) \<le> 6 * length (b64_encode b)"
    using b64_encode_safe [of b] by (intro escape_ascii) (auto simp: list_all_iff intro: b64_safe_ascii)
  then show ?thesis by (simp add: bytes_json_def json_string_def length_b64_encode)
qed

definition put_record :: Record where
  "put_record = (example_record 2)\<lparr>State := StatePresent, BlobKey := sha256 ''x''\<rparr>"

lemma put_record_length: "length (marshal_record put_record) \<le> 1000"
proof -
  obtain k where k: "k = sha256 ''x''" "length k = 32" by simp
  from k(2) have "k \<noteq> []" by auto
  then have "length (marshal_record put_record) \<le> 500 + length (json_print (bytes_json k))"
    by (simp add: marshal_record_def put_record_def record_json_def k(1) [symmetric] ev)
  then show ?thesis using bytes_json_length [of k] k(2) by simp
qed


lemma put_record_valid: "valid_record example_limits put_record"
proof -
  have "valid_record example_limits (example_record 2)" by simp
  moreover have "1000 \<le> MaxRecordBytes (normalized_limits example_limits)"
    by (simp add: normalized_limits_def example_limits_def or_default_def default_limits)
  ultimately show ?thesis using put_record_length by (auto simp: valid_record_def put_record_def)
qed

lemma example_runtime_node:
  "nState (rtNode example_runtime) = nState example_node" "nBlobs (rtNode example_runtime) = NewMemoryStore list_btree"
  "journal_fields (nJournal (rtNode example_runtime))" "jFile (nJournal (rtNode example_runtime)) = Some 0"
  "\<not> jClosed (nJournal (rtNode example_runtime))" "jLast (nJournal (rtNode example_runtime)) = MkVersion 1 1"
  "jLimits (nJournal (rtNode example_runtime)) = normalized_limits example_limits"
proof -
  have "journal_fields example_journal" using example_journal_inv(1) by (simp add: journal_inv_def)
  then show "journal_fields (nJournal (rtNode example_runtime))" by (simp add: example_runtime_def journal_fields_def)
qed (simp_all add: example_runtime_def example_node_def example_journal_def)

lemma example_put_append:
  assumes "calm w" and "0 < length (winodes w)"
  shows "\<exists>v. Append put_record (w, nJournal (rtNode example_runtime)) = (Inr (), (v, appended (nJournal (rtNode example_runtime)) put_record)) \<and> calm v"
proof -
  have "Validate put_record (jLimits (nJournal (rtNode example_runtime))) = Inr ()"
    using put_record_valid by (simp add: example_runtime_node Validate_ok)
  moreover have "MkVersion 1 1 < rVersion put_record" by (simp add: put_record_def)
  moreover have "appendable (nJournal (rtNode example_runtime)) put_record"
    using put_record_valid put_record_length example_entry_length(1)
    by (simp add: appendable_def example_runtime_node journal_entry_def)
      (simp add: example_runtime_def example_journal_def put_record_def journal_bytes_def journal_entry_def)
  ultimately show ?thesis
    using Append_calm [OF example_runtime_node(3,5,4) assms(2,1), of put_record] assms
    by (simp add: example_runtime_node not_le)
qed


lemma example_put_token:
  assumes "calm w"
  shows "\<exists>v. Next (MkVersion 1 1) (w, rtAuthority example_runtime) = (Inr (MkVersion 1 2), (v, (rtAuthority example_runtime)\<lparr>auCurrent := MkVersion 1 2\<rparr>)) \<and>
    calm v \<and> length (winodes w) \<le> length (winodes v)"
proof -
  let ?a = "(rtAuthority example_runtime)\<lparr>auCurrent := MkVersion 1 2\<rparr>"
  let ?p = "json_print (authority_json \<lparr>stAuthorityID = ''node'', stVersion = MkVersion 1 2\<rparr>)"
  have "?p \<noteq> [] \<and> length ?p < 1000" by (simp add: authority_json_def ev)
  then have "\<exists>data. authority_encode (''node'', 1048576) (MkVersion 1 2) = Inr data"
    unfolding authority_encode_def by (intro seal_state_ok) simp_all
  then obtain data where d: "authority_encode (''node'', 1048576) (MkVersion 1 2) = Inr data" by blast
  obtain i v where v: "atomicWrite ''d/authority'' data w = (Inr (), v)" "calm v" "installed True w ''d/authority'' data i v"
    using atomicWrite_calm [OF assms example_paths(2)] by blast
  have "incrementAuthorityVersion (MkVersion 1 1) = Inr (MkVersion 1 2)" by (simp add: incrementAuthorityVersion_def)
  moreover have "length (winodes w) \<le> length (winodes v)" using v(3) by (auto simp: installed_def dest: prefix_length_le)
  ultimately show ?thesis
    using v d assms by (simp add: Next_def persist_authority_alt monad calm_run example_runtime_def example_authority_def)
qed


lemma put_record_alt:
  "\<lparr>Namespace = ''ns'', LogicalKey = ''key'', State = StatePresent, BlobKey = sha256 ''x'', rVersion = MkVersion 1 2, AuthorityID = ''node''\<rparr> = put_record"
  by (simp add: put_record_def example_record_def)

lemma example_put_store: "\<exists>b. calm w \<longrightarrow> ms_Put list_btree (sha256 ''x'') ''x'' (w, NewMemoryStore list_btree) = (Inr (), (w, b))"
proof -
  have "sha256 ''x'' \<noteq> []" using length_sha256 [of "''x''"] by (metis list.size(3) zero_neq_numeral)
  then show ?thesis by (auto simp: ms_Put_def monad calm_run keyString_def)
qed

lemma example_put_apply:
  assumes "calm w" and "0 < length (winodes w)"
  shows "\<exists>v n. Applier_Apply (NewApplier (Some (memory_blobs list_btree)) example_limits) [LifecycleCapabilityV1] put_record (Some ''x'')
    (w, rtNode example_runtime) = (Inr \<lparr>Outcome = OutcomeApplied, aVersion = MkVersion 1 2\<rparr>, (v, n))"
proof -
  obtain b where b: "ms_Put list_btree (sha256 ''x'') ''x'' (w, NewMemoryStore list_btree) = (Inr (), (w, b))"
    using example_put_store assms(1) by blast
  obtain v where v: "Append put_record (w, nJournal (rtNode example_runtime)) = (Inr (), (v, appended (nJournal (rtNode example_runtime)) put_record))"
    using example_put_append [OF assms] by blast
  have val: "Validate put_record example_limits = Inr ()" using put_record_valid by (simp add: Validate_ok)
  then have c: "Classify put_record (nState example_node) = Inr \<lparr>Outcome = OutcomeApplied, aVersion = MkVersion 1 2\<rparr>"
    unfolding example_state by (simp add: Classify_def classifyRecord_def record_key_def Let_def) (simp add: put_record_def)
  obtain s' where s: "Apply put_record (nState example_node) = (Inr \<lparr>Outcome = OutcomeApplied, aVersion = MkVersion 1 2\<rparr>, s')"
    using c Apply_Classify [of put_record "nState example_node"] by (metis prod.collapse)
  have "State put_record = StatePresent" "BlobKey put_record = sha256 ''x''" by (simp_all add: put_record_def)
  then show ?thesis
    using val b v c s assms VerifySHA256Key_ok [of "sha256 ''x''" "''x''" "()"] by (simp add: Applier_Apply_def ensureBlob_def NewApplier_def monad calm_run HasLifecycleCapability_def example_runtime_node
      memory_blobs_def blobsM_def journalM_def stateM_def zoomM_def)
qed


lemma example_put:
  "\<exists>v r'. put ''ns'' ''key'' (Some ''x'') None (example_disk, example_runtime) = (Inr (put_record, \<lparr>Outcome = OutcomeApplied, aVersion = MkVersion 1 2\<rparr>), (v, r'))"
proof -
  obtain u where u: "Next (MkVersion 1 1) (example_disk, rtAuthority example_runtime) =
      (Inr (MkVersion 1 2), (u, (rtAuthority example_runtime)\<lparr>auCurrent := MkVersion 1 2\<rparr>))" "calm u" "length (winodes example_disk) \<le> length (winodes u)"
    using example_put_token [OF example_disk_calm] by blast
  have "0 < length (winodes example_disk)" by (simp add: example_disk_def example_world_def)
  with u(3) have pos: "0 < length (winodes u)" by linarith
  obtain v n where "Applier_Apply (NewApplier (Some (memory_blobs list_btree)) example_limits) [LifecycleCapabilityV1] put_record (Some ''x'')
    (u, rtNode example_runtime) = (Inr \<lparr>Outcome = OutcomeApplied, aVersion = MkVersion 1 2\<rparr>, (v, n))"
    using example_put_apply [OF u(2) pos] by blast
  moreover have "ValidateKey (nState example_node) ''ns'' ''key'' = Inr ()" 
    using example_lookup by (simp add: example_state ValidateKey_def validateLookup_def)
  moreover have "auID (rtAuthority example_runtime) = ''node''" "rtApplier example_runtime = NewApplier (Some (memory_blobs list_btree)) example_limits"
    by (simp_all add: example_runtime_def example_authority_def)
  ultimately show ?thesis
    using u by (simp add: put_def nextVersion_def metricM_def authorityM_def rtNodeM_def zoomM_def onErrorM_def monad Let_def example_runtime_node AuthorityID_of_def
      SHA256Key_def slice_bytes_def put_record_alt)
qed

section \<open>Properties of a running node\<close>

lemma example_runtime_inv: "runtime_inv list_btree example_limits zeroVersion example_runtime"
proof -
  have "opened list_btree example_config example_blobs example_runtime"
    using wp_open [of "Inr []" example_config list_btree "''t''" "''node''" example_blobs example_disk] example_opened [of "Inr []"] by (auto simp: wp_def)
  moreover have "ccRecordLimits example_config = example_limits" by (simp add: example_config_def)
  moreover have "Watermark_of (nWatermarks (rtNode example_runtime)) q = zeroVersion" for q
    by (simp add: example_runtime_def example_book_def Watermark_of_def)
  ultimately show ?thesis using opened_invariant example_runtime_node(3) by fastforce
qed






text \<open>
  C7. A put that returns is visible and journalled.  The record it returns has the given key, names the SHA-256 of the data, and has a version
  after everything in the journal; it is the last record of the journal, reading the key gives it, every other key reads
  as before, its blob is in the store under its key, and the node still satisfies its invariant.
\<close>

theorem put_visible:
  fixes r :: "'t MemoryStore lifecycleRuntime"
  assumes "runtime_inv bt L v r" and "put namespace key data blobKey (w, r) = (Inr (rec, res), (u, r'))"
  shows "Outcome res = OutcomeApplied \<and> Namespace rec = namespace \<and> LogicalKey rec = key \<and> State rec = StatePresent \<and>
    BlobKey rec = SHA256Key (slice_bytes data) \<and> Compare (rVersion rec) (jLast (nJournal (rtNode r))) > 0 \<and>
    jRecords (nJournal (rtNode r')) = jRecords (nJournal (rtNode r)) @ [rec] \<and> jLast (nJournal (rtNode r')) = rVersion rec \<and>
    Get (nState (rtNode r')) namespace key = Inr (Some rec) \<and>
    (\<forall>ns k. (ns, k) \<noteq> (namespace, key) \<longrightarrow> Get (nState (rtNode r')) ns k = Get (nState (rtNode r)) ns k) \<and>
    (\<exists>d. map_of (msData (nBlobs (rtNode r'))) (BlobKey rec) = Some d \<and> VerifySHA256Key (BlobKey rec) d = Inr ()) \<and>
    runtime_inv bt L (jLast (nJournal (rtNode r))) r'"
proof -
  have i: "runtime_inv bt L (jLast (nJournal (rtNode r))) r" using assms(1) by (simp add: runtime_inv_def Let_def)
  have i': "runtime_inv bt L (jLast (nJournal (rtNode r))) r'"
    using put_inv [OF i, THEN spec, of namespace key data blobKey w] assms(2) by (simp add: wp_def)
  have p: "Outcome res = OutcomeApplied" "jLast (nJournal (rtNode r)) < rVersion rec" "Namespace rec = namespace" "LogicalKey rec = key"
    "State rec = StatePresent" "BlobKey rec = sha256 (slice_bytes data)" "applied (rtNode r) rec (rtNode r')" "ValidateKey (nState (rtNode r)) namespace key = Inr ()"
    using wp_put [OF assms(1), of namespace key data blobKey w] assms(2) by (simp_all add: wp_def)
  have l: "sLimits (nState (rtNode r')) = sLimits (nState (rtNode r))"
    using i i' based_wf by (fastforce simp: runtime_inv_def node_ok_def Let_def store_wf_def)
  show ?thesis
    using p i' l by (auto simp: applied_def appended_def Get_def ValidateKey_def SHA256Key_def record_key_def VerifySHA256Key_ok bindE_def split: sum.splits)
qed

theorem put_visible_witness:
  "\<exists>u r'. put ''ns'' ''key'' (Some ''x'') None (example_disk, example_runtime) = (Inr (put_record, \<lparr>Outcome = OutcomeApplied, aVersion = MkVersion 1 2\<rparr>), (u, r')) \<and>
     Get (nState (rtNode r')) ''ns'' ''key'' = Inr (Some put_record) \<and> jLast (nJournal (rtNode r')) = MkVersion 1 2"
proof -
  obtain u r' where p: "put ''ns'' ''key'' (Some ''x'') None (example_disk, example_runtime) =
      (Inr (put_record, \<lparr>Outcome = OutcomeApplied, aVersion = MkVersion 1 2\<rparr>), (u, r'))" using example_put by blast
  have "rVersion put_record = MkVersion 1 2" by (simp add: put_record_def)
  with put_visible [OF example_runtime_inv p] p show ?thesis by auto
qed


lemma restored_reads:
  assumes "store_wf L s"
  shows "Get (base_state L (Some \<lparr>Watermark = t, cpRecords = Snapshot s\<rparr>)) ns k = Get s ns k"
proof -
  let ?c = "\<lparr>Watermark = t, cpRecords = Snapshot s\<rparr>"
  have "lookup (restore L ?c) q = map_of (map (\<lambda>r. (record_key r, r)) (Snapshot s)) q" for q
    using restore_lookup [of ?c L q] Snapshot_valid [OF assms] Snapshot_distinct [OF assms] by simp
  then have "lookup (restore L ?c) q = Some r \<longleftrightarrow> lookup s q = Some r" for q r
    using set_Snapshot [OF assms, of r] lookup_key [OF assms, of q r] map_of_records [OF Snapshot_distinct [OF assms], of q r] by metis
  then have "lookup (restore L ?c) q = lookup s q" for q by (metis not_Some_eq)
  moreover have "sLimits (restore L ?c) = sLimits s" using assms restore_wf [of L ?c] by (simp add: store_wf_def)
  ultimately show ?thesis by (simp add: base_state_def Get_def ValidateKey_def)
qed

text \<open>
  C8. Compaction loses nothing and respects the members.  If it fails, the node in memory is unchanged.  If it succeeds, a member set was
  configured and every member had acknowledged the whole journal; the logical state is as before, the journal is empty with its floor
  at the last version, and the node has a snapshot at that version from which a start would restore a state that reads the same
  for every key; the invariant holds.
\<close>

theorem compact_sound:
  fixes r :: "'t MemoryStore lifecycleRuntime"
  assumes "runtime_inv bt L v r" and "compact (w, r) = (res, (u, r'))"
  shows "case res of
     Inl _ \<Rightarrow> r' = r
   | Inr _ \<Rightarrow> let n = rtNode r; n' = rtNode r' in
       mbConfigured (rtMembership r) \<and> (\<forall>m\<in>set (mbMembers (rtMembership r)). Compare (Watermark_of (nWatermarks n) m) (jLast (nJournal n)) \<ge> 0) \<and>
       nState n' = nState n \<and> nBlobs n' = nBlobs n \<and> nWatermarks n' = nWatermarks n \<and>
       jRecords (nJournal n') = [] \<and> jFloor (nJournal n') = jLast (nJournal n) \<and> jLast (nJournal n') = jLast (nJournal n) \<and>
       (\<exists>c. shSnapshot (rtShared r') = Some c \<and> Watermark c = jLast (nJournal n) \<and>
          (\<forall>ns k. Get (base_state L (Some c)) ns k = Get (nState n) ns k)) \<and> runtime_inv bt L (jLast (nJournal n)) r'"
proof -
  have i: "runtime_inv bt L (jLast (nJournal (rtNode r))) r" using assms(1) by (simp add: runtime_inv_def Let_def)
  have i': "runtime_inv bt L (jLast (nJournal (rtNode r))) r'"
    using compact_inv [OF i, THEN spec, of w] assms(2) by (simp add: wp_def split: sum.splits)
  have wf: "store_wf L (nState (rtNode r))" using i based_wf by (auto simp: runtime_inv_def node_ok_def Let_def)
  note g = restored_reads [OF wf]
  have "wp compact (\<lambda>_ x. \<exists>k. snd x = compacted r k \<and> mbConfigured (rtMembership r) \<and>
      (\<forall>m\<in>set (mbMembers (rtMembership r)). jLast (nJournal (rtNode r)) \<le> Watermark_of (nWatermarks (rtNode r)) m)) (\<lambda>_ x. snd x = r) (w, r)"
    by (rule wp_compact [OF assms(1)]) auto
  with assms(2) i' g show ?thesis by (cases res) (auto simp: wp_def compacted_def Let_def)
qed


lemma example_runtime_journal: "journal_inv (example_disk, nJournal (rtNode example_runtime))"
  using example_journal_inv(1) by (simp add: journal_inv_def journal_fields_def example_runtime_def example_disk_def file_content_def)

definition runtime_request :: CompactionRequest where
  "runtime_request = \<lparr>CheckpointPath = ''d/checkpoint'', reqWatermark = MkVersion 1 1, reqRecords = [example_record 1], reqBase = None, PeerWatermarks = []\<rparr>"

lemma runtime_request_checks: "compaction_checks (nJournal (rtNode example_runtime)) runtime_request zeroCheckpoint example_checkpoint cb \<longleftrightarrow>
    encodeCheckpoint example_checkpoint (normalized_limits example_limits) = Inr (cb, normalized_limits example_limits)"
proof -
  have "covered (MkVersion 1 1) [example_record 1] = [example_record 1]" by (simp add: covered_alt)
  then show ?thesis
    using example_normalize example_apply
    by (auto simp: compaction_checks_def example_runtime_def example_journal_def runtime_request_def compactionBaseLocked_def IsZero_def
        zeroCheckpoint_def Snapshot_def example_checkpoint_def)
qed

lemma example_compact_request:
  "compact (w, example_runtime) = bindM (osM pollM) (\<lambda>_. bindM (rtNodeM (journalM (Compact runtime_request))) (\<lambda>_.
     setM (\<lambda>r. r\<lparr>rtShared := (rtShared r)\<lparr>shSnapshot := Some example_checkpoint\<rparr>\<rparr>))) (w, example_runtime)"
proof -
  have "Snapshot (nState example_node) = [example_record 1]" unfolding example_state by (simp add: Snapshot_def)
  moreover have "zeroVersion < MkVersion 1 1" "MkVersion 1 1 \<noteq> zeroVersion" using less_imp_neq [OF zero_less_example [of 1]] by auto
  moreover have "jFloor (nJournal (rtNode example_runtime)) = zeroVersion" "rtCheckpointPath example_runtime = ''d/checkpoint''"
    "mbConfigured (rtMembership example_runtime)" "mbMembers (rtMembership example_runtime) = []" "shSnapshot (rtShared example_runtime) = None"
    by (simp_all add: example_runtime_def example_journal_def example_members_def)
  ultimately show ?thesis
    by (simp add: compact_def WatermarksAt_def Snapshot_runtime_def monad Let_def example_runtime_node IsZero_def runtime_request_def example_checkpoint_def
      split: prod.split sum.split)
qed

theorem compact_sound_witness:
  "\<exists>u r'. compact (example_disk, example_runtime) = (Inr (), (u, r')) \<and> jFloor (nJournal (rtNode r')) = MkVersion 1 1 \<and> jRecords (nJournal (rtNode r')) = []"
proof -
  obtain cb where "encodeCheckpoint example_checkpoint (normalized_limits example_limits) = Inr (cb, normalized_limits example_limits)"
    using example_encode by blast
  then have "compaction_checks (nJournal (rtNode example_runtime)) runtime_request zeroCheckpoint example_checkpoint cb" by (simp add: runtime_request_checks)
  from Compact_calm [OF example_runtime_journal example_runtime_node(5) example_disk_calm this]
  have "fst (Compact runtime_request (example_disk, nJournal (rtNode example_runtime))) = Inr ()"
    by (simp add: runtime_request_def) (simp add: example_runtime_def)
  then have "\<exists>u r'. compact (example_disk, example_runtime) = (Inr (), (u, r'))"
    by (auto simp: example_compact_request monad calm_run rtNodeM_def journalM_def zoomM_def split: prod.splits sum.splits)
  then obtain u r' where c: "compact (example_disk, example_runtime) = (Inr (), (u, r'))" by blast
  from compact_sound [OF example_runtime_inv c] c show ?thesis by (auto simp: Let_def example_runtime_node)
qed

definition example_view :: "(bytes list MemoryStore, cli_conn) session_state" where
  "example_view = \<lparr>ssNode = (rtNode example_runtime)\<lparr>nJournal := (nJournal (rtNode example_runtime))\<lparr>jRecords := [example_record 1, put_record]\<rparr>\<rparr>,
     ssConn = ([], rtShared example_runtime), ssHelloReceived = False, ssHelloNotify = False, ssAckNotify = False\<rparr>"

theorem raw_sync_exact_witness:
  "\<exists>rs. recordsForRawSync ''peer'' (example_disk, example_view) = (Inr rs, (example_disk, example_view)) \<and> BlobKey ` set rs = {sha256 ''x''}"
proof -
  have "\<exists>rs. recordsForRawSync ''peer'' (example_disk, example_view) = (Inr rs, (example_disk, example_view))"
    by (simp add: recordsForRawSync_def nodeM_def journalM_def zoomM_def Records_def ensureOpenLocked_def monad calm_run Let_def example_view_def)
      (simp add: example_runtime_def example_journal_def monad calm_run)
  then obtain rs where r: "recordsForRawSync ''peer'' (example_disk, example_view) = (Inr rs, (example_disk, example_view))" by blast
  have "Watermark_of (nWatermarks (ssNode example_view)) ''peer'' = zeroVersion" "jFloor (nJournal (ssNode example_view)) = zeroVersion"
    "jRecords (nJournal (ssNode example_view)) = [example_record 1, put_record]"
    by (simp_all add: example_view_def example_runtime_def example_book_def example_journal_def Watermark_of_def)
  moreover have "{x \<in> set ([example_record 1, put_record] @ []). State x = StatePresent \<and> Compare (rVersion x) zeroVersion > 0} = {put_record}"
  proof -
    have "State (example_record 1) \<noteq> StatePresent" "State put_record = StatePresent" "Compare (rVersion put_record) zeroVersion > 0"
      by (simp_all add: put_record_def example_record_def [of 1] StatePresent_def StateDeleted_def)
    then show ?thesis unfolding append_Nil2 list.set by blast
  qed
  moreover have "\<not> Compare zeroVersion zeroVersion < 0" by simp
  moreover have "BlobKey put_record = sha256 ''x''" by (simp add: put_record_def)
  ultimately have "BlobKey ` set rs = {sha256 ''x''}" using raw_sync_exact [OF r] unfolding Let_def by (simp only: if_False image_insert image_empty)
  with r show ?thesis by blast
qed


section \<open>An interrupted compaction\<close>

text \<open>A plan that lets the eight calls of one \<^verbatim>\<open>atomicWrite\<close> pass and then goes on as given.\<close>

lemma planned_calls:
  "sysM m (w\<lparr>wplan := OK # pl\<rparr>) = m (w\<lparr>wplan := pl\<rparr>)" "f_write i data (w\<lparr>wplan := OK # pl\<rparr>) = (Inr (length data), append_bytes i data (w\<lparr>wplan := pl\<rparr>))"
  by (simp_all add: sysM_def f_write_def next_outcome_def monad)




lemma node_files_plan [simp]: "calm w \<Longrightarrow> node_files c (w\<lparr>wplan := []\<rparr>) = node_files c w"
  by (simp add: calm_def node_files_def journal_file_def entries_ok_def path_content_def file_content_def)






end
