(* ===== verification/Spec2Isabelle.thy ===== *)
theory Spec2Isabelle
  imports Lifecycle_Transport Lifecycle_Compaction Lifecycle_Authority Lifecycle_Membership Lifecycle_Repair Storage_Inventory Lifecycle_Session Replication_Protocol P2p_Transport Cli_Recovery
begin

text \<open>
  A verification library for StreamHive, a peer-to-peer blob replication daemon with a durable lifecycle log, written in Go.  Every definition
  that models code translates a function or type of \<^verbatim>\<open>src/\<close>, keeps its name where that is possible, and is executable.

  \<^bold>\<open>The program.\<close>  A node stores content-addressed blobs (\<^verbatim>\<open>storage/\<close>) and, beside them, lifecycle records that say which blob a logical key
  has, or that it was deleted (\<^verbatim>\<open>internal/lifecycle/\<close>).  A record gets its version from a durable allocator, is appended to a journal, and
  only then becomes visible in the state.  Peers exchange length-prefixed frames over authenticated TCP connections (\<^verbatim>\<open>p2p/\<close>); a repair session sends
  a peer the records it has not acknowledged, and the acknowledged versions are kept in a durable book.  When every configured member has acknowledged
  the journal it can be compacted into a checkpoint.  \<^verbatim>\<open>lifecycle_cli.go\<close> assembles a node from one directory and runs its sessions;
  \<^verbatim>\<open>replication/\<close> holds the messages of the raw blob exchange.

  \<^bold>\<open>Foundations.\<close>
  \<^item> \<open>Prelude\<close>: byte strings and machine words, the error values of all packages, the result type \<open>err + 'a\<close>, the state monad of the
    effectful code with its weakest preconditions (\<open>wp\<close>, collected in \<open>wps\<close>), and shared list lemmas.
  \<^item> \<open>Go_World\<close>: the file system (inodes, directory entries, what has been synced), a plan of call outcomes that lets every system call fail or
    fall short, the cancellation context, and crashes.  A theorem about every \<open>world\<close> is a theorem about every failure.
  \<^item> \<open>Go_Unicode\<close>, \<open>Go_Codec\<close>, \<open>Go_Json\<close>: the parts of Go's standard library the program uses (UTF-8, big-endian integers,
    base64, hexadecimal, CRC-32C, SHA-256, JSON printing and parsing), each encoder proved to be undone by its decoder.

  \<^bold>\<open>Lifecycle.\<close>
  \<^item> \<open>Lifecycle_Model\<close> (\<^verbatim>\<open>model.go\<close>): limits, versions (a \<open>linorder\<close>), records, validation and the store.  Shows convergence of replicas and monotone application.
  \<^item> \<open>Lifecycle_Transport\<close> (\<^verbatim>\<open>transport.go\<close>): the wire form of one record and the capability gate.
  \<^item> \<open>Lifecycle_Files\<close>, \<open>Lifecycle_Journal\<close>, \<open>Lifecycle_Compaction\<close> (\<^verbatim>\<open>journal.go\<close>): envelopes and atomic replacement; the journal with
    torn-tail recovery; checkpoints, \<^verbatim>\<open>Compact\<close> and \<^verbatim>\<open>InstallSnapshot\<close>.  Shows crash safety of each against every plan and crash, and two defects of the journal file.
  \<^item> \<open>Lifecycle_StateFile\<close>: the state-file idiom of the next three as a locale \<open>state_file\<close>, interpreted for each of them.
  \<^item> \<open>Lifecycle_Authority\<close>, \<open>Lifecycle_Watermark\<close>, \<open>Lifecycle_Membership\<close> (\<^verbatim>\<open>authority.go\<close>, \<^verbatim>\<open>watermark.go\<close>, \<^verbatim>\<open>membership.go\<close>): tokens
    increase over all runs and crashes; the watermark book refines a map; the member fence of compaction.
  \<^item> \<open>Lifecycle_Repair\<close> (\<^verbatim>\<open>repair.go\<close>): frames, batches and plans.  Shows that a batch is the longest one within its bounds and that the repair loop ends.
  \<^item> \<open>Lifecycle_Apply\<close> (\<^verbatim>\<open>apply.go\<close>): the applier over any store that satisfies the locale of \<open>Storage_Memory\<close>; the invariant of a node.
  \<^item> \<open>Lifecycle_Session\<close> (\<^verbatim>\<open>session.go\<close> and the coordinator of \<^verbatim>\<open>watermark.go\<close>): \<^verbatim>\<open>Run\<close> as a state machine that interleaves with \<^verbatim>\<open>Handle\<close>.
    The locale \<open>session_parts\<close> takes the blob store and the frame writer; it is interpreted for a bare connection and for the runtime.
  \<^item> \<open>Cli_Runtime\<close>, \<open>Cli_Recovery\<close> (\<^verbatim>\<open>lifecycle_cli.go\<close>): the node with all its sessions.  Every schedule of its events keeps its invariant; what a start
    restores, what a put and a compaction guarantee, and that an interrupted compaction keeps the node from starting.

  \<^bold>\<open>Storage, replication and network.\<close>
  \<^item> \<open>Storage_Keys\<close>, \<open>Storage_Memory\<close>, \<open>Storage_Inventory\<close> (\<^verbatim>\<open>storage/\<close>): content keys and key pages, the memory store, and the paged summaries.  The
    ordered index of \<^verbatim>\<open>google/btree\<close> is a parameter with its documented laws, which a sorted list satisfies.
  \<^item> \<open>Replication_Protocol\<close> (\<^verbatim>\<open>replication/protocol.go\<close>): the messages, their limits, and the application of a message to a store.
  \<^item> \<open>P2p_Frame\<close>, \<open>P2p_Handshake\<close>, \<open>P2p_Transport\<close> (\<^verbatim>\<open>p2p/\<close>): frames over a byte stream with partial writes, both sides of the authentication, and the transport as a
    machine of interleaved goroutines; accounting, admission, drain and shutdown hold in every reachable state.

  \<^bold>\<open>Conventions.\<close>  A Go \<^verbatim>\<open>[]byte\<close> or \<^verbatim>\<open>string\<close> is a list of bytes; \<^verbatim>\<open>uint64\<close> and \<^verbatim>\<open>uint32\<close> are words, with their wrap-around; \<^verbatim>\<open>int\<close> is \<open>int\<close>, as no
  modelled computation comes near its bounds.  A map is an association list.  A method that holds a mutex is one atomic step; goroutines are steps of a machine or
  events of a schedule, so statements about every schedule cover every interleaving of those steps.  A wait (a channel, a timer, \<^verbatim>\<open>WaitGroup\<close>) is one poll.
  A wrapped error keeps what \<^verbatim>\<open>errors.Is\<close> can see of it, not its text.

  \<^bold>\<open>Bounds and fuel.\<close>  Recursion is structural or has a termination proof.  The JSON parser takes fuel; \<open>parse_fuel\<close> shows that twice the length of the text plus one
  is enough, which is what it is given.  The page loop of the inventory takes as fuel a bound on the number of pages and is proved to end within one page per stored key.

  \<^bold>\<open>Not modelled.\<close>  \<^verbatim>\<open>main.go\<close> but for two helpers of the runtime: flag parsing, HTTP endpoints, timers and reconnection are I/O around the modelled parts, and the raw blob
  exchange is modelled up to its messages and their application.  \<^verbatim>\<open>storage/file.go\<close>: the store contract is proved for the memory store.  \<^verbatim>\<open>inventory.go\<close>: an HTTP client
  with table output.  TLS, sockets and time stamps; log lines; nil receivers; and the Go memory model below the granularity of a locked section.
\<close>

end
